(* ===== verification/Otaru_Prelude.thy ===== *)
theory Otaru_Prelude
  imports Main "HOL-Library.Word"
begin

text \<open>
  Shared vocabulary of the development: bytes, the error values of the Go code, fixed-width
  integer arithmetic, and the two list operations every layer of the storage stack is
  specified with.

  \<^item> \<open>error\<close> collects the values the Go functions return as \<open>error\<close> (the errno values of
    \<open>util/err.go\<close>, the sentinel errors of \<open>inodedb\<close> and \<open>io\<close>, formatted messages) and, as one
    more constructor, a panic; a fallible function returns \<open>error + 'a\<close>.
  \<^item> \<open>wrap64\<close> is two's complement wrap-around of Go's \<open>int64\<close>, written out on \<open>int\<close>.
  \<^item> \<open>fwrite\<close> and \<open>fread\<close> are the positioned write and read of an ideal byte file. They are
    what the write cache, the chunked file and the blob handles are compared with.
\<close>

section \<open>Collections of facts\<close>

named_theorems go_arith \<open>equations that remove wrap-around when a value is in range\<close>
named_theorems file_simps \<open>length and lookup equations of positioned reads and writes\<close>

section \<open>Bytes, errors, results\<close>

type_synonym byte = "8 word"

text \<open>The constants of \<open>util/err.go\<close>.\<close>

datatype errno =
    EACCES | EBADF | EEXIST | EISDIR | ENFILE | ENOENT | ENOTDIR | ENOTEMPTY | EPERM

text \<open>
  \<open>Fmt\<close> carries the constant part of a formatted message, which is all that tells two such
  errors apart; \<open>Panic\<close> is a run-time panic or a \<open>Panicf\<close> call; \<open>Hang\<close> marks a loop that makes no
  progress and never ends, so that a call that does not return is a value of its own; \<open>Waits\<close> a call
  that has come to the wait on a condition variable and goes on when another goroutine has changed the state.
\<close>

datatype error =
    Errno errno
  | EOF
  | ErrLockInvalid
  | ErrLockTaken
  | ErrEmptyMux
  | Fmt string
  | Panic string
  | Hang
  | Waits

type_synonym 'a result = "error + 'a"

text \<open>Wrapping an error into a message; a panic or a hang passes every error handler of the source.\<close>

fun errorf :: "string \<Rightarrow> error \<Rightarrow> error" where
  "errorf msg (Panic m) = Panic m"
| "errorf msg Hang = Hang"
| "errorf msg Waits = Waits"
| "errorf msg e = Fmt msg"

fun is_panic :: "error \<Rightarrow> bool" where
  "is_panic (Panic m) = True"
| "is_panic Hang = True"
| "is_panic Waits = True"
| "is_panic e = False"

definition IsExist :: "error \<Rightarrow> bool" where
  "IsExist e = (e = Errno EEXIST)"

definition IsNotExist :: "error \<Rightarrow> bool" where
  "IsNotExist e = (e = Errno ENOENT)"

text \<open>\<open>time.Time\<close>: an instant as a number; the zero time is 0.\<close>

type_synonym time = int

section \<open>Actions\<close>

text \<open>
  An action takes the state of a component and returns the new state with a result; \<open>and_then\<close> is the
  sequence of two actions with the early return on an error, \<open>ignoring\<close> an error that is only logged,
  \<open>rescue\<close> an error handler. A panic passes every handler.
\<close>

type_synonym ('x, 'a) action = "'x \<Rightarrow> 'x \<times> 'a result"

definition ret :: "'a \<Rightarrow> ('x, 'a) action" where
  "ret a s = (s, Inr a)"

definition fail :: "error \<Rightarrow> ('x, 'a) action" where
  "fail e s = (s, Inl e)"

definition and_then :: "('x, 'a) action \<Rightarrow> ('a \<Rightarrow> ('x, 'b) action) \<Rightarrow> ('x, 'b) action" where
  "and_then m f s = (case m s of (s', Inl e) \<Rightarrow> (s', Inl e) | (s', Inr a) \<Rightarrow> f a s')"

definition ignoring :: "('x, 'a) action \<Rightarrow> ('x, unit) action" where
  "ignoring m s = (case m s of (s', Inl e) \<Rightarrow> (s', if is_panic e then Inl e else Inr ()) | (s', Inr _) \<Rightarrow> (s', Inr ()))"

definition rescue :: "('x, 'a) action \<Rightarrow> (error \<Rightarrow> ('x, 'a) action) \<Rightarrow> ('x, 'a) action" where
  "rescue m h s = (case m s of (s', Inl e) \<Rightarrow> if is_panic e then (s', Inl e) else h e s' | r \<Rightarrow> r)"

text \<open>An error gets a message, \<open>fmt.Errorf\<close>.\<close>

definition wrapping :: "string \<Rightarrow> ('x, 'a) action \<Rightarrow> ('x, 'a) action" where
  "wrapping msg m s = (case m s of (s', Inl e) \<Rightarrow> (s', Inl (errorf msg e)) | r \<Rightarrow> r)"

text \<open>A deferred call runs after the action, whatever its result; it does not run when the call never comes back.\<close>

definition deferring :: "('x, 'a) action \<Rightarrow> ('x, unit) action \<Rightarrow> ('x, 'a) action" where
  "deferring m d s =
     (case m s of
        (s', Inl Hang) \<Rightarrow> (s', Inl Hang)
      | (s', Inl Waits) \<Rightarrow> (s', Inl Waits)
      | (s', r) \<Rightarrow> (case d s' of (s'', Inl e) \<Rightarrow> (s'', Inl e) | (s'', Inr _) \<Rightarrow> (s'', r)))"

lemmas action_defs = ret_def fail_def and_then_def ignoring_def rescue_def wrapping_def deferring_def

section \<open>Fixed-width integers\<close>

definition MaxInt32 :: int where
  "MaxInt32 = 2 ^ 31 - 1"

definition MaxInt64 :: int where
  "MaxInt64 = 2 ^ 63 - 1"

definition wrap64 :: "int \<Rightarrow> int" where
  "wrap64 x = (x + 2 ^ 63) mod 2 ^ 64 - 2 ^ 63"

lemma wrap64_id [go_arith]: "- (2 ^ 63) \<le> x \<Longrightarrow> x \<le> MaxInt64 \<Longrightarrow> wrap64 x = x"
  by (simp add: wrap64_def MaxInt64_def)

lemma wrap64_le_MaxInt64: "wrap64 x \<le> MaxInt64"
proof -
  have "(x + 2 ^ 63) mod 2 ^ 64 < (2 ^ 64 :: int)"
    by (rule pos_mod_bound) simp
  then show ?thesis
    by (simp add: wrap64_def MaxInt64_def)
qed

text \<open>Go's \<open>uint64\<close> arithmetic on \<open>nat\<close>.\<close>

definition wrapu64 :: "nat \<Rightarrow> nat" where
  "wrapu64 x = x mod 2 ^ 64"

lemma wrapu64_id [go_arith]: "x < 2 ^ 64 \<Longrightarrow> wrapu64 x = x"
  by (simp add: wrapu64_def)

section \<open>Lists by lookup\<close>

lemma list_eq_by_lookup:
  "(\<And>i. i < length xs \<longleftrightarrow> i < length ys) \<Longrightarrow> (\<And>i. i < length xs \<Longrightarrow> xs ! i = ys ! i) \<Longrightarrow> xs = ys"
  by (metis linorder_neq_iff nth_equalityI)

section \<open>Positioned reads and writes of an ideal file\<close>

definition fwrite :: "byte list \<Rightarrow> nat \<Rightarrow> byte list \<Rightarrow> byte list" where
  "fwrite c off p =
     (if p = [] then c
      else take off c @ replicate (off - length c) 0 @ p @ drop (off + length p) c)"

definition fread :: "byte list \<Rightarrow> nat \<Rightarrow> nat \<Rightarrow> byte list" where
  "fread c off n = take n (drop off c)"

definition ftruncate :: "byte list \<Rightarrow> nat \<Rightarrow> byte list" where
  "ftruncate c n = take n c @ replicate (n - length c) 0"

lemma fwrite_Nil [simp, file_simps]: "fwrite c off [] = c"
  by (simp add: fwrite_def)

lemma length_fwrite [file_simps]:
  "length (fwrite c off p) = (if p = [] then length c else max (length c) (off + length p))"
  by (auto simp: fwrite_def)

lemma nth_fwrite [file_simps]:
  assumes "i < length (fwrite c off p)"
  shows "fwrite c off p ! i =
    (if off \<le> i \<and> i < off + length p then p ! (i - off)
     else if i < length c then c ! i else 0)"
proof (cases "p = []")
  case True
  with assms show ?thesis by (auto simp: fwrite_def)
next
  case False
  with assms show ?thesis
    by (auto simp: fwrite_def nth_append min_def not_less)
qed

lemma length_fread [simp, file_simps]: "length (fread c off n) = min n (length c - off)"
  by (simp add: fread_def min.commute)

lemma nth_fread [file_simps]: "i < n \<Longrightarrow> i < length c - off \<Longrightarrow> fread c off n ! i = c ! (off + i)"
  by (simp add: fread_def)

lemma fread_all: "fread c 0 (length c) = c"
  by (simp add: fread_def)

lemma fread_split: "fread c off (a + b) = fread c off a @ fread c (off + a) b"
  by (simp add: fread_def take_add add.commute)

lemma fread_zero [simp]: "fread c off 0 = []"
  by (simp add: fread_def)

text \<open>What is written is read back; bytes outside the written range are untouched.\<close>

lemma fread_fwrite_same: "fread (fwrite c off p) off (length p) = p"
  by (rule nth_equalityI) (auto simp: length_fwrite nth_fwrite nth_fread)

lemma fread_fwrite_before:
  "off' + n \<le> off \<Longrightarrow> off' + n \<le> length c \<Longrightarrow> fread (fwrite c off p) off' n = fread c off' n"
  by (rule nth_equalityI) (auto simp: length_fwrite nth_fwrite nth_fread)

lemma fread_fwrite_after:
  "off + length p \<le> off' \<Longrightarrow> fread (fwrite c off p) off' n = fread c off' n"
  by (rule nth_equalityI) (auto simp: length_fwrite nth_fwrite nth_fread max_def split: if_splits)

lemma fwrite_append_end: "fwrite c (length c) p = c @ p"
  by (simp add: fwrite_def)

lemma fwrite_fwrite_adjacent:
  "fwrite (fwrite c off p) (off + length p) q = fwrite c off (p @ q)"
proof (cases "p = [] \<or> q = []")
  case True
  then show ?thesis by auto
next
  case False
  then show ?thesis
    by (intro nth_equalityI) (auto simp: length_fwrite nth_fwrite nth_append max_def split: if_splits)
qed

lemma length_ftruncate [simp, file_simps]: "length (ftruncate c n) = n"
  by (simp add: ftruncate_def)

lemma nth_ftruncate [file_simps]:
  "i < n \<Longrightarrow> ftruncate c n ! i = (if i < length c then c ! i else 0)"
  by (simp add: ftruncate_def nth_append)

lemma ftruncate_shrink: "n \<le> length c \<Longrightarrow> ftruncate c n = take n c"
  by (simp add: ftruncate_def)

section \<open>Files in pieces of equal size\<close>

text \<open>The \<open>i\<close>-th piece of \<open>n\<close> bytes: the payload of an encrypted frame, of a chunk of a file.\<close>

definition piece :: "nat \<Rightarrow> nat \<Rightarrow> byte list \<Rightarrow> byte list" where
  "piece n i q = take n (drop (i * n) q)"

lemma length_piece: "length (piece n i q) = min n (length q - i * n)"
  by (simp add: piece_def min.commute)

lemma nth_piece: "j < length (piece n i q) \<Longrightarrow> piece n i q ! j = q ! (i * n + j)"
  by (auto simp: piece_def)

lemma fread_fwrite_inside:
  assumes "a \<le> length q" "k + length p \<le> n" "p \<noteq> []"
  shows "fread (fwrite q (a + k) p) a n = fwrite (fread q a n) k p"
proof (rule nth_equalityI)
  show "length (fread (fwrite q (a + k) p) a n) = length (fwrite (fread q a n) k p)"
    using assms by (auto simp: length_fwrite)
next
  fix x assume "x < length (fread (fwrite q (a + k) p) a n)"
  with assms show "fread (fwrite q (a + k) p) a n ! x = fwrite (fread q a n) k p ! x"
    by (auto simp: nth_fread length_fwrite nth_fwrite)
qed

text \<open>A write inside one piece, up to which all pieces are full, changes that piece only.\<close>

lemma piece_fwrite:
  assumes "i * n \<le> length q" "k + length p \<le> n" "p \<noteq> []"
  shows "piece n j (fwrite q (i * n + k) p) = (if j = i then fwrite (piece n i q) k p else piece n j q)"
proof -
  have fr: "piece n l r = fread r (l * n) n" for l r by (simp add: piece_def fread_def)
  consider "j = i" | "j \<noteq> i" "Suc j * n \<le> i * n" | "j \<noteq> i" "Suc i * n \<le> j * n"
    by (meson Suc_leI linorder_neqE_nat mult_le_mono1)
  then show ?thesis
  proof cases
    case 1
    with fread_fwrite_inside [OF assms] show ?thesis by (simp add: fr)
  next
    case 2
    with assms(1) fread_fwrite_before [of "j * n" n "i * n + k" q p] show ?thesis by (simp add: fr)
  next
    case 3
    with assms(2) fread_fwrite_after [of "i * n + k" p "j * n" q n] show ?thesis by (simp add: fr)
  qed
qed

section \<open>The built-in copy\<close>

text \<open>
  \<open>copy(xs[lo:hi], src)\<close>: Go copies the smaller of the two lengths, as if through a temporary
  (the regions may overlap), so \<open>src\<close> is the value before the copy.
\<close>

definition go_copy :: "'a list \<Rightarrow> nat \<Rightarrow> nat \<Rightarrow> 'a list \<Rightarrow> 'a list" where
  "go_copy xs lo hi src =
     take lo xs @ take (hi - lo) src @ drop (lo + min (hi - lo) (length src)) xs"

lemma length_go_copy [simp]:
  "lo \<le> hi \<Longrightarrow> hi \<le> length xs \<Longrightarrow> length (go_copy xs lo hi src) = length xs"
  by (auto simp: go_copy_def)

end
