(* ===== verification/File_Write_Cache.thy ===== *)
theory File_Write_Cache
  imports Otaru_Prelude
begin

text \<open>
  The write cache of an open file (\<open>filewritecache/patch.go\<close>, \<open>filewritecache/filewritecache.go\<close>).

  Pending writes are a list of patches, sorted by offset and free of overlaps, that ends in a
  sentinel at \<open>MaxInt64\<close>. A slice \<open>p.P\<close> is modelled by its bytes and by its capacity
  (\<open>None\<close> for a nil slice), because buffers come from and go back to a \<open>sync.Pool\<close> and a
  reslice beyond the capacity of a pooled buffer panics. The pool is the list of the
  capacities of the free buffers; which of them \<open>Get\<close> returns (or that it calls \<open>New\<close>) is
  an argument.

  The ideal file a cache stands for is \<open>apply_patches ps c\<close>: the backing content \<open>c\<close> with every
  patch written over it. Merging, truncating, reading through and syncing are each shown to
  be the corresponding operation on that file.
\<close>

section \<open>Patches\<close>

record Patch =
  Patch_Offset :: int
  Patch_P :: "byte list"
  Patch_Cap :: "nat option"

definition Patch_Left :: "Patch \<Rightarrow> int" where
  "Patch_Left p = Patch_Offset p"

definition Patch_Right :: "Patch \<Rightarrow> int" where
  "Patch_Right p = wrap64 (Patch_Offset p + int (length (Patch_P p)))"

definition PatchSentinel :: Patch where
  "PatchSentinel = \<lparr>Patch_Offset = MaxInt64, Patch_P = [], Patch_Cap = None\<rparr>"

definition IsSentinel :: "Patch \<Rightarrow> bool" where
  "IsSentinel p = (Patch_Offset p = Patch_Offset PatchSentinel)"

type_synonym Patches = "Patch list"

definition NewPatches :: Patches where
  "NewPatches = [PatchSentinel]"

text \<open>\<open>MaxPatches\<close> and \<open>MaxPatchContentLen\<close>.\<close>

definition MaxPatches :: nat where
  "MaxPatches = 32"

definition MaxPatchContentLen :: nat where
  "MaxPatchContentLen = 8 * 1024 * 1024"

subsection \<open>The buffer pool\<close>

text \<open>
  Capacities of the free buffers in \<open>poolPatchP\<close>. \<open>pool_get None\<close> is a call of \<open>New\<close>.
\<close>

type_synonym pool = "nat list"

fun pool_get :: "nat option \<Rightarrow> pool \<Rightarrow> nat \<times> pool" where
  "pool_get None pl = (MaxPatchContentLen, pl)"
| "pool_get (Some i) pl =
     (if i < length pl then (pl ! i, take i pl @ drop (Suc i) pl)
      else (MaxPatchContentLen, pl))"

definition NewPatch :: "nat option \<Rightarrow> int \<Rightarrow> byte list \<Rightarrow> pool \<Rightarrow> (Patch \<times> pool) result" where
  "NewPatch pick offset p pl =
     (if length p \<le> MaxPatchContentLen then
        (let (cap, pl') = pool_get pick pl in
         if length p \<le> cap
         then Inr (\<lparr>Patch_Offset = offset, Patch_P = p, Patch_Cap = Some cap\<rparr>, pl')
         else Inl (Panic ''slice bounds out of range''))
      else Inr (\<lparr>Patch_Offset = offset, Patch_P = p, Patch_Cap = Some (length p)\<rparr>, pl))"

subsection \<open>Finding the patches a new one touches\<close>

text \<open>
  The two loops of \<open>FindLRIndex\<close>; \<open>None\<close> is the panic when an index runs off the end.
\<close>

fun find_lefti :: "Patch \<Rightarrow> Patches \<Rightarrow> nat \<Rightarrow> nat option" where
  "find_lefti newp [] i = None"
| "find_lefti newp (p # ps) i =
     (if Patch_Left newp \<le> Patch_Right p then Some i else find_lefti newp ps (Suc i))"

fun find_righti :: "Patch \<Rightarrow> Patches \<Rightarrow> nat \<Rightarrow> nat option" where
  "find_righti newp [] i = None"
| "find_righti newp (p # ps) i =
     (if Patch_Right newp \<le> Patch_Left p then Some i else find_righti newp ps (Suc i))"

definition FindLRIndex :: "Patches \<Rightarrow> Patch \<Rightarrow> (nat \<times> int) result" where
  "FindLRIndex ps newp =
     (case find_lefti newp ps 0 of
        None \<Rightarrow> Inl (Panic ''failed to find lefti'')
      | Some lefti \<Rightarrow>
          (case find_righti newp (drop lefti ps) lefti of
             None \<Rightarrow> Inl (Panic ''failed to find righti'')
           | Some righti \<Rightarrow> Inr (lefti, int righti - 1)))"

subsection \<open>Replace and Merge\<close>

definition Replace :: "Patches \<Rightarrow> nat \<Rightarrow> int \<Rightarrow> Patches \<Rightarrow> Patches" where
  "Replace ps lefti righti newps =
     (let ndel = nat (max (righti - int lefti + 1) 0);
          nexp = length newps - ndel;
          ps1 = ps @ replicate nexp PatchSentinel;
          newr = length ps1 - nexp + length newps - ndel;
          ps2 = go_copy ps1 (lefti + length newps) newr (drop (nat (righti + 1)) ps1);
          ps3 = go_copy ps2 lefti (lefti + length newps) newps
      in take newr ps3)"

text \<open>The pieces of the old patches that survive on either side of the new one.\<close>

definition trim_left :: "Patch \<Rightarrow> Patch \<Rightarrow> Patch" where
  "trim_left psl newp =
     psl\<lparr>Patch_P := take (nat (Patch_Left newp - Patch_Left psl)) (Patch_P psl)\<rparr>"

definition trim_right :: "Patch \<Rightarrow> Patch \<Rightarrow> Patch" where
  "trim_right psr newp =
     psr\<lparr>Patch_Offset := Patch_Right newp,
         Patch_P := drop (nat (Patch_Right newp - Patch_Left psr)) (Patch_P psr),
         Patch_Cap := map_option (\<lambda>c. c - nat (Patch_Right newp - Patch_Left psr)) (Patch_Cap psr)\<rparr>"

definition Merge :: "Patches \<Rightarrow> Patch \<Rightarrow> Patches result" where
  "Merge ps newp =
     (case FindLRIndex ps newp of
        Inl e \<Rightarrow> Inl e
      | Inr (lefti, righti) \<Rightarrow>
          (let newps =
             (if lefti < length ps - 1 \<and> Patch_Left newp > Patch_Left (ps ! lefti)
                 \<and> Patch_P (trim_left (ps ! lefti) newp) \<noteq> []
              then [trim_left (ps ! lefti) newp, newp] else [newp]);
               newps' =
             (if righti \<ge> 0 \<and> Patch_Right (ps ! nat righti) > Patch_Right newp
                 \<and> Patch_P (trim_right (ps ! nat righti) newp) \<noteq> []
              then newps @ [trim_right (ps ! nat righti) newp] else newps)
           in Inr (Replace ps lefti righti newps')))"

subsection \<open>Truncate and Reset\<close>

text \<open>
  The loop of \<open>Truncate\<close> runs from the last patch down, so it is written on the reversed
  list: a dropped patch gives its buffer (nil or not) back to the pool. A nil slice goes in
  as a buffer of capacity 0.
\<close>

definition slice_cap :: "nat option \<Rightarrow> nat" where
  "slice_cap c = (case c of None \<Rightarrow> 0 | Some n \<Rightarrow> n)"

fun truncate_rev :: "Patches \<Rightarrow> int \<Rightarrow> pool \<Rightarrow> Patches \<times> pool" where
  "truncate_rev [] sz pl = (NewPatches, pl)"
| "truncate_rev (p # rps) sz pl =
     (if Patch_Left p \<ge> sz
      then truncate_rev rps sz (slice_cap (Patch_Cap p) # pl)
      else
        (let p' = (if Patch_Right p > sz
                   then p\<lparr>Patch_P := take (nat (sz - Patch_Left p)) (Patch_P p)\<rparr> else p)
         in (rev rps @ [p', PatchSentinel], pl)))"

definition Patches_Truncate :: "Patches \<Rightarrow> int \<Rightarrow> pool \<Rightarrow> Patches \<times> pool" where
  "Patches_Truncate ps sz pl = truncate_rev (rev ps) sz pl"

fun reset_pool :: "Patches \<Rightarrow> pool \<Rightarrow> pool" where
  "reset_pool [] pl = pl"
| "reset_pool (p # ps) pl =
     reset_pool ps (case Patch_Cap p of None \<Rightarrow> pl | Some c \<Rightarrow> c # pl)"

definition Patches_Reset :: "Patches \<Rightarrow> pool \<Rightarrow> Patches \<times> pool" where
  "Patches_Reset ps pl = ([PatchSentinel], reset_pool ps pl)"

section \<open>The cache of an open file\<close>

record FileWriteCache =
  wc_ps :: Patches

definition FileWriteCache_New :: FileWriteCache where
  "FileWriteCache_New = \<lparr>wc_ps = NewPatches\<rparr>"

definition FileWriteCache_PWrite ::
    "nat option \<Rightarrow> byte list \<Rightarrow> int \<Rightarrow> FileWriteCache \<Rightarrow> pool \<Rightarrow> (FileWriteCache \<times> pool) result" where
  "FileWriteCache_PWrite pick p offset wc pl =
     (if p = [] then Inr (wc, pl)
      else case NewPatch pick offset p pl of
          Inl e \<Rightarrow> Inl e
        | Inr (newp, pl') \<Rightarrow>
            (case Merge (wc_ps wc) newp of
               Inl e \<Rightarrow> Inl e
             | Inr ps \<Rightarrow> Inr (wc\<lparr>wc_ps := ps\<rparr>, pl')))"

text \<open>
  A \<open>ReadAter\<close> with the state \<open>'r\<close> gets the length of the buffer and the offset and returns the bytes it
  put at the front of the buffer and an error. \<open>read_through\<close> is the loop over the patches, with
  the bytes delivered so far in \<open>acc\<close>; its result is the bytes the count returned by the code stands
  for, and the error.
\<close>

type_synonym 'r ReadAter = "nat \<Rightarrow> int \<Rightarrow> 'r \<Rightarrow> 'r \<times> byte list \<times> error option"

definition read_last :: "'r ReadAter \<Rightarrow> int \<Rightarrow> nat \<Rightarrow> byte list \<Rightarrow> 'r \<Rightarrow> 'r \<times> byte list \<times> error option" where
  "read_last r remo n acc s =
     (case r n remo s of
        (s', bs, Some e) \<Rightarrow> (s', acc, Some e)
      | (s', bs, None) \<Rightarrow> (s', acc @ bs, None))"

text \<open>
  One round of the loop for a patch that is not skipped: \<open>read_gap\<close> reads what lies before the
  patch from the backing file and fills a short read with zeros, \<open>read_patch\<close> copies from the
  patch. \<open>Inl\<close> is a return from the function, \<open>Inr\<close> the loop state (position, bytes still
  wanted, bytes delivered).
\<close>

type_synonym read_state = "int \<times> nat \<times> byte list"

definition read_gap ::
    "'r ReadAter \<Rightarrow> Patch \<Rightarrow> read_state \<Rightarrow> 'r \<Rightarrow> 'r \<times> ((byte list \<times> error option) + read_state)" where
  "read_gap r patch st s =
     (case st of (remo, n, acc) \<Rightarrow>
       if remo < Patch_Left patch then
         (let fallbackLen64 = min (int n) (Patch_Left patch - remo) in
          if fallbackLen64 > MaxInt32
          then (s, Inl (acc, Some (Panic ''Logic error: fallbackLen should always be in int32 range'')))
          else
            (case r (nat fallbackLen64) remo s of
               (s', bs, Some e) \<Rightarrow> (s', Inl (acc @ bs, Some e))
             | (s', bs, None) \<Rightarrow>
                 (s', Inr (remo + fallbackLen64, n - nat fallbackLen64,
                           acc @ bs @ replicate (nat fallbackLen64 - length bs) 0))))
       else (s, Inr (remo, n, acc)))"

definition read_patch ::
    "Patch \<Rightarrow> read_state \<Rightarrow> (byte list \<times> error option) + read_state" where
  "read_patch patch st =
     (case st of (remo, n, acc) \<Rightarrow>
       if n = 0 then Inl (acc, None)
       else
         (let applyOffset64 = remo - Patch_Offset patch in
          if applyOffset64 > MaxInt32
          then Inl (acc, Some (Panic ''Logic error: applyOffset should always be in int32 range''))
          else
            (let applyOffset = nat applyOffset64;
                 applyLen = min (length (Patch_P patch) - applyOffset) n
             in Inr (remo + int applyLen, n - applyLen,
                     acc @ take applyLen (drop applyOffset (Patch_P patch))))))"

fun read_through ::
    "'r ReadAter \<Rightarrow> Patches \<Rightarrow> read_state \<Rightarrow> 'r \<Rightarrow> 'r \<times> byte list \<times> error option" where
  "read_through r [] (remo, n, acc) s = read_last r remo n acc s"
| "read_through r (patch # ps) (remo, n, acc) s =
     (if n = 0 then (s, acc, None)
      else if IsSentinel patch then read_last r remo n acc s
      else if remo > Patch_Right patch then read_through r ps (remo, n, acc) s
      else case read_gap r patch (remo, n, acc) s of
          (s', Inl res) \<Rightarrow> (s', res)
        | (s', Inr st) \<Rightarrow>
            (case read_patch patch st of
               Inl res \<Rightarrow> (s', res)
             | Inr st' \<Rightarrow> read_through r ps st' s'))"

definition ReadAtThrough ::
    "nat \<Rightarrow> int \<Rightarrow> 'r ReadAter \<Rightarrow> FileWriteCache \<Rightarrow> 'r \<Rightarrow> 'r \<times> byte list \<times> error option" where
  "ReadAtThrough n offset r wc = read_through r (wc_ps wc) (offset, n, [])"

definition ContentLen :: "FileWriteCache \<Rightarrow> nat" where
  "ContentLen wc = sum_list (map (\<lambda>p. length (Patch_P p)) (wc_ps wc))"

definition NeedsSync :: "FileWriteCache \<Rightarrow> bool" where
  "NeedsSync wc = (length (wc_ps wc) > MaxPatches \<or> ContentLen wc > MaxPatchContentLen)"

text \<open>
  A \<open>PWriter\<close> updates a state \<open>'s\<close> and may fail. In the loop of \<open>Sync\<close> the run of adjacent
  patches collected so far is \<open>contP\<close> (\<open>None\<close> is nil) and starts at \<open>offset\<close>; it is written
  when the next patch does not continue it.
\<close>

type_synonym 's PWriter = "byte list \<Rightarrow> int \<Rightarrow> 's \<Rightarrow> 's \<times> error option"

fun sync_loop ::
    "'s PWriter \<Rightarrow> Patches \<Rightarrow> byte list option \<Rightarrow> int \<Rightarrow> 's \<Rightarrow> 's \<times> error option" where
  "sync_loop pw [] contP offset s = (s, None)"
| "sync_loop pw (p # ps) contP offset s =
     (let cont = (case contP of None \<Rightarrow> [] | Some xs \<Rightarrow> xs) in
      if IsSentinel p \<or> contP = None \<or> Patch_Offset p \<noteq> wrap64 (offset + int (length cont))
      then
        (let (s', err) = (if cont \<noteq> [] then pw cont offset s else (s, None)) in
         if err \<noteq> None then (s', err)
         else sync_loop pw ps (map_option (\<lambda>_. Patch_P p) (Patch_Cap p)) (Patch_Offset p) s')
      else sync_loop pw ps (Some (cont @ Patch_P p)) offset s)"

definition FileWriteCache_Sync ::
    "'s PWriter \<Rightarrow> FileWriteCache \<Rightarrow> pool \<Rightarrow> 's \<Rightarrow> (FileWriteCache \<times> pool \<times> 's) \<times> error option" where
  "FileWriteCache_Sync pw wc pl s =
     (case sync_loop pw (wc_ps wc) None (-1) s of
        (s', Some e) \<Rightarrow> ((wc, pl, s'), Some e)
      | (s', None) \<Rightarrow>
          (let (ps, pl') = Patches_Reset (wc_ps wc) pl
           in ((wc\<lparr>wc_ps := ps\<rparr>, pl', s'), None)))"

definition FileWriteCache_Right :: "FileWriteCache \<Rightarrow> int" where
  "FileWriteCache_Right wc = (case wc_ps wc of [] \<Rightarrow> 0 | p # _ \<Rightarrow> Patch_Right p)"

definition FileWriteCache_Truncate ::
    "int \<Rightarrow> FileWriteCache \<Rightarrow> pool \<Rightarrow> FileWriteCache \<times> pool" where
  "FileWriteCache_Truncate sz wc pl =
     (let (ps, pl') = Patches_Truncate (wc_ps wc) sz pl in (wc\<lparr>wc_ps := ps\<rparr>, pl'))"



section \<open>The ideal file behind a cache\<close>

definition patch_end :: "Patch \<Rightarrow> int" where
  "patch_end p = Patch_Offset p + int (length (Patch_P p))"

definition patch_ok :: "Patch \<Rightarrow> bool" where
  "patch_ok p \<longleftrightarrow>
     Patch_P p \<noteq> [] \<and> 0 \<le> Patch_Offset p \<and> patch_end p \<le> MaxInt64 \<and> Patch_Cap p \<noteq> None"

definition wf_patches :: "Patches \<Rightarrow> bool" where
  "wf_patches ps \<longleftrightarrow>
     ps \<noteq> [] \<and> last ps = PatchSentinel \<and> list_all patch_ok (butlast ps) \<and>
     sorted_wrt (\<lambda>a b. patch_end a \<le> Patch_Offset b) (butlast ps)"

definition apply_patches :: "Patches \<Rightarrow> byte list \<Rightarrow> byte list" where
  "apply_patches ps c = fold (\<lambda>p d. fwrite d (nat (Patch_Offset p)) (Patch_P p)) ps c"

text \<open>Lookup of one byte: the patch that holds position \<open>i\<close>, if there is one.\<close>

definition covers :: "Patch \<Rightarrow> nat \<Rightarrow> bool" where
  "covers p i \<longleftrightarrow> Patch_Offset p \<le> int i \<and> int i < patch_end p"

fun overlay :: "Patches \<Rightarrow> nat \<Rightarrow> byte option" where
  "overlay [] i = None"
| "overlay (p # ps) i =
     (if covers p i then Some (Patch_P p ! (i - nat (Patch_Offset p))) else overlay ps i)"

lemma patch_ok_Right [go_arith]: "patch_ok p \<Longrightarrow> Patch_Right p = patch_end p"
  by (simp add: patch_ok_def Patch_Right_def patch_end_def wrap64_id)

lemma patch_ok_not_sentinel: "patch_ok p \<Longrightarrow> Patch_Offset p < MaxInt64"
  by (cases "Patch_P p") (auto simp: patch_ok_def patch_end_def)

lemma sentinel_simps [simp]:
  "Patch_Offset PatchSentinel = MaxInt64" "Patch_P PatchSentinel = []"
  "Patch_Cap PatchSentinel = None" "patch_end PatchSentinel = MaxInt64"
  "Patch_Left PatchSentinel = MaxInt64" "Patch_Right PatchSentinel = MaxInt64"
  "IsSentinel PatchSentinel"
  by (simp_all add: PatchSentinel_def patch_end_def Patch_Left_def Patch_Right_def IsSentinel_def
      wrap64_def MaxInt64_def)

lemma covers_sentinel [simp]: "\<not> covers PatchSentinel i"
  by (simp add: covers_def)

lemma wf_patchesE:
  assumes "wf_patches ps"
  obtains qs where "ps = qs @ [PatchSentinel]" "\<And>q. q \<in> set qs \<Longrightarrow> patch_ok q"
    "sorted_wrt (\<lambda>a b. patch_end a \<le> Patch_Offset b) qs"
proof
  show "ps = butlast ps @ [PatchSentinel]"
    using assms by (metis append_butlast_last_id wf_patches_def)
qed (use assms in \<open>auto simp: wf_patches_def list_all_iff\<close>)

lemma wf_patchesI:
  "\<lbrakk>\<And>q. q \<in> set qs \<Longrightarrow> patch_ok q; sorted_wrt (\<lambda>a b. patch_end a \<le> Patch_Offset b) qs\<rbrakk>
    \<Longrightarrow> wf_patches (qs @ [PatchSentinel])"
  by (simp add: wf_patches_def list_all_iff)

text \<open>Sortedness extends to the sentinel: no patch ends beyond \<open>MaxInt64\<close>.\<close>

lemma wf_patches_sorted:
  assumes "wf_patches ps"
  shows "sorted_wrt (\<lambda>a b. patch_end a \<le> Patch_Offset b) ps"
proof -
  from assms obtain qs where qs: "ps = qs @ [PatchSentinel]" "\<And>q. q \<in> set qs \<Longrightarrow> patch_ok q"
    "sorted_wrt (\<lambda>a b. patch_end a \<le> Patch_Offset b) qs"
    by (blast elim: wf_patchesE)
  then show ?thesis
    by (auto simp: sorted_wrt_append patch_ok_def)
qed

subsection \<open>Lookup in the ideal file\<close>

lemma apply_patches_Nil [simp]: "apply_patches [] c = c"
  by (simp add: apply_patches_def)

lemma apply_patches_Cons [simp]:
  "apply_patches (p # ps) c = apply_patches ps (fwrite c (nat (Patch_Offset p)) (Patch_P p))"
  by (simp add: apply_patches_def)

lemma apply_patches_append [simp]:
  "apply_patches (ps @ qs) c = apply_patches qs (apply_patches ps c)"
  by (simp add: apply_patches_def)

lemma overlay_append:
  "overlay (ps @ qs) i = (case overlay ps i of None \<Rightarrow> overlay qs i | Some b \<Rightarrow> Some b)"
  by (induction ps) auto

lemma overlay_None_iff: "overlay ps i = None \<longleftrightarrow> (\<forall>p \<in> set ps. \<not> covers p i)"
  by (induction ps) auto

definition patch_pos :: "Patch \<Rightarrow> bool" where
  "patch_pos p \<longleftrightarrow> 0 \<le> Patch_Offset p"

lemma less_length_apply_patches:
  "\<forall>p \<in> set ps. patch_pos p \<Longrightarrow>
   i < length (apply_patches ps c) \<longleftrightarrow>
     i < length c \<or> (\<exists>p \<in> set ps. Patch_P p \<noteq> [] \<and> int i < patch_end p)"
proof (induction ps arbitrary: c)
  case Nil
  then show ?case by simp
next
  case (Cons p ps)
  then have "0 \<le> Patch_Offset p" by (simp add: patch_pos_def)
  then have "i < length (fwrite c (nat (Patch_Offset p)) (Patch_P p)) \<longleftrightarrow>
      i < length c \<or> Patch_P p \<noteq> [] \<and> int i < patch_end p"
    by (auto simp: length_fwrite patch_end_def)
  with Cons show ?case by auto
qed

lemma nth_apply_patches:
  assumes "sorted_wrt (\<lambda>a b. patch_end a \<le> Patch_Offset b) ps" "\<forall>p \<in> set ps. patch_pos p"
    and "i < length (apply_patches ps c)"
  shows "apply_patches ps c ! i =
    (case overlay ps i of Some b \<Rightarrow> b | None \<Rightarrow> if i < length c then c ! i else 0)"
  using assms
proof (induction ps arbitrary: c)
  case Nil
  then show ?case by simp
next
  case (Cons p ps)
  let ?d = "fwrite c (nat (Patch_Offset p)) (Patch_P p)"
  have IH: "apply_patches ps ?d ! i =
      (case overlay ps i of Some b \<Rightarrow> b | None \<Rightarrow> if i < length ?d then ?d ! i else 0)"
    using Cons by auto
  have pos: "0 \<le> Patch_Offset p" using Cons.prems by (simp add: patch_pos_def)
  show ?case
  proof (cases "covers p i")
    case True
    then have none: "overlay ps i = None"
      using Cons.prems(1) by (force simp: overlay_None_iff covers_def)
    from True pos have "Patch_P p \<noteq> []" "nat (Patch_Offset p) \<le> i"
        "i < nat (Patch_Offset p) + length (Patch_P p)"
      by (auto simp: covers_def patch_end_def)
    then have "i < length ?d" "?d ! i = Patch_P p ! (i - nat (Patch_Offset p))"
      by (auto simp: length_fwrite nth_fwrite)
    with IH none True show ?thesis by simp
  next
    case False
    with pos have "\<not> (nat (Patch_Offset p) \<le> i \<and> i < nat (Patch_Offset p) + length (Patch_P p))"
      by (auto simp: covers_def patch_end_def)
    then have "i < length ?d \<Longrightarrow> ?d ! i = (if i < length c then c ! i else 0)"
      by (auto simp: nth_fwrite)
    moreover have "i < length c \<Longrightarrow> i < length ?d"
      by (simp add: length_fwrite less_max_iff_disj)
    ultimately show ?thesis using IH False by (auto split: option.splits)
  qed
qed



subsection \<open>Merge\<close>

lemma find_lefti_takeWhile:
  "q \<in> set ps \<Longrightarrow> Patch_Left newp \<le> Patch_Right q \<Longrightarrow>
   find_lefti newp ps i = Some (i + length (takeWhile (\<lambda>p. \<not> Patch_Left newp \<le> Patch_Right p) ps))"
  by (induction ps arbitrary: i) auto

lemma find_righti_takeWhile:
  "q \<in> set ps \<Longrightarrow> Patch_Right newp \<le> Patch_Left q \<Longrightarrow>
   find_righti newp ps i = Some (i + length (takeWhile (\<lambda>p. \<not> Patch_Right newp \<le> Patch_Left p) ps))"
  by (induction ps arbitrary: i) auto

text \<open>
  \<open>FindLRIndex\<close> cuts a well-formed list in three: patches that end before the new one starts,
  patches that overlap or touch it, and patches that start at or after its end.
\<close>

lemma FindLRIndex_split:
  assumes wf: "wf_patches ps" and new: "patch_ok newp"
  obtains A M B where "ps = A @ M @ B"
    "FindLRIndex ps newp = Inr (length A, int (length A + length M) - 1)"
    "\<forall>a \<in> set A. Patch_Right a < Patch_Left newp"
    "M \<noteq> [] \<Longrightarrow> Patch_Left newp \<le> Patch_Right (hd M)"
    "\<forall>m \<in> set M. Patch_Left m < Patch_Right newp"
    "B \<noteq> []" "Patch_Right newp \<le> Patch_Left (hd B)"
proof -
  let ?lp = "\<lambda>p. \<not> Patch_Left newp \<le> Patch_Right p"
  let ?rp = "\<lambda>p. \<not> Patch_Right newp \<le> Patch_Left p"
  define A where "A = takeWhile ?lp ps"
  define R where "R = dropWhile ?lp ps"
  define M where "M = takeWhile ?rp R"
  define B where "B = dropWhile ?rp R"
  from wf have sent: "PatchSentinel \<in> set ps" by (metis last_in_set wf_patches_def)
  have newR: "Patch_Right newp \<le> MaxInt64" "Patch_Left newp \<le> MaxInt64"
    using new patch_ok_not_sentinel [OF new] by (auto simp: patch_ok_Right patch_ok_def Patch_Left_def)
  have A_all: "\<forall>a \<in> set A. ?lp a" unfolding A_def using set_takeWhileD by fastforce
  have psAR: "ps = A @ R" by (simp add: A_def R_def)
  from sent newR A_all have sentR: "PatchSentinel \<in> set R"
    unfolding psAR by auto
  have l: "find_lefti newp ps 0 = Some (length A)"
    using find_lefti_takeWhile [OF sent, of newp 0] newR by (auto simp: A_def)
  have r: "find_righti newp R (length A) = Some (length A + length M)"
    using find_righti_takeWhile [OF sentR, of newp "length A"] newR by (auto simp: M_def)
  have M_all: "\<forall>m \<in> set M. ?rp m" unfolding M_def using set_takeWhileD by fastforce
  have RMB: "R = M @ B" by (simp add: M_def B_def)
  from sentR newR M_all have "PatchSentinel \<in> set B" unfolding RMB by auto
  then have B: "B \<noteq> []" by auto
  have "\<not> ?rp (hd B)" using hd_dropWhile [of ?rp R] B by (simp add: B_def)
  moreover have "M \<noteq> [] \<Longrightarrow> \<not> ?lp (hd M)"
    using hd_dropWhile [of ?lp ps] RMB by (auto simp: R_def [symmetric])
  moreover have "FindLRIndex ps newp = Inr (length A, int (length A + length M) - 1)"
    using l r by (simp add: FindLRIndex_def psAR)
  ultimately show ?thesis
    using that [of A M B] A_all M_all B psAR RMB by (simp add: not_le not_less)
qed

lemma Replace_eq:
  assumes "lefti + k \<le> length ps"
  shows "Replace ps lefti (int (lefti + k) - 1) newps =
    take lefti ps @ newps @ drop (lefti + k) ps"
proof -
  define rest where "rest = drop (lefti + k) ps"
  define ps1 where "ps1 = ps @ replicate (length newps - k) PatchSentinel"
  define newr where "newr = lefti + length newps + length rest"
  define ps2 where "ps2 = go_copy ps1 (lefti + length newps) newr (drop (lefti + k) ps1)"
  have n: "nat (int (lefti + k) - 1 + 1) = lefti + k"
    "nat (max (int (lefti + k) - 1 - int lefti + 1) 0) = k"
    by auto
  have newr: "length ps1 - (length newps - k) + length newps - k = newr"
    using assms by (simp add: ps1_def newr_def rest_def)
  have "take lefti (take (lefti + length newps) ps1) = take lefti ps"
    using assms by (simp add: ps1_def)
  moreover have "length newps + lefti \<le> length ps1"
    using assms by (simp add: ps1_def)
  moreover have "take (length rest) (drop (lefti + k) ps1) = rest"
    using assms by (simp add: ps1_def rest_def)
  ultimately obtain tl where ps2: "ps2 = take (lefti + length newps) ps1 @ rest @ tl"
    by (simp add: ps2_def go_copy_def newr_def)
  have "take newr (go_copy ps2 lefti (lefti + length newps) newps) = take lefti ps @ newps @ rest"
    using assms by (simp add: go_copy_def ps2 newr_def ps1_def)
  then show ?thesis
    by (simp only: Replace_def Let_def n newr ps1_def [symmetric] ps2_def [symmetric] rest_def)
qed

text \<open>What is left of the touched patches on either side of the new one.\<close>

definition left_rest :: "Patches \<Rightarrow> Patch \<Rightarrow> Patches" where
  "left_rest M newp =
     (if M \<noteq> [] \<and> Patch_Left newp > Patch_Left (hd M) then [trim_left (hd M) newp] else [])"

definition right_rest :: "Patches \<Rightarrow> Patch \<Rightarrow> Patches" where
  "right_rest M newp =
     (if M \<noteq> [] \<and> Patch_Right (last M) > Patch_Right newp then [trim_right (last M) newp] else [])"

text \<open>The two choices of \<open>Merge\<close>, read off the three-way split.\<close>

lemma Merge_left_choice:
  assumes "B \<noteq> []" and ok: "\<forall>m \<in> set M. patch_ok m"
    and hdB: "patch_end newp \<le> Patch_Offset (hd B)"
  shows "(if length A < length (A @ M @ B) - 1 \<and> Patch_Left newp > Patch_Left ((A @ M @ B) ! length A)
               \<and> Patch_P (trim_left ((A @ M @ B) ! length A) newp) \<noteq> []
            then [trim_left ((A @ M @ B) ! length A) newp, newp] else [newp])
         = left_rest M newp @ [newp]"
proof (cases "M = []")
  case True
  then have "\<not> Patch_Left newp > Patch_Left ((A @ M @ B) ! length A)"
    using \<open>B \<noteq> []\<close> hdB by (auto simp: Patch_Left_def nth_append hd_conv_nth patch_end_def)
  then show ?thesis using True by (simp add: left_rest_def)
next
  case False
  then have "(A @ M @ B) ! length A = hd M" "length A < length (A @ M @ B) - 1" "patch_ok (hd M)"
    using \<open>B \<noteq> []\<close> ok by (cases M; cases B; auto simp: nth_append)+
  then show ?thesis using False by (auto simp: left_rest_def trim_left_def patch_ok_def)
qed

lemma Merge_right_choice:
  fixes A M B :: Patches
  defines "ri \<equiv> int (length A + length M) - 1"
  assumes ok: "\<forall>m \<in> set (A @ M). patch_ok m" and new: "patch_ok newp"
    and A: "\<forall>a \<in> set A. patch_end a < Patch_Offset newp"
  shows "(if ri \<ge> 0 \<and> Patch_Right ((A @ M @ B) ! nat ri) > Patch_Right newp
               \<and> Patch_P (trim_right ((A @ M @ B) ! nat ri) newp) \<noteq> []
            then nps @ [trim_right ((A @ M @ B) ! nat ri) newp] else nps) = nps @ right_rest M newp"
proof (cases "M = []")
  case True
  have "\<not> Patch_Right ((A @ M @ B) ! nat ri) > Patch_Right newp" if "ri \<ge> 0"
  proof -
    from that True have "A \<noteq> []" "nat ri = length A - 1" by (auto simp: ri_def)
    then have "(A @ M @ B) ! nat ri \<in> set A" by (simp add: nth_append)
    then show ?thesis
      using A new ok by (fastforce simp: patch_ok_Right patch_end_def)
  qed
  then show ?thesis using True by (auto simp: right_rest_def)
next
  case False
  then have last: "(A @ M @ B) ! nat ri = last M" and "last M \<in> set M"
    by (cases M rule: rev_cases; auto simp: ri_def nth_append nat_add_distrib)+
  have "Patch_P (trim_right (last M) newp) \<noteq> []" if "Patch_Right (last M) > Patch_Right newp"
  proof -
    have "patch_ok (last M)" using \<open>last M \<in> set M\<close> ok by simp
    with that show ?thesis
      by (cases "Patch_P (last M)") (auto simp: trim_right_def Patch_Left_def patch_end_def patch_ok_Right patch_ok_def)
  qed
  moreover have "ri \<ge> 0" using False by (cases M) (auto simp: ri_def)
  ultimately show ?thesis using False last by (auto simp: right_rest_def)
qed

text \<open>Every touched patch reaches the new one, not only the first.\<close>

lemma touched_reach:
  assumes "sorted_wrt (\<lambda>a b. patch_end a \<le> Patch_Offset b) M" "\<forall>m \<in> set M. patch_ok m"
    and "M \<noteq> [] \<Longrightarrow> x \<le> patch_end (hd M)" and "m \<in> set M"
  shows "x \<le> patch_end m"
  using assms by (cases M) (auto simp: patch_ok_def patch_end_def)

lemma after_all:
  assumes "sorted_wrt (\<lambda>a b. patch_end a \<le> Patch_Offset b) B" "b \<in> set B" "x \<le> Patch_Offset (hd B)"
  shows "x \<le> Patch_Offset b"
  using assms by (cases B) (force simp: patch_end_def)+

lemma Merge_split:
  assumes wf: "wf_patches ps" and new: "patch_ok newp"
  obtains A M B where "ps = A @ M @ B"
    "Merge ps newp = Inr (A @ left_rest M newp @ [newp] @ right_rest M newp @ B)"
    "\<forall>a \<in> set A. patch_end a < Patch_Offset newp \<and> patch_ok a"
    "\<forall>m \<in> set M. Patch_Offset newp \<le> patch_end m \<and> Patch_Offset m < patch_end newp \<and> patch_ok m"
    "B \<noteq> []" "\<forall>b \<in> set B. patch_end newp \<le> Patch_Offset b"
proof -
  from wf new obtain A M B where ps: "ps = A @ M @ B"
    and f: "FindLRIndex ps newp = Inr (length A, int (length A + length M) - 1)"
    and A: "\<forall>a \<in> set A. Patch_Right a < Patch_Left newp"
    and hdM: "M \<noteq> [] \<Longrightarrow> Patch_Left newp \<le> Patch_Right (hd M)"
    and M: "\<forall>m \<in> set M. Patch_Left m < Patch_Right newp"
    and B: "B \<noteq> []" "Patch_Right newp \<le> Patch_Left (hd B)"
    by (blast elim: FindLRIndex_split)
  have ok: "\<forall>p \<in> set (A @ M). patch_ok p"
    using wf B unfolding ps wf_patches_def by (auto simp: list_all_iff butlast_append split: if_splits)
  have srt: "sorted_wrt (\<lambda>a b. patch_end a \<le> Patch_Offset b) (A @ M @ B)"
    using wf_patches_sorted [OF wf] ps by simp
  have A': "\<forall>a \<in> set A. patch_end a < Patch_Offset newp"
    using A ok by (auto simp: Patch_Left_def patch_ok_Right)
  have M': "\<forall>m \<in> set M. Patch_Offset newp \<le> patch_end m \<and> Patch_Offset m < patch_end newp \<and> patch_ok m"
    using touched_reach [of M "Patch_Offset newp"] srt ok hdM M new
    by (auto simp: sorted_wrt_append Patch_Left_def patch_ok_Right)
  have B': "\<forall>b \<in> set B. patch_end newp \<le> Patch_Offset b"
    using after_all [of B _ "patch_end newp"] srt B new
    by (auto simp: sorted_wrt_append Patch_Left_def patch_ok_Right)
  have "\<forall>m \<in> set M. patch_ok m" "patch_end newp \<le> Patch_Offset (hd B)"
    using M' B(1) B' by auto
  note l = Merge_left_choice [OF B(1) this, of A, folded ps]
  note r = Merge_right_choice [OF ok new A', of B, folded ps]
  have "Merge ps newp = Inr (Replace ps (length A) (int (length A + length M) - 1)
      (left_rest M newp @ [newp] @ right_rest M newp))"
    unfolding Merge_def f sum.case prod.case Let_def l r by simp
  also have "\<dots> = Inr (A @ left_rest M newp @ [newp] @ right_rest M newp @ B)"
    using Replace_eq [of "length A" "length M" ps] by (simp add: ps)
  finally show ?thesis
    using that ps A' M' B(1) B' ok by auto
qed


text \<open>The surviving pieces are well-formed and hold the bytes the old patches had there.\<close>

lemma left_rest_ok:
  assumes "\<forall>m \<in> set M. Patch_Offset newp \<le> patch_end m \<and> patch_ok m" "p \<in> set (left_rest M newp)"
  shows "patch_ok p" "patch_end p = Patch_Offset newp" "Patch_Offset p = Patch_Offset (hd M)" "M \<noteq> []"
proof -
  from assms have M: "M \<noteq> []" and p: "p = trim_left (hd M) newp" "Patch_Offset newp > Patch_Offset (hd M)"
    by (auto simp: left_rest_def Patch_Left_def split: if_splits)
  then have "patch_ok (hd M)" "Patch_Offset newp \<le> patch_end (hd M)" using assms by auto
  with p show "patch_ok p" "patch_end p = Patch_Offset newp" "Patch_Offset p = Patch_Offset (hd M)"
    by (auto simp: trim_left_def patch_ok_def patch_end_def Patch_Left_def)
  from M show "M \<noteq> []" .
qed

lemma right_rest_ok:
  assumes "\<forall>m \<in> set M. Patch_Offset m < patch_end newp \<and> patch_ok m" "patch_ok newp"
    "p \<in> set (right_rest M newp)"
  shows "patch_ok p" "Patch_Offset p = patch_end newp" "patch_end p = patch_end (last M)" "M \<noteq> []"
proof -
  from assms have M: "M \<noteq> []" and p: "p = trim_right (last M) newp"
    "patch_end newp < patch_end (last M)" "patch_ok (last M)" "Patch_Offset (last M) < patch_end newp"
    by (auto simp: right_rest_def patch_ok_Right split: if_splits)
  then show "patch_ok p" "Patch_Offset p = patch_end newp" "patch_end p = patch_end (last M)"
    using assms(2)
    by (auto simp: trim_right_def patch_ok_def patch_end_def Patch_Left_def patch_ok_Right [OF assms(2)])
  from M show "M \<noteq> []" .
qed

lemma sorted_merged:
  assumes srt: "sorted_wrt (\<lambda>a b. patch_end a \<le> Patch_Offset b) (A @ M @ B)" and new: "patch_ok newp"
    and A: "\<forall>a \<in> set A. patch_end a < Patch_Offset newp \<and> patch_ok a"
    and M: "\<forall>m \<in> set M. Patch_Offset newp \<le> patch_end m \<and> Patch_Offset m < patch_end newp \<and> patch_ok m"
    and B: "\<forall>b \<in> set B. patch_end newp \<le> Patch_Offset b"
  shows "sorted_wrt (\<lambda>a b. patch_end a \<le> Patch_Offset b)
      (A @ left_rest M newp @ [newp] @ right_rest M newp @ B)"
proof -
  let ?L = "set (left_rest M newp)" and ?R = "set (right_rest M newp)"
  have new': "Patch_Offset newp \<le> patch_end newp" by (simp add: patch_end_def)
  have l: "\<forall>p \<in> ?L. patch_end p = Patch_Offset newp \<and> (\<forall>a \<in> set A. patch_end a \<le> Patch_Offset p)"
  proof
    fix p assume "p \<in> ?L"
    then show "patch_end p = Patch_Offset newp \<and> (\<forall>a \<in> set A. patch_end a \<le> Patch_Offset p)"
      using left_rest_ok [of M newp p] M srt by (simp add: sorted_wrt_append)
  qed
  have r: "\<forall>p \<in> ?R. Patch_Offset p = patch_end newp \<and> (\<forall>b \<in> set B. patch_end p \<le> Patch_Offset b)"
  proof
    fix p assume "p \<in> ?R"
    then show "Patch_Offset p = patch_end newp \<and> (\<forall>b \<in> set B. patch_end p \<le> Patch_Offset b)"
      using right_rest_ok [of M newp p] M srt new by (simp add: sorted_wrt_append)
  qed
  have A': "\<forall>a \<in> set A. patch_end a \<le> Patch_Offset newp \<and> patch_end a \<le> patch_end newp"
    using A new' by fastforce
  have B': "\<forall>b \<in> set B. Patch_Offset newp \<le> Patch_Offset b"
    using B new' by fastforce
  have "sorted_wrt (\<lambda>a b. patch_end a \<le> Patch_Offset b) (left_rest M newp)"
    "sorted_wrt (\<lambda>a b. patch_end a \<le> Patch_Offset b) (right_rest M newp)"
    by (simp_all add: left_rest_def right_rest_def)
  then show ?thesis
    using srt A' B B' l r new' by (simp add: sorted_wrt_append ball_Un)
qed

lemma Merge_wf:
  assumes wf: "wf_patches ps" and new: "patch_ok newp" and m: "Merge ps newp = Inr ps'"
  shows "wf_patches ps'"
proof -
  from wf new obtain A M B where ps: "ps = A @ M @ B"
    and res: "Merge ps newp = Inr (A @ left_rest M newp @ [newp] @ right_rest M newp @ B)"
    and A: "\<forall>a \<in> set A. patch_end a < Patch_Offset newp \<and> patch_ok a"
    and M: "\<forall>m \<in> set M. Patch_Offset newp \<le> patch_end m \<and> Patch_Offset m < patch_end newp \<and> patch_ok m"
    and B: "B \<noteq> []" "\<forall>b \<in> set B. patch_end newp \<le> Patch_Offset b"
    by (blast elim: Merge_split)
  have "sorted_wrt (\<lambda>a b. patch_end a \<le> Patch_Offset b) (A @ M @ B)"
    using wf_patches_sorted [OF wf] ps by simp
  then have srt: "sorted_wrt (\<lambda>a b. patch_end a \<le> Patch_Offset b) ps'"
    using sorted_merged [of A M B newp] new A M B(2) m res by simp
  obtain B' where B': "B = B' @ [PatchSentinel]"
    using wf B(1) unfolding ps wf_patches_def by (cases B rule: rev_cases) auto
  then have "\<forall>b \<in> set B'. patch_ok b"
    using wf unfolding ps wf_patches_def by (auto simp: list_all_iff butlast_append)
  then have "\<And>q. q \<in> set (A @ left_rest M newp @ [newp] @ right_rest M newp @ B') \<Longrightarrow> patch_ok q"
    using A M new left_rest_ok(1) [of M newp] right_rest_ok(1) [of M newp] by auto
  moreover have "ps' = (A @ left_rest M newp @ [newp] @ right_rest M newp @ B') @ [PatchSentinel]"
    using m res B' by simp
  ultimately show ?thesis
    using wf_patchesI [of "A @ left_rest M newp @ [newp] @ right_rest M newp @ B'"] srt
    by (auto simp: sorted_wrt_append)
qed

lemma overlay_left_rest:
  assumes "sorted_wrt (\<lambda>a b. patch_end a \<le> Patch_Offset b) M" "int i < Patch_Offset newp"
    and M: "\<forall>m \<in> set M. Patch_Offset newp \<le> patch_end m \<and> patch_ok m"
  shows "overlay (left_rest M newp) i = overlay M i"
proof (cases M)
  case Nil
  then show ?thesis by (simp add: left_rest_def)
next
  case (Cons m t)
  with assms have "\<forall>p \<in> set t. \<not> covers p i" by (fastforce simp: covers_def)
  then have "overlay t i = None" by (simp add: overlay_None_iff)
  with Cons assms show ?thesis
    by (auto simp: left_rest_def trim_left_def Patch_Left_def covers_def patch_end_def patch_ok_def)
qed

lemma overlay_right_rest:
  assumes "sorted_wrt (\<lambda>a b. patch_end a \<le> Patch_Offset b) M" "patch_end newp \<le> int i"
    and M: "\<forall>m \<in> set M. Patch_Offset m < patch_end newp \<and> patch_ok m" and new: "patch_ok newp"
  shows "overlay (right_rest M newp) i = overlay M i"
proof (cases M rule: rev_cases)
  case Nil
  then show ?thesis by (simp add: right_rest_def)
next
  case (snoc t m)
  with assms have "\<forall>p \<in> set t. \<not> covers p i" by (fastforce simp: covers_def sorted_wrt_append)
  then have "overlay t i = None" by (simp add: overlay_None_iff)
  with snoc assms show ?thesis
    by (auto simp: right_rest_def trim_right_def Patch_Left_def covers_def patch_end_def patch_ok_def
        patch_ok_Right overlay_append nat_diff_distrib)
qed


lemma wf_patches_pos: "wf_patches ps \<Longrightarrow> \<forall>p \<in> set ps. patch_pos p"
  by (auto simp: patch_pos_def patch_ok_def MaxInt64_def elim!: wf_patchesE)

lemma overlay_merged:
  assumes srt: "sorted_wrt (\<lambda>a b. patch_end a \<le> Patch_Offset b) (A @ M @ B)" and new: "patch_ok newp"
    and A: "\<forall>a \<in> set A. patch_end a < Patch_Offset newp \<and> patch_ok a"
    and M: "\<forall>m \<in> set M. Patch_Offset newp \<le> patch_end m \<and> Patch_Offset m < patch_end newp \<and> patch_ok m"
    and B: "\<forall>b \<in> set B. patch_end newp \<le> Patch_Offset b"
  shows "overlay (A @ left_rest M newp @ [newp] @ right_rest M newp @ B) i =
    (if covers newp i then Some (Patch_P newp ! (i - nat (Patch_Offset newp)))
     else overlay (A @ M @ B) i)"
proof -
  have srtM: "sorted_wrt (\<lambda>a b. patch_end a \<le> Patch_Offset b) M"
    using srt by (simp add: sorted_wrt_append)
  have l: "\<forall>p \<in> set (left_rest M newp). patch_end p = Patch_Offset newp"
    using left_rest_ok(2) [of M newp] M by simp
  have r: "\<forall>p \<in> set (right_rest M newp). Patch_Offset p = patch_end newp"
    using right_rest_ok(2) [of M newp] M new by simp
  have new': "Patch_Offset newp \<le> patch_end newp" by (simp add: patch_end_def)
  consider (cov) "covers newp i" | (lt) "int i < Patch_Offset newp" | (ge) "patch_end newp \<le> int i"
    unfolding covers_def by linarith
  then show ?thesis
  proof cases
    case cov
    then have "overlay A i = None" "overlay (left_rest M newp) i = None"
      using A l by (auto simp: overlay_None_iff covers_def)
    then show ?thesis using cov by (simp add: overlay_append)
  next
    case lt
    then have "overlay (right_rest M newp) i = None" "\<not> covers newp i"
      using r new' by (auto simp: overlay_None_iff covers_def)
    moreover have "overlay (left_rest M newp) i = overlay M i"
      using lt M srtM by (intro overlay_left_rest) auto
    ultimately show ?thesis by (simp add: overlay_append split: option.splits)
  next
    case ge
    then have "overlay (left_rest M newp) i = None" "\<not> covers newp i"
      using l new' by (auto simp: overlay_None_iff covers_def)
    moreover have "overlay (right_rest M newp) i = overlay M i"
      using ge M srtM new by (intro overlay_right_rest) auto
    ultimately show ?thesis by (simp add: overlay_append split: option.splits)
  qed
qed

text \<open>The merged list reaches exactly as far as the old one and the new patch together.\<close>

lemma reach_merged:
  assumes new: "patch_ok newp"
    and M: "\<forall>m \<in> set M. Patch_Offset newp \<le> patch_end m \<and> Patch_Offset m < patch_end newp \<and> patch_ok m"
    and srt: "sorted_wrt (\<lambda>a b. patch_end a \<le> Patch_Offset b) M"
  shows "(\<exists>p \<in> set (left_rest M newp @ [newp] @ right_rest M newp). Patch_P p \<noteq> [] \<and> x < patch_end p)
    \<longleftrightarrow> (\<exists>p \<in> set M. Patch_P p \<noteq> [] \<and> x < patch_end p) \<or> x < patch_end newp"
proof -
  have new': "Patch_Offset newp \<le> patch_end newp" "Patch_P newp \<noteq> []"
    using new by (simp_all add: patch_end_def patch_ok_def)
  have l: "patch_end p = Patch_Offset newp" if "p \<in> set (left_rest M newp)" for p
    using left_rest_ok(2) [OF _ that] M by auto
  have r: "patch_end p = patch_end (last M) \<and> Patch_P p \<noteq> [] \<and> M \<noteq> []"
    if "p \<in> set (right_rest M newp)" for p
    using right_rest_ok [OF _ new that] M by (auto simp: patch_ok_def)
  have last: "m = last M \<or> patch_end m < patch_end newp" if "m \<in> set M" for m
    using that M srt by (cases M rule: rev_cases) (auto simp: sorted_wrt_append)
  show ?thesis (is "?L \<longleftrightarrow> ?R")
  proof
    assume ?L
    then obtain p where p: "p \<in> set (left_rest M newp) \<or> p = newp \<or> p \<in> set (right_rest M newp)"
      "x < patch_end p" by auto
    then show ?R using l [of p] r [of p] new' M last_in_set [of M] by (auto simp: patch_ok_def)
  next
    assume ?R
    moreover have ?L if m: "m \<in> set M" "x < patch_end m" "\<not> x < patch_end newp" for m
    proof -
      from m last [of m] have "m = last M" "M \<noteq> []" "patch_end newp < patch_end m" by auto
      moreover have "patch_ok m" using m M by blast
      ultimately have "right_rest M newp = [trim_right m newp]"
        using new by (simp add: right_rest_def patch_ok_Right)
      then show ?thesis using r [of "trim_right m newp"] m \<open>m = last M\<close> by auto
    qed
    ultimately show ?L using new' by auto
  qed
qed

lemma Merge_apply:
  assumes wf: "wf_patches ps" and new: "patch_ok newp" and m: "Merge ps newp = Inr ps'"
  shows "apply_patches ps' c = fwrite (apply_patches ps c) (nat (Patch_Offset newp)) (Patch_P newp)"
proof -
  from wf new obtain A M B where ps: "ps = A @ M @ B"
    and res: "Merge ps newp = Inr (A @ left_rest M newp @ [newp] @ right_rest M newp @ B)"
    and AMB: "\<forall>a \<in> set A. patch_end a < Patch_Offset newp \<and> patch_ok a"
    "\<forall>m \<in> set M. Patch_Offset newp \<le> patch_end m \<and> Patch_Offset m < patch_end newp \<and> patch_ok m"
    "\<forall>b \<in> set B. patch_end newp \<le> Patch_Offset b"
    by (blast elim: Merge_split)
  have ps': "ps' = A @ left_rest M newp @ [newp] @ right_rest M newp @ B" using m res by simp
  have srt: "sorted_wrt (\<lambda>a b. patch_end a \<le> Patch_Offset b) (A @ M @ B)"
    using wf_patches_sorted [OF wf] ps by simp
  have wf': "wf_patches ps'" using wf new m by (rule Merge_wf)
  note srt' = wf_patches_sorted [OF wf'] and pos = wf_patches_pos [OF wf] wf_patches_pos [OF wf']
  have ov: "overlay ps' i = (if covers newp i then Some (Patch_P newp ! (i - nat (Patch_Offset newp)))
      else overlay ps i)" for i
    using overlay_merged [OF srt new AMB] by (simp add: ps ps')
  have reach: "(\<exists>p \<in> set ps'. Patch_P p \<noteq> [] \<and> x < patch_end p) \<longleftrightarrow>
      (\<exists>p \<in> set ps. Patch_P p \<noteq> [] \<and> x < patch_end p) \<or> x < patch_end newp" for x
    using reach_merged [OF new AMB(2), of x] srt unfolding ps ps'
    by (auto simp: sorted_wrt_append)
  have new': "Patch_P newp \<noteq> []" "0 \<le> Patch_Offset newp" using new by (auto simp: patch_ok_def)
  let ?off = "nat (Patch_Offset newp)" and ?p = "Patch_P newp" and ?d = "apply_patches ps c"
  have e: "int i < patch_end newp \<longleftrightarrow> i < ?off + length ?p"
    "covers newp i \<longleftrightarrow> ?off \<le> i \<and> i < ?off + length ?p" for i
    using new' by (auto simp: patch_end_def covers_def)
  have len: "i < length (apply_patches ps' c) \<longleftrightarrow> i < length (fwrite ?d ?off ?p)" for i
    unfolding length_fwrite less_length_apply_patches [OF pos(2)] reach e(1)
    using new' less_length_apply_patches [OF pos(1), of i c] by (simp add: less_max_iff_disj)
  show ?thesis
  proof (rule list_eq_by_lookup [OF len])
    fix i assume i: "i < length (apply_patches ps' c)"
    have "overlay ps i = None \<and> \<not> i < length c" if "\<not> i < length ?d"
      using that less_length_apply_patches [OF pos(1), of i c]
      by (auto simp: overlay_None_iff covers_def patch_end_def)
    then show "apply_patches ps' c ! i = fwrite ?d ?off ?p ! i"
      using nth_apply_patches [OF wf_patches_sorted [OF wf] pos(1), of i c]
      unfolding nth_apply_patches [OF srt' pos(2) i] ov nth_fwrite [OF i [unfolded len]] e(2)
      by (cases "i < length ?d") auto
  qed
qed

lemma Merge_total: "wf_patches ps \<Longrightarrow> patch_ok newp \<Longrightarrow> \<exists>ps'. Merge ps newp = Inr ps'"
  by (erule (1) Merge_split) blast


subsection \<open>Truncate\<close>

definition cut_patch :: "Patch \<Rightarrow> int \<Rightarrow> Patch" where
  "cut_patch p sz =
     (if Patch_Right p > sz then p\<lparr>Patch_P := take (nat (sz - Patch_Left p)) (Patch_P p)\<rparr> else p)"

lemma truncate_rev_split:
  obtains A B where "ps = A @ B" "\<forall>b \<in> set B. sz \<le> Patch_Offset b"
    "A = [] \<and> fst (truncate_rev (rev ps) sz pl) = NewPatches \<or>
     A \<noteq> [] \<and> Patch_Offset (last A) < sz \<and>
       fst (truncate_rev (rev ps) sz pl) = butlast A @ [cut_patch (last A) sz, PatchSentinel]"
proof (induction ps arbitrary: pl thesis rule: rev_induct)
  case Nil
  then show ?case by (metis append_is_Nil_conv empty_iff empty_set fst_conv rev.simps(1) truncate_rev.simps(1))
next
  case (snoc p ps)
  show ?case
  proof (cases "sz \<le> Patch_Offset p")
    case True
    show ?thesis
    proof (rule snoc.IH [of "slice_cap (Patch_Cap p) # pl"])
      fix A B assume "ps = A @ B" "\<forall>b \<in> set B. sz \<le> Patch_Offset b"
        "A = [] \<and> fst (truncate_rev (rev ps) sz (slice_cap (Patch_Cap p) # pl)) = NewPatches \<or>
         A \<noteq> [] \<and> Patch_Offset (last A) < sz \<and>
         fst (truncate_rev (rev ps) sz (slice_cap (Patch_Cap p) # pl)) =
           butlast A @ [cut_patch (last A) sz, PatchSentinel]"
      then show ?thesis
        using True by (intro snoc.prems [of A "B @ [p]"]) (auto simp: Patch_Left_def)
    qed
  next
    case False
    then show ?thesis
      by (intro snoc.prems [of "ps @ [p]" "[]"]) (auto simp: Patch_Left_def cut_patch_def Let_def)
  qed
qed

lemma cut_patch_ok:
  assumes "patch_ok p" "Patch_Offset p < sz"
  shows "patch_ok (cut_patch p sz)" "Patch_Offset (cut_patch p sz) = Patch_Offset p"
    "patch_end (cut_patch p sz) = min (patch_end p) sz"
    "covers (cut_patch p sz) i \<longleftrightarrow> covers p i \<and> int i < sz"
    "covers (cut_patch p sz) i \<Longrightarrow>
      Patch_P (cut_patch p sz) ! (i - nat (Patch_Offset p)) = Patch_P p ! (i - nat (Patch_Offset p))"
proof -
  show *: "Patch_Offset (cut_patch p sz) = Patch_Offset p"
    "patch_end (cut_patch p sz) = min (patch_end p) sz"
    using assms by (auto simp: cut_patch_def patch_ok_Right Patch_Left_def patch_end_def patch_ok_def)
  show "patch_ok (cut_patch p sz)"
    using assms by (auto simp: cut_patch_def patch_ok_Right Patch_Left_def patch_end_def patch_ok_def)
  show "covers (cut_patch p sz) i \<longleftrightarrow> covers p i \<and> int i < sz"
    using * by (auto simp: covers_def)
  show "covers (cut_patch p sz) i \<Longrightarrow>
      Patch_P (cut_patch p sz) ! (i - nat (Patch_Offset p)) = Patch_P p ! (i - nat (Patch_Offset p))"
    using assms by (auto simp: cut_patch_def patch_ok_Right Patch_Left_def patch_end_def patch_ok_def covers_def)
qed

lemma Patches_Truncate_wf_overlay:
  assumes wf: "wf_patches ps" and sz: "sz \<le> MaxInt64"
  shows "wf_patches (fst (Patches_Truncate ps sz pl)) \<and>
    (int i < sz \<longrightarrow> overlay (fst (Patches_Truncate ps sz pl)) i = overlay ps i)"
proof -
  obtain A B where ps: "ps = A @ B" and B: "\<forall>b \<in> set B. sz \<le> Patch_Offset b"
    and res: "A = [] \<and> fst (truncate_rev (rev ps) sz pl) = NewPatches \<or>
     A \<noteq> [] \<and> Patch_Offset (last A) < sz \<and>
       fst (truncate_rev (rev ps) sz pl) = butlast A @ [cut_patch (last A) sz, PatchSentinel]"
    by (rule truncate_rev_split)
  have "overlay B i = None" if "int i < sz"
    using B that by (auto simp: overlay_None_iff covers_def)
  then have ovB: "int i < sz \<Longrightarrow> overlay ps i = overlay A i"
    by (simp add: ps overlay_append split: option.splits)
  show ?thesis
  proof (cases "A = []")
    case True
    then show ?thesis
      using res ovB by (auto simp: Patches_Truncate_def NewPatches_def wf_patches_def)
  next
    case False
    then obtain A' a where A: "A = A' @ [a]" by (cases A rule: rev_cases) auto
    then have a: "Patch_Offset a < sz"
      and res': "fst (Patches_Truncate ps sz pl) = (A' @ [cut_patch a sz]) @ [PatchSentinel]"
      using res by (auto simp: Patches_Truncate_def)
    then have "B \<noteq> []" using wf sz by (auto simp: wf_patches_def ps A)
    then have ok: "patch_ok a" "\<forall>a \<in> set A'. patch_ok a"
      using wf by (auto simp: wf_patches_def ps A list_all_iff butlast_append)
    note c = cut_patch_ok [OF ok(1) a]
    have "wf_patches ((A' @ [cut_patch a sz]) @ [PatchSentinel])"
      using wf_patches_sorted [OF wf] ok c by (intro wf_patchesI) (auto simp: ps A sorted_wrt_append)
    moreover have "overlay ((A' @ [cut_patch a sz]) @ [PatchSentinel]) i = overlay A i" if "int i < sz"
      using that c by (auto simp: A overlay_append split: option.splits)
    ultimately show ?thesis using ovB res' by simp
  qed
qed

lemmas Patches_Truncate_wf = Patches_Truncate_wf_overlay [THEN conjunct1]
  and overlay_Patches_Truncate = Patches_Truncate_wf_overlay [THEN conjunct2, rule_format]

text \<open>
  The byte at position \<open>i\<close> of the ideal file, zero beyond its end: what a sized file reads there.
\<close>

lemma nth_ftruncate_apply:
  assumes wf: "wf_patches ps" and "i < n"
  shows "ftruncate (apply_patches ps c) n ! i =
    (case overlay ps i of Some b \<Rightarrow> b | None \<Rightarrow> if i < length c then c ! i else 0)"
proof -
  note pos = wf_patches_pos [OF wf]
  have "overlay ps i = None \<and> \<not> i < length c" if "\<not> i < length (apply_patches ps c)"
    using that less_length_apply_patches [OF pos, of i c]
    by (auto simp: overlay_None_iff covers_def patch_end_def)
  then show ?thesis
    using \<open>i < n\<close> nth_apply_patches [OF wf_patches_sorted [OF wf] pos, of i c]
    by (auto simp: nth_ftruncate)
qed

lemma Patches_Truncate_apply:
  assumes wf: "wf_patches ps" and sz: "0 \<le> sz" "sz \<le> MaxInt64"
  shows "ftruncate (apply_patches (fst (Patches_Truncate ps sz pl)) (take (nat sz) c)) (nat sz)
    = ftruncate (apply_patches ps c) (nat sz)"
  using sz Patches_Truncate_wf [OF wf sz(2)] overlay_Patches_Truncate [OF wf sz(2)]
  by (intro nth_equalityI) (auto simp: nth_ftruncate_apply wf split: option.splits)


subsection \<open>Reading through the cache\<close>

text \<open>A patch that ends before the position read from does not matter.\<close>

lemma drop_apply_patches_Cons:
  assumes srt: "sorted_wrt (\<lambda>a b. patch_end a \<le> Patch_Offset b) (p # ps)"
    and pos: "\<forall>q \<in> set (p # ps). patch_pos q" and k: "patch_end p \<le> int k"
  shows "drop k (apply_patches (p # ps) c) = drop k (apply_patches ps c)"
proof (rule list_eq_by_lookup)
  fix i
  have "i < length (drop k (apply_patches (p # ps) c)) \<longleftrightarrow> k + i < length (apply_patches (p # ps) c)"
    by auto
  also have "\<dots> \<longleftrightarrow> k + i < length (apply_patches ps c)"
    using pos k less_length_apply_patches [of "p # ps" "k + i" c] less_length_apply_patches [of ps "k + i" c]
    by auto
  finally show len: "i < length (drop k (apply_patches (p # ps) c)) \<longleftrightarrow>
      i < length (drop k (apply_patches ps c))" by auto
  assume i: "i < length (drop k (apply_patches (p # ps) c))"
  then have i': "k + i < length (apply_patches (p # ps) c)" "k + i < length (apply_patches ps c)"
    using len by auto
  have "\<not> covers p (k + i)" using k by (simp add: covers_def)
  then have "overlay (p # ps) (k + i) = overlay ps (k + i)" by simp
  then show "drop k (apply_patches (p # ps) c) ! i = drop k (apply_patches ps c) ! i"
    using nth_apply_patches [OF srt pos i'(1)] nth_apply_patches [of ps "k + i" c] srt pos i'
    by (simp del: overlay.simps apply_patches_Cons)
qed

lemma fread_skip:
  assumes "sorted_wrt (\<lambda>a b. patch_end a \<le> Patch_Offset b) (p # ps)"
    and "\<forall>q \<in> set (p # ps). patch_pos q" and "patch_end p \<le> int k"
  shows "fread (apply_patches (p # ps) c) k n = fread (apply_patches ps c) k n"
  using drop_apply_patches_Cons [OF assms] by (simp add: fread_def)

text \<open>Before the first patch the file reads as its backing content, zero-filled up to the patch.\<close>

lemma fread_gap:
  assumes srt: "sorted_wrt (\<lambda>a b. patch_end a \<le> Patch_Offset b) (p # ps)"
    and pos: "\<forall>q \<in> set (p # ps). patch_pos q" and ok: "patch_ok p"
    and g: "int (k + g) \<le> Patch_Offset p"
  shows "fread (apply_patches (p # ps) c) k g = fread c k g @ replicate (g - length (fread c k g)) 0"
proof (rule nth_equalityI)
  let ?d = "apply_patches (p # ps) c"
  have len: "k + g \<le> length ?d"
  proof (cases "k + g")
    case (Suc j)
    have "Patch_P p \<noteq> []" "int j < patch_end p" using Suc g ok by (auto simp: patch_end_def patch_ok_def)
    then have "j < length ?d" using less_length_apply_patches [OF pos, of j c] by auto
    then show ?thesis using Suc by simp
  qed simp
  then show "length (fread ?d k g) = length (fread c k g @ replicate (g - length (fread c k g)) 0)"
    by auto
  fix i assume "i < length (fread ?d k g)"
  then have i: "i < g" by simp
  have "\<forall>q \<in> set (p # ps). \<not> covers q (k + i)"
    using srt i g by (auto simp: covers_def patch_end_def)
  then have "overlay (p # ps) (k + i) = None" by (simp only: overlay_None_iff)
  then have "?d ! (k + i) = (if k + i < length c then c ! (k + i) else 0)"
    using nth_apply_patches [OF srt pos, of "k + i" c] len i by simp
  then show "fread ?d k g ! i = (fread c k g @ replicate (g - length (fread c k g)) 0) ! i"
    using i len by (auto simp: nth_fread nth_append)
qed

text \<open>Inside the first patch the file reads as the patch.\<close>

lemma fread_inside:
  assumes srt: "sorted_wrt (\<lambda>a b. patch_end a \<le> Patch_Offset b) (p # ps)"
    and pos: "\<forall>q \<in> set (p # ps). patch_pos q" and ok: "patch_ok p"
    and k: "Patch_Offset p \<le> int k" "int (k + a) \<le> patch_end p"
  shows "fread (apply_patches (p # ps) c) k a = take a (drop (k - nat (Patch_Offset p)) (Patch_P p))"
proof (rule nth_equalityI)
  let ?d = "apply_patches (p # ps) c"
  have len: "k + a \<le> length ?d"
  proof (cases "k + a")
    case (Suc j)
    have "Patch_P p \<noteq> []" "int j < patch_end p" using Suc k ok by (auto simp: patch_end_def patch_ok_def)
    then have "j < length ?d" using less_length_apply_patches [OF pos, of j c] by auto
    then show ?thesis using Suc by simp
  qed simp
  have inP: "k + a \<le> nat (Patch_Offset p) + length (Patch_P p)"
    using k ok by (simp add: patch_end_def patch_ok_def)
  then show "length (fread ?d k a) = length (take a (drop (k - nat (Patch_Offset p)) (Patch_P p)))"
    using len k by auto
  fix i assume "i < length (fread ?d k a)"
  then have i: "i < a" by simp
  then have "covers p (k + i)" using k by (auto simp: covers_def)
  then have "?d ! (k + i) = Patch_P p ! (k + i - nat (Patch_Offset p))"
    using nth_apply_patches [OF srt pos, of "k + i" c] len i by simp
  then show "fread ?d k a ! i = take a (drop (k - nat (Patch_Offset p)) (Patch_P p)) ! i"
    using i len inP k by (simp add: nth_fread)
qed

lemma wf_patches_Cons:
  assumes "wf_patches (p # ps)" "\<not> IsSentinel p"
  shows "patch_ok p" "wf_patches ps"
proof -
  from assms have "ps \<noteq> []" by (auto simp: wf_patches_def)
  with assms show "patch_ok p" "wf_patches ps" by (auto simp: wf_patches_def)
qed

lemma wf_patches_sentinel:
  assumes "wf_patches (p # ps)" "IsSentinel p"
  shows "ps = [] \<and> p = PatchSentinel"
proof (rule ccontr)
  assume "\<not> ?thesis"
  with assms have "patch_ok p" by (auto simp: wf_patches_def split: if_splits)
  with assms show False using patch_ok_not_sentinel by (fastforce simp: IsSentinel_def)
qed

text \<open>
  What the cache relies on of the file below it: up to the offset \<open>lim\<close>, \<open>ReadAt\<close> delivers the bytes
  of \<open>content s\<close>, as many as there are.
\<close>

locale read_ater =
  fixes readat :: "'s ReadAter" and content :: "'s \<Rightarrow> byte list" and inv :: "'s \<Rightarrow> bool"
    and lim :: int
  assumes readat: "inv s \<Longrightarrow> 0 \<le> off \<Longrightarrow> off + int n \<le> lim \<Longrightarrow>
    \<exists>s'. readat n off s = (s', fread (content s) (nat off) n, None) \<and> inv s' \<and> content s' = content s"
begin

lemma read_last_content:
  assumes "inv s" "0 \<le> remo" "remo + int n \<le> lim"
  shows "\<exists>s'. read_last readat remo n acc s = (s', acc @ fread (content s) (nat remo) n, None) \<and> inv s' \<and> content s' = content s"
  using readat [OF assms] by (auto simp: read_last_def)

lemma read_gap_content:
  fixes remo :: int and n :: nat and p :: Patch
  defines "g \<equiv> (if remo < Patch_Offset p then nat (min (int n) (Patch_Offset p - remo)) else 0)"
  assumes inv: "inv s" and remo: "0 \<le> remo" "remo + int n \<le> lim" and n: "int n \<le> MaxInt32" and ok: "patch_ok p"
    and srt: "sorted_wrt (\<lambda>a b. patch_end a \<le> Patch_Offset b) (p # ps)"
    and pos: "\<forall>q \<in> set (p # ps). patch_pos q"
  shows "\<exists>s'. read_gap readat p (remo, n, acc) s =
      (s', Inr (remo + int g, n - g, acc @ fread (apply_patches (p # ps) (content s)) (nat remo) g)) \<and> inv s' \<and> content s' = content s"
proof (cases "remo < Patch_Offset p")
  case True
  then have g: "int (nat remo + g) \<le> Patch_Offset p" "min (int n) (Patch_Offset p - remo) = int g"
    using remo by (auto simp: g_def)
  then have "remo + int g \<le> lim" using remo(2) by linarith
  with readat [OF inv remo(1), of g] obtain s' where
    "readat g remo s = (s', fread (content s) (nat remo) g, None)" "inv s'" "content s' = content s" by auto
  then show ?thesis
    using True fread_gap [OF srt pos ok, of "nat remo" g "content s"] n g
    by (simp add: read_gap_def Patch_Left_def)
next
  case False
  with inv show ?thesis by (simp add: read_gap_def g_def Patch_Left_def)
qed

lemma read_patch_content:
  fixes remo :: int and n :: nat and p :: Patch
  defines "a \<equiv> min (nat (patch_end p - remo)) n"
  assumes "n \<noteq> 0" "Patch_Offset p \<le> remo" "remo \<le> patch_end p"
    and len: "int (length (Patch_P p)) \<le> MaxInt32" and ok: "patch_ok p"
    and srt: "sorted_wrt (\<lambda>a b. patch_end a \<le> Patch_Offset b) (p # ps)"
    and pos: "\<forall>q \<in> set (p # ps). patch_pos q"
  shows "read_patch p (remo, n, acc) =
    Inr (remo + int a, n - a, acc @ fread (apply_patches (p # ps) (content s)) (nat remo) a)"
proof -
  have "0 \<le> remo" using ok assms by (simp add: patch_ok_def)
  moreover have "length (Patch_P p) - nat (remo - Patch_Offset p) = nat (patch_end p - remo)"
    "nat remo - nat (Patch_Offset p) = nat (remo - Patch_Offset p)"
    "remo - Patch_Offset p \<le> MaxInt32"
    using assms by (auto simp: patch_end_def patch_ok_def)
  ultimately show ?thesis
    using assms fread_inside [OF srt pos ok, of "nat remo" a "content s"]
    by (simp add: read_patch_def Let_def)
qed

lemma read_through_round:
  assumes "inv s" "0 \<le> remo" "int n \<le> MaxInt32" "n \<noteq> 0" "remo \<le> patch_end p"
    and rlim: "remo + int n \<le> lim"
    and len: "int (length (Patch_P p)) \<le> MaxInt32" and wf: "wf_patches (p # ps)" and p: "\<not> IsSentinel p"
    and IH: "\<And>remo' n' acc' s. inv s \<Longrightarrow> 0 \<le> remo' \<Longrightarrow> n' \<le> n \<Longrightarrow> remo' + int n' \<le> lim \<Longrightarrow>
        \<exists>s'. read_through readat ps (remo', n', acc') s = (s', acc' @ fread (apply_patches ps (content s)) (nat remo') n', None) \<and>
          inv s' \<and> content s' = content s"
  shows "\<exists>s'. read_through readat (p # ps) (remo, n, acc) s =
      (s', acc @ fread (apply_patches (p # ps) (content s)) (nat remo) n, None) \<and> inv s' \<and> content s' = content s"
proof -
  let ?d = "apply_patches (p # ps) (content s)"
  have ok: "patch_ok p" using wf_patches_Cons [OF wf p] by auto
  note srt = wf_patches_sorted [OF wf] and pos = wf_patches_pos [OF wf]
  have sel: "\<not> remo > Patch_Right p" using assms(5) by (simp add: patch_ok_Right [OF ok])
  define g where "g = (if remo < Patch_Offset p then nat (min (int n) (Patch_Offset p - remo)) else 0)"
  obtain s1 where gap: "read_gap readat p (remo, n, acc) s = (s1, Inr (remo + int g, n - g, acc @ fread ?d (nat remo) g))"
    and s1: "inv s1" "content s1 = content s"
    using read_gap_content [OF assms(1,2) rlim assms(3) ok srt pos, of acc] unfolding g_def by blast
  have g: "g \<le> n" "g < n \<Longrightarrow> Patch_Offset p \<le> remo + int g" "remo + int g \<le> patch_end p"
    using assms(2,5) ok by (auto simp: g_def patch_end_def)
  show ?thesis
  proof (cases "g = n")
    case True
    then show ?thesis using p sel gap s1 \<open>n \<noteq> 0\<close> by (simp add: read_patch_def)
  next
    case False
    define a where "a = min (nat (patch_end p - (remo + int g))) (n - g)"
    have patch: "read_patch p (remo + int g, n - g, acc') =
        Inr (remo + int g + int a, n - g - a, acc' @ fread ?d (nat (remo + int g)) a)" for acc'
      unfolding a_def using False g len ok srt pos by (intro read_patch_content) auto
    have rest: "fread (apply_patches ps (content s)) (nat (remo + int g + int a)) (n - g - a) =
        fread ?d (nat (remo + int g + int a)) (n - g - a)"
    proof (cases "n - g - a = 0")
      case False
      then have "patch_end p \<le> int (nat (remo + int g + int a))" using g(3) assms(2) by (auto simp: a_def)
      then show ?thesis by (simp only: fread_skip [OF srt pos])
    qed simp
    have sum: "n = g + (a + (n - g - a))" using g by (simp add: a_def)
    have tot: "remo + int g + int a + int (n - g - a) \<le> lim" using rlim arg_cong [OF sum, of int] by linarith
    from sum have "fread ?d (nat remo) n = fread ?d (nat remo) g @ fread ?d (nat (remo + int g)) a @
        fread ?d (nat (remo + int g + int a)) (n - g - a)"
      using fread_split [of ?d "nat remo" g "a + (n - g - a)"] fread_split [of ?d "nat remo + g" a "n - g - a"] assms(2)
      by (simp add: nat_add_distrib)
    moreover obtain s2 where "read_through readat ps (remo + int g + int a, n - g - a, acc @ fread ?d (nat remo) g @ fread ?d (nat (remo + int g)) a) s1 =
        (s2, (acc @ fread ?d (nat remo) g @ fread ?d (nat (remo + int g)) a) @
          fread (apply_patches ps (content s)) (nat (remo + int g + int a)) (n - g - a), None)" "inv s2" "content s2 = content s"
      using IH [OF s1(1) _ _ tot, of "acc @ fread ?d (nat remo) g @ fread ?d (nat (remo + int g)) a"] s1(2) assms(2) by auto
    ultimately show ?thesis
      using p sel gap patch rest \<open>n \<noteq> 0\<close> by (simp del: apply_patches_Cons)
  qed
qed

lemma read_through_content:
  assumes "inv s" "wf_patches ps" "0 \<le> remo" "int n \<le> MaxInt32" "remo + int n \<le> lim"
    and "\<forall>p \<in> set ps. int (length (Patch_P p)) \<le> MaxInt32"
  shows "\<exists>s'. read_through readat ps (remo, n, acc) s = (s', acc @ fread (apply_patches ps (content s)) (nat remo) n, None) \<and>
    inv s' \<and> content s' = content s"
  using assms
proof (induction ps arbitrary: remo n acc s)
  case Nil
  then show ?case by (simp add: wf_patches_def)
next
  case (Cons p ps)
  show ?case
  proof (cases "IsSentinel p \<or> n = 0")
    case True
    then show ?thesis
      using wf_patches_sentinel [OF Cons.prems(2)] Cons.prems(1) read_last_content [OF Cons.prems(1,3,5), of acc] by auto
  next
    case False
    then have ok: "patch_ok p" and wf: "wf_patches ps"
      using wf_patches_Cons [OF Cons.prems(2)] by auto
    have IH: "\<exists>s'. read_through readat ps (remo', n', acc') s = (s', acc' @ fread (apply_patches ps (content s)) (nat remo') n', None) \<and>
        inv s' \<and> content s' = content s"
      if "inv s" "0 \<le> remo'" "n' \<le> n" "remo' + int n' \<le> lim" for remo' n' acc' s
      using that Cons.prems by (intro Cons.IH wf) auto
    show ?thesis
    proof (cases "remo > patch_end p")
      case True
      then show ?thesis
        using False IH [OF Cons.prems(1,3) order_refl Cons.prems(5), of acc] Cons.prems(3)
          fread_skip [OF wf_patches_sorted [OF Cons.prems(2)] wf_patches_pos [OF Cons.prems(2)], of "nat remo"]
        by (simp add: patch_ok_Right [OF ok])
    next
      case le: False
      with False Cons.prems IH show ?thesis by (intro read_through_round) auto
    qed
  qed
qed

end


subsection \<open>Writing the cache back\<close>

lemma wf_patches_end: "wf_patches ps \<Longrightarrow> \<forall>p \<in> set ps. \<not> IsSentinel p \<longrightarrow> patch_end p \<le> MaxInt64"
proof (intro ballI impI)
  fix p assume wf: "wf_patches ps" and p: "p \<in> set ps" "\<not> IsSentinel p"
  from wf have "ps = butlast ps @ [PatchSentinel]" unfolding wf_patches_def by (metis append_butlast_last_id)
  with p have "p \<in> set (butlast ps)" by (metis IsSentinel_def PatchSentinel_def Un_iff empty_iff insert_iff list.set set_append Patch.select_convs)
  with wf show "patch_end p \<le> MaxInt64" by (simp add: wf_patches_def list_all_iff patch_ok_def)
qed

text \<open>
  What the cache relies on of the file it is synced to: a write that the file accepts at its
  current length (\<open>fits\<close>) and that ends at \<open>lim\<close> or before succeeds and is the positioned write of
  the ideal file. A file that accepts every position has \<open>fits\<close> constantly true.
\<close>

locale pwriter =
  fixes pwrite :: "'s PWriter" and content :: "'s \<Rightarrow> byte list" and inv :: "'s \<Rightarrow> bool"
    and fits :: "nat \<Rightarrow> nat \<Rightarrow> bool" and lim :: int
  assumes lim: "lim \<le> MaxInt64"
    and pwrite: "\<lbrakk>inv s; p \<noteq> []; 0 \<le> off; off + int (length p) \<le> lim;
      fits (length (content s)) (nat off)\<rbrakk> \<Longrightarrow>
      \<exists>s'. pwrite p off s = (s', None) \<and> inv s' \<and> content s' = fwrite (content s) (nat off) p"

text \<open>
  Every run of adjacent patches starts where the file accepts a write, given its length by
  then: \<open>l\<close> is the length so far, \<open>e\<close> the end of the previous patch.
\<close>

fun runs_fit :: "(nat \<Rightarrow> nat \<Rightarrow> bool) \<Rightarrow> Patches \<Rightarrow> nat \<Rightarrow> int \<Rightarrow> bool" where
  "runs_fit fits [] l e = True"
| "runs_fit fits (p # ps) l e =
     (if IsSentinel p then True
      else (Patch_Offset p = e \<or> fits l (nat (Patch_Offset p))) \<and>
           runs_fit fits ps (max l (nat (patch_end p))) (patch_end p))"

lemma runs_fit_True [simp]: "runs_fit (\<lambda>_ _. True) ps l e"
  by (induction ps arbitrary: l e) auto

context pwriter
begin

text \<open>The loop with a pending run: the run, then the remaining patches, end up in the file.\<close>

lemma sync_loop_content:
  assumes "inv s" "wf_patches ps"
    and "run \<noteq> []" "0 \<le> off" "off + int (length run) \<le> lim"
    and "fits (length (content s)) (nat off)"
    and "ps \<noteq> [] \<Longrightarrow> off + int (length run) \<le> Patch_Offset (hd ps)"
    and "runs_fit fits ps (length (fwrite (content s) (nat off) run)) (off + int (length run))"
    and "\<forall>p \<in> set ps. \<not> IsSentinel p \<longrightarrow> patch_end p \<le> lim"
  shows "\<exists>s'. sync_loop pwrite ps (Some run) off s = (s', None) \<and> inv s' \<and>
    content s' = apply_patches ps (fwrite (content s) (nat off) run)"
  using assms
proof (induction ps arbitrary: run off s)
  case Nil
  then show ?case by (simp add: wf_patches_def)
next
  case (Cons p ps)
  obtain s1 where s1: "pwrite run off s = (s1, None)" "inv s1"
    "content s1 = fwrite (content s) (nat off) run"
    using pwrite [OF Cons.prems(1,3,4,5,6)] by blast
  show ?case
  proof (cases "IsSentinel p")
    case True
    then show ?thesis
      using wf_patches_sentinel [OF Cons.prems(2)] s1 Cons.prems(3) by auto
  next
    case False
    then have ok: "patch_ok p" and wf: "wf_patches ps"
      using wf_patches_Cons [OF Cons.prems(2)] by auto
    obtain q where cap: "Patch_Cap p = Some q" using ok by (auto simp: patch_ok_def)
    have off_ok: "wrap64 (off + int (length run)) = off + int (length run)"
      using Cons.prems(4,5) lim by (simp add: wrap64_id)
    have nxt: "ps \<noteq> [] \<Longrightarrow> patch_end p \<le> Patch_Offset (hd ps)"
      using wf_patches_sorted [OF Cons.prems(2)] by auto
    show ?thesis
    proof (cases "Patch_Offset p = off + int (length run)")
      case True
      then have adj: "fwrite (fwrite (content s) (nat off) run) (nat (Patch_Offset p)) (Patch_P p)
          = fwrite (content s) (nat off) (run @ Patch_P p)"
        using Cons.prems(4) by (simp add: nat_add_distrib fwrite_fwrite_adjacent)
      have end_eq: "off + int (length (run @ Patch_P p)) = patch_end p"
        using True by (simp add: patch_end_def)
      have len: "length (fwrite (content s) (nat off) (run @ Patch_P p)) =
          max (length (fwrite (content s) (nat off) run)) (nat (patch_end p))"
        using end_eq Cons.prems(3,4) by (auto simp: length_fwrite)
      have "\<exists>s'. sync_loop pwrite ps (Some (run @ Patch_P p)) off s = (s', None) \<and> inv s' \<and>
          content s' = apply_patches ps (fwrite (content s) (nat off) (run @ Patch_P p))"
        using Cons.prems False ok wf nxt end_eq len
        by (intro Cons.IH) auto
      then show ?thesis
        using True False off_ok adj by simp
    next
      case apart: False
      have fit: "fits (length (content s1)) (nat (Patch_Offset p))"
        using Cons.prems(8) False apart s1(3) by simp
      have len1: "length (fwrite (content s1) (nat (Patch_Offset p)) (Patch_P p)) =
          max (length (content s1)) (nat (patch_end p))"
        using ok by (auto simp: length_fwrite patch_end_def patch_ok_def nat_add_distrib)
      have "\<exists>s'. sync_loop pwrite ps (Some (Patch_P p)) (Patch_Offset p) s1 = (s', None) \<and> inv s' \<and>
          content s' = apply_patches ps (fwrite (content s1) (nat (Patch_Offset p)) (Patch_P p))"
        using Cons.prems False ok wf nxt s1 fit apart len1
        by (intro Cons.IH) (auto simp: patch_ok_def patch_end_def [symmetric])
      then show ?thesis
        using apart s1 cap Cons.prems(3) False off_ok by simp
    qed
  qed
qed


lemma sync_content:
  assumes "inv s" "wf_patches ps"
    and "runs_fit fits ps (length (content s)) (-1)" "\<forall>p \<in> set ps. \<not> IsSentinel p \<longrightarrow> patch_end p \<le> lim"
  shows "\<exists>s'. sync_loop pwrite ps None (-1) s = (s', None) \<and> inv s' \<and>
    content s' = apply_patches ps (content s)"
proof (cases ps)
  case Nil
  with assms show ?thesis by (simp add: wf_patches_def)
next
  case (Cons p qs)
  show ?thesis
  proof (cases "IsSentinel p")
    case True
    then show ?thesis using wf_patches_sentinel [of p qs] assms Cons by auto
  next
    case False
    then have ok: "patch_ok p" and wf: "wf_patches qs"
      using wf_patches_Cons [of p qs] assms Cons by auto
    have len: "length (fwrite (content s) (nat (Patch_Offset p)) (Patch_P p)) =
        max (length (content s)) (nat (patch_end p))"
      using ok by (auto simp: length_fwrite patch_end_def patch_ok_def nat_add_distrib)
    have nxt: "qs \<noteq> [] \<Longrightarrow> patch_end p \<le> Patch_Offset (hd qs)"
      using wf_patches_sorted [OF assms(2)] Cons by auto
    obtain c where cap: "Patch_Cap p = Some c" using ok by (auto simp: patch_ok_def)
    have "\<exists>s'. sync_loop pwrite qs (Some (Patch_P p)) (Patch_Offset p) s = (s', None) \<and> inv s' \<and>
        content s' = apply_patches qs (fwrite (content s) (nat (Patch_Offset p)) (Patch_P p))"
      using assms False ok wf nxt len Cons
      by (intro sync_loop_content) (auto simp: patch_ok_def patch_end_def [symmetric])
    then show ?thesis using Cons False cap by simp
  qed
qed

end


section \<open>The cache as its clients see it\<close>

lemma NewPatch_cases:
  "NewPatch pick off p pl = Inl (Panic ''slice bounds out of range'') \<and>
     length p \<le> MaxPatchContentLen \<and> (\<exists>cap \<in> set pl. cap < length p) \<or>
   (\<exists>cap pl'. NewPatch pick off p pl =
      Inr (\<lparr>Patch_Offset = off, Patch_P = p, Patch_Cap = Some cap\<rparr>, pl'))"
proof (cases "case pool_get pick pl of (cap, _) \<Rightarrow> cap < length p \<and> length p \<le> MaxPatchContentLen")
  case True
  then have "\<exists>i < length pl. pl ! i < length p" by (cases pick) (auto split: if_splits)
  with True show ?thesis by (auto simp: NewPatch_def split: prod.splits dest: nth_mem)
next
  case False
  then show ?thesis by (auto simp: NewPatch_def split: prod.splits)
qed

lemma Truncate_proj:
  "wc_ps (fst (FileWriteCache_Truncate sz wc pl)) = fst (Patches_Truncate (wc_ps wc) sz pl)"
  "snd (FileWriteCache_Truncate sz wc pl) = snd (Patches_Truncate (wc_ps wc) sz pl)"
  by (simp_all add: FileWriteCache_Truncate_def split_beta)

lemma PWrite_cases:
  assumes wf: "wf_patches (wc_ps wc)" and off: "0 \<le> off" "off + int (length p) \<le> MaxInt64"
  shows "case FileWriteCache_PWrite pick p off wc pl of
      Inr (wc', pl') \<Rightarrow> wf_patches (wc_ps wc') \<and>
        (\<forall>c. apply_patches (wc_ps wc') c = fwrite (apply_patches (wc_ps wc) c) (nat off) p)
    | Inl e \<Rightarrow> e = Panic ''slice bounds out of range'' \<and> (\<exists>cap \<in> set pl. cap < length p)"
proof (cases "p = []")
  case True
  with wf show ?thesis by (simp add: FileWriteCache_PWrite_def)
next
  case False
  from NewPatch_cases [of pick off p pl] show ?thesis
  proof (elim disjE exE)
    fix cap pl'
    let ?q = "\<lparr>Patch_Offset = off, Patch_P = p, Patch_Cap = Some cap\<rparr>"
    assume new: "NewPatch pick off p pl = Inr (?q, pl')"
    have ok: "patch_ok ?q" using False off by (simp add: patch_ok_def patch_end_def)
    obtain ps where m: "Merge (wc_ps wc) ?q = Inr ps" using Merge_total [OF wf ok] by blast
    show ?thesis
      using False new m Merge_wf [OF wf ok m] Merge_apply [OF wf ok m]
      by (simp add: FileWriteCache_PWrite_def)
  qed (use False in \<open>simp add: FileWriteCache_PWrite_def\<close>)
qed

text \<open>Equations that evaluate the operations on concrete patches.\<close>

lemmas cache_simps =
  FileWriteCache_PWrite_def FileWriteCache_Truncate_def NewPatch_def MaxPatchContentLen_def Merge_def
  FindLRIndex_def Replace_def trim_left_def trim_right_def Patches_Truncate_def slice_cap_def
  Patch_Left_def Patch_Right_def PatchSentinel_def IsSentinel_def MaxInt64_def wrap64_def
  apply_patches_def wf_patches_def patch_ok_def patch_end_def fwrite_def ftruncate_def Let_def
  NewPatches_def go_copy_def



text \<open>
  C14. Truncating the cache together with the backing file is truncating the file seen through
  the cache, once that file is given its new length (zeros where neither holds a byte), and
  keeps the patches sorted and disjoint.
\<close>

theorem Truncate_transparent:
  assumes "wf_patches (wc_ps wc)" "0 \<le> sz" "sz \<le> MaxInt64"
  shows "wf_patches (wc_ps (fst (FileWriteCache_Truncate sz wc pl))) \<and>
    ftruncate (apply_patches (wc_ps (fst (FileWriteCache_Truncate sz wc pl))) (take (nat sz) c)) (nat sz)
      = ftruncate (apply_patches (wc_ps wc) c) (nat sz)"
  using Patches_Truncate_apply [OF assms] Patches_Truncate_wf [OF assms(1,3)]
  by (simp add: Truncate_proj)

theorem Truncate_transparent_witness:
  "ftruncate (apply_patches (wc_ps (fst (FileWriteCache_Truncate 3
      \<lparr>wc_ps = [\<lparr>Patch_Offset = 1, Patch_P = [7, 8, 9], Patch_Cap = Some 16\<rparr>, PatchSentinel]\<rparr> [])))
      (take 3 [5])) 3 = [5, 7, 8]"
  using Truncate_transparent [of "\<lparr>wc_ps = [\<lparr>Patch_Offset = 1, Patch_P = [7, 8, 9],
      Patch_Cap = Some 16\<rparr>, PatchSentinel]\<rparr>" 3 "[]" "[5]"]
  by (simp add: cache_simps)

lemma truncate_rev_pool: "set pl \<subseteq> set (snd (truncate_rev rps sz pl))"
  by (induction rps sz pl rule: truncate_rev.induct) (auto simp: Let_def)

lemma Patches_Truncate_pool:
  assumes "wf_patches ps" "sz \<le> MaxInt64"
  shows "0 \<in> set (snd (Patches_Truncate ps sz pl))"
proof -
  obtain qs where "ps = qs @ [PatchSentinel]"
    using assms(1) by (cases ps rule: rev_cases) (auto simp: wf_patches_def)
  then show ?thesis
    using assms(2) truncate_rev_pool [of "0 # pl" "rev qs" sz]
    by (simp add: Patches_Truncate_def slice_cap_def PatchSentinel_def Patch_Left_def)
qed

text \<open>
  C26. \<open>Truncate\<close> gives the sentinel's nil slice to the buffer pool, so after any truncation there
  is a pooled buffer with which the next write of at most \<open>MaxPatchContentLen\<close> bytes panics, in
  whatever file's cache that write happens.
\<close>

theorem Truncate_poisons_pool:
  assumes "wf_patches (wc_ps wc)" "sz \<le> MaxInt64" "p \<noteq> []" "length p \<le> MaxPatchContentLen"
  shows "\<exists>i < length (snd (FileWriteCache_Truncate sz wc pl)).
    FileWriteCache_PWrite (Some i) p off wc2 (snd (FileWriteCache_Truncate sz wc pl)) =
      Inl (Panic ''slice bounds out of range'')"
proof -
  have "0 \<in> set (snd (FileWriteCache_Truncate sz wc pl))"
    using Patches_Truncate_pool [OF assms(1,2), of pl] by (simp add: Truncate_proj)
  then obtain i where "i < length (snd (FileWriteCache_Truncate sz wc pl))"
    "snd (FileWriteCache_Truncate sz wc pl) ! i = 0"
    by (metis in_set_conv_nth)
  with assms(3,4) show ?thesis
    by (intro exI [of _ i]) (simp add: FileWriteCache_PWrite_def NewPatch_def)
qed

theorem Truncate_poisons_pool_witness:
  "\<exists>i < length (snd (FileWriteCache_Truncate 0 FileWriteCache_New [])).
    FileWriteCache_PWrite (Some i) [1] 0 FileWriteCache_New (snd (FileWriteCache_Truncate 0 FileWriteCache_New [])) =
      Inl (Panic ''slice bounds out of range'')"
  by (rule Truncate_poisons_pool)
    (simp_all add: FileWriteCache_New_def NewPatches_def wf_patches_def MaxInt64_def MaxPatchContentLen_def)

end
