(* ===== verification/Flags.thy ===== *)
theory Flags
  imports Otaru_Prelude
begin

text \<open>
  Open flags (\<open>flags/flags.go\<close>): the access mode in the two lowest bits, the creation and
  status bits above, with the values of the Linux system call interface. Go's \<open>int\<close> is a
  64-bit word here; the source combines flags with bitwise operations only.
\<close>

unbundle bit_operations_syntax

type_synonym flags = "64 word"

definition O_RDONLY :: flags where "O_RDONLY = 0"
definition O_WRONLY :: flags where "O_WRONLY = 1"
definition O_RDWR :: flags where "O_RDWR = 2"
definition O_ACCMODE :: flags where "O_ACCMODE = 3"
definition O_CREATE :: flags where "O_CREATE = 0x40"
definition O_EXCL :: flags where "O_EXCL = 0x80"
definition O_TRUNCATE :: flags where "O_TRUNCATE = 0x200"
definition O_APPEND :: flags where "O_APPEND = 0x400"
definition O_RDWRCREATE :: flags where "O_RDWRCREATE = O_RDWR OR O_CREATE"

lemmas flag_defs = O_RDONLY_def O_WRONLY_def O_RDWR_def O_ACCMODE_def O_CREATE_def O_EXCL_def
  O_TRUNCATE_def O_APPEND_def O_RDWRCREATE_def

definition IsReadAllowed :: "flags \<Rightarrow> bool" where
  "IsReadAllowed f = (let mode = f AND O_ACCMODE in mode = O_RDONLY \<or> mode = O_RDWR)"

definition IsWriteAllowed :: "flags \<Rightarrow> bool" where
  "IsWriteAllowed f = (let mode = f AND O_ACCMODE in mode = O_WRONLY \<or> mode = O_RDWR)"

definition IsReadWriteAllowed :: "flags \<Rightarrow> bool" where
  "IsReadWriteAllowed f = (let mode = f AND O_ACCMODE in mode = O_RDWR)"

definition IsCreateAllowed :: "flags \<Rightarrow> bool" where
  "IsCreateAllowed f = (f AND O_CREATE \<noteq> 0)"

definition IsCreateExclusive :: "flags \<Rightarrow> bool" where
  "IsCreateExclusive f = (IsCreateAllowed f \<and> f AND O_EXCL \<noteq> 0)"

definition IsWriteTruncate :: "flags \<Rightarrow> bool" where
  "IsWriteTruncate f = (IsWriteAllowed f \<and> f AND O_TRUNCATE \<noteq> 0)"

definition IsWriteAppend :: "flags \<Rightarrow> bool" where
  "IsWriteAppend f = (IsWriteAllowed f \<and> f AND O_APPEND \<noteq> 0)"

definition FlagsToString :: "flags \<Rightarrow> string" where
  "FlagsToString f =
     (if IsReadAllowed f then ''R'' else []) @
     (if IsWriteAllowed f then ''W'' else []) @
     (if IsCreateAllowed f then ''C'' else []) @
     (if IsCreateExclusive f then ''X'' else []) @
     (if IsWriteTruncate f then ''T'' else []) @
     (if IsWriteAppend f then ''A'' else [])"

definition Mask :: "flags \<Rightarrow> flags \<Rightarrow> flags" where
  "Mask a b =
     (let rok = IsReadAllowed a \<and> IsReadAllowed b;
          wok = IsWriteAllowed a \<and> IsWriteAllowed b;
          cok = IsCreateAllowed a \<and> IsCreateAllowed b;
          ret = (if rok \<and> wok then O_RDWR
                 else if rok then O_RDONLY
                 else if wok then O_WRONLY
                 else 0)
      in if cok then ret OR O_CREATE else ret)"

definition MaskPermMode :: "16 word \<Rightarrow> flags \<Rightarrow> 16 word" where
  "MaskPermMode pm f =
     (let pm1 = (if \<not> IsReadAllowed f then pm AND NOT 0x124 else pm)
      in if \<not> IsWriteAllowed f then pm1 AND NOT 0x92 else pm1)"

section \<open>Access modes\<close>

lemma IsReadWriteAllowed_iff: "IsReadWriteAllowed f \<longleftrightarrow> IsReadAllowed f \<and> IsWriteAllowed f"
  by (auto simp: IsReadWriteAllowed_def IsReadAllowed_def IsWriteAllowed_def Let_def flag_defs)

lemma IsWriteAllowed_modes:
  "IsWriteAllowed O_RDWR" "IsWriteAllowed O_WRONLY" "\<not> IsWriteAllowed O_RDONLY"
  "IsWriteAllowed (O_RDWR OR O_CREATE)" "IsWriteAllowed (O_WRONLY OR O_CREATE)"
  "\<not> IsWriteAllowed (O_RDONLY OR O_CREATE)"
  by (simp_all add: IsWriteAllowed_def flag_defs Let_def)

lemma IsReadAllowed_modes:
  "IsReadAllowed O_RDWR" "\<not> IsReadAllowed O_WRONLY" "IsReadAllowed O_RDONLY"
  "IsReadAllowed (O_RDWR OR O_CREATE)" "\<not> IsReadAllowed (O_WRONLY OR O_CREATE)"
  "IsReadAllowed (O_RDONLY OR O_CREATE)"
  by (simp_all add: IsReadAllowed_def flag_defs Let_def)

lemma IsCreateAllowed_modes:
  "\<not> IsCreateAllowed O_RDWR" "\<not> IsCreateAllowed O_WRONLY" "\<not> IsCreateAllowed O_RDONLY"
  "IsCreateAllowed (O_RDWR OR O_CREATE)" "IsCreateAllowed (O_WRONLY OR O_CREATE)"
  "IsCreateAllowed (O_RDONLY OR O_CREATE)"
  by (simp_all add: IsCreateAllowed_def flag_defs Let_def)

lemmas mode_simps [simp] = IsWriteAllowed_modes IsReadAllowed_modes IsCreateAllowed_modes

lemma O_RDWRCREATE_modes [simp]:
  "IsReadAllowed O_RDWRCREATE" "IsWriteAllowed O_RDWRCREATE" "IsCreateAllowed O_RDWRCREATE"
  by (simp_all add: O_RDWRCREATE_def)

lemma zero_is_O_RDONLY: "(0 :: flags) = O_RDONLY"
  by (simp add: flag_defs)

text \<open>
  C27. \<open>Mask a b\<close> allows writing and creating exactly when both arguments do. Reading it
  allows when both do, but also whenever writing is not allowed by both: the access mode that
  stands for "neither" is 0, which is \<open>O_RDONLY\<close>.
\<close>

theorem Mask_modes:
  "(IsWriteAllowed (Mask a b) \<longleftrightarrow> IsWriteAllowed a \<and> IsWriteAllowed b) \<and>
   (IsCreateAllowed (Mask a b) \<longleftrightarrow> IsCreateAllowed a \<and> IsCreateAllowed b) \<and>
   (IsReadAllowed (Mask a b) \<longleftrightarrow>
     (if IsWriteAllowed a \<and> IsWriteAllowed b then IsReadAllowed a \<and> IsReadAllowed b else True))"
  unfolding Mask_def Let_def zero_is_O_RDONLY by auto

lemma Mask_write: "IsWriteAllowed (Mask a b) \<longleftrightarrow> IsWriteAllowed a \<and> IsWriteAllowed b"
  unfolding Mask_def Let_def zero_is_O_RDONLY by auto

end
