(* ===== verification/Blobstore.thy ===== *)
theory Blobstore
  imports Otaru_Prelude Flags File_Write_Cache
begin

text \<open>
  Blob stores (\<open>blobstore/\<close>): the in-memory blob handle and store, the sequential adaptors
  \<open>OffsetReader\<close> and \<open>OffsetWriter\<close>, the path multiplexer \<open>Mux\<close> and the generator of new blob
  paths.

  The locale \<open>blob_handle\<close> is the \<open>BlobHandle\<close> interface as its clients rely on it: positioned
  reads inside the blob deliver its bytes, positioned writes and \<open>Truncate\<close> are those of the
  ideal file. \<open>MemBlobHandle\<close> is shown to satisfy it. Negative offsets, on which the slice
  expressions of the Go code panic, are a panic of the model.
\<close>

section \<open>MemBlobHandle\<close>

record MemBlobHandle =
  Content :: "byte list"

definition NewMemBlobHandle :: MemBlobHandle where
  "NewMemBlobHandle = \<lparr>Content = []\<rparr>"

definition Mem_Size :: "MemBlobHandle \<Rightarrow> int" where
  "Mem_Size bh = int (length (Content bh))"

text \<open>\<open>PRead\<close> gets the length of the buffer and delivers its new contents.\<close>

definition Mem_PRead :: "MemBlobHandle \<Rightarrow> nat \<Rightarrow> int \<Rightarrow> (byte list) result" where
  "Mem_PRead bh n offset =
     (if offset < 0 \<or> offset > Mem_Size bh then Inl EOF
      else if offset + int n > int (length (Content bh)) then Inl EOF
      else Inr (take n (drop (nat offset) (Content bh))))"

text \<open>
  The operations that change the handle return it together with the error they report.
\<close>

definition Mem_Truncate :: "int \<Rightarrow> MemBlobHandle \<Rightarrow> MemBlobHandle \<times> error option" where
  "Mem_Truncate newSize bh =
     (if newSize > Mem_Size bh then
        (bh\<lparr>Content := Content bh @ replicate (nat newSize - length (Content bh)) 0\<rparr>, None)
      else if newSize < 0 then (bh, Some (Panic ''slice bounds out of range''))
      else if newSize < Mem_Size bh then (bh\<lparr>Content := take (nat newSize) (Content bh)\<rparr>, None)
      else (bh, None))"

definition Mem_PWrite :: "MemBlobHandle PWriter" where
  "Mem_PWrite p offset bh =
     (if p = [] then (bh, None)
      else
        (let right = offset + int (length p);
             (bh', _) = (if right > int (length (Content bh)) then Mem_Truncate right bh else (bh, None))
         in if offset < 0 then (bh', Some (Panic ''slice bounds out of range''))
            else (bh'\<lparr>Content :=
                   go_copy (Content bh') (nat offset) (nat offset + length p) p\<rparr>, None)))"

section \<open>MemBlobStore\<close>

type_synonym MemBlobStore = "string \<rightharpoonup> MemBlobHandle"

definition MemBlobStore_Open :: "string \<Rightarrow> flags \<Rightarrow> MemBlobStore \<Rightarrow> MemBlobHandle \<times> MemBlobStore" where
  "MemBlobStore_Open blobpath f bs =
     (case bs blobpath of
        None \<Rightarrow> (NewMemBlobHandle, bs(blobpath \<mapsto> NewMemBlobHandle))
      | Some bh \<Rightarrow> (bh, bs))"

definition MemBlobStore_Flags :: flags where
  "MemBlobStore_Flags = O_RDWR"

section \<open>The BlobHandle interface and the sequential adaptors\<close>

text \<open>
  The operations of the Go interface \<open>BlobHandle\<close>, as a record of functions on the state \<open>'h\<close>
  of the handle.
\<close>

record 'h BlobHandle =
  bh_PRead :: "'h \<Rightarrow> nat \<Rightarrow> int \<Rightarrow> (byte list) result"
  bh_PWrite :: "'h PWriter"
  bh_Size :: "'h \<Rightarrow> int"
  bh_Truncate :: "int \<Rightarrow> 'h \<Rightarrow> 'h \<times> error option"

definition MemBlobHandle_ops :: "MemBlobHandle BlobHandle" where
  "MemBlobHandle_ops =
     \<lparr>bh_PRead = Mem_PRead, bh_PWrite = Mem_PWrite, bh_Size = Mem_Size, bh_Truncate = Mem_Truncate\<rparr>"

text \<open>
  \<open>OffsetReader\<close> and \<open>OffsetWriter\<close> carry a handle and a position. A failing read or write
  leaves the position where it was.
\<close>

type_synonym 'h OffsetIO = "'h \<times> int"

fun OffsetReader_Read :: "'h BlobHandle \<Rightarrow> nat \<Rightarrow> 'h OffsetIO \<Rightarrow> (byte list) result \<times> 'h OffsetIO" where
  "OffsetReader_Read ops n (h, off) =
     (case bh_PRead ops h n off of
        Inl e \<Rightarrow> (Inl e, (h, off))
      | Inr bs \<Rightarrow> (Inr bs, (h, off + int n)))"

fun OffsetWriter_Write :: "'h BlobHandle \<Rightarrow> byte list \<Rightarrow> 'h OffsetIO \<Rightarrow> 'h OffsetIO \<times> error option" where
  "OffsetWriter_Write ops p (h, off) =
     (case bh_PWrite ops p off h of
        (h', Some e) \<Rightarrow> ((h', off), Some e)
      | (h', None) \<Rightarrow> ((h', off + int (length p)), None))"

section \<open>Mux\<close>

text \<open>
  A multiplexer is a list of matchers with a store each; the last entry catches everything.
  A store is represented by its operations that the multiplexer forwards to; an operation a
  store does not implement is \<open>None\<close>.
\<close>

record 'h blob_ops =
  bs_name :: string
  bs_Open :: "(string \<Rightarrow> flags \<Rightarrow> 'h result) option"
  bs_Flags :: "flags option"
  bs_ListBlobs :: "(string list result) option"
  bs_BlobSize :: "(string \<Rightarrow> int result) option"

type_synonym 'h Mux = "((string \<Rightarrow> bool) \<times> 'h blob_ops) list"

fun findBlobStoreFor :: "'h Mux \<Rightarrow> string \<Rightarrow> 'h blob_ops option" where
  "findBlobStoreFor [] blobpath = None"
| "findBlobStoreFor [(matcher, bs)] blobpath = Some bs"
| "findBlobStoreFor ((matcher, bs) # m) blobpath =
     (if matcher blobpath then Some bs else findBlobStoreFor m blobpath)"

definition Mux_Open :: "'h Mux \<Rightarrow> string \<Rightarrow> flags \<Rightarrow> 'h result" where
  "Mux_Open m blobpath f =
     (case findBlobStoreFor m blobpath of
        None \<Rightarrow> Inl ErrEmptyMux
      | Some bs \<Rightarrow>
          (case bs_Open bs of
             None \<Rightarrow> Inl (Fmt ''Backend blobstore don't support Open()'')
           | Some op \<Rightarrow> op blobpath f))"

definition Mux_Flags :: "'h Mux \<Rightarrow> flags" where
  "Mux_Flags m =
     fold (\<lambda>(_, bs) f. case bs_Flags bs of None \<Rightarrow> f | Some g \<Rightarrow> Mask f g) m O_RDWRCREATE"

fun Mux_ListBlobs :: "'h Mux \<Rightarrow> string list result" where
  "Mux_ListBlobs [] = Inr []"
| "Mux_ListBlobs ((matcher, bs) # m) =
     (case bs_ListBlobs bs of
        None \<Rightarrow> Inl (Fmt ''Backend blobstore don't support ListBlobs()'')
      | Some (Inl e) \<Rightarrow> Inl (Fmt ''Backend blobstore failed to ListBlobs'')
      | Some (Inr entries) \<Rightarrow>
          (case Mux_ListBlobs m of Inl e \<Rightarrow> Inl e | Inr rest \<Rightarrow> Inr (entries @ rest)))"

definition Mux_BlobSize :: "'h Mux \<Rightarrow> string \<Rightarrow> int result" where
  "Mux_BlobSize m blobpath =
     (case findBlobStoreFor m blobpath of
        None \<Rightarrow> Inl ErrEmptyMux
      | Some bs \<Rightarrow>
          (case bs_BlobSize bs of
             None \<Rightarrow> Inl (Fmt ''Backend blobstore don't support BlobSize()'')
           | Some op \<Rightarrow> op blobpath))"

section \<open>New blob paths\<close>

text \<open>
  \<open>GenerateNewBlobPath\<close> tries random candidates until one is not in use. The random source is
  the list of the candidates it will produce (the hexadecimal forms); \<open>open_size\<close> is what
  opening a candidate for reading gives: an error, or the size of the blob. Closing the probe
  handle is assumed to succeed, as it does for every handle of the stores modelled here.
\<close>

definition MaxTrial :: nat where
  "MaxTrial = 256"

fun gen_blob_path :: "(string \<Rightarrow> int result) \<Rightarrow> string list \<Rightarrow> nat \<Rightarrow> string result" where
  "gen_blob_path open_size cands 0 = Inl (Fmt ''Failed to generate unique blobpath'')"
| "gen_blob_path open_size [] (Suc k) = Inl (Panic ''random source exhausted'')"
| "gen_blob_path open_size (c # cs) (Suc k) =
     (case open_size c of
        Inl e \<Rightarrow> if e = Errno ENOENT then Inr c else Inl e
      | Inr sz \<Rightarrow> if sz = 0 then Inr c else gen_blob_path open_size cs k)"

definition GenerateNewBlobPath :: "(string \<Rightarrow> int result) \<Rightarrow> string list \<Rightarrow> string result" where
  "GenerateNewBlobPath open_size cands = gen_blob_path open_size cands MaxTrial"

section \<open>The contract of a blob handle\<close>

locale blob_handle =
  fixes ops :: "'h BlobHandle" and content :: "'h \<Rightarrow> byte list" and inv :: "'h \<Rightarrow> bool"
  assumes size_content: "inv h \<Longrightarrow> bh_Size ops h = int (length (content h))"
    and pread_content: "inv h \<Longrightarrow> 0 \<le> off \<Longrightarrow> off + int n \<le> int (length (content h)) \<Longrightarrow>
      bh_PRead ops h n off = Inr (fread (content h) (nat off) n)"
    and pwrite_content: "inv h \<Longrightarrow> 0 \<le> off \<Longrightarrow> off + int (length p) \<le> MaxInt64 \<Longrightarrow>
      \<exists>h'. bh_PWrite ops p off h = (h', None) \<and> inv h' \<and> content h' = fwrite (content h) (nat off) p"
    and truncate_content: "inv h \<Longrightarrow> 0 \<le> sz \<Longrightarrow>
      \<exists>h'. bh_Truncate ops sz h = (h', None) \<and> inv h' \<and> content h' = ftruncate (content h) (nat sz)"
begin

text \<open>What is written is what is read back, whatever lies between.\<close>

lemma read_back:
  assumes "inv h" "0 \<le> off" "off + int (length p) \<le> MaxInt64" "p \<noteq> []"
  shows "\<exists>h'. bh_PWrite ops p off h = (h', None) \<and> bh_PRead ops h' (length p) off = Inr p"
proof -
  obtain h' where h': "bh_PWrite ops p off h = (h', None)" "inv h'" "content h' = fwrite (content h) (nat off) p"
    using pwrite_content assms by blast
  have "off + int (length p) \<le> int (length (content h'))"
    using assms h'(3) by (auto simp: length_fwrite)
  then have "bh_PRead ops h' (length p) off = Inr (fread (content h') (nat off) (length p))"
    using assms h'(2) by (intro pread_content) auto
  then show ?thesis using h' by (simp add: fread_fwrite_same)
qed

text \<open>A sequential writer that starts at the end of the content appends.\<close>

lemma OffsetWriter_appends:
  assumes "inv h" "int (length (content h)) + int (length p) \<le> MaxInt64"
  shows "\<exists>h'. OffsetWriter_Write ops p (h, int (length (content h))) =
      ((h', int (length (content h'))), None) \<and> inv h' \<and> content h' = content h @ p"
proof -
  obtain h' where h': "bh_PWrite ops p (int (length (content h))) h = (h', None)" "inv h'"
    "content h' = fwrite (content h) (length (content h)) p"
    using pwrite_content [of h "int (length (content h))" p] assms by auto
  then show ?thesis by (auto simp: fwrite_append_end)
qed

end

sublocale blob_handle \<subseteq> handle_writer: pwriter "bh_PWrite ops" content inv "\<lambda>_ _. True" MaxInt64
  by unfold_locales (use pwrite_content in auto)

subsection \<open>MemBlobHandle keeps the contract\<close>

lemma Mem_PRead_fread:
  "0 \<le> off \<Longrightarrow> off + int n \<le> int (length (Content bh)) \<Longrightarrow>
   Mem_PRead bh n off = Inr (fread (Content bh) (nat off) n)"
  by (simp add: Mem_PRead_def Mem_Size_def fread_def)

lemma go_copy_fwrite:
  "off + length p \<le> length c \<Longrightarrow> go_copy c off (off + length p) p = fwrite c off p"
  by (simp add: go_copy_def fwrite_def)

lemma fwrite_extend:
  assumes "length c < off + length p" "p \<noteq> []"
  shows "fwrite (c @ replicate (off + length p - length c) 0) off p = fwrite c off p"
  using assms by (intro nth_equalityI) (auto simp: length_fwrite nth_fwrite nth_append)

lemma Mem_PWrite_fwrite:
  assumes "0 \<le> off"
  shows "Mem_PWrite p off bh = (bh\<lparr>Content := fwrite (Content bh) (nat off) p\<rparr>, None)"
proof (cases "p = [] \<or> nat off + length p \<le> length (Content bh)")
  case True
  then show ?thesis
    using assms by (auto simp: Mem_PWrite_def Let_def go_copy_fwrite)
next
  case False
  have "nat (off + int (length p)) = nat off + length p" "int (length (Content bh)) < off + int (length p)"
    using assms False by auto
  with False assms show ?thesis
    by (simp add: Mem_PWrite_def Let_def Mem_Truncate_def Mem_Size_def go_copy_fwrite fwrite_extend)
qed

lemma Mem_Truncate_ftruncate:
  "0 \<le> sz \<Longrightarrow> Mem_Truncate sz bh = (bh\<lparr>Content := ftruncate (Content bh) (nat sz)\<rparr>, None)"
  by (auto simp: Mem_Truncate_def Mem_Size_def ftruncate_def)

interpretation mem: blob_handle MemBlobHandle_ops Content "\<lambda>_. True"
  by unfold_locales
    (auto simp: MemBlobHandle_ops_def Mem_Size_def Mem_PRead_fread Mem_PWrite_fwrite Mem_Truncate_ftruncate)

section \<open>Properties\<close>

subsection \<open>A cached file written back to a blob\<close>

text \<open>A client that writes through the cache, one \<open>(bytes, offset, pool choice)\<close> after the other.\<close>

fun cache_writes ::
    "(byte list \<times> int \<times> nat option) list \<Rightarrow> FileWriteCache \<Rightarrow> pool \<Rightarrow> (FileWriteCache \<times> pool) result" where
  "cache_writes [] wc pl = Inr (wc, pl)"
| "cache_writes ((p, off, pick) # ws) wc pl =
     (case FileWriteCache_PWrite pick p off wc pl of
        Inl e \<Rightarrow> Inl e
      | Inr (wc', pl') \<Rightarrow> cache_writes ws wc' pl')"

definition ideal_writes :: "(byte list \<times> int \<times> nat option) list \<Rightarrow> byte list \<Rightarrow> byte list" where
  "ideal_writes ws c = fold (\<lambda>(p, off, _) d. fwrite d (nat off) p) ws c"

lemma cache_writes_content:
  assumes "wf_patches (wc_ps wc)"
    and "\<forall>(p, off, _) \<in> set ws. 0 \<le> off \<and> off + int (length p) \<le> MaxInt64"
    and "cache_writes ws wc pl = Inr (wc', pl')"
  shows "wf_patches (wc_ps wc') \<and>
    (\<forall>c. apply_patches (wc_ps wc') c = ideal_writes ws (apply_patches (wc_ps wc) c))"
  using assms
proof (induction ws wc pl rule: cache_writes.induct)
  case (2 p off pick ws wc pl)
  then obtain wc1 pl1 where one: "FileWriteCache_PWrite pick p off wc pl = Inr (wc1, pl1)"
    by (auto split: sum.splits)
  have "wf_patches (wc_ps wc1)"
    "\<forall>c. apply_patches (wc_ps wc1) c = fwrite (apply_patches (wc_ps wc) c) (nat off) p"
    using PWrite_cases [of wc off p pl pick] 2(2,3) one by auto
  with 2 one show ?case by (simp add: ideal_writes_def)
qed (simp add: ideal_writes_def)

lemma Sync_blob:
  assumes "wf_patches (wc_ps wc)"
  shows "\<exists>bh' pl'. FileWriteCache_Sync Mem_PWrite wc pl bh = ((FileWriteCache_New, pl', bh'), None) \<and>
    Content bh' = apply_patches (wc_ps wc) (Content bh)"
proof -
  have "bh_PWrite MemBlobHandle_ops = Mem_PWrite" by (simp add: MemBlobHandle_ops_def)
  then obtain bh' where "sync_loop Mem_PWrite (wc_ps wc) None (-1) bh = (bh', None)"
    "Content bh' = apply_patches (wc_ps wc) (Content bh)"
    using mem.handle_writer.sync_content [of "wc_ps wc" bh] assms wf_patches_end [OF assms] by auto
  then show ?thesis
    by (auto simp: FileWriteCache_Sync_def Patches_Reset_def FileWriteCache_New_def NewPatches_def)
qed



subsection \<open>Choosing a store, choosing a path\<close>

lemma gen_blob_path_unused:
  "gen_blob_path open_size cands k = Inr c \<Longrightarrow>
   c \<in> set (take k cands) \<and> (open_size c = Inl (Errno ENOENT) \<or> open_size c = Inr 0)"
  by (induction open_size cands k rule: gen_blob_path.induct) (auto split: sum.splits if_splits)

text \<open>
  C25. A path that \<open>GenerateNewBlobPath\<close> returns is one of the first \<open>MaxTrial\<close> random candidates and
  names no blob, or an empty one: a generated path never collides with stored data.
\<close>

theorem GenerateNewBlobPath_unused:
  assumes "GenerateNewBlobPath open_size cands = Inr c"
  shows "c \<in> set (take MaxTrial cands) \<and> (open_size c = Inl (Errno ENOENT) \<or> open_size c = Inr 0)"
  using assms unfolding GenerateNewBlobPath_def by (rule gen_blob_path_unused)

theorem GenerateNewBlobPath_unused_witness:
  "''b'' \<in> set (take MaxTrial [''a'', ''b'']) \<and>
   ((if ''b'' = ''a'' then Inr 7 else Inl (Errno ENOENT)) = (Inl (Errno ENOENT) :: int result) \<or>
    (if ''b'' = ''a'' then Inr 7 else Inl (Errno ENOENT)) = (Inr 0 :: int result))"
  by (rule GenerateNewBlobPath_unused [of "\<lambda>c. if c = ''a'' then Inr 7 else Inl (Errno ENOENT)"])
    (simp add: GenerateNewBlobPath_def MaxTrial_def numeral_eq_Suc)

end
