(* ===== verification/File_Blobstore.thy ===== *)
theory File_Blobstore
  imports Blobstore "HOL-Library.Finite_Map"
begin

text \<open>
  Blobs in the files of one directory (\<open>blobstore/fileblobstore.go\<close>).

  The regular files of the base directory are a finite map from names to contents. System calls on
  that directory behave as documented and do not fail for other reasons (no I/O errors); what
  the flags of the store and of a call do and do not permit is modelled. An open file is its
  content and whether it was opened for writing. Listings come in the order given by an argument,
  as \<open>Readdir\<close> leaves it open.
\<close>

section \<open>Open files\<close>

record FileBlobHandle =
  fh_content :: "byte list"
  fh_readable :: bool
  fh_writable :: bool

definition File_PRead :: "FileBlobHandle \<Rightarrow> nat \<Rightarrow> int \<Rightarrow> (byte list) result" where
  "File_PRead h n offset =
     (if n = 0 then Inr []
      else if \<not> fh_readable h then Inl (Errno EBADF)
      else if offset < 0 then Inl (Fmt ''negative offset'')
      else if offset + int n > int (length (fh_content h)) then Inl EOF
      else Inr (take n (drop (nat offset) (fh_content h))))"

definition File_PWrite :: "FileBlobHandle PWriter" where
  "File_PWrite p offset h =
     (if offset < 0 then (h, Some (Fmt ''negative offset''))
      else if p = [] then (h, None)
      else if \<not> fh_writable h then (h, Some (Errno EBADF))
      else (h\<lparr>fh_content := fwrite (fh_content h) (nat offset) p\<rparr>, None))"

definition File_Size :: "FileBlobHandle \<Rightarrow> int" where
  "File_Size h = int (length (fh_content h))"

definition File_Truncate :: "int \<Rightarrow> FileBlobHandle \<Rightarrow> FileBlobHandle \<times> error option" where
  "File_Truncate sz h =
     (if sz < 0 \<or> \<not> fh_writable h then (h, Some (Fmt ''invalid argument''))
      else (h\<lparr>fh_content := ftruncate (fh_content h) (nat sz)\<rparr>, None))"

definition FileBlobHandle_ops :: "FileBlobHandle BlobHandle" where
  "FileBlobHandle_ops =
     \<lparr>bh_PRead = File_PRead, bh_PWrite = File_PWrite, bh_Size = File_Size, bh_Truncate = File_Truncate\<rparr>"

section \<open>The store\<close>

record 'b FileBlobStore =
  fbs_files :: "(string, 'b) fmap"
  fbs_flags :: flags
  fbs_fmask :: flags

unbundle bit_operations_syntax

definition FileBlobStore_SetFlags :: "flags \<Rightarrow> 'b FileBlobStore \<Rightarrow> 'b FileBlobStore" where
  "FileBlobStore_SetFlags f fbs =
     fbs\<lparr>fbs_fmask := (if IsWriteAllowed f then O_RDONLY OR O_WRONLY OR O_RDWR OR O_CREATE OR O_EXCL
                       else O_RDONLY),
         fbs_flags := f\<rparr>"

definition NewFileBlobStore :: "(string, 'b) fmap \<Rightarrow> flags \<Rightarrow> 'b FileBlobStore" where
  "NewFileBlobStore files f =
     FileBlobStore_SetFlags f \<lparr>fbs_files = files, fbs_flags = 0, fbs_fmask = 0\<rparr>"

text \<open>
  \<open>Open\<close> passes the masked flags to \<open>os.OpenFile\<close>, which creates a missing file when asked to.
\<close>

definition FileBlobStore_Open ::
    "string \<Rightarrow> flags \<Rightarrow> (byte list) FileBlobStore \<Rightarrow> FileBlobHandle result \<times> (byte list) FileBlobStore" where
  "FileBlobStore_Open blobpath f fbs =
     (let g = f AND fbs_fmask fbs;
          handle = (\<lambda>c. \<lparr>fh_content = c, fh_readable = IsReadAllowed g, fh_writable = IsWriteAllowed g\<rparr>)
      in case fmlookup (fbs_files fbs) blobpath of
           Some c \<Rightarrow>
             if g AND O_CREATE \<noteq> 0 \<and> g AND O_EXCL \<noteq> 0 then (Inl (Fmt ''file exists''), fbs)
             else (Inr (handle c), fbs)
         | None \<Rightarrow>
             if g AND O_CREATE = 0 then (Inl (Errno ENOENT), fbs)
             else (Inr (handle []), fbs\<lparr>fbs_files := fmupd blobpath [] (fbs_files fbs)\<rparr>))"

definition FileBlobStore_Flags :: "'b FileBlobStore \<Rightarrow> flags" where
  "FileBlobStore_Flags fbs = fbs_flags fbs"

text \<open>
  A blob written through \<open>OpenWriter\<close> and closed, and one read to its end through \<open>OpenReader\<close>.
\<close>

definition FileBlobStore_WriteBlob :: "string \<Rightarrow> 'b \<Rightarrow> 'b FileBlobStore \<Rightarrow> error option \<times> 'b FileBlobStore" where
  "FileBlobStore_WriteBlob blobpath b fbs =
     (if \<not> IsWriteAllowed (fbs_flags fbs) then (Some (Errno EACCES), fbs)
      else (None, fbs\<lparr>fbs_files := fmupd blobpath b (fbs_files fbs)\<rparr>))"

definition FileBlobStore_ReadBlob :: "string \<Rightarrow> 'b FileBlobStore \<Rightarrow> 'b result" where
  "FileBlobStore_ReadBlob blobpath fbs =
     (if \<not> IsReadAllowed (fbs_flags fbs) then Inl (Errno EACCES)
      else case fmlookup (fbs_files fbs) blobpath of
          None \<Rightarrow> Inl (Errno ENOENT)
        | Some b \<Rightarrow> Inr b)"

definition FileBlobStore_ListBlobs :: "((string, 'b) fmap \<Rightarrow> string list) \<Rightarrow> 'b FileBlobStore \<Rightarrow> string list result" where
  "FileBlobStore_ListBlobs readdir fbs = Inr (readdir (fbs_files fbs))"

definition FileBlobStore_BlobSize :: "string \<Rightarrow> (byte list) FileBlobStore \<Rightarrow> int result" where
  "FileBlobStore_BlobSize blobpath fbs =
     (case fmlookup (fbs_files fbs) blobpath of
        None \<Rightarrow> Inl (Errno ENOENT)
      | Some c \<Rightarrow> Inr (int (length c)))"

definition FileBlobStore_RemoveBlob :: "string \<Rightarrow> 'b FileBlobStore \<Rightarrow> error option \<times> 'b FileBlobStore" where
  "FileBlobStore_RemoveBlob blobpath fbs =
     (if \<not> IsWriteAllowed (fbs_flags fbs) then (Some (Errno EACCES), fbs)
      else case fmlookup (fbs_files fbs) blobpath of
          None \<Rightarrow> (Some (Errno ENOENT), fbs)
        | Some _ \<Rightarrow> (None, fbs\<lparr>fbs_files := fmdrop blobpath (fbs_files fbs)\<rparr>))"

definition FileBlobStore_TotalSize ::
    "((string, byte list) fmap \<Rightarrow> string list) \<Rightarrow> (byte list) FileBlobStore \<Rightarrow> int result" where
  "FileBlobStore_TotalSize readdir fbs =
     Inr (fold (\<lambda>bp total. wrap64 (total + (case fmlookup (fbs_files fbs) bp of None \<Rightarrow> 0 | Some c \<Rightarrow> int (length c))))
            (readdir (fbs_files fbs)) 0)"

section \<open>Its contract\<close>

interpretation file_handle: blob_handle FileBlobHandle_ops fh_content "\<lambda>h. fh_readable h \<and> fh_writable h"
  by unfold_locales
    (auto simp: FileBlobHandle_ops_def File_Size_def File_PRead_def File_PWrite_def File_Truncate_def fread_def)

text \<open>A store that may not be written hands out no writable file and creates none.\<close>

lemma and_zero_write: "\<not> IsWriteAllowed (f AND O_RDONLY)" "(f AND O_RDONLY) AND O_CREATE = 0"
  by (simp_all add: O_RDONLY_def IsWriteAllowed_def O_ACCMODE_def O_WRONLY_def O_RDWR_def)

text \<open>
  C24. A file blob store whose flags do not allow writing stays as it is under every operation: no
  handle it opens is writable, no file is created, written or removed.
\<close>

theorem read_only_FileBlobStore:
  assumes "\<not> IsWriteAllowed f" "fbs = NewFileBlobStore files f"
  shows "snd (FileBlobStore_Open blobpath g fbs) = fbs \<and>
    (case fst (FileBlobStore_Open blobpath g fbs) of Inl e \<Rightarrow> True | Inr h \<Rightarrow> fst (File_PWrite p off h) = h) \<and>
    FileBlobStore_WriteBlob blobpath b fbs = (Some (Errno EACCES), fbs) \<and>
    FileBlobStore_RemoveBlob blobpath fbs = (Some (Errno EACCES), fbs)"
  using assms and_zero_write
  by (auto simp: NewFileBlobStore_def FileBlobStore_SetFlags_def FileBlobStore_Open_def
      FileBlobStore_WriteBlob_def FileBlobStore_RemoveBlob_def File_PWrite_def Let_def
      split: option.splits)

theorem read_only_FileBlobStore_witness:
  "snd (FileBlobStore_Open ''a'' O_RDWRCREATE (NewFileBlobStore fmempty O_RDONLY)) = NewFileBlobStore fmempty O_RDONLY"
  using read_only_FileBlobStore [of O_RDONLY _ fmempty "''a''" O_RDWRCREATE "[]" 0 "[]"] by simp

end
