(* ===== verification/Inode_DB.thy ===== *)
theory Inode_DB
  imports Otaru_Prelude "HOL-Library.Finite_Map"
begin

text \<open>
  The inode database (\<open>inodedb/inodedb.go\<close>, \<open>inodedb/api.go\<close>, \<open>inodedb/dboperation.go\<close>): nodes,
  node locks, the state \<open>DBState\<close> and the operations that transactions are made of.

  \<^item> \<open>uint64\<close> identifiers and tickets are \<open>nat\<close> with the wrap-around of the two increments written
    out; transaction ids are \<open>int\<close>; the Go maps are finite maps.
  \<^item> \<open>Apply\<close> is the dispatch of \<open>DBOperation.Apply\<close>. Every operation of the source checks
    everything it checks before it changes the state, so an operation is a function to
    \<open>DBState result\<close>. \<open>time.Now()\<close> is an argument.
  \<^item> A Go node is a pointer held in the \<open>nodes\<close> map under its id. Updating a node through the
    pointer is updating the map at that id; \<open>RenameOp\<close>, where up to three pointers may be the
    same node, is written as the sequence of such updates.
  \<^item> \<open>db_ok\<close> is the invariant of the database: nodes are stored under their own id, every directory
    entry points to a node, no id exceeds \<open>lastID\<close>, the root is a directory, and locks are
    stored under the id they lock with a ticket that has been handed out.
\<close>

section \<open>Data\<close>

type_synonym ID = nat
type_synonym Ticket = nat
type_synonym TxID = int

definition AllocateNewNodeID :: ID where "AllocateNewNodeID = 0"
definition RootDirID :: ID where "RootDirID = 1"
definition NoTicket :: Ticket where "NoTicket = 0"
definition LatestVersion :: TxID where "LatestVersion = MaxInt64"
definition AnyVersion :: TxID where "AnyVersion = 0"
definition FileNodeT :: int where "FileNodeT = 0"
definition DirNodeT :: int where "DirNodeT = 1"

definition TypeName :: "int \<Rightarrow> string" where
  "TypeName t =
     (if t = FileNodeT then ''file'' else if t = DirNodeT then ''dir'' else ''<unknown type>'')"

record FileChunk =
  fc_Offset :: int
  fc_Length :: int
  fc_BlobPath :: string

definition FileChunk_Left :: "FileChunk \<Rightarrow> int" where
  "FileChunk_Left fc = fc_Offset fc"

definition FileChunk_Right :: "FileChunk \<Rightarrow> int" where
  "FileChunk_Right fc = wrap64 (fc_Offset fc + fc_Length fc)"

record INodeCommon =
  nc_ID :: ID
  nc_OrigPath :: string
  nc_Uid :: "32 word"
  nc_Gid :: "32 word"
  nc_PermMode :: "16 word"
  nc_ModifiedT :: time

datatype INode =
    FileNode (common: INodeCommon) (fn_Size: int) (fn_Chunks: "FileChunk list")
  | DirNode (common: INodeCommon) (dn_ParentID: ID) (dn_Entries: "(string, ID) fmap")

definition GetID :: "INode \<Rightarrow> ID" where
  "GetID n = nc_ID (common n)"

definition GetType :: "INode \<Rightarrow> int" where
  "GetType n = (case n of FileNode _ _ _ \<Rightarrow> FileNodeT | DirNode _ _ _ \<Rightarrow> DirNodeT)"

text \<open>\<open>View\<close> copies a node; the copy holds the same values.\<close>

type_synonym NodeView = INode

definition View :: "INode \<Rightarrow> NodeView" where
  "View n = (case n of FileNode c sz cs \<Rightarrow> FileNode c sz cs | DirNode c p es \<Rightarrow> DirNode c p es)"

record NodeLock =
  nl_ID :: ID
  nl_Ticket :: Ticket

definition HasTicket :: "NodeLock \<Rightarrow> bool" where
  "HasTicket nlock = (nl_Ticket nlock \<noteq> NoTicket)"

record DBState =
  nodes :: "(ID, INode) fmap"
  lastID :: ID
  version :: TxID
  lastTicket :: Ticket
  nodeLocks :: "(ID, NodeLock) fmap"

definition NewDBState :: DBState where
  "NewDBState = \<lparr>nodes = fmempty, lastID = 0, version = 0, lastTicket = 1, nodeLocks = fmempty\<rparr>"

definition addNewNode :: "INode \<Rightarrow> DBState \<Rightarrow> DBState result" where
  "addNewNode node s =
     (let nid = GetID node in
      if fmlookup (nodes s) nid \<noteq> None then Inl (Fmt ''Node already exists'')
      else if nid < lastID s then Inl (Fmt ''ID may be being reused'')
      else Inr (s\<lparr>nodes := fmupd nid node (nodes s), lastID := nid\<rparr>))"

definition checkLock :: "NodeLock \<Rightarrow> bool \<Rightarrow> DBState \<Rightarrow> error option" where
  "checkLock nlock requireTicket s =
     (if requireTicket \<and> nl_Ticket nlock = NoTicket then Some ErrLockInvalid
      else case fmlookup (nodeLocks s) (nl_ID nlock) of
          Some existing \<Rightarrow> if nlock \<noteq> existing then Some ErrLockTaken else None
        | None \<Rightarrow> None)"

section \<open>Operations\<close>

datatype DBOperation =
    InitializeFileSystemOp
  | CreateNodeOp NodeLock (op_OrigPath: string) (op_Type: int) (op_ParentID: ID)
      (op_Uid: "32 word") (op_Gid: "32 word") (op_PermMode: "16 word") (op_ModifiedT: time)
  | HardLinkOp NodeLock (op_Name: string) (op_TargetID: ID)
  | UpdateChunksOp NodeLock (op_Chunks: "FileChunk list")
  | UpdateSizeOp NodeLock (op_Size: int)
  | UpdateUidOp ID "32 word"
  | UpdateGidOp ID "32 word"
  | UpdatePermModeOp ID "16 word"
  | UpdateModifiedTOp ID time
  | RenameOp ID string ID string
  | RemoveOp NodeLock string
  | AlwaysFailForTestingOp

text \<open>Writing through the pointer of the node stored under an id.\<close>

definition set_node :: "ID \<Rightarrow> INode \<Rightarrow> DBState \<Rightarrow> DBState" where
  "set_node nid n s = s\<lparr>nodes := fmupd nid n (nodes s)\<rparr>"

definition upd_node :: "ID \<Rightarrow> (INode \<Rightarrow> INode) \<Rightarrow> DBState \<Rightarrow> DBState" where
  "upd_node nid f s = (case fmlookup (nodes s) nid of None \<Rightarrow> s | Some n \<Rightarrow> set_node nid (f n) s)"

fun upd_common :: "(INodeCommon \<Rightarrow> INodeCommon) \<Rightarrow> INode \<Rightarrow> INode" where
  "upd_common f (FileNode c sz cs) = FileNode (f c) sz cs"
| "upd_common f (DirNode c p es) = DirNode (f c) p es"

fun upd_entries :: "((string, ID) fmap \<Rightarrow> (string, ID) fmap) \<Rightarrow> INode \<Rightarrow> INode" where
  "upd_entries f (FileNode c sz cs) = FileNode c sz cs"
| "upd_entries f (DirNode c p es) = DirNode c p (f es)"

fun upd_parent :: "ID \<Rightarrow> INode \<Rightarrow> INode" where
  "upd_parent q (FileNode c sz cs) = FileNode c sz cs"
| "upd_parent q (DirNode c p es) = DirNode c q es"

definition touch :: "time \<Rightarrow> INode \<Rightarrow> INode" where
  "touch now = upd_common (\<lambda>c. c\<lparr>nc_ModifiedT := now\<rparr>)"

definition InitializeFileSystemOp_Apply :: "time \<Rightarrow> DBState \<Rightarrow> DBState result" where
  "InitializeFileSystemOp_Apply now s =
     (if nodes s \<noteq> fmempty then Inl (Fmt ''DB not empty'')
      else if lastID s \<noteq> 0 then Inl (Fmt ''DB lastId != 0'')
      else
        (let n = DirNode \<lparr>nc_ID = RootDirID, nc_OrigPath = ''/'', nc_Uid = 0, nc_Gid = 0,
                         nc_PermMode = 0x1FF, nc_ModifiedT = now\<rparr> RootDirID fmempty
         in case addNewNode n s of
             Inl e \<Rightarrow> Inl (Fmt ''Failed to create root DirNode'')
           | Inr s' \<Rightarrow> Inr (s'\<lparr>lastID := 1\<rparr>)))"

definition CreateNodeOp_Apply ::
    "NodeLock \<Rightarrow> string \<Rightarrow> int \<Rightarrow> ID \<Rightarrow> 32 word \<Rightarrow> 32 word \<Rightarrow> 16 word \<Rightarrow> time \<Rightarrow> DBState \<Rightarrow> DBState result" where
  "CreateNodeOp_Apply nlock origpath t parent uid gid perm now s =
     (case checkLock nlock True s of
        Some e \<Rightarrow> Inl e
      | None \<Rightarrow>
          (let c = \<lparr>nc_ID = nl_ID nlock, nc_OrigPath = origpath, nc_Uid = uid, nc_Gid = gid,
                    nc_PermMode = perm, nc_ModifiedT = now\<rparr>;
               add = (\<lambda>n. case addNewNode n s of
                            Inl e \<Rightarrow> Inl (Fmt ''Failed to create new DirNode'')
                          | Inr s' \<Rightarrow> Inr s')
           in if t = FileNodeT then add (FileNode c 0 [])
              else if t = DirNodeT then add (DirNode c parent fmempty)
              else Inl (Fmt ''Unknown node type specified to CreateNodeOp'')))"

definition HardLinkOp_Apply :: "NodeLock \<Rightarrow> string \<Rightarrow> ID \<Rightarrow> time \<Rightarrow> DBState \<Rightarrow> DBState result" where
  "HardLinkOp_Apply nlock name target now s =
     (case checkLock nlock False s of
        Some e \<Rightarrow> Inl e
      | None \<Rightarrow>
          (case fmlookup (nodes s) (nl_ID nlock) of
             None \<Rightarrow> Inl (Errno ENOENT)
           | Some (FileNode _ _ _) \<Rightarrow> Inl (Errno ENOTDIR)
           | Some (DirNode c p es) \<Rightarrow>
               if fmlookup (nodes s) target = None then Inl (Errno ENOENT)
               else if fmlookup es name \<noteq> None then Inl (Errno EEXIST)
               else Inr (set_node (nl_ID nlock) (touch now (DirNode c p (fmupd name target es))) s)))"

definition UpdateChunksOp_Apply :: "NodeLock \<Rightarrow> FileChunk list \<Rightarrow> DBState \<Rightarrow> DBState result" where
  "UpdateChunksOp_Apply nlock chunks s =
     (case checkLock nlock True s of
        Some e \<Rightarrow> Inl e
      | None \<Rightarrow>
          (case fmlookup (nodes s) (nl_ID nlock) of
             None \<Rightarrow> Inl (Errno ENOENT)
           | Some (FileNode c sz cs) \<Rightarrow> Inr (set_node (nl_ID nlock) (FileNode c sz chunks) s)
           | Some (DirNode _ _ _) \<Rightarrow> Inl (Fmt ''UpdateChunksOp specified node was not file node'')))"

definition UpdateSizeOp_Apply :: "NodeLock \<Rightarrow> int \<Rightarrow> time \<Rightarrow> DBState \<Rightarrow> DBState result" where
  "UpdateSizeOp_Apply nlock sz' now s =
     (case checkLock nlock True s of
        Some e \<Rightarrow> Inl e
      | None \<Rightarrow>
          (case fmlookup (nodes s) (nl_ID nlock) of
             None \<Rightarrow> Inl (Errno ENOENT)
           | Some (FileNode c sz cs) \<Rightarrow>
               Inr (set_node (nl_ID nlock) (touch now (FileNode c sz' cs)) s)
           | Some (DirNode _ _ _) \<Rightarrow> Inl (Fmt ''UpdateChunksOp specified node was not file node'')))"

text \<open>The four operations that set one attribute, of a file or of a directory.\<close>

definition update_common :: "ID \<Rightarrow> (INodeCommon \<Rightarrow> INodeCommon) \<Rightarrow> DBState \<Rightarrow> DBState result" where
  "update_common nid f s =
     (case fmlookup (nodes s) nid of
        None \<Rightarrow> Inl (Errno ENOENT)
      | Some n \<Rightarrow> Inr (set_node nid (upd_common f n) s))"

definition UpdateUidOp_Apply :: "ID \<Rightarrow> 32 word \<Rightarrow> DBState \<Rightarrow> DBState result" where
  "UpdateUidOp_Apply nid uid = update_common nid (\<lambda>c. c\<lparr>nc_Uid := uid\<rparr>)"

definition UpdateGidOp_Apply :: "ID \<Rightarrow> 32 word \<Rightarrow> DBState \<Rightarrow> DBState result" where
  "UpdateGidOp_Apply nid gid = update_common nid (\<lambda>c. c\<lparr>nc_Gid := gid\<rparr>)"

definition UpdatePermModeOp_Apply :: "ID \<Rightarrow> 16 word \<Rightarrow> DBState \<Rightarrow> DBState result" where
  "UpdatePermModeOp_Apply nid pm = update_common nid (\<lambda>c. c\<lparr>nc_PermMode := pm\<rparr>)"

definition UpdateModifiedTOp_Apply :: "ID \<Rightarrow> time \<Rightarrow> DBState \<Rightarrow> DBState result" where
  "UpdateModifiedTOp_Apply nid t = update_common nid (\<lambda>c. c\<lparr>nc_ModifiedT := t\<rparr>)"

text \<open>
  \<open>RenameOp\<close>: after the checks, the moved node's parent, the source directory and the target
  directory are updated in this order.
\<close>

definition RenameOp_Apply :: "ID \<Rightarrow> string \<Rightarrow> ID \<Rightarrow> string \<Rightarrow> time \<Rightarrow> DBState \<Rightarrow> DBState result" where
  "RenameOp_Apply srcdir srcname dstdir dstname now s =
     (case checkLock \<lparr>nl_ID = srcdir, nl_Ticket = NoTicket\<rparr> False s of
        Some e \<Rightarrow> Inl e
      | None \<Rightarrow>
      (case checkLock \<lparr>nl_ID = dstdir, nl_Ticket = NoTicket\<rparr> False s of
        Some e \<Rightarrow> Inl e
      | None \<Rightarrow>
      (case fmlookup (nodes s) srcdir of
        None \<Rightarrow> Inl (Errno ENOENT)
      | Some srcn \<Rightarrow>
      (case fmlookup (nodes s) dstdir of
        None \<Rightarrow> Inl (Errno ENOENT)
      | Some dstn \<Rightarrow>
      (case (srcn, dstn) of
        (DirNode sc sp ses, DirNode dc dp des) \<Rightarrow>
          (case fmlookup ses srcname of
             None \<Rightarrow> Inl (Errno ENOENT)
           | Some nid \<Rightarrow>
               if srcdir = dstdir \<and> srcname = dstname then Inr s
               else if fmlookup (nodes s) nid = None
               then Inl (Fmt ''Rename target node id do not exist! Filesystem INodeDB corrupted?'')
               else Inr (upd_node dstdir (\<lambda>n. touch now (upd_entries (fmupd dstname nid) n))
                          (upd_node srcdir (\<lambda>n. touch now (upd_entries (fmdrop srcname) n))
                            (upd_node nid (upd_parent dstdir) s))))
      | _ \<Rightarrow> Inl (Errno ENOTDIR))))))"

definition RemoveOp_Apply :: "NodeLock \<Rightarrow> string \<Rightarrow> time \<Rightarrow> DBState \<Rightarrow> DBState result" where
  "RemoveOp_Apply nlock name now s =
     (case checkLock nlock False s of
        Some e \<Rightarrow> Inl e
      | None \<Rightarrow>
          (case fmlookup (nodes s) (nl_ID nlock) of
             None \<Rightarrow> Inl (Errno ENOENT)
           | Some (FileNode _ _ _) \<Rightarrow> Inl (Errno ENOTDIR)
           | Some (DirNode c p es) \<Rightarrow>
               (case fmlookup es name of
                  None \<Rightarrow> Inl (Errno ENOENT)
                | Some tgtid \<Rightarrow>
                    if (case fmlookup (nodes s) tgtid of
                          Some (DirNode _ _ tes) \<Rightarrow> tes \<noteq> fmempty
                        | _ \<Rightarrow> False)
                    then Inl (Errno ENOTEMPTY)
                    else Inr (set_node (nl_ID nlock) (touch now (DirNode c p (fmdrop name es))) s))))"

fun Apply :: "time \<Rightarrow> DBOperation \<Rightarrow> DBState \<Rightarrow> DBState result" where
  "Apply now InitializeFileSystemOp s = InitializeFileSystemOp_Apply now s"
| "Apply now (CreateNodeOp nlock origpath t parent uid gid perm modt) s =
     CreateNodeOp_Apply nlock origpath t parent uid gid perm now s"
| "Apply now (HardLinkOp nlock name target) s = HardLinkOp_Apply nlock name target now s"
| "Apply now (UpdateChunksOp nlock chunks) s = UpdateChunksOp_Apply nlock chunks s"
| "Apply now (UpdateSizeOp nlock sz) s = UpdateSizeOp_Apply nlock sz now s"
| "Apply now (UpdateUidOp nid uid) s = UpdateUidOp_Apply nid uid s"
| "Apply now (UpdateGidOp nid gid) s = UpdateGidOp_Apply nid gid s"
| "Apply now (UpdatePermModeOp nid pm) s = UpdatePermModeOp_Apply nid pm s"
| "Apply now (UpdateModifiedTOp nid t) s = UpdateModifiedTOp_Apply nid t s"
| "Apply now (RenameOp srcdir srcname dstdir dstname) s =
     RenameOp_Apply srcdir srcname dstdir dstname now s"
| "Apply now (RemoveOp nlock name) s = RemoveOp_Apply nlock name now s"
| "Apply now AlwaysFailForTestingOp s = Inl (Fmt ''Forced fail for testing'')"

section \<open>The invariant\<close>

definition entries_of :: "INode \<Rightarrow> (string, ID) fmap" where
  "entries_of n = (case n of FileNode _ _ _ \<Rightarrow> fmempty | DirNode _ _ es \<Rightarrow> es)"

definition is_dir :: "INode \<Rightarrow> bool" where
  "is_dir n = (case n of FileNode _ _ _ \<Rightarrow> False | DirNode _ _ _ \<Rightarrow> True)"

definition node_ok :: "DBState \<Rightarrow> ID \<Rightarrow> INode \<Rightarrow> bool" where
  "node_ok s i n \<longleftrightarrow> GetID n = i \<and> 0 < i \<and> i \<le> lastID s \<and>
     fmpred (\<lambda>_ c. fmlookup (nodes s) c \<noteq> None) (entries_of n)"

definition lock_ok :: "DBState \<Rightarrow> ID \<Rightarrow> NodeLock \<Rightarrow> bool" where
  "lock_ok s i l \<longleftrightarrow> nl_ID l = i \<and> NoTicket < nl_Ticket l \<and> nl_Ticket l \<le> lastTicket s"

definition root_ok :: "DBState \<Rightarrow> bool" where
  "root_ok s \<longleftrightarrow> (case fmlookup (nodes s) RootDirID of None \<Rightarrow> False | Some n \<Rightarrow> is_dir n)"

definition tickets_ok :: "DBState \<Rightarrow> bool" where
  "tickets_ok s \<longleftrightarrow>
     fmpred (\<lambda>i l. fmpred (\<lambda>j m. nl_Ticket l = nl_Ticket m \<longrightarrow> i = j) (nodeLocks s)) (nodeLocks s)"

definition db_ok :: "DBState \<Rightarrow> bool" where
  "db_ok s \<longleftrightarrow> fmpred (node_ok s) (nodes s) \<and> root_ok s \<and>
     fmpred (lock_ok s) (nodeLocks s) \<and> tickets_ok s"

subsection \<open>Updates of one node\<close>

lemma upd_common_simps [simp]:
  "entries_of (upd_common f n) = entries_of n" "is_dir (upd_common f n) = is_dir n"
  "common (upd_common f n) = f (common n)"
  by (cases n; simp add: entries_of_def is_dir_def)+

lemma touch_simps [simp]:
  "entries_of (touch now n) = entries_of n" "is_dir (touch now n) = is_dir n" "GetID (touch now n) = GetID n"
  by (simp_all add: touch_def GetID_def)

lemma upd_entries_simps [simp]:
  "is_dir (upd_entries g n) = is_dir n" "GetID (upd_entries g n) = GetID n"
  "entries_of (upd_entries g n) = (if is_dir n then g (entries_of n) else entries_of n)"
  by (cases n; simp add: entries_of_def is_dir_def GetID_def)+

lemma upd_parent_simps [simp]:
  "is_dir (upd_parent q n) = is_dir n" "GetID (upd_parent q n) = GetID n"
  "entries_of (upd_parent q n) = entries_of n"
  by (cases n; simp add: entries_of_def is_dir_def GetID_def)+

lemma set_node_simps [simp]:
  "nodes (set_node i n s) = fmupd i n (nodes s)" "lastID (set_node i n s) = lastID s"
  "version (set_node i n s) = version s" "lastTicket (set_node i n s) = lastTicket s"
  "nodeLocks (set_node i n s) = nodeLocks s"
  by (simp_all add: set_node_def)

lemma upd_node_simps [simp]:
  "fmlookup (nodes (upd_node i f s)) j =
     (if i = j then map_option f (fmlookup (nodes s) i) else fmlookup (nodes s) j)"
  "lastID (upd_node i f s) = lastID s" "version (upd_node i f s) = version s"
  "lastTicket (upd_node i f s) = lastTicket s" "nodeLocks (upd_node i f s) = nodeLocks s"
  by (auto simp: upd_node_def split: option.splits)

text \<open>Replacing a node by one of the same id and kind, with entries that point to nodes.\<close>

lemma set_node_ok:
  assumes "db_ok s" "fmlookup (nodes s) i = Some n" "GetID m = i" "is_dir m = is_dir n"
    and "fmpred (\<lambda>_ c. fmlookup (nodes s) c \<noteq> None) (entries_of m)"
  shows "db_ok (set_node i m s)"
proof -
  have "node_ok s i n" using assms(1,2) by (auto simp: db_ok_def fmpred_iff)
  moreover have "fmlookup (nodes (set_node i m s)) c \<noteq> None \<longleftrightarrow> fmlookup (nodes s) c \<noteq> None" for c
    using assms(2) by auto
  ultimately show ?thesis
    using assms by (auto simp: db_ok_def fmpred_iff node_ok_def root_ok_def lock_ok_def tickets_ok_def
        split: option.splits if_splits)
qed

lemma upd_node_ok:
  assumes "db_ok s" "\<And>n. fmlookup (nodes s) i = Some n \<Longrightarrow>
      GetID (f n) = i \<and> is_dir (f n) = is_dir n \<and>
      fmpred (\<lambda>_ c. fmlookup (nodes s) c \<noteq> None) (entries_of (f n))"
  shows "db_ok (upd_node i f s)"
  using assms set_node_ok [of s i] by (auto simp: upd_node_def split: option.splits)

lemma db_okD:
  assumes "db_ok s" "fmlookup (nodes s) i = Some n"
  shows "GetID n = i" "0 < i" "i \<le> lastID s" "fmpred (\<lambda>_ c. fmlookup (nodes s) c \<noteq> None) (entries_of n)"
  using assms by (auto simp: db_ok_def fmpred_iff node_ok_def)

lemma addNewNode_ok:
  assumes ok: "db_ok s" and add: "addNewNode n s = Inr s'" and es: "entries_of n = fmempty"
  shows "db_ok s'"
proof -
  have s': "s' = s\<lparr>nodes := fmupd (GetID n) n (nodes s), lastID := GetID n\<rparr>"
    and new: "fmlookup (nodes s) (GetID n) = None" "lastID s \<le> GetID n"
    using add by (auto simp: addNewNode_def Let_def split: if_splits)
  have "0 < lastID s" using ok by (fastforce simp: db_ok_def root_ok_def fmpred_iff node_ok_def split: option.splits)
  with new s' ok es show ?thesis
    by (fastforce simp: db_ok_def fmpred_iff node_ok_def root_ok_def lock_ok_def tickets_ok_def
        split: option.splits if_splits)
qed

lemmas op_splits = option.splits INode.splits if_splits sum.splits

subsection \<open>What a successful operation does\<close>

text \<open>
  Each operation that succeeds is a node added, or a sequence of updates at existing nodes.
\<close>

definition add_entry :: "time \<Rightarrow> string \<Rightarrow> ID \<Rightarrow> INode \<Rightarrow> INode" where
  "add_entry now name t n = touch now (upd_entries (fmupd name t) n)"

definition del_entry :: "time \<Rightarrow> string \<Rightarrow> INode \<Rightarrow> INode" where
  "del_entry now name n = touch now (upd_entries (fmdrop name) n)"

fun set_file :: "(int \<Rightarrow> int) \<Rightarrow> (FileChunk list \<Rightarrow> FileChunk list) \<Rightarrow> INode \<Rightarrow> INode" where
  "set_file f g (FileNode c sz cs) = FileNode c (f sz) (g cs)"
| "set_file f g (DirNode c p es) = DirNode c p es"

lemma set_file_simps [simp]:
  "is_dir (set_file f g n) = is_dir n" "GetID (set_file f g n) = GetID n"
  "entries_of (set_file f g n) = entries_of n"
  by (cases n; simp add: entries_of_def is_dir_def GetID_def)+

lemma entry_simps [simp]:
  "is_dir (add_entry now name t n) = is_dir n" "is_dir (del_entry now name n) = is_dir n"
  "GetID (add_entry now name t n) = GetID n" "GetID (del_entry now name n) = GetID n"
  "entries_of (add_entry now name t n) = (if is_dir n then fmupd name t (entries_of n) else entries_of n)"
  "entries_of (del_entry now name n) = (if is_dir n then fmdrop name (entries_of n) else entries_of n)"
  by (simp_all add: add_entry_def del_entry_def)

definition dir_at :: "DBState \<Rightarrow> ID \<Rightarrow> (string, ID) fmap \<Rightarrow> bool" where
  "dir_at s i es \<longleftrightarrow> (\<exists>n. fmlookup (nodes s) i = Some n \<and> is_dir n \<and> entries_of n = es)"

lemma dir_at_iff: "dir_at s i es \<longleftrightarrow> (\<exists>c p. fmlookup (nodes s) i = Some (DirNode c p es))"
proof
  assume "dir_at s i es"
  then obtain n where "fmlookup (nodes s) i = Some n" "is_dir n" "entries_of n = es"
    by (auto simp: dir_at_def)
  then show "\<exists>c p. fmlookup (nodes s) i = Some (DirNode c p es)"
    by (cases n) (auto simp: is_dir_def entries_of_def)
qed (auto simp: dir_at_def is_dir_def entries_of_def)

lemma update_common_Inr:
  "update_common i f s = Inr s' \<longleftrightarrow>
     fmlookup (nodes s) i \<noteq> None \<and> s' = upd_node i (upd_common f) s"
  by (auto simp: update_common_def upd_node_def split: option.splits)

lemma CreateNodeOp_Inr:
  "CreateNodeOp_Apply nlock path t parent uid gid perm now s = Inr s' \<longleftrightarrow>
     checkLock nlock True s = None \<and>
     (\<exists>c. c = \<lparr>nc_ID = nl_ID nlock, nc_OrigPath = path, nc_Uid = uid, nc_Gid = gid,
            nc_PermMode = perm, nc_ModifiedT = now\<rparr> \<and>
       (t = FileNodeT \<and> addNewNode (FileNode c 0 []) s = Inr s' \<or>
        t = DirNodeT \<and> addNewNode (DirNode c parent fmempty) s = Inr s'))"
  by (auto simp: CreateNodeOp_Apply_def Let_def FileNodeT_def DirNodeT_def split: op_splits)

lemma HardLinkOp_Inr:
  "HardLinkOp_Apply nlock name target now s = Inr s' \<longleftrightarrow>
     checkLock nlock False s = None \<and> fmlookup (nodes s) target \<noteq> None \<and>
     (\<exists>es. dir_at s (nl_ID nlock) es \<and> fmlookup es name = None) \<and>
     s' = upd_node (nl_ID nlock) (add_entry now name target) s"
  by (auto simp: HardLinkOp_Apply_def upd_node_def add_entry_def dir_at_iff split: op_splits)

lemma UpdateChunksOp_Inr:
  "UpdateChunksOp_Apply nlock chunks s = Inr s' \<longleftrightarrow>
     checkLock nlock True s = None \<and>
     (\<exists>n. fmlookup (nodes s) (nl_ID nlock) = Some n \<and> \<not> is_dir n) \<and>
     s' = upd_node (nl_ID nlock) (set_file (\<lambda>sz. sz) (\<lambda>_. chunks)) s"
  by (auto simp: UpdateChunksOp_Apply_def upd_node_def is_dir_def split: op_splits)

lemma UpdateSizeOp_Inr:
  "UpdateSizeOp_Apply nlock sz now s = Inr s' \<longleftrightarrow>
     checkLock nlock True s = None \<and>
     (\<exists>n. fmlookup (nodes s) (nl_ID nlock) = Some n \<and> \<not> is_dir n) \<and>
     s' = upd_node (nl_ID nlock) (\<lambda>n. touch now (set_file (\<lambda>_. sz) (\<lambda>cs. cs) n)) s"
  by (auto simp: UpdateSizeOp_Apply_def upd_node_def is_dir_def split: op_splits)

lemma RemoveOp_Inr:
  "RemoveOp_Apply nlock name now s = Inr s' \<longleftrightarrow>
     checkLock nlock False s = None \<and>
     (\<exists>es t. dir_at s (nl_ID nlock) es \<and> fmlookup es name = Some t \<and>
       (\<forall>tes. dir_at s t tes \<longrightarrow> tes = fmempty)) \<and>
     s' = upd_node (nl_ID nlock) (del_entry now name) s"
  by (auto simp: RemoveOp_Apply_def upd_node_def del_entry_def dir_at_iff split: op_splits)

lemma RenameOp_Inr:
  "RenameOp_Apply src sname dst dname now s = Inr s' \<longleftrightarrow>
     checkLock \<lparr>nl_ID = src, nl_Ticket = NoTicket\<rparr> False s = None \<and>
     checkLock \<lparr>nl_ID = dst, nl_Ticket = NoTicket\<rparr> False s = None \<and>
     (\<exists>ses des i. dir_at s src ses \<and> dir_at s dst des \<and> fmlookup ses sname = Some i \<and>
       (if src = dst \<and> sname = dname then s' = s
        else fmlookup (nodes s) i \<noteq> None \<and>
          s' = upd_node dst (add_entry now dname i)
                 (upd_node src (del_entry now sname) (upd_node i (upd_parent dst) s))))"
  by (auto simp: RenameOp_Apply_def dir_at_iff add_entry_def [abs_def] del_entry_def [abs_def] split: op_splits)

lemma InitializeFileSystemOp_Inr:
  "InitializeFileSystemOp_Apply now s = Inr s' \<longleftrightarrow>
     nodes s = fmempty \<and> lastID s = 0 \<and>
     s' = s\<lparr>nodes := fmupd RootDirID (DirNode \<lparr>nc_ID = RootDirID, nc_OrigPath = ''/'', nc_Uid = 0,
              nc_Gid = 0, nc_PermMode = 0x1FF, nc_ModifiedT = now\<rparr> RootDirID fmempty) fmempty,
            lastID := 1\<rparr>"
  by (auto simp: InitializeFileSystemOp_Apply_def addNewNode_def Let_def GetID_def RootDirID_def)

lemma addNewNode_Inr:
  "addNewNode n s = Inr s' \<longleftrightarrow>
     fmlookup (nodes s) (GetID n) = None \<and> lastID s \<le> GetID n \<and>
     s' = s\<lparr>nodes := fmupd (GetID n) n (nodes s), lastID := GetID n\<rparr>"
  by (auto simp: addNewNode_def Let_def)

lemmas op_Inr =
  update_common_Inr CreateNodeOp_Inr HardLinkOp_Inr UpdateChunksOp_Inr UpdateSizeOp_Inr RemoveOp_Inr
  RenameOp_Inr InitializeFileSystemOp_Inr UpdateUidOp_Apply_def UpdateGidOp_Apply_def
  UpdatePermModeOp_Apply_def UpdateModifiedTOp_Apply_def

subsection \<open>Every operation keeps it\<close>

lemma add_entry_ok:
  "db_ok s \<Longrightarrow> fmlookup (nodes s) t \<noteq> None \<Longrightarrow> db_ok (upd_node i (add_entry now name t) s)"
  by (intro upd_node_ok) (auto dest: db_okD simp: fmpred_iff)

lemma del_entry_ok: "db_ok s \<Longrightarrow> db_ok (upd_node i (del_entry now name) s)"
  by (intro upd_node_ok) (auto dest: db_okD simp: fmpred_iff)

lemma GetID_upd_common [simp]: "(\<And>c. nc_ID (f c) = nc_ID c) \<Longrightarrow> GetID (upd_common f n) = GetID n"
  by (simp add: GetID_def)

lemma same_entries_ok:
  assumes "db_ok s" "\<And>n. GetID (f n) = GetID n \<and> is_dir (f n) = is_dir n \<and> entries_of (f n) = entries_of n"
  shows "db_ok (upd_node i f s)"
  using assms(1) by (intro upd_node_ok) (auto simp: assms(2) fmpred_iff dest: db_okD)

lemma RenameOp_ok:
  assumes ok: "db_ok s" and r: "RenameOp_Apply src sname dst dname now s = Inr s'"
  shows "db_ok s'"
proof -
  from r obtain i where "s' = s \<or> fmlookup (nodes s) i \<noteq> None \<and>
      s' = upd_node dst (add_entry now dname i)
        (upd_node src (del_entry now sname) (upd_node i (upd_parent dst) s))"
    unfolding RenameOp_Inr by metis
  moreover have "db_ok (upd_node src (del_entry now sname) (upd_node i (upd_parent dst) s))"
    using ok by (intro del_entry_ok same_entries_ok) simp_all
  ultimately show ?thesis using ok by (auto intro!: add_entry_ok)
qed

lemma Apply_ok:
  assumes "db_ok s" "Apply now op s = Inr s'"
  shows "db_ok s'"
proof (cases op)
  case (RenameOp src sname dst dname)
  with assms show ?thesis by (auto intro: RenameOp_ok)
next
  case InitializeFileSystemOp
  then show ?thesis
    using assms by (auto simp: InitializeFileSystemOp_Inr db_ok_def root_ok_def)
next
  case (CreateNodeOp nlock path t parent uid gid perm modt)
  then show ?thesis
    using assms by (auto simp: CreateNodeOp_Inr entries_of_def intro: addNewNode_ok)
next
  case (HardLinkOp nlock name target)
  then show ?thesis using assms by (auto simp: HardLinkOp_Inr intro: add_entry_ok)
next
  case (RemoveOp nlock name)
  then show ?thesis using assms by (auto simp: RemoveOp_Inr intro: del_entry_ok)
qed (use assms in \<open>auto simp: op_Inr intro!: same_entries_ok\<close>)

text \<open>Initialising an empty database establishes the invariant.\<close>

lemma Initialize_ok: "Apply now InitializeFileSystemOp NewDBState = Inr s \<Longrightarrow> db_ok s"
  by (auto simp: InitializeFileSystemOp_Inr NewDBState_def db_ok_def root_ok_def tickets_ok_def node_ok_def fmpred_iff
      is_dir_def GetID_def RootDirID_def entries_of_def split: if_splits)

subsection \<open>What no operation touches\<close>

lemma Apply_frame:
  assumes "Apply now op s = Inr s'"
  shows "version s' = version s \<and> lastTicket s' = lastTicket s \<and> nodeLocks s' = nodeLocks s \<and>
    lastID s \<le> lastID s'"
  using assms by (cases op) (auto simp: op_Inr addNewNode_Inr split: if_splits)

lemma Apply_keeps_nodes:
  assumes "Apply now op s = Inr s'" "fmlookup (nodes s) i = Some n"
  shows "\<exists>n'. fmlookup (nodes s') i = Some n' \<and> is_dir n' = is_dir n"
  using assms by (cases op) (auto simp: op_Inr addNewNode_Inr split: if_splits)

section \<open>Locks protect what they lock\<close>

text \<open>
  The payload of a node is what a lock is taken for: the size and the chunks of a file, the
  entries of a directory. \<open>op_lock\<close> is the lock an operation presents.
\<close>

definition payload :: "INode \<Rightarrow> (int \<times> FileChunk list) + (string, ID) fmap" where
  "payload n = (case n of FileNode _ sz cs \<Rightarrow> Inl (sz, cs) | DirNode _ _ es \<Rightarrow> Inr es)"

fun op_lock :: "DBOperation \<Rightarrow> NodeLock option" where
  "op_lock (CreateNodeOp l _ _ _ _ _ _ _) = Some l"
| "op_lock (HardLinkOp l _ _) = Some l"
| "op_lock (UpdateChunksOp l _) = Some l"
| "op_lock (UpdateSizeOp l _) = Some l"
| "op_lock (RemoveOp l _) = Some l"
| "op_lock _ = None"

lemma payload_simps [simp]:
  "payload (upd_common f n) = payload n" "payload (touch now n) = payload n"
  "payload (upd_parent q n) = payload n"
  by (cases n; simp add: payload_def touch_def)+

lemma checkLock_None:
  "checkLock l req s = None \<Longrightarrow> fmlookup (nodeLocks s) (nl_ID l) = Some k \<Longrightarrow> k = l"
  by (auto simp: checkLock_def split: if_splits)

lemma locked_payload_kept:
  assumes ok: "db_ok s" and l: "fmlookup (nodeLocks s) i = Some l"
    and n: "fmlookup (nodes s) i = Some n"
    and op: "Apply now op s = Inr s'" "op_lock op \<noteq> Some l"
  shows "\<exists>n'. fmlookup (nodes s') i = Some n' \<and> payload n' = payload n"
proof -
  have "lock_ok s i l" using ok l by (auto simp: db_ok_def fmpred_iff)
  then have id: "nl_ID l = i" and t: "nl_Ticket l \<noteq> NoTicket" by (auto simp: lock_ok_def)
  have other: "nl_ID k \<noteq> i" if "checkLock k req s = None" "k \<noteq> l" for k req
    using checkLock_None [OF that(1), of l] l that(2) by auto
  have ticketless: "k \<noteq> l" if "nl_Ticket k = NoTicket" for k using that t by auto
  show ?thesis
  proof (cases op)
    case (RenameOp src sname dst dname)
    then show ?thesis
      using op n other [of "\<lparr>nl_ID = src, nl_Ticket = NoTicket\<rparr>" False]
        other [of "\<lparr>nl_ID = dst, nl_Ticket = NoTicket\<rparr>" False] ticketless
      by (auto simp: RenameOp_Inr split: if_splits)
  qed (use op n other in \<open>auto simp: op_Inr addNewNode_Inr split: if_splits\<close>)
qed

section \<open>Replaying operations\<close>

text \<open>
  Replaying a transaction log repeats the operations on a restored state, where no node is
  locked, where time stamps are new, and where the parents of directories, which the snapshot
  does not hold, may differ. \<open>tree\<close> is what is left of a state without these; \<open>replica s r\<close> says
  that \<open>r\<close> may stand for \<open>s\<close> after a restore.
\<close>

fun forget :: "INode \<Rightarrow> INode" where
  "forget (FileNode c sz cs) = FileNode (c\<lparr>nc_ModifiedT := 0\<rparr>) sz cs"
| "forget (DirNode c p es) = DirNode (c\<lparr>nc_ModifiedT := 0\<rparr>) 0 es"

definition tree :: "DBState \<Rightarrow> (ID, INode) fmap" where
  "tree s = fmmap forget (nodes s)"

definition replica :: "DBState \<Rightarrow> DBState \<Rightarrow> bool" where
  "replica s r \<longleftrightarrow> tree r = tree s \<and> lastID r \<le> lastID s \<and> version r = version s \<and>
     nodeLocks r = fmempty"

lemma forget_simps [simp]:
  "is_dir (forget n) = is_dir n" "entries_of (forget n) = entries_of n" "GetID (forget n) = GetID n"
  "forget (touch now n) = forget n" "forget (upd_parent q n) = forget n"
  by (cases n; simp add: is_dir_def entries_of_def GetID_def touch_def)+

lemma forget_set_file [simp]: "forget (set_file f g n) = set_file f g (forget n)"
  by (cases n) simp_all

lemma forget_upd_entries [simp]: "forget (upd_entries f n) = upd_entries f (forget n)"
  by (cases n) simp_all

lemma forget_upd_common: "forget (upd_common f n) = forget (upd_common (\<lambda>c. f c\<lparr>nc_ModifiedT := 0\<rparr>) n)"
  by (cases n) simp_all

lemma tree_lookup:
  "tree r = tree s \<Longrightarrow> map_option forget (fmlookup (nodes r) i) = map_option forget (fmlookup (nodes s) i)"
  by (drule arg_cong [where f = "\<lambda>m. fmlookup m i"]) (simp add: tree_def)

lemma tree_lookup_None: "tree r = tree s \<Longrightarrow> fmlookup (nodes r) i = None \<longleftrightarrow> fmlookup (nodes s) i = None"
  by (metis map_option_is_None tree_lookup)

lemma forget_eqD: "forget n' = forget n \<Longrightarrow> is_dir n' = is_dir n \<and> entries_of n' = entries_of n \<and> GetID n' = GetID n"
  by (metis forget_simps(1-3))

lemma tree_dir_at:
  assumes "tree r = tree s"
  shows "dir_at r i es \<longleftrightarrow> dir_at s i es"
  using tree_lookup [OF assms, of i]
  by (cases "fmlookup (nodes r) i"; cases "fmlookup (nodes s) i") (auto simp: dir_at_def dest: forget_eqD)

lemma tree_fmupd:
  "tree r = tree s \<Longrightarrow> forget n' = forget n \<Longrightarrow> fmmap forget (fmupd i n' (nodes r)) = fmmap forget (fmupd i n (nodes s))"
  using tree_lookup [of r s] by (intro fmap_ext) simp

lemma tree_upd_node:
  assumes "tree r = tree s" "\<And>n n'. forget n' = forget n \<Longrightarrow> forget (f' n') = forget (f n)"
  shows "tree (upd_node i f' r) = tree (upd_node i f s)"
proof (rule fmap_ext)
  fix j show "fmlookup (tree (upd_node i f' r)) j = fmlookup (tree (upd_node i f s)) j"
    using tree_lookup [OF assms(1), of j] assms(2)
    by (cases "fmlookup (nodes r) j"; cases "fmlookup (nodes s) j") (auto simp: tree_def)
qed

lemma tree_is_empty: "tree r = tree s \<Longrightarrow> nodes s = fmempty \<Longrightarrow> nodes r = fmempty"
  by (metis fmap_ext fmempty_lookup tree_lookup_None)

lemma replica_upd_node:
  assumes "replica s r" "\<And>n n'. forget n' = forget n \<Longrightarrow> forget (f' n') = forget (f n)"
  shows "replica (upd_node i f s) (upd_node i f' r)"
  using assms tree_upd_node [of r s f' f i] by (auto simp: replica_def)

lemma replica_checkLock: "replica s r \<Longrightarrow> checkLock l req s = None \<Longrightarrow> checkLock l req r = None"
  by (auto simp: replica_def checkLock_def split: if_splits)

lemma replica_addNewNode:
  assumes "replica s r" "addNewNode n s = Inr t" "forget n' = forget n"
  shows "\<exists>t'. addNewNode n' r = Inr t' \<and> replica t t'"
proof -
  have tr: "tree r = tree s" and "lastID r \<le> lastID s" using assms(1) by (auto simp: replica_def)
  moreover have id: "GetID n' = GetID n" using assms(3) forget_simps(3) by metis
  moreover have "fmlookup (nodes r) (GetID n) = None"
    using assms(2) tree_lookup_None [OF tr] by (auto simp: addNewNode_Inr)
  moreover have "tree (r\<lparr>nodes := fmupd i n' (nodes r), lastID := k\<rparr>) = tree (s\<lparr>nodes := fmupd i n (nodes s), lastID := k\<rparr>)" for i k
    using tree_fmupd [OF tr assms(3)] by (simp add: tree_def)
  ultimately show ?thesis
    using assms(1,2) by (simp add: addNewNode_Inr replica_def)
qed

lemma replica_update_common:
  assumes "replica s r" "update_common i f s = Inr t"
    and "\<And>c. (f c)\<lparr>nc_ModifiedT := 0\<rparr> = g (c\<lparr>nc_ModifiedT := 0\<rparr>)"
  shows "\<exists>t'. update_common i f r = Inr t' \<and> replica t t'"
proof -
  have "forget (upd_common f n') = forget (upd_common f n)" if "forget n' = forget n" for n n'
    using that by (cases n; cases n') (simp_all only: assms(3) forget.simps upd_common.simps INode.simps)
  then have "replica (upd_node i (upd_common f) s) (upd_node i (upd_common f) r)"
    by (intro replica_upd_node assms(1))
  moreover have "tree r = tree s" using assms(1) by (simp add: replica_def)
  ultimately show ?thesis
    using assms(2) tree_lookup_None [of r s i] unfolding update_common_Inr by auto
qed

lemma replica_entry:
  assumes "replica s r"
  shows "replica (upd_node i (add_entry now name t) s) (upd_node i (add_entry now' name t) r)"
    and "replica (upd_node i (del_entry now name) s) (upd_node i (del_entry now' name) r)"
    and "replica (upd_node i (upd_parent q) s) (upd_node i (upd_parent q) r)"
  using assms by (auto intro!: replica_upd_node simp: add_entry_def del_entry_def)

lemma RenameOp_replay:
  assumes "replica s r" "RenameOp_Apply src sname dst dname now s = Inr t"
  shows "\<exists>t'. RenameOp_Apply src sname dst dname now' r = Inr t' \<and> replica t t'"
proof -
  have tr: "tree r = tree s" using assms(1) by (simp add: replica_def)
  note same = replica_checkLock [OF assms(1)] tree_dir_at [OF tr] tree_lookup_None [OF tr]
  obtain ses des i where s: "dir_at s src ses" "dir_at s dst des" "fmlookup ses sname = Some i"
    and t: "if src = dst \<and> sname = dname then t = s
      else fmlookup (nodes s) i \<noteq> None \<and>
        t = upd_node dst (add_entry now dname i)
              (upd_node src (del_entry now sname) (upd_node i (upd_parent dst) s))"
    using assms(2) unfolding RenameOp_Inr by blast
  let ?t' = "if src = dst \<and> sname = dname then r
    else upd_node dst (add_entry now' dname i)
           (upd_node src (del_entry now' sname) (upd_node i (upd_parent dst) r))"
  have "RenameOp_Apply src sname dst dname now' r = Inr ?t'"
    using assms(2) s t same unfolding RenameOp_Inr by (auto split: if_splits)
  moreover have "replica t ?t'" using t assms(1) by (auto intro!: replica_entry split: if_splits)
  ultimately show ?thesis by blast
qed

lemma CreateNodeOp_replay:
  assumes "replica s r" "CreateNodeOp_Apply l path k parent uid gid perm now s = Inr t"
  shows "\<exists>t'. CreateNodeOp_Apply l path k parent uid gid perm now' r = Inr t' \<and> replica t t'"
proof -
  define node where "node now = (let c = \<lparr>nc_ID = nl_ID l, nc_OrigPath = path, nc_Uid = uid, nc_Gid = gid,
      nc_PermMode = perm, nc_ModifiedT = now\<rparr> in
    if k = FileNodeT then FileNode c 0 [] else DirNode c parent fmempty)" for now
  have inv: "CreateNodeOp_Apply l path k parent uid gid perm now s = Inr t \<longleftrightarrow>
      checkLock l True s = None \<and> (k = FileNodeT \<or> k = DirNodeT) \<and> addNewNode (node now) s = Inr t" for now s t
    by (auto simp: CreateNodeOp_Inr node_def FileNodeT_def DirNodeT_def)
  have "forget (node now') = forget (node now)" by (simp add: node_def Let_def)
  then show ?thesis
    using assms replica_checkLock [OF assms(1)] replica_addNewNode [OF assms(1), of "node now" t "node now'"]
    by (auto simp: inv)
qed

lemma Apply_replay:
  assumes rep: "replica s r" and op: "Apply now op s = Inr t"
  shows "\<exists>t'. Apply now' op r = Inr t' \<and> replica t t'"
proof -
  have tr: "tree r = tree s" using rep by (simp add: replica_def)
  note same = replica_checkLock [OF rep] tree_dir_at [OF tr] tree_lookup_None [OF tr]
  have regular: "\<exists>n. fmlookup (nodes r) i = Some n \<and> \<not> is_dir n"
    if "fmlookup (nodes s) i = Some n" "\<not> is_dir n" for i n
    using tree_lookup [OF tr, of i] that by (auto dest: forget_eqD)
  show ?thesis
  proof (cases op)
    case InitializeFileSystemOp
    then show ?thesis
      using op rep tree_is_empty [OF tr] by (auto simp: InitializeFileSystemOp_Inr replica_def tree_def intro!: fmap_ext)
  next
    case (CreateNodeOp l path t' parent uid gid perm modt)
    then show ?thesis
      using op CreateNodeOp_replay [OF rep] by auto
  next
    case (HardLinkOp l name target)
    then show ?thesis
      using op same replica_entry(1) [OF rep] by (auto simp: HardLinkOp_Inr)
  next
    case (UpdateChunksOp l cs)
    then show ?thesis
      using op same(1) regular replica_upd_node [OF rep] by (auto simp: UpdateChunksOp_Inr)
  next
    case (UpdateSizeOp l sz)
    then show ?thesis
      using op same(1) regular replica_upd_node [OF rep] by (auto simp: UpdateSizeOp_Inr)
  next
    case (RemoveOp l name)
    then show ?thesis
      using op same replica_entry(2) [OF rep] by (auto simp: RemoveOp_Inr)
  next
    case (RenameOp src sname dst dname)
    then show ?thesis using op RenameOp_replay [OF rep] by auto
  next
    case (UpdateUidOp i u)
    then show ?thesis using op replica_update_common [OF rep, of i "\<lambda>c. c\<lparr>nc_Uid := u\<rparr>" t "\<lambda>c. c\<lparr>nc_Uid := u\<rparr>"]
      by (auto simp: UpdateUidOp_Apply_def)
  next
    case (UpdateGidOp i u)
    then show ?thesis using op replica_update_common [OF rep, of i "\<lambda>c. c\<lparr>nc_Gid := u\<rparr>" t "\<lambda>c. c\<lparr>nc_Gid := u\<rparr>"]
      by (auto simp: UpdateGidOp_Apply_def)
  next
    case (UpdatePermModeOp i u)
    then show ?thesis
      using op replica_update_common [OF rep, of i "\<lambda>c. c\<lparr>nc_PermMode := u\<rparr>" t "\<lambda>c. c\<lparr>nc_PermMode := u\<rparr>"]
      by (auto simp: UpdatePermModeOp_Apply_def)
  next
    case (UpdateModifiedTOp i u)
    then show ?thesis
      using op replica_update_common [OF rep, of i "\<lambda>c. c\<lparr>nc_ModifiedT := u\<rparr>" t "\<lambda>c. c"]
      by (auto simp: UpdateModifiedTOp_Apply_def)
  qed (use op in simp)
qed

section \<open>Properties\<close>

text \<open>
  C11. Every operation that succeeds keeps the invariant of the inode database: nodes stay under
  their own ids, no directory entry dangles, ids stay at most \<open>lastID\<close>, the root stays a
  directory, the lock table stays consistent. In addition no node disappears or changes its
  kind, \<open>lastID\<close> never decreases, and locks, tickets and the version are not touched.
\<close>

theorem Apply_invariant:
  assumes "db_ok s" "Apply now op s = Inr s'"
  shows "db_ok s' \<and> version s' = version s \<and> lastTicket s' = lastTicket s \<and>
    nodeLocks s' = nodeLocks s \<and> lastID s \<le> lastID s' \<and>
    fmpred (\<lambda>i n. \<exists>n'. fmlookup (nodes s') i = Some n' \<and> is_dir n' = is_dir n) (nodes s)"
  using Apply_ok [OF assms] Apply_frame [OF assms(2)] Apply_keeps_nodes [OF assms(2)]
  by (simp add: fmpred_iff)

text \<open>A small database for evaluation: the root directory holding one regular file.\<close>

definition sample_common :: "ID \<Rightarrow> INodeCommon" where
  "sample_common i = \<lparr>nc_ID = i, nc_OrigPath = ''/'', nc_Uid = 0, nc_Gid = 0, nc_PermMode = 0x1FF, nc_ModifiedT = 5\<rparr>"

definition sample_db :: DBState where
  "sample_db = \<lparr>nodes = fmupd 2 (FileNode (sample_common 2) 0 [])
      (fmupd 1 (DirNode (sample_common 1) 1 (fmupd ''a'' 2 fmempty)) fmempty),
    lastID = 2, version = 2, lastTicket = 3, nodeLocks = fmupd 2 \<lparr>nl_ID = 2, nl_Ticket = 3\<rparr> fmempty\<rparr>"

lemma sample_db_ok: "db_ok sample_db"
  by (auto simp: sample_db_def sample_common_def db_ok_def node_ok_def root_ok_def lock_ok_def tickets_ok_def
      fmpred_iff GetID_def entries_of_def is_dir_def RootDirID_def NoTicket_def split: if_splits)

theorem Apply_invariant_witness:
  "\<exists>s'. Apply 9 (RenameOp 1 ''a'' 1 ''b'') sample_db = Inr s' \<and> db_ok s' \<and> dir_at s' 1 (fmupd ''b'' 2 fmempty)"
proof -
  have "\<exists>s'. Apply 9 (RenameOp 1 ''a'' 1 ''b'') sample_db = Inr s' \<and> dir_at s' 1 (fmupd ''b'' 2 fmempty)"
    by (auto simp: sample_db_def RenameOp_Inr dir_at_def checkLock_def is_dir_def
        entries_of_def add_entry_def del_entry_def touch_def upd_node_def set_node_def)
      (rule fmap_ext, simp)
  then show ?thesis using Apply_invariant [OF sample_db_ok] by blast
qed

text \<open>
  C12. While a node is locked, an operation that does not present that very lock leaves the size
  and chunks of a file, or the entries of a directory, as they are.
\<close>

theorem locked_node_protected:
  assumes "db_ok s" "fmlookup (nodeLocks s) i = Some l" "fmlookup (nodes s) i = Some n"
    and "Apply now op s = Inr s'" "op_lock op \<noteq> Some l"
  shows "\<exists>n'. fmlookup (nodes s') i = Some n' \<and> payload n' = payload n"
  using assms by (rule locked_payload_kept)

theorem locked_node_protected_witness:
  "\<exists>s' n'. Apply 9 (UpdateUidOp 2 7) sample_db = Inr s' \<and> fmlookup (nodes s') 2 = Some n' \<and>
     payload n' = Inl (0, []) \<and> nc_Uid (common n') = 7"
proof -
  have "\<exists>s' n'. Apply 9 (UpdateUidOp 2 7) sample_db = Inr s' \<and> fmlookup (nodes s') 2 = Some n' \<and>
      nc_Uid (common n') = 7"
    by (simp add: sample_db_def UpdateUidOp_Apply_def update_common_def)
  moreover have "fmlookup (nodeLocks sample_db) 2 = Some \<lparr>nl_ID = 2, nl_Ticket = 3\<rparr>"
    "fmlookup (nodes sample_db) 2 = Some (FileNode (sample_common 2) 0 [])"
    by (simp_all add: sample_db_def)
  ultimately show ?thesis
    using locked_node_protected [OF sample_db_ok, of 2 _ _ 9 "UpdateUidOp 2 7"]
    by (fastforce simp: payload_def)
qed

end
