(* ===== verification/Inode_Snapshot.thy ===== *)
theory Inode_Snapshot
  imports Inode_DB
begin

text \<open>
  Snapshots of the inode database (\<open>inodedb/snapshot.go\<close>, \<open>inodedb/simpledbstatesnapshotio.go\<close>).

  A gob stream is the list of the values encoded into it, each with its Go kind; decoding takes
  the next value and fails at the end of the stream or on a value of another kind. A decoder
  returns its result and what is left of the stream, on failure too. The order in which Go
  ranges over the \<open>nodes\<close> map is an argument of the encoder.

  \<open>DecodeDBState_Encode\<close> determines exactly what a snapshot preserves: everything but the parent
  ids of directories, the node locks and the ticket counter. \<open>RestoreSnapshot\<close> of
  \<open>SimpleDBStateSnapshotIO\<close> reads its buffer away, so that it works once.
\<close>

section \<open>Gob streams\<close>

datatype gobval =
    GUint nat | GInt int | GString string | GTime time
  | GChunks "FileChunk list" | GEntries "(string, ID) fmap"

type_synonym 'a decoder = "gobval list \<Rightarrow> 'a result \<times> gobval list"

definition dec_bind :: "'a decoder \<Rightarrow> ('a \<Rightarrow> 'b decoder) \<Rightarrow> 'b decoder" where
  "dec_bind d k gs = (case d gs of (Inl e, gs') \<Rightarrow> (Inl e, gs') | (Inr x, gs') \<Rightarrow> k x gs')"

definition dec_return :: "'a \<Rightarrow> 'a decoder" where
  "dec_return x gs = (Inr x, gs)"

definition dec_next :: "string \<Rightarrow> (gobval \<Rightarrow> 'a option) \<Rightarrow> 'a decoder" where
  "dec_next msg sel gs =
     (case gs of
        [] \<Rightarrow> (Inl (Fmt msg), [])
      | g # gs' \<Rightarrow> (case sel g of None \<Rightarrow> (Inl (Fmt msg), gs') | Some x \<Rightarrow> (Inr x, gs')))"

fun sel_uint :: "gobval \<Rightarrow> nat option" where
  "sel_uint (GUint n) = Some n" | "sel_uint _ = None"

fun sel_int :: "gobval \<Rightarrow> int option" where
  "sel_int (GInt n) = Some n" | "sel_int _ = None"

fun sel_string :: "gobval \<Rightarrow> string option" where
  "sel_string (GString n) = Some n" | "sel_string _ = None"

fun sel_time :: "gobval \<Rightarrow> time option" where
  "sel_time (GTime n) = Some n" | "sel_time _ = None"

fun sel_chunks :: "gobval \<Rightarrow> FileChunk list option" where
  "sel_chunks (GChunks n) = Some n" | "sel_chunks _ = None"

fun sel_entries :: "gobval \<Rightarrow> (string, ID) fmap option" where
  "sel_entries (GEntries n) = Some n" | "sel_entries _ = None"

text \<open>Decoding into an unsigned integer of a given width fails on a value that does not fit.\<close>

definition sel_word :: "gobval \<Rightarrow> 'a::len word option" where
  "sel_word g =
     (case sel_uint g of
        Some n \<Rightarrow> if n < 2 ^ LENGTH('a) then Some (of_nat n) else None
      | None \<Rightarrow> None)"

section \<open>Nodes\<close>

definition serializeCommon :: "int \<Rightarrow> INodeCommon \<Rightarrow> gobval list" where
  "serializeCommon t c =
     [GInt t, GUint (nc_ID c), GString (nc_OrigPath c), GUint (unat (nc_Uid c)), GUint (unat (nc_Gid c)),
      GUint (unat (nc_PermMode c)), GTime (nc_ModifiedT c)]"

fun INode_EncodeToGob :: "INode \<Rightarrow> gobval list" where
  "INode_EncodeToGob (DirNode c p es) = serializeCommon DirNodeT c @ [GEntries es]"
| "INode_EncodeToGob (FileNode c sz cs) = serializeCommon FileNodeT c @ [GInt sz, GChunks cs]"

definition deserializeCommon :: "INodeCommon decoder" where
  "deserializeCommon =
     dec_bind (dec_next ''Failed to decode ID'' sel_uint) (\<lambda>i.
     dec_bind (dec_next ''Failed to decode OrigPath'' sel_string) (\<lambda>path.
     dec_bind (dec_next ''Failed to decode Uid'' sel_word) (\<lambda>uid.
     dec_bind (dec_next ''Failed to decode Gid'' sel_word) (\<lambda>gid.
     dec_bind (dec_next ''Failed to decode PermMode'' sel_word) (\<lambda>perm.
     dec_bind (dec_next ''Failed to decode ModifiedT'' sel_time) (\<lambda>t.
       dec_return \<lparr>nc_ID = i, nc_OrigPath = path, nc_Uid = uid, nc_Gid = gid, nc_PermMode = perm,
                   nc_ModifiedT = t\<rparr>))))))"

definition deserializeFileNodeSnapshot :: "INode decoder" where
  "deserializeFileNodeSnapshot =
     dec_bind deserializeCommon (\<lambda>c.
     dec_bind (dec_next ''Failed to decode Size'' sel_int) (\<lambda>sz.
     dec_bind (dec_next ''Failed to decode Chunks'' sel_chunks) (\<lambda>cs.
       dec_return (FileNode c sz cs))))"

text \<open>The parent id of a decoded directory is the zero value: nothing decodes into it.\<close>

definition deserializeDirNodeSnapshot :: "INode decoder" where
  "deserializeDirNodeSnapshot =
     dec_bind deserializeCommon (\<lambda>c.
     dec_bind (dec_next ''Failed to decode Entries'' sel_entries) (\<lambda>es.
       dec_return (DirNode c 0 es)))"

definition DecodeNodeFromGob :: "INode decoder" where
  "DecodeNodeFromGob =
     dec_bind (dec_next ''Failed to decode Type'' sel_int) (\<lambda>t.
       if t = FileNodeT then deserializeFileNodeSnapshot
       else if t = DirNodeT then deserializeDirNodeSnapshot
       else (\<lambda>gs. (Inl (Fmt ''Invalid Type''), gs)))"

section \<open>The database state\<close>

type_synonym map_order = "(ID, INode) fmap \<Rightarrow> (ID \<times> INode) list"

fun encode_nodes :: "(ID \<times> INode) list \<Rightarrow> gobval list result" where
  "encode_nodes [] = Inr []"
| "encode_nodes ((i, n) # ns) =
     (if i \<noteq> GetID n then Inl (Panic ''nodes map key != node.GetID() result'')
      else case encode_nodes ns of Inl e \<Rightarrow> Inl e | Inr gs \<Rightarrow> Inr (INode_EncodeToGob n @ gs))"

definition DBState_EncodeToGob :: "map_order \<Rightarrow> DBState \<Rightarrow> gobval list result" where
  "DBState_EncodeToGob order s =
     (case encode_nodes (order (nodes s)) of
        Inl e \<Rightarrow> Inl e
      | Inr gs \<Rightarrow>
          Inr ([GUint (length (order (nodes s)))] @ gs @ [GUint (lastID s), GInt (version s)]))"

fun decode_nodes :: "nat \<Rightarrow> (ID, INode) fmap \<Rightarrow> (ID, INode) fmap decoder" where
  "decode_nodes 0 m = dec_return m"
| "decode_nodes (Suc k) m = dec_bind DecodeNodeFromGob (\<lambda>n. decode_nodes k (fmupd (GetID n) n m))"

definition DecodeDBStateFromGob :: "DBState decoder" where
  "DecodeDBStateFromGob =
     dec_bind (dec_next ''failed to decode numNodes'' sel_uint) (\<lambda>numNodes.
     dec_bind (decode_nodes numNodes (nodes NewDBState)) (\<lambda>ns.
     dec_bind (dec_next ''Failed to decode lastID'' sel_uint) (\<lambda>i.
     dec_bind (dec_next ''Failed to decode version'' sel_int) (\<lambda>v.
       dec_return (NewDBState\<lparr>nodes := ns, lastID := i, version := v\<rparr>)))))"

section \<open>SimpleDBStateSnapshotIO\<close>

record SimpleDBStateSnapshotIO =
  Buf :: "gobval list"

definition NewSimpleDBStateSnapshotIO :: SimpleDBStateSnapshotIO where
  "NewSimpleDBStateSnapshotIO = \<lparr>Buf = []\<rparr>"

text \<open>
  \<open>SaveSnapshot\<close> resets the buffer first. The values encoded before an error stay in it; the
  only error is the panic on a node under a wrong key, after which nothing reads the buffer.
\<close>

definition Simple_SaveSnapshot ::
    "map_order \<Rightarrow> DBState \<Rightarrow> SimpleDBStateSnapshotIO \<Rightarrow> error option \<times> SimpleDBStateSnapshotIO" where
  "Simple_SaveSnapshot order s io =
     (case DBState_EncodeToGob order s of
        Inl e \<Rightarrow> (Some e, io\<lparr>Buf := []\<rparr>)
      | Inr gs \<Rightarrow> (None, io\<lparr>Buf := gs\<rparr>))"

definition Simple_RestoreSnapshot ::
    "SimpleDBStateSnapshotIO \<Rightarrow> DBState result \<times> SimpleDBStateSnapshotIO" where
  "Simple_RestoreSnapshot io =
     (case DecodeDBStateFromGob (Buf io) of (r, gs) \<Rightarrow> (r, io\<lparr>Buf := gs\<rparr>))"

section \<open>What a snapshot preserves\<close>

definition go_order :: "map_order \<Rightarrow> bool" where
  "go_order order \<longleftrightarrow> (\<forall>m. fmap_of_list (order m) = m \<and> distinct (map fst (order m)))"

fun drop_parent :: "INode \<Rightarrow> INode" where
  "drop_parent (FileNode c sz cs) = FileNode c sz cs"
| "drop_parent (DirNode c p es) = DirNode c 0 es"

definition snapshot_of :: "DBState \<Rightarrow> DBState" where
  "snapshot_of s = NewDBState\<lparr>nodes := fmmap drop_parent (nodes s), lastID := lastID s, version := version s\<rparr>"

lemma dec_bind_Inr [simp]: "d gs = (Inr x, gs') \<Longrightarrow> dec_bind d k gs = k x gs'"
  by (simp add: dec_bind_def)

lemma dec_next_Cons [simp]: "sel g = Some x \<Longrightarrow> dec_next msg sel (g # gs) = (Inr x, gs)"
  by (simp add: dec_next_def)

lemma sel_word_unat [simp]: "sel_word (GUint (unat w)) = Some w"
  by (simp add: sel_word_def)

lemma DecodeNode_Encode: "DecodeNodeFromGob (INode_EncodeToGob n @ gs) = (Inr (drop_parent n), gs)"
  by (cases n) (simp_all add: DecodeNodeFromGob_def deserializeFileNodeSnapshot_def
      deserializeDirNodeSnapshot_def deserializeCommon_def serializeCommon_def dec_return_def
      FileNodeT_def DirNodeT_def)

lemma GetID_drop_parent [simp]: "GetID (drop_parent n) = GetID n"
  by (cases n) (simp_all add: GetID_def)

lemma encode_nodes_ok:
  "\<forall>(i, n) \<in> set ns. GetID n = i \<Longrightarrow> encode_nodes ns = Inr (concat (map (INode_EncodeToGob \<circ> snd) ns))"
  by (induction ns) auto

lemma decode_nodes_Encode:
  assumes "\<forall>(i, n) \<in> set ns. GetID n = i" "distinct (map fst ns)"
  shows "decode_nodes (length ns) m (concat (map (INode_EncodeToGob \<circ> snd) ns) @ gs) =
    (Inr (m ++\<^sub>f fmap_of_list (map (apsnd drop_parent) ns)), gs)"
  using assms
proof (induction ns arbitrary: m)
  case (Cons x ns)
  obtain i n where x: "x = (i, n)" by force
  have "fmupd i (drop_parent n) m ++\<^sub>f fmap_of_list (map (apsnd drop_parent) ns) =
      m ++\<^sub>f fmupd i (drop_parent n) (fmap_of_list (map (apsnd drop_parent) ns))"
    if "i |\<notin>| fmdom (fmap_of_list (map (apsnd drop_parent) ns))"
    using that by (intro fmap_ext) auto
  moreover have "i |\<notin>| fmdom (fmap_of_list (map (apsnd drop_parent) ns))"
    using Cons.prems(2) x by (intro fmdom_notI) (simp add: fmlookup_of_list map_of_eq_None_iff image_image)
  ultimately show ?case
    using Cons by (simp add: x dec_return_def DecodeNode_Encode)
qed (simp add: dec_return_def)

lemma fmap_of_list_map: "fmap_of_list (map (apsnd f) xs) = fmmap f (fmap_of_list xs)"
  by (induction xs) (auto intro: fmap_ext)

text \<open>Decoding what was encoded gives the state without parents, locks and tickets.\<close>

lemma DecodeDBState_Encode:
  assumes "go_order order" "fmpred (\<lambda>i n. GetID n = i) (nodes s)"
  shows "\<exists>gs. DBState_EncodeToGob order s = Inr gs \<and>
    DecodeDBStateFromGob (gs @ rest) = (Inr (snapshot_of s), rest)"
proof -
  let ?ns = "order (nodes s)"
  have ns: "fmap_of_list ?ns = nodes s" "distinct (map fst ?ns)" using assms(1) by (auto simp: go_order_def)
  have keys: "\<forall>(i, n) \<in> set ?ns. GetID n = i"
  proof clarify
    fix i n assume "(i, n) \<in> set ?ns"
    then have "fmlookup (nodes s) i = Some n"
      using ns by (metis fmlookup_of_list map_of_eq_Some_iff)
    then show "GetID n = i" using assms(2) by (auto simp: fmpred_iff)
  qed
  have "decode_nodes (length ?ns) fmempty (concat (map (INode_EncodeToGob \<circ> snd) ?ns) @ gs) =
      (Inr (fmmap drop_parent (nodes s)), gs)" for gs
    using decode_nodes_Encode [OF keys ns(2), of fmempty gs] by (simp add: fmap_of_list_map ns(1))
  then show ?thesis
    by (simp add: DBState_EncodeToGob_def encode_nodes_ok [OF keys] DecodeDBStateFromGob_def
        snapshot_of_def NewDBState_def dec_return_def)
qed

lemma snapshot_of_replica: "replica s (snapshot_of s)"
proof -
  have "forget (drop_parent n) = forget n" for n by (cases n) simp_all
  then have "tree (snapshot_of s) = tree s"
    by (intro fmap_ext) (auto simp: tree_def snapshot_of_def option.map_comp comp_def)
  then show ?thesis by (simp add: replica_def snapshot_of_def NewDBState_def)
qed

section \<open>Properties\<close>

text \<open>
  C21. A consistent state that is encoded and decoded again, whatever order Go ranges over its nodes
  in, comes back with the same nodes, last id and version, but with the parent of every directory
  lost, no node locked, and the ticket counter set back.
\<close>

theorem snapshot_roundtrip:
  assumes "go_order order" "db_ok s"
  shows "\<exists>gs r. DBState_EncodeToGob order s = Inr gs \<and> DecodeDBStateFromGob gs = (Inr r, []) \<and>
    (\<forall>i. fmlookup (nodes r) i = map_option drop_parent (fmlookup (nodes s) i)) \<and>
    lastID r = lastID s \<and> version r = version s \<and> nodeLocks r = fmempty \<and> lastTicket r = 1"
proof -
  have "fmpred (\<lambda>i n. GetID n = i) (nodes s)" using assms(2) by (auto simp: fmpred_iff dest: db_okD)
  from DecodeDBState_Encode [OF assms(1) this, of "[]"] show ?thesis
    by (auto simp: snapshot_of_def NewDBState_def)
qed

definition by_id :: map_order where
  "by_id m = sorted_list_of_fmap m"

lemma by_id_order: "go_order by_id"
  unfolding go_order_def by_id_def
proof (intro allI conjI)
  fix m :: "(ID, INode) fmap"
  show "fmap_of_list (sorted_list_of_fmap m) = m" by (rule fmap_ext) (simp add: fmlookup_of_list)
  show "distinct (map fst (sorted_list_of_fmap m))"
    by (simp add: sorted_list_of_fmap_def comp_def sorted_list_of_fset.rep_eq)
qed

theorem snapshot_roundtrip_witness:
  "\<exists>gs r. DBState_EncodeToGob by_id sample_db = Inr gs \<and> DecodeDBStateFromGob gs = (Inr r, []) \<and>
     fmlookup (nodes r) 1 = Some (DirNode (sample_common 1) 0 (fmupd ''a'' 2 fmempty)) \<and> nodeLocks r = fmempty"
proof -
  have "map_option drop_parent (fmlookup (nodes sample_db) 1) = Some (DirNode (sample_common 1) 0 (fmupd ''a'' 2 fmempty))"
    by (simp add: sample_db_def)
  then show ?thesis using snapshot_roundtrip [OF by_id_order sample_db_ok] by metis
qed

text \<open>
  \<open>SimpleDBStateSnapshotIO\<close> restores a saved state once: restoring reads the buffer away, and
  every further restore fails.
\<close>

theorem Simple_restores_once:
  assumes "go_order order" "db_ok s"
  shows "\<exists>io1 io2. Simple_SaveSnapshot order s io = (None, io1) \<and>
    Simple_RestoreSnapshot io1 = (Inr (snapshot_of s), io2) \<and>
    Simple_RestoreSnapshot io2 = (Inl (Fmt ''failed to decode numNodes''), io2)"
proof -
  have "fmpred (\<lambda>i n. GetID n = i) (nodes s)" using assms(2) by (auto simp: fmpred_iff dest: db_okD)
  from DecodeDBState_Encode [OF assms(1) this, of "[]"] obtain gs
    where gs: "DBState_EncodeToGob order s = Inr gs" "DecodeDBStateFromGob gs = (Inr (snapshot_of s), [])"
    by auto
  have "DecodeDBStateFromGob [] = (Inl (Fmt ''failed to decode numNodes''), [])"
    by (simp add: DecodeDBStateFromGob_def dec_bind_def dec_next_def)
  with gs show ?thesis
    by (simp add: Simple_SaveSnapshot_def Simple_RestoreSnapshot_def)
qed

theorem Simple_restores_once_witness:
  "\<exists>io1 io2. Simple_SaveSnapshot by_id sample_db NewSimpleDBStateSnapshotIO = (None, io1) \<and>
    Simple_RestoreSnapshot io1 = (Inr (snapshot_of sample_db), io2) \<and>
    Simple_RestoreSnapshot io2 = (Inl (Fmt ''failed to decode numNodes''), io2)"
  by (rule Simple_restores_once [OF by_id_order sample_db_ok])

end
