(* ===== verification/Inode_Log.thy ===== *)
theory Inode_Log
  imports Inode_DB
begin

text \<open>
  Transaction logs (\<open>inodedb/dbtransaction.go\<close>, \<open>simpledbtransactionlogio.go\<close>,
  \<open>cacheddbtransactionlogio.go\<close>): the interface \<open>DBTransactionLogIO\<close>, the in-memory log and the
  log with a ring buffer of the 256 latest transactions in front of another log.

  The locale \<open>txlog\<close> is the contract of a log: a transaction appended is the last of the log, and
  a query delivers, in order, exactly the transactions from the given id on. The in-memory log
  satisfies it, and the cached log satisfies it whenever the log behind it does, as long as
  transaction ids are consecutive, which is how the database numbers them.
\<close>

section \<open>Logs\<close>

record DBTransaction =
  tx_TxID :: TxID
  tx_Ops :: "DBOperation list"

record 'l DBTransactionLogIO =
  tl_AppendTransaction :: "DBTransaction \<Rightarrow> 'l \<Rightarrow> error option \<times> 'l"
  tl_QueryTransactions :: "TxID \<Rightarrow> 'l \<Rightarrow> DBTransaction list result \<times> 'l"

record SimpleDBTransactionLogIO =
  sl_readOnly :: bool
  sl_txs :: "DBTransaction list"

definition NewSimpleDBTransactionLogIO :: SimpleDBTransactionLogIO where
  "NewSimpleDBTransactionLogIO = \<lparr>sl_readOnly = False, sl_txs = []\<rparr>"

definition Simple_SetReadOnly :: "bool \<Rightarrow> SimpleDBTransactionLogIO \<Rightarrow> SimpleDBTransactionLogIO" where
  "Simple_SetReadOnly b io = io\<lparr>sl_readOnly := b\<rparr>"

definition Simple_AppendTransaction ::
    "DBTransaction \<Rightarrow> SimpleDBTransactionLogIO \<Rightarrow> error option \<times> SimpleDBTransactionLogIO" where
  "Simple_AppendTransaction tx io =
     (if sl_readOnly io then (Some (Errno EACCES), io)
      else (None, io\<lparr>sl_txs := sl_txs io @ [tx]\<rparr>))"

definition Simple_QueryTransactions ::
    "TxID \<Rightarrow> SimpleDBTransactionLogIO \<Rightarrow> DBTransaction list result \<times> SimpleDBTransactionLogIO" where
  "Simple_QueryTransactions minID io = (Inr (filter (\<lambda>tx. tx_TxID tx \<ge> minID) (sl_txs io)), io)"

definition Simple_log_ops :: "SimpleDBTransactionLogIO DBTransactionLogIO" where
  "Simple_log_ops =
     \<lparr>tl_AppendTransaction = Simple_AppendTransaction, tl_QueryTransactions = Simple_QueryTransactions\<rparr>"

section \<open>The cached log\<close>

record 'l CachedDBTransactionLogIO =
  cl_be :: 'l
  cl_ringbuf :: "DBTransaction list"
  cl_next :: nat
  cl_oldestTxID :: TxID

definition ringbufLen :: nat where
  "ringbufLen = 256"

definition NewCachedDBTransactionLogIO :: "'l \<Rightarrow> 'l CachedDBTransactionLogIO" where
  "NewCachedDBTransactionLogIO be =
     \<lparr>cl_be = be, cl_ringbuf = replicate ringbufLen \<lparr>tx_TxID = 0, tx_Ops = []\<rparr>, cl_next = 0,
      cl_oldestTxID = LatestVersion\<rparr>"

definition Cached_AppendTransaction ::
    "'l DBTransactionLogIO \<Rightarrow> DBTransaction \<Rightarrow> 'l CachedDBTransactionLogIO \<Rightarrow>
     error option \<times> 'l CachedDBTransactionLogIO" where
  "Cached_AppendTransaction ops tx txio =
     (case tl_AppendTransaction ops tx (cl_be txio) of
        (Some e, be') \<Rightarrow> (Some e, txio\<lparr>cl_be := be'\<rparr>)
      | (None, be') \<Rightarrow>
          (let txidToBeDeleted = tx_TxID (cl_ringbuf txio ! cl_next txio);
               oldest1 = (if txidToBeDeleted = cl_oldestTxID txio
                          then wrap64 (txidToBeDeleted + 1) else cl_oldestTxID txio);
               ringbuf' = (cl_ringbuf txio)[cl_next txio := tx];
               oldest2 = (if oldest1 = LatestVersion then tx_TxID tx else oldest1);
               next' = (if cl_next txio + 1 = ringbufLen then 0 else cl_next txio + 1)
           in (None, \<lparr>cl_be = be', cl_ringbuf = ringbuf', cl_next = next', cl_oldestTxID = oldest2\<rparr>)))"

definition QueryCachedTransactions ::
    "TxID \<Rightarrow> 'l CachedDBTransactionLogIO \<Rightarrow> DBTransaction list result \<times> 'l CachedDBTransactionLogIO" where
  "QueryCachedTransactions minID txio =
     (Inr (filter (\<lambda>tx. tx_TxID tx \<ge> minID) (drop (cl_next txio) (cl_ringbuf txio)) @
           filter (\<lambda>tx. tx_TxID tx \<ge> minID) (take (cl_next txio) (cl_ringbuf txio))), txio)"

definition Cached_QueryTransactions ::
    "'l DBTransactionLogIO \<Rightarrow> TxID \<Rightarrow> 'l CachedDBTransactionLogIO \<Rightarrow>
     DBTransaction list result \<times> 'l CachedDBTransactionLogIO" where
  "Cached_QueryTransactions ops minID txio =
     (if minID < cl_oldestTxID txio
      then (case tl_QueryTransactions ops minID (cl_be txio) of (r, be') \<Rightarrow> (r, txio\<lparr>cl_be := be'\<rparr>))
      else QueryCachedTransactions minID txio)"

definition Cached_log_ops :: "'l DBTransactionLogIO \<Rightarrow> 'l CachedDBTransactionLogIO DBTransactionLogIO" where
  "Cached_log_ops ops =
     \<lparr>tl_AppendTransaction = Cached_AppendTransaction ops,
      tl_QueryTransactions = Cached_QueryTransactions ops\<rparr>"

section \<open>The contract of a log\<close>

text \<open>Transaction ids count up by one and stay clear of \<open>AnyVersion\<close> and \<open>LatestVersion\<close>.\<close>

fun consecutive :: "DBTransaction list \<Rightarrow> bool" where
  "consecutive [] = True"
| "consecutive [t] = (0 < tx_TxID t \<and> tx_TxID t < LatestVersion)"
| "consecutive (t # u # ts) = (0 < tx_TxID t \<and> tx_TxID u = tx_TxID t + 1 \<and> consecutive (u # ts))"

definition since :: "TxID \<Rightarrow> DBTransaction list \<Rightarrow> DBTransaction list" where
  "since m ts = filter (\<lambda>t. m \<le> tx_TxID t) ts"

locale txlog =
  fixes ops :: "'l DBTransactionLogIO" and log :: "'l \<Rightarrow> DBTransaction list" and inv :: "'l \<Rightarrow> bool"
  assumes append: "\<lbrakk>inv l; consecutive (log l @ [tx]); tl_AppendTransaction ops tx l = (None, l')\<rbrakk> \<Longrightarrow>
      inv l' \<and> log l' = log l @ [tx]"
    and append_error: "\<lbrakk>inv l; tl_AppendTransaction ops tx l = (Some e, l')\<rbrakk> \<Longrightarrow> inv l' \<and> log l' = log l"
    and query: "inv l \<Longrightarrow> \<exists>l'. tl_QueryTransactions ops m l = (Inr (since m (log l)), l') \<and>
      inv l' \<and> log l' = log l"

interpretation simple_log: txlog Simple_log_ops sl_txs "\<lambda>_. True"
  by unfold_locales
    (auto simp: Simple_log_ops_def Simple_AppendTransaction_def Simple_QueryTransactions_def since_def
      split: if_splits)

subsection \<open>Consecutive ids\<close>

lemma consecutive_bounds: "consecutive ts \<Longrightarrow> t \<in> set ts \<Longrightarrow> 0 < tx_TxID t \<and> tx_TxID t < LatestVersion"
proof -
  have "consecutive ts \<Longrightarrow> \<forall>t \<in> set ts. 0 < tx_TxID t \<and> tx_TxID t < LatestVersion"
    by (induction ts rule: consecutive.induct) auto
  then show "consecutive ts \<Longrightarrow> t \<in> set ts \<Longrightarrow> ?thesis" by blast
qed

lemma consecutive_ConsD: "consecutive (t # ts) \<Longrightarrow> consecutive ts"
  by (cases ts) auto

lemma consecutive_appendD: "consecutive (ts @ us) \<Longrightarrow> consecutive us"
  by (induction ts) (auto dest: consecutive_ConsD)

lemma consecutive_appendI: "consecutive (ts @ us) \<Longrightarrow> consecutive ts"
proof (induction ts rule: consecutive.induct)
  case (2 t)
  then show ?case using consecutive_bounds [of "[t] @ us" t] by simp
qed auto

lemma consecutive_append_Cons: "consecutive (ts @ t # us) \<Longrightarrow> consecutive (ts @ [t])"
  using consecutive_appendI [of "ts @ [t]" us] by simp

lemma consecutive_ge_hd: "consecutive (t # ts) \<Longrightarrow> u \<in> set ts \<Longrightarrow> tx_TxID t < tx_TxID u"
  by (induction "t # ts" arbitrary: t ts rule: consecutive.induct) force+

lemma consecutive_before:
  "consecutive (ts @ t # us) \<Longrightarrow> u \<in> set ts \<Longrightarrow> tx_TxID u < tx_TxID t"
  by (induction ts) (auto dest: consecutive_ConsD consecutive_ge_hd)

lemma since_append [simp]: "since m (ts @ us) = since m ts @ since m us"
  by (simp add: since_def)

subsection \<open>The ring buffer\<close>

text \<open>
  The buffer read from \<open>cl_next\<close> on is a number of empty slots followed by the latest
  transactions of the log behind it, the first of which has the id \<open>cl_oldestTxID\<close>.
\<close>

definition ring :: "'l CachedDBTransactionLogIO \<Rightarrow> DBTransaction list" where
  "ring c = drop (cl_next c) (cl_ringbuf c) @ take (cl_next c) (cl_ringbuf c)"

definition ring_ok :: "DBTransaction list \<Rightarrow> 'l CachedDBTransactionLogIO \<Rightarrow> bool" where
  "ring_ok lg c \<longleftrightarrow> consecutive lg \<and> length (cl_ringbuf c) = ringbufLen \<and> cl_next c < ringbufLen \<and>
     (\<exists>pad recent pre. ring c = pad @ recent \<and> (\<forall>t \<in> set pad. tx_TxID t = 0) \<and> lg = pre @ recent \<and>
       cl_oldestTxID c = (case recent of [] \<Rightarrow> LatestVersion | t # _ \<Rightarrow> tx_TxID t))"

lemma ring_append:
  assumes "i < length xs"
  shows "(let i' = (if i + 1 = length xs then 0 else i + 1) in
      drop i' (xs[i := x]) @ take i' (xs[i := x])) = tl (drop i xs @ take i xs) @ [x]"
proof -
  obtain A y B where "xs = A @ y # B" "length A = i"
    using id_take_nth_drop [OF assms] assms by (metis length_take min.absorb2 less_imp_le)
  then show ?thesis by (auto simp: Let_def)
qed

lemma ring_query:
  assumes ok: "ring_ok lg c" and m: "cl_oldestTxID c \<le> m"
  shows "since m (ring c) = since m lg"
proof -
  obtain pad recent pre where r: "ring c = pad @ recent" "\<forall>t \<in> set pad. tx_TxID t = 0" "lg = pre @ recent"
    "cl_oldestTxID c = (case recent of [] \<Rightarrow> LatestVersion | t # _ \<Rightarrow> tx_TxID t)" and con: "consecutive lg"
    using ok by (auto simp: ring_ok_def)
  have "0 < m" using m r consecutive_bounds [OF con]
    by (cases recent) (force simp: LatestVersion_def MaxInt64_def)+
  then have "since m pad = []" using r(2) by (auto simp: since_def filter_empty_conv)
  moreover have "tx_TxID t < m" if "t \<in> set pre" for t
    using that m r(3,4) con consecutive_bounds [OF con, of t] consecutive_before [of pre _ _ t]
    by (cases recent) fastforce+
  then have "since m pre = []" by (auto simp: since_def filter_empty_conv not_le)
  ultimately show ?thesis by (simp add: r)
qed

definition ring_push :: "'l \<Rightarrow> DBTransaction \<Rightarrow> 'l CachedDBTransactionLogIO \<Rightarrow> 'l CachedDBTransactionLogIO" where
  "ring_push be tx c =
     (let t = tx_TxID (cl_ringbuf c ! cl_next c);
          oldest1 = (if t = cl_oldestTxID c then wrap64 (t + 1) else cl_oldestTxID c)
      in \<lparr>cl_be = be, cl_ringbuf = (cl_ringbuf c)[cl_next c := tx],
          cl_next = (if cl_next c + 1 = ringbufLen then 0 else cl_next c + 1),
          cl_oldestTxID = (if oldest1 = LatestVersion then tx_TxID tx else oldest1)\<rparr>)"

lemma ring_push_ring:
  assumes "length (cl_ringbuf c) = ringbufLen" "cl_next c < ringbufLen"
  shows "ring (ring_push be tx c) = tl (ring c) @ [tx]"
    and "cl_ringbuf c ! cl_next c = hd (ring c)" and "length (ring c) = ringbufLen"
  using assms ring_append [of "cl_next c" "cl_ringbuf c" tx]
  by (auto simp: ring_def ring_push_def Let_def hd_drop_conv_nth)

lemma ring_push_oldest:
  assumes con: "consecutive (lg @ [tx])" and lg: "lg = pre @ recent" and r: "rs = pad @ recent"
    and pad: "\<forall>t \<in> set pad. tx_TxID t = 0" and len: "2 \<le> length rs"
    and old: "old = (case recent of [] \<Rightarrow> LatestVersion | t # _ \<Rightarrow> tx_TxID t)"
  obtains pad' recent' pre' where "tl rs @ [tx] = pad' @ recent'" "\<forall>t \<in> set pad'. tx_TxID t = 0"
    "lg @ [tx] = pre' @ recent'"
    "(let old1 = (if tx_TxID (hd rs) = old then wrap64 (tx_TxID (hd rs) + 1) else old)
      in if old1 = LatestVersion then tx_TxID tx else old1) =
     (case recent' of [] \<Rightarrow> LatestVersion | t # _ \<Rightarrow> tx_TxID t)"
proof (cases pad)
  case (Cons p ps)
  have "0 < old" using old lg consecutive_bounds [OF con]
    by (cases recent) (force simp: LatestVersion_def MaxInt64_def)+
  moreover have "recent = t # ts \<Longrightarrow> tx_TxID t \<noteq> LatestVersion" for t ts
    using lg consecutive_bounds [OF con, of t] by auto
  ultimately show ?thesis
    using Cons pad r old lg
    by (intro that [of ps "recent @ [tx]" pre]) (auto simp: Let_def split: list.splits)
next
  case Nil
  then obtain a b rest where rs: "recent = a # b # rest" using r len
    by (metis One_nat_def Suc_1 append_Nil length_Cons list.exhaust list.size(3) not_less_eq_eq nat_le_linear
        le_zero_eq zero_neq_one)
  have "consecutive (a # b # rest @ [tx])" using con lg rs consecutive_appendD [of pre "a # b # rest @ [tx]"] by (simp del: consecutive.simps)
  then have b: "tx_TxID b = tx_TxID a + 1" by simp
  have bd: "0 < tx_TxID b" "tx_TxID b < LatestVersion" using consecutive_bounds [OF con, of b] lg rs by auto
  then have "wrap64 (tx_TxID b) = tx_TxID b" by (intro wrap64_id) (auto simp: LatestVersion_def)
  with Nil rs lg r old b bd show ?thesis
    by (intro that [of "[]" "b # rest @ [tx]" "pre @ [a]"]) auto
qed

lemma ring_ok_push:
  assumes ok: "ring_ok lg c" and con: "consecutive (lg @ [tx])"
  shows "ring_ok (lg @ [tx]) (ring_push be tx c)"
proof -
  obtain pad recent pre where r: "ring c = pad @ recent" "\<forall>t \<in> set pad. tx_TxID t = 0" "lg = pre @ recent"
    "cl_oldestTxID c = (case recent of [] \<Rightarrow> LatestVersion | t # _ \<Rightarrow> tx_TxID t)"
    and len: "length (cl_ringbuf c) = ringbufLen" "cl_next c < ringbufLen"
    using ok by (auto simp: ring_ok_def)
  note push = ring_push_ring [OF len]
  show ?thesis
  proof (rule ring_push_oldest [OF con r(3,1,2) _ r(4)])
    show "2 \<le> length (ring c)" using push(3) by (simp add: ringbufLen_def)
    fix pad' recent' pre'
    assume "tl (ring c) @ [tx] = pad' @ recent'" "\<forall>t \<in> set pad'. tx_TxID t = 0"
      "lg @ [tx] = pre' @ recent'"
      "(let old1 = (if tx_TxID (hd (ring c)) = cl_oldestTxID c then wrap64 (tx_TxID (hd (ring c)) + 1)
            else cl_oldestTxID c)
        in if old1 = LatestVersion then tx_TxID tx else old1) =
       (case recent' of [] \<Rightarrow> LatestVersion | t # _ \<Rightarrow> tx_TxID t)"
    then show ?thesis
      using con len push(1) [of be tx] push(2)
      unfolding ring_ok_def
      by (intro conjI exI [of _ pad'] exI [of _ recent'] exI [of _ pre'])
        (simp_all add: ring_push_def Let_def)
  qed
qed

lemma ring_ok_be [simp]: "ring_ok lg (c\<lparr>cl_be := b\<rparr>) = ring_ok lg c"
  by (simp add: ring_ok_def ring_def)

lemma Cached_AppendTransaction_push:
  "Cached_AppendTransaction ops tx l =
     (case tl_AppendTransaction ops tx (cl_be l) of
        (Some e, be') \<Rightarrow> (Some e, l\<lparr>cl_be := be'\<rparr>) | (None, be') \<Rightarrow> (None, ring_push be' tx l))"
  by (simp add: Cached_AppendTransaction_def ring_push_def Let_def split: prod.split option.split)

lemma cl_be_push [simp]: "cl_be (ring_push be tx l) = be"
  by (simp add: ring_push_def Let_def)

context txlog
begin

lemma cached_txlog:
  "txlog (Cached_log_ops ops) (\<lambda>c. log (cl_be c)) (\<lambda>c. inv (cl_be c) \<and> ring_ok (log (cl_be c)) c)"
proof unfold_locales
  fix l :: "'l CachedDBTransactionLogIO" and tx l'
  assume ok: "inv (cl_be l) \<and> ring_ok (log (cl_be l)) l" and con: "consecutive (log (cl_be l) @ [tx])"
    and app: "tl_AppendTransaction (Cached_log_ops ops) tx l = (None, l')"
  then obtain be' where be: "tl_AppendTransaction ops tx (cl_be l) = (None, be')"
    and l': "l' = ring_push be' tx l"
    by (auto simp: Cached_log_ops_def Cached_AppendTransaction_push split: prod.splits option.splits)
  have "inv be' \<and> log be' = log (cl_be l) @ [tx]" using append [OF _ con be] ok by simp
  moreover have "ring_ok (log (cl_be l) @ [tx]) l'" using ring_ok_push [OF _ con, of l be'] ok l' by simp
  ultimately show "(inv (cl_be l') \<and> ring_ok (log (cl_be l')) l') \<and> log (cl_be l') = log (cl_be l) @ [tx]"
    by (simp add: l')
next
  fix l :: "'l CachedDBTransactionLogIO" and tx e l'
  assume ok: "inv (cl_be l) \<and> ring_ok (log (cl_be l)) l"
    and app: "tl_AppendTransaction (Cached_log_ops ops) tx l = (Some e, l')"
  then obtain be' where "tl_AppendTransaction ops tx (cl_be l) = (Some e, be')" "l' = l\<lparr>cl_be := be'\<rparr>"
    by (auto simp: Cached_log_ops_def Cached_AppendTransaction_push split: prod.splits option.splits)
  then show "(inv (cl_be l') \<and> ring_ok (log (cl_be l')) l') \<and> log (cl_be l') = log (cl_be l)"
    using append_error [of "cl_be l" tx e be'] ok by simp
next
  fix l :: "'l CachedDBTransactionLogIO" and m
  assume ok: "inv (cl_be l) \<and> ring_ok (log (cl_be l)) l"
  obtain be' where be: "tl_QueryTransactions ops m (cl_be l) = (Inr (since m (log (cl_be l))), be')"
    "inv be'" "log be' = log (cl_be l)" using query [of "cl_be l" m] ok by blast
  have "QueryCachedTransactions m l = (Inr (since m (ring l)), l)"
    by (simp add: QueryCachedTransactions_def since_def ring_def)
  then show "\<exists>l'. tl_QueryTransactions (Cached_log_ops ops) m l = (Inr (since m (log (cl_be l))), l') \<and>
      (inv (cl_be l') \<and> ring_ok (log (cl_be l')) l') \<and> log (cl_be l') = log (cl_be l)"
    using ok be ring_query [of "log (cl_be l)" l m]
    by (simp add: Cached_log_ops_def Cached_QueryTransactions_def not_less)
qed

end

interpretation cached_log: txlog "Cached_log_ops Simple_log_ops" "\<lambda>c. sl_txs (cl_be c)"
  "\<lambda>c. ring_ok (sl_txs (cl_be c)) c"
  using simple_log.cached_txlog by simp

lemma ring_ok_New:
  "consecutive lg \<Longrightarrow> ring_ok lg (NewCachedDBTransactionLogIO be)"
  unfolding ring_ok_def
  by (intro conjI exI [of _ "replicate ringbufLen \<lparr>tx_TxID = 0, tx_Ops = []\<rparr>"] exI [of _ "[]"] exI [of _ lg])
    (simp_all add: NewCachedDBTransactionLogIO_def ringbufLen_def ring_def)

section \<open>Properties\<close>

definition append_all ::
    "DBTransaction list \<Rightarrow> SimpleDBTransactionLogIO CachedDBTransactionLogIO \<Rightarrow>
     SimpleDBTransactionLogIO CachedDBTransactionLogIO" where
  "append_all txs c = fold (\<lambda>tx c. snd (Cached_AppendTransaction Simple_log_ops tx c)) txs c"

lemma append_all_log:
  assumes "ring_ok (sl_txs (cl_be c)) c" "\<not> sl_readOnly (cl_be c)" "consecutive (sl_txs (cl_be c) @ txs)"
  shows "ring_ok (sl_txs (cl_be c) @ txs) (append_all txs c) \<and>
    sl_txs (cl_be (append_all txs c)) = sl_txs (cl_be c) @ txs"
  using assms
proof (induction txs arbitrary: c)
  case (Cons tx txs)
  obtain c' where c': "Cached_AppendTransaction Simple_log_ops tx c = (None, c')" "\<not> sl_readOnly (cl_be c')"
    using Cons.prems(2)
    by (auto simp: Cached_AppendTransaction_def Simple_log_ops_def Simple_AppendTransaction_def Let_def)
  have "consecutive (sl_txs (cl_be c) @ [tx])"
    using Cons.prems(3) by (rule consecutive_append_Cons)
  then have "ring_ok (sl_txs (cl_be c')) c'" "sl_txs (cl_be c') = sl_txs (cl_be c) @ [tx]"
    using cached_log.append [of c tx c'] Cons.prems(1) c'(1) by (auto simp: Cached_log_ops_def)
  then show ?case
    using Cons.IH [of c'] Cons.prems(3) c' by (simp add: append_all_def)
qed (simp add: append_all_def)

text \<open>
  C22. The log with the ring buffer answers every query as the log behind it would, whether the
  answer comes from the buffer or not: after any number of appended transactions, wrapping the
  buffer around included, a query from an id on gives exactly the transactions of the log with at
  least that id, in order.
\<close>

theorem cached_query_complete:
  assumes "consecutive (lg @ txs)"
  shows "fst (Cached_QueryTransactions Simple_log_ops m
      (append_all txs (NewCachedDBTransactionLogIO \<lparr>sl_readOnly = False, sl_txs = lg\<rparr>))) =
    Inr (since m (lg @ txs))"
proof -
  let ?c = "NewCachedDBTransactionLogIO \<lparr>sl_readOnly = False, sl_txs = lg\<rparr>"
  have be: "cl_be ?c = \<lparr>sl_readOnly = False, sl_txs = lg\<rparr>" by (simp add: NewCachedDBTransactionLogIO_def)
  have "consecutive lg" using consecutive_appendI [of lg txs] assms by simp
  then have "ring_ok (lg @ txs) (append_all txs ?c) \<and> sl_txs (cl_be (append_all txs ?c)) = lg @ txs"
    using append_all_log [of ?c txs] assms by (simp add: be ring_ok_New)
  then show ?thesis
    using cached_log.query [of "append_all txs ?c" m] by (auto simp: Cached_log_ops_def)
qed

theorem cached_query_complete_witness:
  "fst (Cached_QueryTransactions Simple_log_ops 2
      (append_all [\<lparr>tx_TxID = 2, tx_Ops = []\<rparr>, \<lparr>tx_TxID = 3, tx_Ops = []\<rparr>]
        (NewCachedDBTransactionLogIO \<lparr>sl_readOnly = False, sl_txs = [\<lparr>tx_TxID = 1, tx_Ops = []\<rparr>]\<rparr>))) =
    Inr [\<lparr>tx_TxID = 2, tx_Ops = []\<rparr>, \<lparr>tx_TxID = 3, tx_Ops = []\<rparr>]"
  using cached_query_complete [of "[\<lparr>tx_TxID = 1, tx_Ops = []\<rparr>]"
      "[\<lparr>tx_TxID = 2, tx_Ops = []\<rparr>, \<lparr>tx_TxID = 3, tx_Ops = []\<rparr>]" 2]
  by (simp add: since_def LatestVersion_def MaxInt64_def)

end
