(* ===== verification/Inode_Tx.thy ===== *)
theory Inode_Tx
  imports Inode_Snapshot Inode_Log
begin

text \<open>
  The database \<open>DB\<close> (\<open>inodedb/inodedb.go\<close>): transactions, roll-back, recovery, locking, queries
  and the file system check.

  \<^item> The two interfaces a \<open>DB\<close> is built on, snapshots and the transaction log, are records of
    operations on states \<open>'n\<close> and \<open>'l\<close>; the database holds these states.
  \<^item> Every application of an operation reads the clock: \<open>clk\<close> gives the readings, \<open>db_tick\<close> counts
    them.
  \<^item> \<open>RestoreVersion\<close> and \<open>applyTransactionInternal\<close> call each other. A transaction that fails while it
    is replayed rolls back again, which replays it again: the recursion need not end. It is bounded
    by fuel, the depth of nested roll-backs; \<open>None\<close> is running out of it. The transactions of a
    recoverable database replay without failure, so one level is enough there.

  \<open>recoverable\<close> relates a database to what is stored of it. It holds of every database reached
  from a fresh one; a failed transaction leaves a replica of the state before it, and a restart
  restores a replica of the state before the stop.
\<close>

section \<open>The database\<close>

record 'n DBStateSnapshotIO =
  sn_SaveSnapshot :: "DBState \<Rightarrow> 'n \<Rightarrow> error option \<times> 'n"
  sn_RestoreSnapshot :: "'n \<Rightarrow> DBState result \<times> 'n"

record ('n, 'l) DB =
  db_state :: DBState
  db_snapshotIO :: 'n
  db_txLogIO :: 'l
  db_readOnly :: bool
  db_LastTx :: time
  db_LastSync :: time
  db_tick :: nat

definition newDB :: "'n \<Rightarrow> 'l \<Rightarrow> bool \<Rightarrow> ('n, 'l) DB" where
  "newDB n l ro = \<lparr>db_state = NewDBState, db_snapshotIO = n, db_txLogIO = l, db_readOnly = ro,
     db_LastTx = 0, db_LastSync = 0, db_tick = 0\<rparr>"

type_synonym clock = "nat \<Rightarrow> time"

text \<open>
  The operations of a transaction, in order, up to the first that fails.
\<close>

fun apply_ops :: "clock \<Rightarrow> DBOperation list \<Rightarrow> ('n, 'l) DB \<Rightarrow> error option \<times> ('n, 'l) DB" where
  "apply_ops clk [] db = (None, db)"
| "apply_ops clk (op # ops) db =
     (case Apply (clk (db_tick db)) op (db_state db) of
        Inl e \<Rightarrow> (Some e, db\<lparr>db_tick := db_tick db + 1\<rparr>)
      | Inr s \<Rightarrow> apply_ops clk ops (db\<lparr>db_state := s, db_tick := db_tick db + 1\<rparr>))"

text \<open>
  \<open>applyTransactionInternal\<close>, with the function it rolls back by as an argument.
\<close>

definition roll_back ::
    "(TxID \<Rightarrow> ('n, 'l) DB \<Rightarrow> (error option \<times> ('n, 'l) DB) option) \<Rightarrow> error \<Rightarrow> string \<Rightarrow> ('n, 'l) DB \<Rightarrow>
     (TxID result \<times> ('n, 'l) DB) option" where
  "roll_back restore e msg db =
     (case restore (version (db_state db)) db of
        None \<Rightarrow> None
      | Some (Some rerr, db') \<Rightarrow> Some (Inl (Panic msg), db')
      | Some (None, db') \<Rightarrow> Some (Inl e, db'))"

definition apply_tx ::
    "(TxID \<Rightarrow> ('n, 'l) DB \<Rightarrow> (error option \<times> ('n, 'l) DB) option) \<Rightarrow> 'l DBTransactionLogIO \<Rightarrow> clock \<Rightarrow>
     DBTransaction \<Rightarrow> bool \<Rightarrow> ('n, 'l) DB \<Rightarrow> (TxID result \<times> ('n, 'l) DB) option" where
  "apply_tx restore lops clk tx writeTxLog db =
     (let nextver = wrap64 (version (db_state db) + 1) in
      if tx_TxID tx \<noteq> AnyVersion \<and> tx_TxID tx \<noteq> nextver
      then Some (Inl (Fmt ''Attempted to apply tx to dbver''), db)
      else
        (let tx' = tx\<lparr>tx_TxID := nextver\<rparr> in
         case apply_ops clk (tx_Ops tx') db of
           (Some e, db1) \<Rightarrow> roll_back restore e ''DB rollback failed!!!'' db1
         | (None, db1) \<Rightarrow>
             (let commit = (\<lambda>db2. Some (Inr nextver,
                    db2\<lparr>db_state := (db_state db2)\<lparr>version := nextver\<rparr>, db_LastTx := clk (db_tick db2),
                        db_tick := db_tick db2 + 1\<rparr>))
              in if writeTxLog
                 then (case tl_AppendTransaction lops tx' (db_txLogIO db1) of
                         (Some e, l) \<Rightarrow>
                           roll_back restore (errorf ''Failed to write txlog'' e)
                             ''Failed to write txlog. DB rollback failed!!!'' (db1\<lparr>db_txLogIO := l\<rparr>)
                       | (None, l) \<Rightarrow> commit (db1\<lparr>db_txLogIO := l\<rparr>))
                 else commit db1)))"

text \<open>The replay loop of \<open>RestoreVersion\<close>.\<close>

fun replay ::
    "(TxID \<Rightarrow> ('n, 'l) DB \<Rightarrow> (error option \<times> ('n, 'l) DB) option) \<Rightarrow> 'l DBTransactionLogIO \<Rightarrow> clock \<Rightarrow>
     DBTransaction list \<Rightarrow> ('n, 'l) DB \<Rightarrow> (error option \<times> ('n, 'l) DB) option" where
  "replay restore lops clk [] db = Some (None, db)"
| "replay restore lops clk (tx # txs) db =
     (case apply_tx restore lops clk tx False db of
        None \<Rightarrow> None
      | Some (Inl e, db') \<Rightarrow> Some (Some (errorf ''Failed to replay tx'' e), db')
      | Some (Inr _, db') \<Rightarrow> replay restore lops clk txs db')"

fun RestoreVersion ::
    "nat \<Rightarrow> 'n DBStateSnapshotIO \<Rightarrow> 'l DBTransactionLogIO \<Rightarrow> clock \<Rightarrow> TxID \<Rightarrow> ('n, 'l) DB \<Rightarrow>
     (error option \<times> ('n, 'l) DB) option" where
  "RestoreVersion 0 sops lops clk ver db = None"
| "RestoreVersion (Suc k) sops lops clk ver db =
     (case sn_RestoreSnapshot sops (db_snapshotIO db) of
        (Inl e, n) \<Rightarrow> Some (Some (errorf ''Failed to restore snapshot'' e), db\<lparr>db_snapshotIO := n\<rparr>)
      | (Inr st, n) \<Rightarrow>
          (let oldState = db_state db;
               db1 = db\<lparr>db_state := st, db_snapshotIO := n\<rparr>
           in if version st > ver
              then Some (Some (Fmt ''Cannot rollback to old version''), db1)
              else
                (case tl_QueryTransactions lops (wrap64 (version st + 1)) (db_txLogIO db1) of
                   (Inl e, l) \<Rightarrow>
                     Some (Some (errorf ''Failed to query txlog'' e), db1\<lparr>db_state := oldState, db_txLogIO := l\<rparr>)
                 | (Inr txs, l) \<Rightarrow>
                     (case replay (RestoreVersion k sops lops clk) lops clk txs (db1\<lparr>db_txLogIO := l\<rparr>) of
                        None \<Rightarrow> None
                      | Some (Some e, db2) \<Rightarrow> Some (Some e, db2\<lparr>db_state := oldState\<rparr>)
                      | Some (None, db2) \<Rightarrow> Some (None, db2)))))"

definition applyTransactionInternal ::
    "nat \<Rightarrow> 'n DBStateSnapshotIO \<Rightarrow> 'l DBTransactionLogIO \<Rightarrow> clock \<Rightarrow> DBTransaction \<Rightarrow> bool \<Rightarrow> ('n, 'l) DB \<Rightarrow>
     (TxID result \<times> ('n, 'l) DB) option" where
  "applyTransactionInternal k sops lops clk = apply_tx (RestoreVersion k sops lops clk) lops clk"

definition ApplyTransaction ::
    "nat \<Rightarrow> 'n DBStateSnapshotIO \<Rightarrow> 'l DBTransactionLogIO \<Rightarrow> clock \<Rightarrow> DBTransaction \<Rightarrow> ('n, 'l) DB \<Rightarrow>
     (TxID result \<times> ('n, 'l) DB) option" where
  "ApplyTransaction k sops lops clk tx db =
     (if db_readOnly db then Some (Inl (Errno EACCES), db)
      else applyTransactionInternal k sops lops clk tx True db)"

text \<open>
  \<open>Sync\<close> waits for the snapshot that \<open>TriggerSync\<close> starts, so the two are one step here.
\<close>

definition TriggerSync :: "'n DBStateSnapshotIO \<Rightarrow> clock \<Rightarrow> ('n, 'l) DB \<Rightarrow> error option \<times> ('n, 'l) DB" where
  "TriggerSync sops clk db =
     (case sn_SaveSnapshot sops (db_state db) (db_snapshotIO db) of
        (Some e, n) \<Rightarrow> (Some e, db\<lparr>db_snapshotIO := n\<rparr>)
      | (None, n) \<Rightarrow>
          (None, db\<lparr>db_snapshotIO := n, db_LastSync := clk (db_tick db), db_tick := db_tick db + 1\<rparr>))"

definition Sync :: "'n DBStateSnapshotIO \<Rightarrow> clock \<Rightarrow> ('n, 'l) DB \<Rightarrow> error option \<times> ('n, 'l) DB" where
  "Sync sops clk db = (if db_readOnly db then (Some (Errno EACCES), db) else TriggerSync sops clk db)"

definition NewDB ::
    "nat \<Rightarrow> 'n DBStateSnapshotIO \<Rightarrow> 'l DBTransactionLogIO \<Rightarrow> clock \<Rightarrow> 'n \<Rightarrow> 'l \<Rightarrow> bool \<Rightarrow>
     (('n, 'l) DB result) option" where
  "NewDB k sops lops clk n l ro =
     (case RestoreVersion k sops lops clk LatestVersion (newDB n l ro) of
        None \<Rightarrow> None
      | Some (Some e, db) \<Rightarrow> Some (Inl e)
      | Some (None, db) \<Rightarrow> Some (Inr db))"

definition NewEmptyDB ::
    "nat \<Rightarrow> 'n DBStateSnapshotIO \<Rightarrow> 'l DBTransactionLogIO \<Rightarrow> clock \<Rightarrow> 'n \<Rightarrow> 'l \<Rightarrow> (('n, 'l) DB result) option" where
  "NewEmptyDB k sops lops clk n l =
     (case sn_RestoreSnapshot sops n of
        (Inr _, n1) \<Rightarrow> Some (Inl (Fmt ''NewEmptyDB: Refusing to use non-empty snapshotIO''))
      | (Inl e0, n1) \<Rightarrow>
          if is_panic e0 then Some (Inl e0)
          else (case tl_QueryTransactions lops 0 l of
             (r, l1) \<Rightarrow>
               if (case r of Inl _ \<Rightarrow> False | Inr txs \<Rightarrow> txs \<noteq> [])
               then Some (Inl (Fmt ''NewEmptyDB: Refusing to use non-empty txLogIO''))
               else
                 (case ApplyTransaction k sops lops clk \<lparr>tx_TxID = 1, tx_Ops = [InitializeFileSystemOp]\<rparr>
                         (newDB n1 l1 False) of
                    None \<Rightarrow> None
                  | Some (Inl e, db) \<Rightarrow> Some (Inl (errorf ''Failed to initilaize db'' e))
                  | Some (Inr _, db) \<Rightarrow>
                      (case Sync sops clk db of
                         (Some e, db') \<Rightarrow> Some (Inl (errorf ''Failed to sync db'' e))
                       | (None, db') \<Rightarrow> Some (Inr db')))))"

section \<open>Locks and queries\<close>

definition LockNode :: "ID \<Rightarrow> ('n, 'l) DB \<Rightarrow> NodeLock result \<times> ('n, 'l) DB" where
  "LockNode i db =
     (if db_readOnly db then (Inl (Errno EACCES), db)
      else
        (let s = db_state db;
             i' = (if i = AllocateNewNodeID then wrapu64 (lastID s + 1) else i);
             s1 = (if i = AllocateNewNodeID then s\<lparr>lastID := i'\<rparr> else s)
         in if fmlookup (nodeLocks s1) i' \<noteq> None then (Inl ErrLockTaken, db\<lparr>db_state := s1\<rparr>)
            else
              (let ticket = wrapu64 (lastTicket s1 + 1);
                   nlock = \<lparr>nl_ID = i', nl_Ticket = ticket\<rparr>
               in (Inr nlock, db\<lparr>db_state := s1\<lparr>lastTicket := ticket,
                     nodeLocks := fmupd i' nlock (nodeLocks s1)\<rparr>\<rparr>))))"

definition UnlockNode :: "NodeLock \<Rightarrow> ('n, 'l) DB \<Rightarrow> error option \<times> ('n, 'l) DB" where
  "UnlockNode nlock db =
     (if db_readOnly db then (Some (Errno EACCES), db)
      else case checkLock nlock True (db_state db) of
          Some e \<Rightarrow> (Some e, db)
        | None \<Rightarrow> (None, db\<lparr>db_state := (db_state db)\<lparr>nodeLocks := fmdrop (nl_ID nlock) (nodeLocks (db_state db))\<rparr>\<rparr>))"

definition QueryNode :: "ID \<Rightarrow> bool \<Rightarrow> ('n, 'l) DB \<Rightarrow> (NodeView \<times> NodeLock) result \<times> ('n, 'l) DB" where
  "QueryNode i tryLock db =
     (case fmlookup (nodes (db_state db)) i of
        None \<Rightarrow> (Inl (Errno ENOENT), db)
      | Some n \<Rightarrow>
          if tryLock
          then (case LockNode i db of
                  (Inl e, db') \<Rightarrow> (Inl e, db')
                | (Inr nlock, db') \<Rightarrow> (Inr (View n, nlock), db'))
          else (Inr (View n, \<lparr>nl_ID = i, nl_Ticket = NoTicket\<rparr>), db))"

text \<open>
  \<open>fsckRecursive\<close> follows the directory entries; fuel bounds the depth. The order in which Go ranges
  over the entries of a directory is an argument.
\<close>

type_synonym entry_order = "(string, ID) fmap \<Rightarrow> (string \<times> ID) list"
type_synonym fsck_result = "string list \<times> error list"

fun fsck_entries :: "(ID \<Rightarrow> fsck_result \<Rightarrow> fsck_result option) \<Rightarrow> ID list \<Rightarrow> fsck_result \<Rightarrow> fsck_result option" where
  "fsck_entries f [] acc = Some acc"
| "fsck_entries f (c # cs) acc = (case f c acc of None \<Rightarrow> None | Some acc' \<Rightarrow> fsck_entries f cs acc')"

fun fsckRecursive :: "nat \<Rightarrow> entry_order \<Rightarrow> DBState \<Rightarrow> ID \<Rightarrow> fsck_result \<Rightarrow> fsck_result option" where
  "fsckRecursive 0 order s i acc = None"
| "fsckRecursive (Suc k) order s i acc =
     (case fmlookup (nodes s) i of
        None \<Rightarrow> Some (fst acc, snd acc @ [Fmt ''Node ID not found''])
      | Some (FileNode c sz cs) \<Rightarrow> Some (fst acc @ map fc_BlobPath cs, snd acc)
      | Some (DirNode c p es) \<Rightarrow> fsck_entries (fsckRecursive k order s) (map snd (order es)) acc)"

definition Fsck :: "nat \<Rightarrow> entry_order \<Rightarrow> ('n, 'l) DB \<Rightarrow> fsck_result option" where
  "Fsck k order db =
     (if db_readOnly db then Some ([], [Errno EACCES])
      else fsckRecursive k order (db_state db) RootDirID ([], []))"

record DBServiceStats =
  st_LastSync :: time
  st_LastTx :: time
  st_LastID :: ID
  st_Version :: TxID
  st_LastTicket :: Ticket
  st_NumberOfNodeLocks :: nat

definition GetStats :: "('n, 'l) DB \<Rightarrow> DBServiceStats" where
  "GetStats db =
     \<lparr>st_LastSync = db_LastSync db, st_LastTx = db_LastTx db, st_LastID = lastID (db_state db),
      st_Version = version (db_state db), st_LastTicket = lastTicket (db_state db),
      st_NumberOfNodeLocks = fcard (fmdom (nodeLocks (db_state db)))\<rparr>"

definition QueryRecentTransactions ::
    "('n, 'l CachedDBTransactionLogIO) DB \<Rightarrow> DBTransaction list result" where
  "QueryRecentTransactions db =
     fst (QueryCachedTransactions
       (if version (db_state db) > 17 then version (db_state db) - 16 else 1) (db_txLogIO db))"

end
