(* ===== verification/Snapshot_Store.thy ===== *)
theory Snapshot_Store
  imports Inode_Tx
begin

text \<open>
  Snapshots kept as blobs (\<open>inodedb/blobstoredbstatesnapshotio\<close>): saving, restoring with a fall-back
  to older snapshots, and deleting old ones.

  The blob store is a record of three operations on a state \<open>'bs\<close>; writing a blob is one operation,
  \<open>OpenWriter\<close>, \<open>SaveBytes\<close> and \<open>Close\<close> together. \<open>seal\<close> and \<open>unseal\<close> stand for what
  \<open>metadata/statesnapshot\<close> does to the gob stream: gob's bytes, compression, encryption. The
  locator is a record of operations on a state \<open>'c\<close>; \<open>SimpleSSLocator\<close> is the instance of the
  source that needs no external service. Saving runs in a goroutine whose result the callers
  modelled here wait for, so it is one step.

  The locale \<open>snapshot_io\<close> is what the database relies on of a snapshot store.
\<close>

section \<open>Metadata blobs\<close>

definition INodeDBSnapshotBlobpathPrefix :: string where
  "INodeDBSnapshotBlobpathPrefix = ''META_INODEDB_SNAPSHOT''"

definition VersionCacheBlobpath :: string where
  "VersionCacheBlobpath = ''META_VERSION_CACHE''"

definition IsMetadataBlobpath :: "string \<Rightarrow> bool" where
  "IsMetadataBlobpath blobpath = (take 5 blobpath = ''META_'')"

text \<open>The formatted time is an argument.\<close>

definition GenINodeDBSnapshotBlobpath :: "string \<Rightarrow> string" where
  "GenINodeDBSnapshotBlobpath timestamp = INodeDBSnapshotBlobpathPrefix @ ''.'' @ timestamp"

text \<open>
  \<open>statesnapshot.Restore\<close> collects the error of the decoding callback, but returns the error of the
  last call before it, which has succeeded: a callback that fails goes unnoticed.
\<close>

definition statesnapshot_Restore ::
    "('b \<Rightarrow> gobval list result) \<Rightarrow> 'b \<Rightarrow> 'a decoder \<Rightarrow> 'a option \<times> error option" where
  "statesnapshot_Restore unseal b cb =
     (case unseal b of
        Inl e \<Rightarrow> (None, Some e)
      | Inr gs \<Rightarrow> ((case cb gs of (Inl e, _) \<Rightarrow> None | (Inr x, _) \<Rightarrow> Some x), None))"

section \<open>Locators and stores\<close>

record 'c SSLocator =
  loc_Locate :: "nat \<Rightarrow> 'c \<Rightarrow> (string \<times> int) result"
  loc_GenerateBlobpath :: "'c \<Rightarrow> string \<times> 'c"
  loc_Put :: "string \<Rightarrow> int \<Rightarrow> 'c \<Rightarrow> error option \<times> 'c"
  loc_DeleteOld :: "nat \<Rightarrow> bool \<Rightarrow> 'c \<Rightarrow> string list result \<times> 'c"

record ('bs, 'b) BlobIO =
  blob_write :: "string \<Rightarrow> 'b \<Rightarrow> 'bs \<Rightarrow> error option \<times> 'bs"
  blob_read :: "string \<Rightarrow> 'bs \<Rightarrow> 'b result"
  blob_remove :: "(string \<Rightarrow> 'bs \<Rightarrow> error option \<times> 'bs) option"

record ('bs, 'c) BlobDBStateSnapshotIO =
  ss_bs :: 'bs
  ss_loc :: 'c
  ss_snapshotVer :: TxID

record ('bs, 'b, 'c) ss_env =
  env_order :: map_order
  env_blobs :: "('bs, 'b) BlobIO"
  env_loc :: "'c SSLocator"
  env_seal :: "gobval list \<Rightarrow> 'b"
  env_unseal :: "'b \<Rightarrow> gobval list result"

definition BlobSnapshotIO_New :: "'bs \<Rightarrow> 'c \<Rightarrow> ('bs, 'c) BlobDBStateSnapshotIO" where
  "BlobSnapshotIO_New bs loc = \<lparr>ss_bs = bs, ss_loc = loc, ss_snapshotVer = -1\<rparr>"

definition Blob_SaveSnapshot ::
    "('bs, 'b, 'c) ss_env \<Rightarrow> DBState \<Rightarrow> ('bs, 'c) BlobDBStateSnapshotIO \<Rightarrow>
     error option \<times> ('bs, 'c) BlobDBStateSnapshotIO" where
  "Blob_SaveSnapshot env s sio =
     (if ss_snapshotVer sio = version s then (None, sio)
      else case DBState_EncodeToGob (env_order env) s of
          Inl e \<Rightarrow> (Some e, sio)
        | Inr gs \<Rightarrow>
            (case loc_GenerateBlobpath (env_loc env) (ss_loc sio) of
               (ssbp, loc1) \<Rightarrow>
                 (case blob_write (env_blobs env) ssbp (env_seal env gs) (ss_bs sio) of
                    (Some e, bs1) \<Rightarrow> (Some e, sio\<lparr>ss_bs := bs1, ss_loc := loc1\<rparr>)
                  | (None, bs1) \<Rightarrow>
                      (case loc_Put (env_loc env) ssbp (version s) loc1 of
                         (Some e, loc2) \<Rightarrow> (Some e, sio\<lparr>ss_bs := bs1, ss_loc := loc2\<rparr>)
                       | (None, loc2) \<Rightarrow>
                           (None, \<lparr>ss_bs = bs1, ss_loc = loc2, ss_snapshotVer = version s\<rparr>)))))"

definition restoreNthSnapshot ::
    "('bs, 'b, 'c) ss_env \<Rightarrow> nat \<Rightarrow> ('bs, 'c) BlobDBStateSnapshotIO \<Rightarrow>
     DBState result \<times> ('bs, 'c) BlobDBStateSnapshotIO" where
  "restoreNthSnapshot env i sio =
     (case loc_Locate (env_loc env) i (ss_loc sio) of
        Inl e \<Rightarrow> (Inl e, sio)
      | Inr (ssbp, txid) \<Rightarrow>
          (case blob_read (env_blobs env) ssbp (ss_bs sio) of
             Inl e \<Rightarrow> (Inl e, sio)
           | Inr b \<Rightarrow>
               (case statesnapshot_Restore (env_unseal env) b DecodeDBStateFromGob of
                  (_, Some e) \<Rightarrow> (Inl e, sio)
                | (None, None) \<Rightarrow> (Inl (Panic ''nil pointer dereference''), sio)
                | (Some state, None) \<Rightarrow> (Inr state, sio\<lparr>ss_snapshotVer := version state\<rparr>))))"

definition maxhist :: nat where
  "maxhist = 3"

fun restore_from ::
    "('bs, 'b, 'c) ss_env \<Rightarrow> nat list \<Rightarrow> ('bs, 'c) BlobDBStateSnapshotIO \<Rightarrow>
     DBState result \<times> ('bs, 'c) BlobDBStateSnapshotIO" where
  "restore_from env [] sio = (Inl (Fmt ''Failed to restore snapshots. Aborted.''), sio)"
| "restore_from env (i # is) sio =
     (case restoreNthSnapshot env i sio of
        (Inr state, sio') \<Rightarrow> (Inr state, sio')
      | (Inl e, sio') \<Rightarrow> if is_panic e then (Inl e, sio') else restore_from env is sio')"

definition Blob_RestoreSnapshot ::
    "('bs, 'b, 'c) ss_env \<Rightarrow> ('bs, 'c) BlobDBStateSnapshotIO \<Rightarrow>
     DBState result \<times> ('bs, 'c) BlobDBStateSnapshotIO" where
  "Blob_RestoreSnapshot env sio = restore_from env [0..<maxhist] sio"

definition FindUnneededTxIDThreshold ::
    "('bs, 'b, 'c) ss_env \<Rightarrow> ('bs, 'c) BlobDBStateSnapshotIO \<Rightarrow>
     TxID result \<times> ('bs, 'c) BlobDBStateSnapshotIO" where
  "FindUnneededTxIDThreshold env sio =
     (case restoreNthSnapshot env (maxhist - 1) sio of
        (Inl e, sio') \<Rightarrow> (Inl e, sio')
      | (Inr state, sio') \<Rightarrow> (Inr (version state), sio'))"

text \<open>
  Errors of single removals are collected into a variable that is not returned.
\<close>

fun remove_blobs ::
    "(string \<Rightarrow> 'bs \<Rightarrow> error option \<times> 'bs) \<Rightarrow> string list \<Rightarrow> 'bs \<Rightarrow> error list \<times> 'bs" where
  "remove_blobs rm [] bs = ([], bs)"
| "remove_blobs rm (bp # bps) bs =
     (case rm bp bs of
        (err, bs1) \<Rightarrow>
          (case remove_blobs rm bps bs1 of
             (me, bs2) \<Rightarrow> ((case err of None \<Rightarrow> me | Some e \<Rightarrow> e # me), bs2)))"

definition DeleteOldSnapshots ::
    "('bs, 'b, 'c) ss_env \<Rightarrow> bool \<Rightarrow> ('bs, 'c) BlobDBStateSnapshotIO \<Rightarrow>
     error option \<times> ('bs, 'c) BlobDBStateSnapshotIO" where
  "DeleteOldSnapshots env dryRun sio =
     (case blob_remove (env_blobs env) of
        None \<Rightarrow> (Some (Fmt ''Backend blobstore doesn't support blob deletion.''), sio)
      | Some rm \<Rightarrow>
          (case Blob_RestoreSnapshot env sio of
             (Inl e, sio1) \<Rightarrow>
               (Some (errorf ''DeleteOldSnapshots. RestoreSnapshot() sanity check failed'' e), sio1)
           | (Inr _, sio1) \<Rightarrow>
               (case loc_DeleteOld (env_loc env) maxhist dryRun (ss_loc sio1) of
                  (Inl e, loc1) \<Rightarrow> (Some (errorf ''SSLocator.DeleteOld failed'' e), sio1\<lparr>ss_loc := loc1\<rparr>)
                | (Inr bps, loc1) \<Rightarrow>
                    if dryRun then (None, sio1\<lparr>ss_loc := loc1\<rparr>)
                    else (None, sio1\<lparr>ss_loc := loc1, ss_bs := snd (remove_blobs rm bps (ss_bs sio1))\<rparr>))))"

definition Blob_snapshot_ops ::
    "('bs, 'b, 'c) ss_env \<Rightarrow> ('bs, 'c) BlobDBStateSnapshotIO DBStateSnapshotIO" where
  "Blob_snapshot_ops env =
     \<lparr>sn_SaveSnapshot = Blob_SaveSnapshot env, sn_RestoreSnapshot = Blob_RestoreSnapshot env\<rparr>"

section \<open>SimpleSSLocator\<close>

text \<open>Its only state is the global \<open>simplesslocatorTxID\<close>.\<close>

definition generateBlobpath :: string where
  "generateBlobpath = INodeDBSnapshotBlobpathPrefix @ ''_SimpleSSLocator''"

definition SimpleSSLocator :: "int SSLocator" where
  "SimpleSSLocator =
     \<lparr>loc_Locate = (\<lambda>history txid. Inr (generateBlobpath, txid)),
      loc_GenerateBlobpath = (\<lambda>c. (generateBlobpath, c)),
      loc_Put = (\<lambda>blobpath txid c. (None, txid)),
      loc_DeleteOld = (\<lambda>threshold dryRun c. (Inr [], c))\<rparr>"

section \<open>Properties\<close>

text \<open>
  C30. A latest snapshot whose blob can be read and decrypted but whose contents do not decode makes
  \<open>RestoreSnapshot\<close> panic on a nil state, although older snapshots would be tried after an error:
  the decoding error is lost in \<open>statesnapshot.Restore\<close>.
\<close>

theorem undecodable_snapshot_panics:
  assumes "loc_Locate (env_loc env) 0 (ss_loc sio) = Inr (ssbp, txid)"
    and "blob_read (env_blobs env) ssbp (ss_bs sio) = Inr b" "env_unseal env b = Inr gs"
    and "DecodeDBStateFromGob gs = (Inl e, gs')"
  shows "Blob_RestoreSnapshot env sio = (Inl (Panic ''nil pointer dereference''), sio)"
proof -
  have "[0..<maxhist] = [0, 1, 2]" by (simp add: maxhist_def numeral_eq_Suc)
  with assms show ?thesis
    by (simp add: Blob_RestoreSnapshot_def restoreNthSnapshot_def statesnapshot_Restore_def)
qed

theorem undecodable_snapshot_panics_witness:
  "Blob_RestoreSnapshot
     \<lparr>env_order = by_id,
      env_blobs = \<lparr>blob_write = (\<lambda>bp b bs. (None, bs(bp \<mapsto> b))),
        blob_read = (\<lambda>bp bs. case bs bp of None \<Rightarrow> Inl (Errno ENOENT) | Some b \<Rightarrow> Inr b), blob_remove = None\<rparr>,
      env_loc = SimpleSSLocator, env_seal = (\<lambda>gs. gs), env_unseal = Inr\<rparr>
     (BlobSnapshotIO_New [generateBlobpath \<mapsto> [GUint 1]] 0) =
   (Inl (Panic ''nil pointer dereference''), BlobSnapshotIO_New [generateBlobpath \<mapsto> [GUint 1]] 0)"
  by (rule undecodable_snapshot_panics [of _ _ generateBlobpath 0 "[GUint 1]" "[GUint 1]"
        "Fmt ''Failed to decode Type''" "[]"])
    (simp_all add: SimpleSSLocator_def BlobSnapshotIO_New_def DecodeDBStateFromGob_def dec_bind_def dec_next_def
      DecodeNodeFromGob_def)

end
