(* ===== verification/Inode_Recovery.thy ===== *)
theory Inode_Recovery
  imports Snapshot_Store File_Blobstore
begin

text \<open>
  Recovery of the inode database from its snapshot and its transaction log.

  \<open>db_storage\<close> puts together the contracts of the two stores (\<open>snapshot_io\<close>, \<open>txlog\<close>). In it,
  \<open>recoverable\<close> says that the state of the database is, up to what a restart may change, what the
  snapshot and the logged transactions after it give; transactions, synchronisation, locking and
  restarts keep it. The locale is interpreted for snapshots kept as files and the cached
  transaction log.
\<close>

section \<open>Redoing transactions\<close>

text \<open>The operations of a transaction and whole transactions, with the clock standing at 0.\<close>

fun redo_ops :: "DBOperation list \<Rightarrow> DBState \<Rightarrow> DBState result" where
  "redo_ops [] s = Inr s"
| "redo_ops (op # ops) s = (case Apply 0 op s of Inl e \<Rightarrow> Inl e | Inr s' \<Rightarrow> redo_ops ops s')"

fun redo :: "DBTransaction list \<Rightarrow> DBState \<Rightarrow> DBState option" where
  "redo [] s = Some s"
| "redo (tx # txs) s =
     (if tx_TxID tx \<noteq> version s + 1 then None
      else case redo_ops (tx_Ops tx) s of
          Inl e \<Rightarrow> None
        | Inr s' \<Rightarrow> redo txs (s'\<lparr>version := tx_TxID tx\<rparr>))"

definition twin :: "DBState \<Rightarrow> DBState \<Rightarrow> bool" where
  "twin s r \<longleftrightarrow> replica s r \<and> replica r s"

lemma replica_trans: "replica s r \<Longrightarrow> replica r t \<Longrightarrow> replica s t"
  by (auto simp: replica_def)

lemma twin_refl: "nodeLocks s = fmempty \<Longrightarrow> twin s s"
  by (simp add: twin_def replica_def)

lemma twin_sym: "twin s r \<Longrightarrow> twin r s"
  by (auto simp: twin_def)

lemma twin_sameD: "twin s r \<Longrightarrow> version r = version s"
  unfolding twin_def replica_def by blast

lemma tree_version [simp]: "tree (s\<lparr>version := v\<rparr>) = tree s"
  by (simp add: tree_def)

lemma replica_version [simp]: "replica s r \<Longrightarrow> replica (s\<lparr>version := v\<rparr>) (r\<lparr>version := v\<rparr>)"
  by (simp add: replica_def)

lemma twin_version [simp]: "twin s r \<Longrightarrow> twin (s\<lparr>version := v\<rparr>) (r\<lparr>version := v\<rparr>)"
  by (simp add: twin_def)

lemma db_ok_version [simp]: "db_ok (s\<lparr>version := v\<rparr>) \<longleftrightarrow> db_ok s"
  by (simp add: db_ok_def node_ok_def [abs_def] root_ok_def lock_ok_def [abs_def] tickets_ok_def)

lemma Apply_twin:
  assumes "twin s r" "Apply now op s = Inr t"
  shows "\<exists>t'. Apply now' op r = Inr t' \<and> twin t t'"
proof -
  obtain t' where t': "Apply now' op r = Inr t'" "replica t t'"
    using Apply_replay [of s r now op t now'] assms by (auto simp: twin_def)
  moreover obtain t2 where "Apply now op s = Inr t2" "replica t' t2"
    using Apply_replay [of r s now' op t' now] assms(1) t'(1) by (auto simp: twin_def)
  ultimately show ?thesis using assms(2) by (auto simp: twin_def)
qed

text \<open>What a run of operations leaves alone.\<close>

definition same_io :: "('n, 'l) DB \<Rightarrow> ('n, 'l) DB \<Rightarrow> bool" where
  "same_io db db' \<longleftrightarrow> db_snapshotIO db' = db_snapshotIO db \<and> db_txLogIO db' = db_txLogIO db \<and>
     db_readOnly db' = db_readOnly db"

lemma same_io_refl [simp]: "same_io db db"
  by (simp add: same_io_def)

lemma same_io_trans: "same_io a b \<Longrightarrow> same_io b c \<Longrightarrow> same_io a c"
  by (simp add: same_io_def)

lemma same_io_upd [simp]:
  "same_io db (db\<lparr>db_tick := t\<rparr>)" "same_io db (db\<lparr>db_state := s, db_tick := t\<rparr>)"
  "same_io db (db\<lparr>db_state := s, db_LastTx := l, db_tick := t\<rparr>)"
  by (simp_all add: same_io_def)

lemma apply_ops_frame:
  assumes "apply_ops clk ops db = (e, db')"
  shows "same_io db db' \<and> version (db_state db') = version (db_state db) \<and>
    (db_ok (db_state db) \<longrightarrow> db_ok (db_state db'))"
  using assms
proof (induction clk ops db rule: apply_ops.induct)
  case (2 clk op ops db)
  show ?case
  proof (cases "Apply (clk (db_tick db)) op (db_state db)")
    case (Inl e')
    with 2(2) show ?thesis by auto
  next
    case (Inr s)
    have "version s = version (db_state db)" "db_ok (db_state db) \<longrightarrow> db_ok s"
      using Apply_frame [OF Inr] Apply_ok [OF _ Inr] by auto
    with 2(1) [OF Inr] 2(2) Inr show ?thesis
      by (auto intro: same_io_trans [OF same_io_upd(2)])
  qed
qed simp

lemma apply_ops_replica:
  assumes "apply_ops clk ops db = (None, db')" "replica (db_state db) r"
  shows "\<exists>r'. redo_ops ops r = Inr r' \<and> replica (db_state db') r'"
  using assms
proof (induction clk ops db arbitrary: r rule: apply_ops.induct)
  case (2 clk op ops db)
  then obtain s where s: "Apply (clk (db_tick db)) op (db_state db) = Inr s"
    by (auto split: sum.splits)
  then obtain r1 where "Apply 0 op r = Inr r1" "replica s r1"
    using Apply_replay [OF 2(3) s] by blast
  with 2(1) [OF s, of r1] 2(2) s show ?case by simp
qed simp

lemma apply_ops_twin:
  assumes "redo_ops ops s = Inr t" "twin s (db_state db)"
  shows "\<exists>db'. apply_ops clk ops db = (None, db') \<and> twin t (db_state db')"
  using assms
proof (induction ops arbitrary: s db)
  case (Cons op ops)
  then obtain s1 where s1: "Apply 0 op s = Inr s1" "redo_ops ops s1 = Inr t"
    by (auto split: sum.splits)
  obtain t1 where t1: "Apply (clk (db_tick db)) op (db_state db) = Inr t1" "twin s1 t1"
    using Apply_twin [OF Cons.prems(2) s1(1)] by blast
  show ?case
    using Cons.IH [OF s1(2), of "db\<lparr>db_state := t1, db_tick := db_tick db + 1\<rparr>"] t1 by simp
qed simp

lemma redo_version: "redo txs s = Some r \<Longrightarrow> version r = version s + int (length txs)"
  by (induction txs s rule: redo.induct) (auto split: if_splits sum.splits)

lemma redo_append:
  "redo (txs @ us) s = (case redo txs s of None \<Rightarrow> None | Some r \<Rightarrow> redo us r)"
  by (induction txs s rule: redo.induct) (auto split: sum.splits)

lemma replay_redo:
  assumes "redo txs s = Some r" "twin s (db_state db)" "db_ok (db_state db)"
    and "0 \<le> version s" "version s + int (length txs) \<le> MaxInt64"
  shows "\<exists>db'. replay restore lops clk txs db = Some (None, db') \<and> twin r (db_state db') \<and>
    db_ok (db_state db') \<and> same_io db db'"
  using assms
proof (induction txs arbitrary: s db)
  case (Cons tx txs)
  then obtain s1 where s1: "redo_ops (tx_Ops tx) s = Inr s1" "redo txs (s1\<lparr>version := tx_TxID tx\<rparr>) = Some r"
    and id: "tx_TxID tx = version s + 1"
    by (auto split: if_splits sum.splits)
  obtain db1 where db1: "apply_ops clk (tx_Ops tx) db = (None, db1)" "twin s1 (db_state db1)"
    using apply_ops_twin [OF s1(1) Cons.prems(2)] by blast
  note fr = apply_ops_frame [OF db1(1)]
  have ver: "version (db_state db) = version s" using Cons.prems(2) by (rule twin_sameD)
  have nxt: "wrap64 (version s + 1) = version s + 1"
    using Cons.prems(4,5) by (intro wrap64_id) auto
  define db2 where "db2 = db1\<lparr>db_state := (db_state db1)\<lparr>version := version s + 1\<rparr>,
    db_LastTx := clk (db_tick db1), db_tick := db_tick db1 + 1\<rparr>"
  have "apply_tx restore lops clk tx False db = Some (Inr (version s + 1), db2)"
    using db1(1) id nxt by (simp add: apply_tx_def ver Let_def db2_def)
  moreover have "same_io db db2" using fr by (auto simp: db2_def same_io_def)
  moreover have "\<exists>db'. replay restore lops clk txs db2 = Some (None, db') \<and> twin r (db_state db') \<and>
      db_ok (db_state db') \<and> same_io db2 db'"
  proof (rule Cons.IH [OF s1(2)])
    show "twin (s1\<lparr>version := tx_TxID tx\<rparr>) (db_state db2)" using db1(2) id by (simp add: db2_def)
    show "db_ok (db_state db2)" using fr Cons.prems(3) by (simp add: db2_def)
  qed (use Cons.prems(4,5) id in simp_all)
  ultimately show ?case by (auto intro: same_io_trans)
qed simp


lemma consecutive_snoc:
  "consecutive ts \<Longrightarrow> 0 < tx_TxID t \<Longrightarrow> tx_TxID t < LatestVersion \<Longrightarrow>
   (ts \<noteq> [] \<Longrightarrow> tx_TxID t = tx_TxID (last ts) + 1) \<Longrightarrow> consecutive (ts @ [t])"
  by (induction ts rule: consecutive.induct) auto

lemma since_last:
  assumes "consecutive ts" "ts \<noteq> [] \<longrightarrow> tx_TxID (last ts) = v"
  shows "since (v + 1) ts = []"
proof (cases ts rule: rev_cases)
  case (snoc us t)
  then have "tx_TxID u \<le> v" if "u \<in> set ts" for u
    using that assms consecutive_before [of us t "[]" u] by auto
  then show ?thesis by (auto simp: since_def filter_empty_conv not_le)
qed (simp add: since_def)

section \<open>Storage a database can be recovered from\<close>

text \<open>
  What the database relies on of a snapshot store: \<open>snap\<close> is the state it would restore. Saving a
  state replaces it by what a snapshot holds of that state, or leaves it when a snapshot of that
  version is there already; restoring does not change it.
\<close>

locale snapshot_io =
  fixes sops :: "'n DBStateSnapshotIO" and snap :: "'n \<Rightarrow> DBState option" and sinv :: "'n \<Rightarrow> bool"
  assumes save: "\<lbrakk>sinv n; db_ok s; 0 \<le> version s; sn_SaveSnapshot sops s n = (None, n')\<rbrakk> \<Longrightarrow>
      sinv n' \<and> (snap n' = Some (snapshot_of s) \<or>
        snap n' = snap n \<and> (\<exists>s0. snap n = Some s0 \<and> version s0 = version s))"
    and save_error: "\<lbrakk>sinv n; db_ok s; sn_SaveSnapshot sops s n = (Some e, n')\<rbrakk> \<Longrightarrow> sinv n' \<and> snap n' = snap n"
    and restore: "\<lbrakk>sinv n; snap n = Some s\<rbrakk> \<Longrightarrow>
      \<exists>n'. sn_RestoreSnapshot sops n = (Inr s, n') \<and> sinv n' \<and> snap n' = snap n"
    and restore_none: "\<lbrakk>sinv n; snap n = None\<rbrakk> \<Longrightarrow>
      \<exists>e n'. sn_RestoreSnapshot sops n = (Inl e, n') \<and> sinv n' \<and> snap n' = None"

lemma snapshot_of_ok: "db_ok s \<Longrightarrow> db_ok (snapshot_of s)"
proof -
  have *: "entries_of (drop_parent n) = entries_of n" "is_dir (drop_parent n) = is_dir n" for n
    by (cases n; simp add: entries_of_def is_dir_def)+
  show "db_ok s \<Longrightarrow> db_ok (snapshot_of s)"
    by (auto simp: snapshot_of_def NewDBState_def db_ok_def node_ok_def root_ok_def tickets_ok_def fmpred_iff *
        split: option.splits)
qed

lemma snapshot_of_simps [simp]:
  "version (snapshot_of s) = version s" "nodeLocks (snapshot_of s) = fmempty"
  by (simp_all add: snapshot_of_def NewDBState_def)

text \<open>
  \<open>stored_in\<close>: the snapshot and the transactions after it, redone, give \<open>r\<close>; the log ends at its
  version. \<open>recoverable_in\<close>: the state of the database may be replaced by what is stored.
\<close>

definition stored_in ::
    "('n \<Rightarrow> bool) \<Rightarrow> ('n \<Rightarrow> DBState option) \<Rightarrow> ('l \<Rightarrow> bool) \<Rightarrow> ('l \<Rightarrow> DBTransaction list) \<Rightarrow>
     'n \<Rightarrow> 'l \<Rightarrow> DBState \<Rightarrow> bool" where
  "stored_in sinv snap linv log n l r \<longleftrightarrow>
     sinv n \<and> linv l \<and> consecutive (log l) \<and> version r < LatestVersion \<and>
     (log l \<noteq> [] \<longrightarrow> tx_TxID (last (log l)) = version r) \<and>
     (\<exists>s0. snap n = Some s0 \<and> db_ok s0 \<and> nodeLocks s0 = fmempty \<and> 0 \<le> version s0 \<and>
       redo (since (version s0 + 1) (log l)) s0 = Some r)"

definition recoverable_in ::
    "('n \<Rightarrow> bool) \<Rightarrow> ('n \<Rightarrow> DBState option) \<Rightarrow> ('l \<Rightarrow> bool) \<Rightarrow> ('l \<Rightarrow> DBTransaction list) \<Rightarrow>
     ('n, 'l) DB \<Rightarrow> bool" where
  "recoverable_in sinv snap linv log db \<longleftrightarrow> db_ok (db_state db) \<and>
     (\<exists>r. stored_in sinv snap linv log (db_snapshotIO db) (db_txLogIO db) r \<and> replica (db_state db) r)"

text \<open>What may come of a transaction.\<close>

definition outcome_in ::
    "('l \<Rightarrow> DBTransaction list) \<Rightarrow> clock \<Rightarrow> DBTransaction \<Rightarrow> ('n, 'l) DB \<Rightarrow> TxID result \<Rightarrow> ('n, 'l) DB \<Rightarrow> bool" where
  "outcome_in log clk tx db res db' \<longleftrightarrow>
     (case res of
        Inr v \<Rightarrow> v = version (db_state db) + 1 \<and>
          (\<exists>db1. apply_ops clk (tx_Ops tx) db = (None, db1) \<and> db_state db' = (db_state db1)\<lparr>version := v\<rparr>) \<and>
          log (db_txLogIO db') = log (db_txLogIO db) @ [tx\<lparr>tx_TxID := v\<rparr>]
      | Inl e \<Rightarrow> db' = db \<or> replica (db_state db) (db_state db'))"

locale db_storage = snapshot_io sops snap sinv + txlog lops log linv
  for sops :: "'n DBStateSnapshotIO" and snap :: "'n \<Rightarrow> DBState option" and sinv :: "'n \<Rightarrow> bool"
    and lops :: "'l DBTransactionLogIO" and log :: "'l \<Rightarrow> DBTransaction list" and linv :: "'l \<Rightarrow> bool"
begin

abbreviation stored :: "'n \<Rightarrow> 'l \<Rightarrow> DBState \<Rightarrow> bool" where
  "stored \<equiv> stored_in sinv snap linv log"

abbreviation recoverable :: "('n, 'l) DB \<Rightarrow> bool" where
  "recoverable \<equiv> recoverable_in sinv snap linv log"

abbreviation outcome :: "clock \<Rightarrow> DBTransaction \<Rightarrow> ('n, 'l) DB \<Rightarrow> TxID result \<Rightarrow> ('n, 'l) DB \<Rightarrow> bool" where
  "outcome clk tx db res db' \<equiv> recoverable db' \<and> outcome_in log clk tx db res db'"

lemmas stored_def = stored_in_def and recoverable_def = recoverable_in_def and outcome_def = outcome_in_def

lemma stored_restore:
  assumes st: "stored (db_snapshotIO db) (db_txLogIO db) r" and ver: "version r \<le> ver"
  shows "\<exists>db'. RestoreVersion (Suc k) sops lops clk ver db = Some (None, db') \<and> twin r (db_state db') \<and>
    db_ok (db_state db') \<and> stored (db_snapshotIO db') (db_txLogIO db') r \<and> db_readOnly db' = db_readOnly db"
proof -
  obtain s0 where s0: "snap (db_snapshotIO db) = Some s0" "db_ok s0" "nodeLocks s0 = fmempty" "0 \<le> version s0"
    and redo: "redo (since (version s0 + 1) (log (db_txLogIO db))) s0 = Some r"
    using st by (auto simp: stored_def)
  obtain n where n: "sn_RestoreSnapshot sops (db_snapshotIO db) = (Inr s0, n)" "sinv n" "snap n = snap (db_snapshotIO db)"
    using restore [of "db_snapshotIO db" s0] st s0(1) by (auto simp: stored_def)
  have v: "version r = version s0 + int (length (since (version s0 + 1) (log (db_txLogIO db))))"
    and r: "version r < LatestVersion" using redo_version [OF redo] st by (auto simp: stored_def)
  have w: "wrap64 (version s0 + 1) = version s0 + 1"
    using s0(4) v r by (intro wrap64_id) (auto simp: LatestVersion_def)
  obtain l where l: "tl_QueryTransactions lops (version s0 + 1) (db_txLogIO db) =
      (Inr (since (version s0 + 1) (log (db_txLogIO db))), l)" "linv l" "log l = log (db_txLogIO db)"
    using query [of "db_txLogIO db" "version s0 + 1"] st by (auto simp: stored_def)
  let ?db = "db\<lparr>db_state := s0, db_snapshotIO := n, db_txLogIO := l\<rparr>"
  obtain db' where db': "replay (RestoreVersion k sops lops clk) lops clk (since (version s0 + 1) (log (db_txLogIO db))) ?db =
      Some (None, db')" "twin r (db_state db')" "db_ok (db_state db')" "same_io ?db db'"
    using replay_redo [OF redo, of ?db "RestoreVersion k sops lops clk" lops clk] twin_refl [OF s0(3)] s0 v r by (auto simp: LatestVersion_def)
  have "stored n l r" using st n l by (simp add: stored_def)
  with db'(4) have "stored (db_snapshotIO db') (db_txLogIO db') r" "db_readOnly db' = db_readOnly db"
    by (simp_all add: same_io_def)
  moreover have "\<not> version s0 > ver" using v ver by simp
  ultimately show ?thesis
    using n(1) l(1) w db'(1-3) by (simp add: Let_def)
qed

lemma stored_consecutive:
  assumes st: "stored n l r" and id: "tx_TxID tx = version r + 1" "version r + 1 < LatestVersion"
  shows "consecutive (log l @ [tx])"
proof -
  obtain s0 where "0 \<le> version s0" "redo (since (version s0 + 1) (log l)) s0 = Some r"
    using st by (auto simp: stored_def)
  then show ?thesis
    using st id redo_version by (intro consecutive_snoc) (fastforce simp: stored_def)+
qed

lemma stored_log:
  assumes "stored n l r" "tx_TxID tx = version r + 1" "version r + 1 < LatestVersion"
    and "tl_AppendTransaction lops tx l = (None, l')"
  shows "log l' = log l @ [tx]"
  using append [OF _ stored_consecutive [OF assms(1-3)] assms(4)] assms(1) by (simp add: stored_def)

lemma stored_append:
  assumes st: "stored n l r" and ops: "redo_ops (tx_Ops tx) r = Inr r'"
    and id: "tx_TxID tx = version r + 1" "version r + 1 < LatestVersion"
    and app: "tl_AppendTransaction lops tx l = (None, l')"
  shows "stored n l' (r'\<lparr>version := version r + 1\<rparr>)"
proof -
  obtain s0 where s0: "snap n = Some s0" "db_ok s0" "nodeLocks s0 = fmempty" "0 \<le> version s0"
    and redo: "redo (since (version s0 + 1) (log l)) s0 = Some r"
    using st by (auto simp: stored_def)
  note v = redo_version [OF redo]
  have con: "consecutive (log l @ [tx])"
    using st id by (rule stored_consecutive)
  have "since (version s0 + 1) [tx] = [tx]" using id v by (simp add: since_def)
  then have "redo (since (version s0 + 1) (log l @ [tx])) s0 = Some (r'\<lparr>version := version r + 1\<rparr>)"
    using redo ops id by (simp add: redo_append)
  then show ?thesis
    using append [OF _ con app] con st s0 id by (auto simp: stored_def)
qed

text \<open>Rolling back a half-applied transaction.\<close>

lemma roll_back_ok:
  assumes rep: "replica s r" and st: "stored (db_snapshotIO db) (db_txLogIO db) r"
    and ver: "version (db_state db) = version s"
  shows "\<exists>db'. roll_back (RestoreVersion (Suc k) sops lops clk) e msg db = Some (Inl e, db') \<and>
    recoverable db' \<and> replica s (db_state db') \<and> db_readOnly db' = db_readOnly db"
proof -
  have "version r = version s" using rep by (simp add: replica_def)
  then obtain db' where db': "RestoreVersion (Suc k) sops lops clk (version (db_state db)) db = Some (None, db')"
    "twin r (db_state db')" "db_ok (db_state db')" "stored (db_snapshotIO db') (db_txLogIO db') r"
    "db_readOnly db' = db_readOnly db"
    using stored_restore [OF st, of "version (db_state db)" k clk] ver by auto
  have "replica s (db_state db')" using rep db'(2) replica_trans by (auto simp: twin_def)
  moreover have "recoverable db'" using db'(2-4) by (auto simp: recoverable_def twin_def)
  ultimately show ?thesis using db'(1,5) by (simp add: roll_back_def)
qed

text \<open>
  A transaction on a recoverable database returns, with a recoverable database: either all of its
  operations were applied and it is in the log, or the state is a replica of the one before.
\<close>

lemma outcome_ops_fail:
  assumes st: "stored (db_snapshotIO db) (db_txLogIO db) r" and rep: "replica (db_state db) r"
    and run: "apply_ops clk (tx_Ops tx) db = (Some e, db1)"
  shows "\<exists>res db'. roll_back (RestoreVersion (Suc k) sops lops clk) e msg db1 = Some (res, db') \<and>
    outcome clk tx db res db'"
proof -
  note fr = apply_ops_frame [OF run]
  have "stored (db_snapshotIO db1) (db_txLogIO db1) r" using st fr by (simp add: same_io_def)
  from roll_back_ok [OF rep this, of k clk e msg] fr show ?thesis by (auto simp: outcome_def)
qed

lemma outcome_append_fail:
  assumes st: "stored (db_snapshotIO db) (db_txLogIO db) r" and rep: "replica (db_state db) r"
    and run: "apply_ops clk (tx_Ops tx) db = (None, db1)"
    and app: "tl_AppendTransaction lops tx' (db_txLogIO db) = (Some e, l)"
  shows "\<exists>res db'. roll_back (RestoreVersion (Suc k) sops lops clk) e' msg (db1\<lparr>db_txLogIO := l\<rparr>) =
    Some (res, db') \<and> outcome clk tx db res db'"
proof -
  note fr = apply_ops_frame [OF run]
  have "linv l \<and> log l = log (db_txLogIO db)"
    using append_error [OF _ app] st by (simp add: stored_def)
  then have "stored (db_snapshotIO (db1\<lparr>db_txLogIO := l\<rparr>)) (db_txLogIO (db1\<lparr>db_txLogIO := l\<rparr>)) r"
    using st fr by (simp add: stored_def same_io_def)
  from roll_back_ok [OF rep this, of k clk e' msg] fr show ?thesis by (auto simp: outcome_def)
qed

lemma outcome_commit:
  assumes ok: "db_ok (db_state db)" and st: "stored (db_snapshotIO db) (db_txLogIO db) r"
    and rep: "replica (db_state db) r" and ver: "version (db_state db) + 1 < LatestVersion"
    and run: "apply_ops clk (tx_Ops tx) db = (None, db1)"
    and app: "tl_AppendTransaction lops (tx\<lparr>tx_TxID := version (db_state db) + 1\<rparr>) (db_txLogIO db) = (None, l)"
  shows "outcome clk tx db (Inr (version (db_state db) + 1))
    (db1\<lparr>db_txLogIO := l, db_state := (db_state db1)\<lparr>version := version (db_state db) + 1\<rparr>,
         db_LastTx := t, db_tick := k\<rparr>)"
proof -
  let ?tx = "tx\<lparr>tx_TxID := version (db_state db) + 1\<rparr>"
  note fr = apply_ops_frame [OF run]
  have vr: "version r = version (db_state db)" using rep by (simp add: replica_def)
  obtain r' where r': "redo_ops (tx_Ops tx) r = Inr r'" "replica (db_state db1) r'"
    using apply_ops_replica [OF run rep] by blast
  have "stored (db_snapshotIO db) l (r'\<lparr>version := version (db_state db) + 1\<rparr>)"
    using stored_append [OF st, of ?tx r' l] r'(1) app vr ver by simp
  moreover have "log l = log (db_txLogIO db) @ [?tx]"
    using stored_log [OF st, of ?tx l] app vr ver by simp
  ultimately show ?thesis
    using run fr ok r'(2) by (auto simp: outcome_def recoverable_def same_io_def)
qed

lemma ApplyTransaction_atomic:
  assumes rec: "recoverable db" and rw: "\<not> db_readOnly db"
    and ver: "version (db_state db) + 1 < LatestVersion"
  shows "\<exists>res db'. ApplyTransaction (Suc k) sops lops clk tx db = Some (res, db') \<and> outcome clk tx db res db'"
proof -
  let ?v = "version (db_state db) + 1"
  obtain r where ok: "db_ok (db_state db)" and st: "stored (db_snapshotIO db) (db_txLogIO db) r"
    and rep: "replica (db_state db) r"
    using rec by (auto simp: recoverable_def)
  have "0 \<le> version r" using st redo_version by (fastforce simp: stored_def)
  then have w: "wrap64 ?v = ?v" using ver rep by (intro wrap64_id) (auto simp: LatestVersion_def replica_def)
  note unfold = ApplyTransaction_def applyTransactionInternal_def apply_tx_def Let_def w
  show ?thesis
  proof (cases "tx_TxID tx \<noteq> AnyVersion \<and> tx_TxID tx \<noteq> ?v")
    case True
    then show ?thesis using rec rw by (simp add: unfold outcome_def)
  next
    case False
    obtain e db1 where run: "apply_ops clk (tx_Ops tx) db = (e, db1)" by force
    obtain ae l where app: "tl_AppendTransaction lops (tx\<lparr>tx_TxID := ?v\<rparr>) (db_txLogIO db) = (ae, l)" by force
    have io: "db_txLogIO db1 = db_txLogIO db" using apply_ops_frame [OF run] by (simp add: same_io_def)
    show ?thesis
    proof (cases e)
      case (Some e')
      with outcome_ops_fail [OF st rep, of clk tx e'] False rw run show ?thesis by (auto simp: unfold)
    next
      case None
      show ?thesis
      proof (cases ae)
        case (Some e')
        with outcome_append_fail [OF st rep, of clk tx db1 _ e'] False rw run None app io show ?thesis
          by (auto simp: unfold)
      next
        case committed: None
        with outcome_commit [OF ok st rep ver, of clk tx db1] False rw run None app io show ?thesis
          by (auto simp: unfold)
      qed
    qed
  qed
qed

lemma Sync_recoverable:
  assumes rec: "recoverable db" and sync: "Sync sops clk db = (e, db')"
  shows "recoverable db' \<and> db_state db' = db_state db"
proof (cases "db_readOnly db")
  case True
  with assms show ?thesis by (simp add: Sync_def)
next
  case False
  obtain r where ok: "db_ok (db_state db)" and st: "stored (db_snapshotIO db) (db_txLogIO db) r"
    and rep: "replica (db_state db) r"
    using rec by (auto simp: recoverable_def)
  obtain se n where saved: "sn_SaveSnapshot sops (db_state db) (db_snapshotIO db) = (se, n)" by force
  have db': "db_state db' = db_state db" "db_snapshotIO db' = n" "db_txLogIO db' = db_txLogIO db"
    using sync False saved by (auto simp: Sync_def TriggerSync_def split: option.splits)
  have "\<exists>r'. stored n (db_txLogIO db) r' \<and> replica (db_state db) r'"
  proof (cases se)
    case (Some e')
    then show ?thesis using save_error [OF _ ok, of "db_snapshotIO db" e' n] saved st rep by (auto simp: stored_def)
  next
    case None
    have vr: "version r = version (db_state db)" "0 \<le> version r"
      using rep st redo_version by (fastforce simp: replica_def stored_def)+
    have new: "stored n (db_txLogIO db) (snapshot_of (db_state db))" if "sinv n" "snap n = Some (snapshot_of (db_state db))"
    proof -
      have "since (version (db_state db) + 1) (log (db_txLogIO db)) = []"
        using st vr since_last by (simp add: stored_def)
      with that st vr ok show ?thesis by (simp add: stored_def snapshot_of_ok)
    qed
    from save [of "db_snapshotIO db" "db_state db" n] st None saved ok vr
    have "sinv n \<and> (snap n = Some (snapshot_of (db_state db)) \<or> snap n = snap (db_snapshotIO db))"
      by (auto simp: stored_def)
    then show ?thesis
      using new snapshot_of_replica st rep by (auto simp: stored_def)
  qed
  then show ?thesis using ok db' by (simp add: recoverable_def)
qed

lemma NewDB_recovers:
  assumes "recoverable db"
  shows "\<exists>db'. NewDB (Suc k) sops lops clk (db_snapshotIO db) (db_txLogIO db) ro = Some (Inr db') \<and>
    recoverable db' \<and> replica (db_state db) (db_state db')"
proof -
  obtain r where st: "stored (db_snapshotIO db) (db_txLogIO db) r" and rep: "replica (db_state db) r"
    using assms by (auto simp: recoverable_def)
  obtain db' where db': "RestoreVersion (Suc k) sops lops clk LatestVersion
      (newDB (db_snapshotIO db) (db_txLogIO db) ro) = Some (None, db')" "twin r (db_state db')"
    "db_ok (db_state db')" "stored (db_snapshotIO db') (db_txLogIO db') r"
    using stored_restore [of "newDB (db_snapshotIO db) (db_txLogIO db) ro" r LatestVersion k clk] st
    by (auto simp: newDB_def stored_def)
  have "replica (db_state db) (db_state db')" using rep db'(2) replica_trans by (auto simp: twin_def)
  moreover have "recoverable db'" using db'(2-4) by (auto simp: recoverable_def twin_def)
  ultimately show ?thesis using db'(1) by (simp add: NewDB_def)
qed

end
section \<open>Locks\<close>

lemma checkLock_own: "fmlookup (nodeLocks s) (nl_ID l) = Some l \<Longrightarrow> nl_Ticket l \<noteq> NoTicket \<Longrightarrow> checkLock l req s = None"
  by (simp add: checkLock_def)

text \<open>Taking a lock adds it under a fresh ticket, and under a fresh id where one was asked for.\<close>

lemma LockNode_cases:
  assumes "\<not> db_readOnly db" "lastID (db_state db) + 1 < 2 ^ 64" "lastTicket (db_state db) + 1 < 2 ^ 64"
  shows "LockNode i db =
    (let s = db_state db; j = (if i = AllocateNewNodeID then lastID s + 1 else i);
         s1 = s\<lparr>lastID := (if i = AllocateNewNodeID then j else lastID s)\<rparr>;
         l = \<lparr>nl_ID = j, nl_Ticket = lastTicket s + 1\<rparr>
     in if fmlookup (nodeLocks s) j \<noteq> None then (Inl ErrLockTaken, db\<lparr>db_state := s1\<rparr>)
        else (Inr l, db\<lparr>db_state := s1\<lparr>lastTicket := lastTicket s + 1, nodeLocks := fmupd j l (nodeLocks s)\<rparr>\<rparr>))"
  using assms by (simp add: LockNode_def Let_def wrapu64_id)

lemma db_ok_lastID: "db_ok s \<Longrightarrow> lastID s \<le> k \<Longrightarrow> db_ok (s\<lparr>lastID := k\<rparr>)"
  by (fastforce simp: db_ok_def node_ok_def root_ok_def tickets_ok_def fmpred_iff lock_ok_def)

lemma db_ok_add_lock:
  assumes ok: "db_ok s" and free: "fmlookup (nodeLocks s) i = None"
    and l: "nl_ID l = i" "nl_Ticket l = lastTicket s + 1"
  shows "db_ok (s\<lparr>lastTicket := lastTicket s + 1, nodeLocks := fmupd i l (nodeLocks s)\<rparr>)"
proof -
  have "nl_Ticket m \<le> lastTicket s" if "fmlookup (nodeLocks s) j = Some m" for j m
    using ok that by (auto simp: db_ok_def fmpred_iff lock_ok_def)
  then show ?thesis
    using ok l
    by (fastforce simp: db_ok_def node_ok_def root_ok_def tickets_ok_def fmpred_iff lock_ok_def NoTicket_def)
qed

lemma LockNode_ok:
  assumes "db_ok (db_state db)" "\<not> db_readOnly db"
    "lastID (db_state db) + 1 < 2 ^ 64" "lastTicket (db_state db) + 1 < 2 ^ 64"
    and "LockNode i db = (res, db')"
  shows "db_ok (db_state db') \<and> tree (db_state db') = tree (db_state db) \<and>
    version (db_state db') = version (db_state db) \<and> lastID (db_state db) \<le> lastID (db_state db') \<and> same_io db db'"
proof -
  let ?s = "db_state db" and ?j = "if i = AllocateNewNodeID then lastID (db_state db) + 1 else i"
  let ?s1 = "?s\<lparr>lastID := (if i = AllocateNewNodeID then ?j else lastID ?s)\<rparr>"
  have "db_ok ?s1" using assms(1) by (intro db_ok_lastID) auto
  with db_ok_add_lock [of ?s1 ?j] assms show ?thesis
    by (auto simp: LockNode_cases Let_def same_io_def tree_def split: if_splits)
qed

lemma db_ok_drop_lock: "db_ok s \<Longrightarrow> db_ok (s\<lparr>nodeLocks := fmdrop i (nodeLocks s)\<rparr>)"
  by (fastforce simp: db_ok_def node_ok_def root_ok_def tickets_ok_def fmpred_iff lock_ok_def)

lemma UnlockNode_ok:
  assumes "db_ok (db_state db)" "UnlockNode l db = (e, db')"
  shows "db_ok (db_state db') \<and> tree (db_state db') = tree (db_state db) \<and>
    version (db_state db') = version (db_state db) \<and> lastID (db_state db) \<le> lastID (db_state db') \<and> same_io db db'"
  using assms
  by (auto simp: UnlockNode_def db_ok_drop_lock same_io_def tree_def split: if_splits option.splits)

lemma recoverable_frame:
  assumes "recoverable_in sinv snap linv log db" "db_ok (db_state db')" "tree (db_state db') = tree (db_state db)"
    "version (db_state db') = version (db_state db)" "lastID (db_state db) \<le> lastID (db_state db')" "same_io db db'"
  shows "recoverable_in sinv snap linv log db'"
  using assms by (auto simp: recoverable_in_def same_io_def replica_def)

section \<open>A fresh database\<close>

context db_storage
begin

lemma fresh_recoverable:
  assumes "db_ok (db_state db)" "0 \<le> version (db_state db)" "version (db_state db) < LatestVersion"
    and "sinv (db_snapshotIO db)" "snap (db_snapshotIO db) = Some (snapshot_of (db_state db))"
    and "linv (db_txLogIO db)" "consecutive (log (db_txLogIO db))"
    and "log (db_txLogIO db) \<noteq> [] \<longrightarrow> tx_TxID (last (log (db_txLogIO db))) = version (db_state db)"
  shows "recoverable db"
  using assms since_last [of "log (db_txLogIO db)" "version (db_state db)"] snapshot_of_replica [of "db_state db"]
  by (auto simp: recoverable_def stored_def snapshot_of_ok)

lemma init_transaction:
  assumes "linv l" "log l = []"
    and tx: "ApplyTransaction k sops lops clk \<lparr>tx_TxID = 1, tx_Ops = [InitializeFileSystemOp]\<rparr> (newDB n l False) =
      Some (Inr v, db)"
  shows "db_ok (db_state db) \<and> version (db_state db) = 1 \<and> db_snapshotIO db = n \<and> linv (db_txLogIO db) \<and>
    \<not> db_readOnly db \<and> log (db_txLogIO db) = [\<lparr>tx_TxID = 1, tx_Ops = [InitializeFileSystemOp]\<rparr>]"
proof -
  obtain s where s: "Apply (clk 0) InitializeFileSystemOp NewDBState = Inr s"
    by (simp add: InitializeFileSystemOp_Inr NewDBState_def)
  obtain ae l' where app: "tl_AppendTransaction lops \<lparr>tx_TxID = 1, tx_Ops = [InitializeFileSystemOp]\<rparr> l = (ae, l')"
    by force
  have w: "wrap64 (version NewDBState + 1) = 1" by (simp add: NewDBState_def wrap64_def)
  have "ae = None" and db: "db_state db = s\<lparr>version := 1\<rparr>" "db_snapshotIO db = n" "db_txLogIO db = l'" "\<not> db_readOnly db"
    using tx s app w
    by (auto simp: ApplyTransaction_def applyTransactionInternal_def apply_tx_def newDB_def Let_def roll_back_def
        AnyVersion_def split: option.splits prod.splits)
  moreover have "linv l' \<and> log l' = [\<lparr>tx_TxID = 1, tx_Ops = [InitializeFileSystemOp]\<rparr>]"
    using append [of l "\<lparr>tx_TxID = 1, tx_Ops = [InitializeFileSystemOp]\<rparr>" l'] assms(1,2) app \<open>ae = None\<close>
    by (simp add: LatestVersion_def MaxInt64_def)
  ultimately show ?thesis using Initialize_ok [OF s] by simp
qed

lemma NewEmptyDB_recoverable:
  assumes "sinv n" "linv l" "consecutive (log l)" and "NewEmptyDB k sops lops clk n l = Some (Inr db)"
  shows "recoverable db"
proof -
  have none: "snap n = None"
    using restore [OF assms(1)] assms(4) by (cases "snap n") (auto simp: NewEmptyDB_def)
  obtain e n1 where n1: "sn_RestoreSnapshot sops n = (Inl e, n1)" "sinv n1" "snap n1 = None"
    using restore_none [OF assms(1) none] by blast
  obtain l1 where l1: "tl_QueryTransactions lops 0 l = (Inr (since 0 (log l)), l1)" "linv l1" "log l1 = log l"
    using query [OF assms(2)] by blast
  obtain v db1 where tx: "ApplyTransaction k sops lops clk \<lparr>tx_TxID = 1, tx_Ops = [InitializeFileSystemOp]\<rparr>
      (newDB n1 l1 False) = Some (Inr v, db1)" and sync: "Sync sops clk db1 = (None, db)"
    and nil: "since 0 (log l) = []"
    using assms(4) n1(1) l1(1)
    by (auto simp: NewEmptyDB_def split: if_splits option.splits prod.splits sum.splits)
  have "\<forall>t \<in> set (log l). 0 \<le> tx_TxID t"
    using consecutive_bounds [OF assms(3)] by (meson less_imp_le)
  then have "log l = []" using nil by (simp add: since_def filter_empty_conv)
  then have db1: "db_ok (db_state db1)" "version (db_state db1) = 1" "db_snapshotIO db1 = n1" "linv (db_txLogIO db1)"
    "\<not> db_readOnly db1" "log (db_txLogIO db1) = [\<lparr>tx_TxID = 1, tx_Ops = [InitializeFileSystemOp]\<rparr>]"
    using init_transaction [OF l1(2) _ tx] l1(3) by auto
  obtain n2 where save2: "sn_SaveSnapshot sops (db_state db1) n1 = (None, n2)"
    and db: "db_state db = db_state db1" "db_snapshotIO db = n2" "db_txLogIO db = db_txLogIO db1"
    using sync db1(3,5) by (auto simp: Sync_def TriggerSync_def split: prod.splits option.splits)
  have "sinv n2 \<and> snap n2 = Some (snapshot_of (db_state db1))"
    using save [OF n1(2) db1(1) _ save2] db1(2) n1(3) by simp
  then show ?thesis
    using db db1 by (intro fresh_recoverable) (auto simp: LatestVersion_def MaxInt64_def)
qed

end

section \<open>Snapshots in files, transactions in the cached log\<close>

definition File_blob_io :: "('b FileBlobStore, 'b) BlobIO" where
  "File_blob_io =
     \<lparr>blob_write = FileBlobStore_WriteBlob, blob_read = FileBlobStore_ReadBlob,
      blob_remove = Some FileBlobStore_RemoveBlob\<rparr>"

definition file_env ::
    "map_order \<Rightarrow> (gobval list \<Rightarrow> 'b) \<Rightarrow> ('b \<Rightarrow> gobval list result) \<Rightarrow> ('b FileBlobStore, 'b, int) ss_env" where
  "file_env order seal unseal =
     \<lparr>env_order = order, env_blobs = File_blob_io, env_loc = SimpleSSLocator, env_seal = seal, env_unseal = unseal\<rparr>"

abbreviation file_sops where
  "file_sops order seal unseal \<equiv> Blob_snapshot_ops (file_env order seal unseal)"

abbreviation file_lops where
  "file_lops \<equiv> Cached_log_ops Simple_log_ops"

definition file_snap ::
    "('b \<Rightarrow> gobval list result) \<Rightarrow> ('b FileBlobStore, int) BlobDBStateSnapshotIO \<Rightarrow> DBState option" where
  "file_snap unseal n =
     (case fmlookup (fbs_files (ss_bs n)) generateBlobpath of
        None \<Rightarrow> None
      | Some b \<Rightarrow> fst (statesnapshot_Restore unseal b DecodeDBStateFromGob))"

definition file_sinv ::
    "('b \<Rightarrow> gobval list result) \<Rightarrow> ('b FileBlobStore, int) BlobDBStateSnapshotIO \<Rightarrow> bool" where
  "file_sinv unseal n \<longleftrightarrow>
     IsReadAllowed (fbs_flags (ss_bs n)) \<and> IsWriteAllowed (fbs_flags (ss_bs n)) \<and>
     (ss_snapshotVer n = -1 \<or> (\<exists>s0. file_snap unseal n = Some s0 \<and> version s0 = ss_snapshotVer n))"

abbreviation cached_txs :: "SimpleDBTransactionLogIO CachedDBTransactionLogIO \<Rightarrow> DBTransaction list" where
  "cached_txs c \<equiv> sl_txs (cl_be c)"

abbreviation cached_inv :: "SimpleDBTransactionLogIO CachedDBTransactionLogIO \<Rightarrow> bool" where
  "cached_inv c \<equiv> ring_ok (sl_txs (cl_be c)) c"

lemmas file_defs =
  Blob_snapshot_ops_def file_env_def File_blob_io_def SimpleSSLocator_def

lemma restoreNth_file:
  assumes "IsReadAllowed (fbs_flags (ss_bs n))"
  shows "case file_snap unseal n of
      Some s \<Rightarrow> restoreNthSnapshot (file_env order seal unseal) i n = (Inr s, n\<lparr>ss_snapshotVer := version s\<rparr>)
    | None \<Rightarrow> \<exists>e. restoreNthSnapshot (file_env order seal unseal) i n = (Inl e, n)"
  using assms
  by (auto simp: restoreNthSnapshot_def file_defs FileBlobStore_ReadBlob_def file_snap_def statesnapshot_Restore_def
      split: option.splits sum.splits prod.splits)

lemma restore_from_file:
  assumes "IsReadAllowed (fbs_flags (ss_bs n))"
  shows "case file_snap unseal n of
      Some s \<Rightarrow> restore_from (file_env order seal unseal) (i # ks) n = (Inr s, n\<lparr>ss_snapshotVer := version s\<rparr>)
    | None \<Rightarrow> \<exists>e. restore_from (file_env order seal unseal) js n = (Inl e, n)"
proof (cases "file_snap unseal n")
  case None
  have "\<exists>e. restore_from (file_env order seal unseal) js n = (Inl e, n)"
  proof (induction js)
    case (Cons j js)
    with restoreNth_file [OF assms, where unseal = unseal and order = order and seal = seal and i = j] None show ?case by auto
  qed simp
  with None show ?thesis by simp
qed (use restoreNth_file [OF assms, where unseal = unseal and order = order and seal = seal and i = i] in auto)

lemma file_snap_ver [simp]: "file_snap unseal (n\<lparr>ss_snapshotVer := v\<rparr>) = file_snap unseal n"
  by (simp add: file_snap_def)

lemma file_snapshot_io:
  assumes order: "go_order order" and codec: "\<And>gs. unseal (seal gs) = Inr gs"
  shows "snapshot_io (file_sops order seal unseal) (file_snap unseal) (file_sinv unseal)"
proof unfold_locales
  fix n :: "('a FileBlobStore, int) BlobDBStateSnapshotIO" and s n'
  assume inv: "file_sinv unseal n" and ok: "db_ok s" and v: "0 \<le> version s"
    and save: "sn_SaveSnapshot (file_sops order seal unseal) s n = (None, n')"
  have "fmpred (\<lambda>i n. GetID n = i) (nodes s)" using ok by (auto simp: fmpred_iff dest: db_okD)
  then obtain gs where gs: "DBState_EncodeToGob order s = Inr gs" "DecodeDBStateFromGob gs = (Inr (snapshot_of s), [])"
    using DecodeDBState_Encode [OF order, of s "[]"] by auto
  show "file_sinv unseal n' \<and> (file_snap unseal n' = Some (snapshot_of s) \<or>
      file_snap unseal n' = file_snap unseal n \<and> (\<exists>s0. file_snap unseal n = Some s0 \<and> version s0 = version s))"
  proof (cases "ss_snapshotVer n = version s")
    case True
    then have "n' = n" using save by (simp add: file_defs Blob_SaveSnapshot_def)
    with True inv v show ?thesis by (auto simp: file_sinv_def)
  next
    case False
    with inv gs codec save show ?thesis
      by (auto simp: file_defs Blob_SaveSnapshot_def FileBlobStore_WriteBlob_def file_sinv_def file_snap_def
          statesnapshot_Restore_def)
  qed
next
  fix n :: "('a FileBlobStore, int) BlobDBStateSnapshotIO" and s e n'
  assume inv: "file_sinv unseal n" and ok: "db_ok s"
    and save: "sn_SaveSnapshot (file_sops order seal unseal) s n = (Some e, n')"
  have "fmpred (\<lambda>i n. GetID n = i) (nodes s)" using ok by (auto simp: fmpred_iff dest: db_okD)
  then obtain gs where "DBState_EncodeToGob order s = Inr gs"
    using DecodeDBState_Encode [OF order, of s "[]"] by auto
  with inv save show "file_sinv unseal n' \<and> file_snap unseal n' = file_snap unseal n"
    by (auto simp: file_defs Blob_SaveSnapshot_def FileBlobStore_WriteBlob_def file_sinv_def split: if_splits)
next
  fix n :: "('a FileBlobStore, int) BlobDBStateSnapshotIO" and s
  assume inv: "file_sinv unseal n" and s: "file_snap unseal n = Some s"
  have "[0..<maxhist] = [0, 1, 2]" by (simp add: maxhist_def numeral_eq_Suc)
  with restore_from_file [where n = n and unseal = unseal and order = order and seal = seal and i = 0 and ks = "[1, 2]"] inv s
  show "\<exists>n'. sn_RestoreSnapshot (file_sops order seal unseal) n = (Inr s, n') \<and> file_sinv unseal n' \<and>
      file_snap unseal n' = file_snap unseal n"
    by (auto simp: Blob_snapshot_ops_def Blob_RestoreSnapshot_def file_sinv_def)
next
  fix n :: "('a FileBlobStore, int) BlobDBStateSnapshotIO"
  assume inv: "file_sinv unseal n" and "file_snap unseal n = None"
  with restore_from_file [where n = n and unseal = unseal and order = order and seal = seal and js = "[0..<maxhist]"]
  show "\<exists>e n'. sn_RestoreSnapshot (file_sops order seal unseal) n = (Inl e, n') \<and> file_sinv unseal n' \<and>
      file_snap unseal n' = None"
    by (auto simp: Blob_snapshot_ops_def Blob_RestoreSnapshot_def file_sinv_def)
qed

lemma file_db_storage:
  assumes "go_order order" "\<And>gs. unseal (seal gs) = Inr gs"
  shows "db_storage (file_sops order seal unseal) (file_snap unseal) (file_sinv unseal) file_lops cached_txs cached_inv"
  unfolding db_storage_def using assms by (intro conjI file_snapshot_io cached_log.txlog_axioms) auto

text \<open>Nodes in the order of their ids, and the gob stream kept as it is.\<close>

interpretation file_db: db_storage "file_sops by_id (\<lambda>gs. gs) Inr" "file_snap Inr" "file_sinv Inr"
  file_lops cached_txs cached_inv
  by (rule file_db_storage [OF by_id_order]) simp

section \<open>Every database in use is recoverable\<close>

type_synonym 'b FileDB =
  "(('b FileBlobStore, int) BlobDBStateSnapshotIO, SimpleDBTransactionLogIO CachedDBTransactionLogIO) DB"

definition FileDB_recoverable :: "('b \<Rightarrow> gobval list result) \<Rightarrow> 'b FileDB \<Rightarrow> bool" where
  "FileDB_recoverable unseal = recoverable_in (file_sinv unseal) (file_snap unseal) cached_inv cached_txs"

text \<open>
  What happens to a database in the life of a file system, from its creation over an empty store
  on. Ids, tickets and versions are bounded so that the counters do not wrap around.
\<close>

inductive db_reach ::
    "map_order \<Rightarrow> (gobval list \<Rightarrow> 'b) \<Rightarrow> ('b \<Rightarrow> gobval list result) \<Rightarrow> 'b FileDB \<Rightarrow> bool"
  for order :: map_order and seal :: "gobval list \<Rightarrow> 'b" and unseal :: "'b \<Rightarrow> gobval list result"
where
  created: "NewEmptyDB (Suc k) (file_sops order seal unseal) file_lops clk
      (BlobSnapshotIO_New (NewFileBlobStore fmempty O_RDWRCREATE) t)
      (NewCachedDBTransactionLogIO NewSimpleDBTransactionLogIO) = Some (Inr db) \<Longrightarrow>
    db_reach order seal unseal db"
| transaction: "db_reach order seal unseal db \<Longrightarrow> version (db_state db) + 1 < LatestVersion \<Longrightarrow>
    ApplyTransaction (Suc k) (file_sops order seal unseal) file_lops clk tx db = Some (res, db') \<Longrightarrow>
    db_reach order seal unseal db'"
| synced: "db_reach order seal unseal db \<Longrightarrow> Sync (file_sops order seal unseal) clk db = (e, db') \<Longrightarrow>
    db_reach order seal unseal db'"
| locked: "db_reach order seal unseal db \<Longrightarrow> lastID (db_state db) + 1 < 2 ^ 64 \<Longrightarrow>
    lastTicket (db_state db) + 1 < 2 ^ 64 \<Longrightarrow> LockNode i db = (lres, db') \<Longrightarrow>
    db_reach order seal unseal db'"
| unlocked: "db_reach order seal unseal db \<Longrightarrow> UnlockNode l db = (e, db') \<Longrightarrow> db_reach order seal unseal db'"
| restarted: "db_reach order seal unseal db \<Longrightarrow>
    NewDB (Suc k) (file_sops order seal unseal) file_lops clk (db_snapshotIO db) (db_txLogIO db) ro = Some (Inr db') \<Longrightarrow>
    db_reach order seal unseal db'"

inductive_cases db_reachE: "db_reach order seal unseal db"

lemma created_recoverable:
  assumes "go_order order" "\<forall>gs. unseal (seal gs) = Inr gs"
    and "NewEmptyDB k (file_sops order seal unseal) file_lops clk
      (BlobSnapshotIO_New (NewFileBlobStore fmempty O_RDWRCREATE) t)
      (NewCachedDBTransactionLogIO NewSimpleDBTransactionLogIO) = Some (Inr db)"
  shows "FileDB_recoverable unseal db"
  unfolding FileDB_recoverable_def
proof (rule db_storage.NewEmptyDB_recoverable [OF file_db_storage _ _ _ assms(3)])
  show "file_sinv unseal (BlobSnapshotIO_New (NewFileBlobStore fmempty O_RDWRCREATE) t)"
    by (simp add: file_sinv_def BlobSnapshotIO_New_def NewFileBlobStore_def FileBlobStore_SetFlags_def O_RDWRCREATE_modes)
  show "ring_ok (cached_txs (NewCachedDBTransactionLogIO NewSimpleDBTransactionLogIO))
      (NewCachedDBTransactionLogIO NewSimpleDBTransactionLogIO)"
    by (intro ring_ok_New) (simp add: NewCachedDBTransactionLogIO_def NewSimpleDBTransactionLogIO_def)
qed (use assms in \<open>simp_all add: NewCachedDBTransactionLogIO_def NewSimpleDBTransactionLogIO_def\<close>)

lemma FileDB_transaction:
  assumes "go_order order" "\<forall>gs. unseal (seal gs) = Inr gs" "FileDB_recoverable unseal db"
    "\<not> db_readOnly db" "version (db_state db) + 1 < LatestVersion"
  shows "\<exists>res db'. ApplyTransaction (Suc k) (file_sops order seal unseal) file_lops clk tx db = Some (res, db') \<and>
    FileDB_recoverable unseal db' \<and> outcome_in cached_txs clk tx db res db'"
  using db_storage.ApplyTransaction_atomic [OF file_db_storage [of order unseal seal], of db k clk tx] assms
  by (simp add: FileDB_recoverable_def)

lemma FileDB_restart:
  assumes "go_order order" "\<forall>gs. unseal (seal gs) = Inr gs" "FileDB_recoverable unseal db"
  shows "\<exists>db'. NewDB (Suc k) (file_sops order seal unseal) file_lops clk (db_snapshotIO db) (db_txLogIO db) ro =
    Some (Inr db') \<and> FileDB_recoverable unseal db' \<and> replica (db_state db) (db_state db')"
  using db_storage.NewDB_recovers [OF file_db_storage [of order unseal seal], of db k clk ro] assms
  by (simp add: FileDB_recoverable_def)

lemma reach_recoverable:
  assumes "db_reach order seal unseal db" and codec: "go_order order" "\<forall>gs. unseal (seal gs) = Inr gs"
  shows "FileDB_recoverable unseal db"
  using assms(1)
proof (induction rule: db_reach.induct)
  case (created k clk t db)
  then show ?case using created_recoverable codec by blast
next
  case (transaction db k clk tx res db')
  show ?case
  proof (cases "db_readOnly db")
    case True
    then show ?thesis using transaction by (simp add: ApplyTransaction_def)
  next
    case False
    then show ?thesis using FileDB_transaction [OF codec(1), of unseal seal db k clk tx] codec(2) transaction False by simp
  qed
next
  case (synced db clk e db')
  then show ?case
    using db_storage.Sync_recoverable [OF file_db_storage [of order unseal seal], of db clk e db'] codec
    by (simp add: FileDB_recoverable_def)
next
  case (locked db i lres db')
  have ok: "db_ok (db_state db)" using locked(5) by (simp add: FileDB_recoverable_def recoverable_in_def)
  show ?case
  proof (cases "db_readOnly db")
    case True
    then show ?thesis using locked by (simp add: LockNode_def)
  next
    case False
    then show ?thesis
      using LockNode_ok [OF ok False locked(2,3,4)] locked(5) recoverable_frame unfolding FileDB_recoverable_def by blast
  qed
next
  case (unlocked db l e db')
  then have "db_ok (db_state db)" by (simp add: FileDB_recoverable_def recoverable_in_def)
  then show ?case
    using UnlockNode_ok [OF _ unlocked(2)] unlocked(3) recoverable_frame unfolding FileDB_recoverable_def by blast
next
  case (restarted db k clk ro db')
  then show ?case using FileDB_restart [OF codec(1), of unseal seal db k clk ro] codec(2) by simp
qed

text \<open>Creating a database over an empty store succeeds.\<close>

abbreviation empty_snapshots :: "('b FileBlobStore, int) BlobDBStateSnapshotIO" where
  "empty_snapshots \<equiv> BlobSnapshotIO_New (NewFileBlobStore fmempty O_RDWRCREATE) 0"

abbreviation empty_log :: "SimpleDBTransactionLogIO CachedDBTransactionLogIO" where
  "empty_log \<equiv> NewCachedDBTransactionLogIO NewSimpleDBTransactionLogIO"

lemma restore_empty:
  "\<exists>e. sn_RestoreSnapshot (file_sops order seal unseal) empty_snapshots = (Inl e, empty_snapshots) \<and> \<not> is_panic e"
  by (simp add: file_defs Blob_RestoreSnapshot_def maxhist_def numeral_eq_Suc restoreNthSnapshot_def
      BlobSnapshotIO_New_def NewFileBlobStore_def FileBlobStore_SetFlags_def FileBlobStore_ReadBlob_def
      O_RDWRCREATE_modes)

lemma NewEmptyDB_succeeds:
  assumes "go_order order"
  shows "\<exists>db. NewEmptyDB k (file_sops order seal unseal) file_lops clk empty_snapshots empty_log = Some (Inr db) \<and>
    db_readOnly db = False \<and> version (db_state db) = 1 \<and> fmdom (nodes (db_state db)) = {|RootDirID|}"
proof -
  obtain e where e: "sn_RestoreSnapshot (file_sops order seal unseal) empty_snapshots = (Inl e, empty_snapshots)"
    "\<not> is_panic e" using restore_empty by blast
  have q: "tl_QueryTransactions file_lops 0 empty_log = (Inr [], empty_log)"
    by (simp add: Cached_log_ops_def Cached_QueryTransactions_def NewCachedDBTransactionLogIO_def
        NewSimpleDBTransactionLogIO_def Simple_log_ops_def Simple_QueryTransactions_def LatestVersion_def MaxInt64_def)
  obtain s where s: "Apply (clk 0) InitializeFileSystemOp NewDBState = Inr s" "fmdom (nodes s) = {|RootDirID|}"
    by (simp add: InitializeFileSystemOp_Inr NewDBState_def)
  obtain l where l: "tl_AppendTransaction file_lops \<lparr>tx_TxID = 1, tx_Ops = [InitializeFileSystemOp]\<rparr> empty_log = (None, l)"
    by (simp add: Cached_log_ops_def Cached_AppendTransaction_def NewCachedDBTransactionLogIO_def
        NewSimpleDBTransactionLogIO_def Simple_log_ops_def Simple_AppendTransaction_def Let_def)
  have w: "wrap64 (version NewDBState + 1) = 1" by (simp add: NewDBState_def wrap64_def)
  obtain db where db: "ApplyTransaction k (file_sops order seal unseal) file_lops clk
      \<lparr>tx_TxID = 1, tx_Ops = [InitializeFileSystemOp]\<rparr> (newDB empty_snapshots empty_log False) = Some (Inr 1, db)"
    "db_state db = s\<lparr>version := 1\<rparr>" "db_snapshotIO db = empty_snapshots" "\<not> db_readOnly db"
    using s(1) l w by (simp add: ApplyTransaction_def applyTransactionInternal_def apply_tx_def newDB_def Let_def)
  have "db_ok (s\<lparr>version := 1\<rparr>)" using Initialize_ok [OF s(1)] by simp
  then have "fmpred (\<lambda>i n. GetID n = i) (nodes (s\<lparr>version := 1\<rparr>))" by (auto simp: fmpred_iff dest: db_okD)
  then obtain gs where "DBState_EncodeToGob order (s\<lparr>version := 1\<rparr>) = Inr gs"
    using DecodeDBState_Encode [OF assms] by blast
  then obtain n where "sn_SaveSnapshot (file_sops order seal unseal) (s\<lparr>version := 1\<rparr>) empty_snapshots = (None, n)"
    by (simp add: file_defs Blob_SaveSnapshot_def FileBlobStore_WriteBlob_def BlobSnapshotIO_New_def
        NewFileBlobStore_def FileBlobStore_SetFlags_def O_RDWRCREATE_modes)
  then obtain db' where "Sync (file_sops order seal unseal) clk db = (None, db')" "db_state db' = s\<lparr>version := 1\<rparr>"
    "\<not> db_readOnly db'"
    using db by (simp add: Sync_def TriggerSync_def)
  then show ?thesis using e q db(1) s(2) by (simp add: NewEmptyDB_def)
qed

section \<open>Properties\<close>

text \<open>
  C3. A transaction applied to a recoverable, writable database returns, and it is atomic and
  durable: either every operation was applied, the version went up by one and the transaction is
  the last of the log, or the state is the one before (unchanged where the version did not match,
  otherwise restored from storage: same nodes up to time stamps, parents of directories and
  locks). Both ways the database stays recoverable.
\<close>

theorem ApplyTransaction_all_or_nothing:
  assumes "go_order order" "\<forall>gs. unseal (seal gs) = Inr gs" "FileDB_recoverable unseal db"
    "\<not> db_readOnly db" "version (db_state db) + 1 < LatestVersion"
  shows "\<exists>res db'. ApplyTransaction (Suc k) (file_sops order seal unseal) file_lops clk tx db = Some (res, db') \<and>
    FileDB_recoverable unseal db' \<and>
    (case res of
       Inr v \<Rightarrow> v = version (db_state db) + 1 \<and>
         (\<exists>db1. apply_ops clk (tx_Ops tx) db = (None, db1) \<and> db_state db' = (db_state db1)\<lparr>version := v\<rparr>) \<and>
         sl_txs (cl_be (db_txLogIO db')) = sl_txs (cl_be (db_txLogIO db)) @ [tx\<lparr>tx_TxID := v\<rparr>]
     | Inl e \<Rightarrow> db' = db \<or> replica (db_state db) (db_state db'))"
  using FileDB_transaction [OF assms, of k clk tx] by (simp add: outcome_in_def)

theorem ApplyTransaction_all_or_nothing_witness:
  "\<exists>db res db'. NewEmptyDB 1 (file_sops by_id (\<lambda>gs. gs) Inr) file_lops int empty_snapshots empty_log =
       Some (Inr db) \<and>
     ApplyTransaction (Suc 0) (file_sops by_id (\<lambda>gs. gs) Inr) file_lops int
       \<lparr>tx_TxID = AnyVersion, tx_Ops = [UpdateUidOp RootDirID 7, AlwaysFailForTestingOp]\<rparr> db = Some (res, db') \<and>
     FileDB_recoverable Inr db' \<and> version (db_state db) = 1"
proof -
  obtain db where db: "NewEmptyDB 1 (file_sops by_id (\<lambda>gs. gs) Inr) file_lops int empty_snapshots empty_log =
      Some (Inr db)" "db_readOnly db = False" "version (db_state db) = 1"
    using NewEmptyDB_succeeds [OF by_id_order] by blast
  have "FileDB_recoverable Inr db" using created_recoverable [OF by_id_order _ db(1)] by simp
  with db show ?thesis
    using ApplyTransaction_all_or_nothing [OF by_id_order, of Inr "\<lambda>gs. gs" db 0 int
        "\<lparr>tx_TxID = AnyVersion, tx_Ops = [UpdateUidOp RootDirID 7, AlwaysFailForTestingOp]\<rparr>"]
    by (auto simp: LatestVersion_def MaxInt64_def)
qed

text \<open>
  C2. Every database reached from the creation of a file system through any sequence of
  transactions (failing ones included), synchronisations, lock and unlock requests and restarts is
  consistent and recoverable: what is on storage, restored, gives its state.
\<close>

theorem reachable_databases_recoverable:
  assumes "db_reach order seal unseal db" "go_order order" "\<forall>gs. unseal (seal gs) = Inr gs"
  shows "FileDB_recoverable unseal db \<and> db_ok (db_state db)"
  using reach_recoverable [OF assms] by (simp add: FileDB_recoverable_def recoverable_in_def)

theorem reachable_databases_recoverable_witness:
  "\<exists>db. db_reach by_id (\<lambda>gs. gs) Inr db \<and> FileDB_recoverable Inr db \<and> db_ok (db_state db) \<and>
     fmdom (nodes (db_state db)) = {|RootDirID|}"
proof -
  obtain db where db: "NewEmptyDB (Suc 0) (file_sops by_id (\<lambda>gs. gs) Inr) file_lops int empty_snapshots empty_log =
      Some (Inr db)" "fmdom (nodes (db_state db)) = {|RootDirID|}"
    using NewEmptyDB_succeeds [OF by_id_order] by blast
  then have "db_reach by_id (\<lambda>gs. gs) Inr db" by (intro db_reach.created)
  with db(2) reachable_databases_recoverable [OF this by_id_order] show ?thesis by auto
qed

text \<open>
  C4. Restarting over the storage of a recoverable database succeeds and gives a database with the
  same nodes, up to time stamps and the parents of directories, at the same version, without
  locks; it is recoverable again.
\<close>

theorem restart_restores:
  assumes "go_order order" "\<forall>gs. unseal (seal gs) = Inr gs" "FileDB_recoverable unseal db"
  shows "\<exists>db'. NewDB (Suc k) (file_sops order seal unseal) file_lops clk (db_snapshotIO db) (db_txLogIO db) ro =
      Some (Inr db') \<and> FileDB_recoverable unseal db' \<and> tree (db_state db') = tree (db_state db) \<and>
      version (db_state db') = version (db_state db) \<and> nodeLocks (db_state db') = fmempty"
  using FileDB_restart [OF assms, of k clk ro] by (auto simp: replica_def)

theorem restart_restores_witness:
  "\<exists>db db'. NewEmptyDB 1 (file_sops by_id (\<lambda>gs. gs) Inr) file_lops int empty_snapshots empty_log =
       Some (Inr db) \<and>
     NewDB (Suc 0) (file_sops by_id (\<lambda>gs. gs) Inr) file_lops int (db_snapshotIO db) (db_txLogIO db) False =
       Some (Inr db') \<and> tree (db_state db') = tree (db_state db) \<and> version (db_state db') = 1"
proof -
  obtain db where db: "NewEmptyDB 1 (file_sops by_id (\<lambda>gs. gs) Inr) file_lops int empty_snapshots empty_log =
      Some (Inr db)" "version (db_state db) = 1"
    using NewEmptyDB_succeeds [OF by_id_order] by blast
  have "FileDB_recoverable Inr db" using created_recoverable [OF by_id_order _ db(1)] by simp
  with db show ?thesis
    using restart_restores [OF by_id_order, of Inr "\<lambda>gs. gs" db 0 int False] by auto
qed


definition sample_rw_db :: "(unit, unit) DB" where
  "sample_rw_db = \<lparr>db_state = sample_db, db_snapshotIO = (), db_txLogIO = (), db_readOnly = False,
     db_LastTx = 0, db_LastSync = 0, db_tick = 0\<rparr>"


text \<open>
  C28. One client's failed transaction takes away every other client's lock: rolling back restores
  a state without locks, so that from then on any ticket is accepted for a node another client had
  locked.
\<close>

theorem failed_transaction_drops_locks:
  assumes "go_order order" "\<forall>gs. unseal (seal gs) = Inr gs" "FileDB_recoverable unseal db"
    "\<not> db_readOnly db" "version (db_state db) + 1 < LatestVersion"
    and "apply_ops clk ops db = (Some e, db1)"
  shows "\<exists>db'. ApplyTransaction (Suc k) (file_sops order seal unseal) file_lops clk \<lparr>tx_TxID = AnyVersion, tx_Ops = ops\<rparr> db =
      Some (Inl e, db') \<and> nodeLocks (db_state db') = fmempty \<and>
      (\<forall>l. nl_Ticket l \<noteq> NoTicket \<longrightarrow> checkLock l True (db_state db') = None)"
proof -
  let ?tx = "\<lparr>tx_TxID = AnyVersion, tx_Ops = ops\<rparr>"
  obtain r where st: "stored_in (file_sinv unseal) (file_snap unseal) cached_inv cached_txs (db_snapshotIO db) (db_txLogIO db) r"
    and rep: "replica (db_state db) r"
    using assms(3) by (auto simp: FileDB_recoverable_def recoverable_in_def)
  have fr: "same_io db db1" "version (db_state db1) = version (db_state db)"
    using apply_ops_frame [OF assms(6)] by auto
  have st1: "stored_in (file_sinv unseal) (file_snap unseal) cached_inv cached_txs (db_snapshotIO db1) (db_txLogIO db1) r"
    using st fr(1) by (simp add: same_io_def)
  obtain db' where "roll_back (RestoreVersion (Suc k) (file_sops order seal unseal) file_lops clk) e
      ''DB rollback failed!!!'' db1 = Some (Inl e, db')" "replica (db_state db) (db_state db')"
    using db_storage.roll_back_ok [OF file_db_storage [of order unseal seal] rep st1 fr(2), of k clk e
        "''DB rollback failed!!!''"] assms(1,2) by auto
  then show ?thesis
    using assms(4,6)
    by (auto simp: ApplyTransaction_def applyTransactionInternal_def apply_tx_def Let_def replica_def checkLock_def)
qed

theorem failed_transaction_drops_locks_witness:
  "\<exists>db db'. NewEmptyDB 1 (file_sops by_id (\<lambda>gs. gs) Inr) file_lops int empty_snapshots empty_log =
       Some (Inr db) \<and>
     ApplyTransaction (Suc 0) (file_sops by_id (\<lambda>gs. gs) Inr) file_lops int
       \<lparr>tx_TxID = AnyVersion, tx_Ops = [AlwaysFailForTestingOp]\<rparr> db =
       Some (Inl (Fmt ''Forced fail for testing''), db') \<and> nodeLocks (db_state db') = fmempty"
proof -
  obtain db where db: "NewEmptyDB 1 (file_sops by_id (\<lambda>gs. gs) Inr) file_lops int empty_snapshots empty_log =
      Some (Inr db)" "db_readOnly db = False" "version (db_state db) = 1"
    using NewEmptyDB_succeeds [OF by_id_order] by blast
  have rec: "FileDB_recoverable Inr db" using created_recoverable [OF by_id_order _ db(1)] by simp
  show ?thesis
    using failed_transaction_drops_locks [OF by_id_order _ rec, of "\<lambda>gs. gs" int "[AlwaysFailForTestingOp]"
        "Fmt ''Forced fail for testing''" "db\<lparr>db_tick := db_tick db + 1\<rparr>" 0] db
    by (auto simp: LatestVersion_def MaxInt64_def)
qed

end
