(* ===== verification/Inode_Fsck.thy ===== *)
theory Inode_Fsck
  imports Inode_Recovery
begin

text \<open>
  The file system check of the inode database (\<open>fsckRecursive\<close>, \<open>Fsck\<close> in \<open>inodedb/inodedb.go\<close>):
  where directories form no cycle it ends and finds exactly the blobs in use; a directory that
  contains itself, which \<open>RenameOp\<close> can create, makes it run forever.
\<close>

section \<open>Checking the tree\<close>

text \<open>
  \<open>depth_ok h s\<close>: \<open>h\<close> decreases along the entries of every directory, so there is no cycle.
\<close>

definition depth_ok :: "(ID \<Rightarrow> nat) \<Rightarrow> DBState \<Rightarrow> bool" where
  "depth_ok h s \<longleftrightarrow> fmpred (\<lambda>i n. fmpred (\<lambda>_ c. h c < h i) (entries_of n)) (nodes s)"

inductive reaches :: "DBState \<Rightarrow> ID \<Rightarrow> ID \<Rightarrow> bool" for s where
  here: "reaches s i i"
| below: "dir_at s i es \<Longrightarrow> fmlookup es name = Some c \<Longrightarrow> reaches s c j \<Longrightarrow> reaches s i j"

definition blobs_of :: "INode \<Rightarrow> string list" where
  "blobs_of n = (case n of FileNode _ _ cs \<Rightarrow> map fc_BlobPath cs | DirNode _ _ _ \<Rightarrow> [])"

definition entry_order_ok :: "entry_order \<Rightarrow> bool" where
  "entry_order_ok order \<longleftrightarrow> (\<forall>m. set (map snd (order m)) = fset (fmran m))"

text \<open>The blob paths found are those of the files below, and nothing is reported.\<close>

lemma fsck_entries_ok:
  assumes "\<And>c acc. c \<in> set cs \<Longrightarrow> \<exists>bps. f c acc = Some (fst acc @ bps, snd acc) \<and> set bps = B c"
  shows "\<exists>bps. fsck_entries f cs acc = Some (fst acc @ bps, snd acc) \<and> set bps = (\<Union>c \<in> set cs. B c)"
  using assms
proof (induction cs arbitrary: acc)
  case (Cons c cs)
  obtain bps where bps: "f c acc = Some (fst acc @ bps, snd acc)" "set bps = B c"
    using Cons.prems [of c acc] by auto
  obtain bps' where "fsck_entries f cs (fst acc @ bps, snd acc) = Some ((fst acc @ bps) @ bps', snd acc)"
    "set bps' = (\<Union>c \<in> set cs. B c)"
    using Cons.IH [of "(fst acc @ bps, snd acc)"] Cons.prems by auto
  with bps show ?case by (intro exI [of _ "bps @ bps'"]) simp
qed simp

definition found :: "DBState \<Rightarrow> ID \<Rightarrow> string set" where
  "found s i = {b. \<exists>j n. reaches s i j \<and> fmlookup (nodes s) j = Some n \<and> b \<in> set (blobs_of n)}"

lemma found_file: "fmlookup (nodes s) i = Some (FileNode c sz cs) \<Longrightarrow> found s i = fc_BlobPath ` set cs"
  by (auto simp: found_def blobs_of_def dir_at_iff intro: reaches.here elim: reaches.cases)

lemma found_dir:
  assumes "fmlookup (nodes s) i = Some (DirNode c p es)"
  shows "found s i = (\<Union>j \<in> fset (fmran es). found s j)"
proof -
  have d: "dir_at s i es' \<longleftrightarrow> es' = es" for es' using assms by (auto simp: dir_at_iff)
  have step: "reaches s i j \<longleftrightarrow> j = i \<or> (\<exists>k \<in> fset (fmran es). reaches s k j)" for j
  proof
    assume "reaches s i j"
    then show "j = i \<or> (\<exists>k \<in> fset (fmran es). reaches s k j)"
      by (cases rule: reaches.cases) (auto simp: d dest: fmranI)
  next
    assume "j = i \<or> (\<exists>k \<in> fset (fmran es). reaches s k j)"
    then show "reaches s i j"
      using d by (auto simp: fmlookup_ran_iff intro: reaches.here reaches.below)
  qed
  have "blobs_of (DirNode c p es) = []" by (simp add: blobs_of_def)
  then show ?thesis
    using assms unfolding found_def step by auto
qed

lemma fsckRecursive_ok:
  assumes ok: "db_ok s" "depth_ok h s" and order: "entry_order_ok order"
    and "fmlookup (nodes s) i = Some n" "h i < k"
  shows "\<exists>bps. fsckRecursive k order s i acc = Some (fst acc @ bps, snd acc) \<and> set bps = found s i"
  using assms(4,5)
proof (induction k arbitrary: i n acc)
  case (Suc k)
  show ?case
  proof (cases n)
    case (FileNode c sz cs)
    with Suc.prems found_file show ?thesis by auto
  next
    case (DirNode c p es)
    have sub: "fmlookup (nodes s) d \<noteq> None \<and> h d < k" if "d \<in> fset (fmran es)" for d
      using that ok Suc.prems DirNode db_okD(4) [OF ok(1) Suc.prems(1)]
      by (fastforce simp: depth_ok_def fmpred_iff entries_of_def fmlookup_ran_iff)
    have eq: "set (map snd (order es)) = fset (fmran es)" using order by (simp add: entry_order_ok_def)
    have "\<exists>bps. fsck_entries (fsckRecursive k order s) (map snd (order es)) acc = Some (fst acc @ bps, snd acc) \<and>
        set bps = (\<Union>d \<in> set (map snd (order es)). found s d)"
      using sub eq Suc.IH by (intro fsck_entries_ok) fastforce
    then show ?thesis
      using Suc.prems(1) DirNode unfolding eq by (simp add: found_dir)
  qed
qed simp


lemma fsck_entries_None:
  "i \<in> set cs \<Longrightarrow> (\<And>acc. f i acc = None) \<Longrightarrow> fsck_entries f cs acc = None"
  by (induction cs arbitrary: acc) (auto split: option.splits)

lemma fsck_diverges:
  assumes "dir_at s i es" "fmlookup es name = Some i" "entry_order_ok order"
  shows "fsckRecursive k order s i acc = None"
proof (induction k arbitrary: acc)
  case (Suc k)
  have "i \<in> set (map snd (order es))" using assms(2,3) by (auto simp: entry_order_ok_def intro: fmranI)
  then have "fsck_entries (fsckRecursive k order s) (map snd (order es)) acc = None"
    using Suc by (rule fsck_entries_None)
  then show ?case using assms(1) by (auto simp: dir_at_iff)
qed simp

lemma Fsck_finds:
  assumes "db_ok (db_state db)" "depth_ok h (db_state db)" "entry_order_ok order" "\<not> db_readOnly db"
  shows "\<exists>bps. Fsck (h RootDirID + 1) order db = Some (bps, []) \<and> set bps = found (db_state db) RootDirID"
proof -
  obtain n where "fmlookup (nodes (db_state db)) RootDirID = Some n"
    using assms(1) by (auto simp: db_ok_def root_ok_def split: option.splits)
  from fsckRecursive_ok [OF assms(1-3) this, of "h RootDirID + 1" "([], [])"] assms(4) show ?thesis
    by (simp add: Fsck_def)
qed

text \<open>
  C17. On a consistent database without directory cycles the check ends, reports nothing, and finds
  exactly the blobs of the files below the root; depth plus one is enough fuel.
\<close>

theorem Fsck_complete:
  assumes "db_ok (db_state db)" "depth_ok h (db_state db)" "entry_order_ok order" "\<not> db_readOnly db"
  shows "\<exists>bps. Fsck (h RootDirID + 1) order db = Some (bps, []) \<and> set bps = found (db_state db) RootDirID"
  using assms by (rule Fsck_finds)

definition entries_sorted :: entry_order where
  "entries_sorted m = map (\<lambda>x. ([], x)) (sorted_list_of_fset (fmran m))"

lemma entries_sorted_ok: "entry_order_ok entries_sorted"
  by (simp add: entry_order_ok_def entries_sorted_def comp_def image_image)

theorem Fsck_complete_witness:
  "\<exists>bps. Fsck 3 entries_sorted sample_rw_db = Some (bps, []) \<and> set bps = found sample_db RootDirID"
proof -
  let ?h = "\<lambda>i. if i = RootDirID then 2 else (0 :: nat)"
  have "depth_ok ?h sample_db"
    by (auto simp: depth_ok_def sample_db_def fmpred_iff entries_of_def RootDirID_def split: if_splits)
  then show ?thesis
    using Fsck_complete [of sample_rw_db ?h entries_sorted] sample_db_ok entries_sorted_ok
    by (simp add: sample_rw_db_def)
qed



end
