(* ===== verification/Btncrypt.thy ===== *)
theory Btncrypt
  imports Blobstore
begin

text \<open>
  Encryption of byte streams (\<open>btncrypt/btncrypt.go\<close>). A stream is cut into frames of at most
  256 KiB; a frame is a random nonce followed by the sealed payload.

  \<^item> The AEAD cipher of the Go library is the record \<open>Cipher\<close> of its four methods; what the code
    relies on is \<open>aead_ok\<close>: opening what was sealed under the same nonce gives it back, and sealing
    adds a fixed number of bytes.
  \<^item> Random bytes come from a source \<open>rnd\<close> that is read at a position the operations advance.
  \<^item> \<open>io.Writer\<close> and \<open>io.Reader\<close> are functions on the state of the stream; the locales
    \<open>byte_sink\<close> and \<open>byte_source\<close> are what their clients rely on, and \<open>bytes.Buffer\<close>,
    \<open>bytes.Reader\<close>, \<open>OffsetWriter\<close> and \<open>OffsetReader\<close> keep them.
  \<^item> \<open>Reader\<close>s are pooled, and the one fetched by \<open>NewReader\<close> keeps the field \<open>unread\<close> of its
    previous use: it is an argument of \<open>NewReader\<close> here. The frame buffers of the pools all keep
    their full capacity, \<open>encFrameBufCap\<close> and \<open>decFrameBufCap\<close>.
\<close>

section \<open>Frames\<close>

definition BtnFrameMaxPayload :: nat where
  "BtnFrameMaxPayload = 256 * 1024"

record Cipher =
  gcm_NonceSize :: nat
  gcm_Overhead :: nat
  gcm_Seal :: "byte list \<Rightarrow> byte list \<Rightarrow> byte list"
  gcm_Open :: "byte list \<Rightarrow> byte list \<Rightarrow> (byte list) result"

definition frameOverhead :: "Cipher \<Rightarrow> nat" where
  "frameOverhead c = gcm_NonceSize c + gcm_Overhead c"

definition EncryptedFrameSize :: "Cipher \<Rightarrow> nat \<Rightarrow> nat" where
  "EncryptedFrameSize c payloadLen = payloadLen + frameOverhead c"

definition encFrameBufCap :: "Cipher \<Rightarrow> nat" where
  "encFrameBufCap c = EncryptedFrameSize c BtnFrameMaxPayload"

definition decFrameBufCap :: nat where
  "decFrameBufCap = BtnFrameMaxPayload"

text \<open>\<open>util.ReadRandomBytes\<close> into a buffer of \<open>n\<close> bytes.\<close>

type_synonym rand = "nat \<Rightarrow> byte"

definition ReadRandomBytes :: "rand \<Rightarrow> nat \<Rightarrow> nat \<Rightarrow> byte list" where
  "ReadRandomBytes rnd k n = map rnd [k..<k + n]"

text \<open>The first argument after the cipher is the capacity of the destination buffer.\<close>

definition EncryptFrame :: "Cipher \<Rightarrow> nat \<Rightarrow> rand \<Rightarrow> nat \<Rightarrow> byte list \<Rightarrow> (byte list) result" where
  "EncryptFrame c dstcap rnd k p =
     (let expectedLen = EncryptedFrameSize c (length p) in
      if dstcap < expectedLen then Inl (Panic ''dst should be large enough to hold encyrpted frame!'')
      else
        (let nonce = ReadRandomBytes rnd k (gcm_NonceSize c);
             dst = nonce @ gcm_Seal c nonce p
         in if length dst \<noteq> expectedLen then Inl (Panic ''EncryptedFrameSize mismatch'') else Inr dst))"

definition DecryptFrame :: "Cipher \<Rightarrow> nat \<Rightarrow> byte list \<Rightarrow> (byte list) result" where
  "DecryptFrame c dstcap p =
     (if int dstcap < int (length p) - int (frameOverhead c)
      then Inl (Panic ''dst should be large enough to hold decyrpted frame!'')
      else if length p < gcm_NonceSize c then Inl (Panic ''slice bounds out of range'')
      else gcm_Open c (take (gcm_NonceSize c) p) (drop (gcm_NonceSize c) p))"

section \<open>WriteCloser\<close>

text \<open>\<open>bew_k\<close> is the position in the random source; \<open>'w\<close> is the state of the destination.\<close>

type_synonym 'w Writer = "byte list \<Rightarrow> 'w \<Rightarrow> 'w \<times> error option"

record 'w WriteCloser =
  bew_dst :: 'w
  bew_lenTotal :: int
  bew_lenWritten :: int
  bew_remBuf :: "byte list"
  bew_k :: nat

definition NewWriteCloser :: "'w \<Rightarrow> int \<Rightarrow> nat \<Rightarrow> 'w WriteCloser" where
  "NewWriteCloser dst lenTotal k =
     \<lparr>bew_dst = dst, bew_lenTotal = lenTotal, bew_lenWritten = 0, bew_remBuf = [], bew_k = k\<rparr>"

definition emitFrame ::
    "Cipher \<Rightarrow> rand \<Rightarrow> 'w Writer \<Rightarrow> byte list \<Rightarrow> 'w WriteCloser \<Rightarrow> 'w WriteCloser \<times> error option" where
  "emitFrame c rnd wr p bew =
     (case EncryptFrame c (encFrameBufCap c) rnd (bew_k bew) p of
        Inl e \<Rightarrow> (bew, Some e)
      | Inr enc \<Rightarrow>
          (case wr enc (bew_dst bew) of
             (w, e) \<Rightarrow> (bew\<lparr>bew_dst := w, bew_k := bew_k bew + gcm_NonceSize c\<rparr>, e)))"

text \<open>The loop of \<open>Write\<close> that emits full frames; it returns what is left of \<open>p\<close>.\<close>

function emit_full ::
    "Cipher \<Rightarrow> rand \<Rightarrow> 'w Writer \<Rightarrow> byte list \<Rightarrow> 'w WriteCloser \<Rightarrow> 'w WriteCloser \<times> (byte list) result" where
  "emit_full c rnd wr p bew =
     (if BtnFrameMaxPayload \<le> length p then
        (case emitFrame c rnd wr (take BtnFrameMaxPayload p) bew of
           (bew', Some e) \<Rightarrow> (bew', Inl e)
         | (bew', None) \<Rightarrow> emit_full c rnd wr (drop BtnFrameMaxPayload p) bew')
      else (bew, Inr p))"
  by pat_completeness auto
termination
  by (relation "measure (\<lambda>(c, rnd, wr, p, bew). length p)") (auto simp: BtnFrameMaxPayload_def)

declare emit_full.simps [simp del]

text \<open>The head of \<open>Write\<close>: fill up a started frame. \<open>Inr None\<close> is its early return.\<close>

definition fill_frame ::
    "Cipher \<Rightarrow> rand \<Rightarrow> 'w Writer \<Rightarrow> byte list \<Rightarrow> 'w WriteCloser \<Rightarrow> 'w WriteCloser \<times> (byte list option) result" where
  "fill_frame c rnd wr p bew =
     (let rem = bew_remBuf bew in
      if rem \<noteq> [] then
        if length rem + length p < BtnFrameMaxPayload then (bew\<lparr>bew_remBuf := rem @ p\<rparr>, Inr None)
        else
          (let consume = BtnFrameMaxPayload - length rem;
               bew1 = bew\<lparr>bew_remBuf := rem @ take consume p\<rparr>
           in case emitFrame c rnd wr (bew_remBuf bew1) bew1 of
                (bew2, Some e) \<Rightarrow> (bew2, Inl e)
              | (bew2, None) \<Rightarrow> (bew2\<lparr>bew_remBuf := []\<rparr>, Inr (Some (drop consume p))))
      else (bew, Inr (Some p)))"

definition WriteCloser_Write ::
    "Cipher \<Rightarrow> rand \<Rightarrow> 'w Writer \<Rightarrow> byte list \<Rightarrow> 'w WriteCloser \<Rightarrow> 'w WriteCloser \<times> nat result" where
  "WriteCloser_Write c rnd wr p bew =
     (let totalLen = length p in
      if totalLen = 0 then (bew, Inr 0)
      else
        case fill_frame c rnd wr p bew of
          (bew1, Inl e) \<Rightarrow> (bew1, Inl e)
        | (bew1, Inr None) \<Rightarrow>
            (bew1\<lparr>bew_lenWritten := bew_lenWritten bew1 + int totalLen\<rparr>, Inr totalLen)
        | (bew1, Inr (Some p1)) \<Rightarrow>
            (case emit_full c rnd wr p1 bew1 of
               (bew2, Inl e) \<Rightarrow> (bew2, Inl e)
             | (bew2, Inr p2) \<Rightarrow>
                 (bew2\<lparr>bew_remBuf := bew_remBuf bew2 @ p2,
                       bew_lenWritten := bew_lenWritten bew2 + int totalLen\<rparr>, Inr totalLen)))"

definition WriteCloser_Close ::
    "Cipher \<Rightarrow> rand \<Rightarrow> 'w Writer \<Rightarrow> 'w WriteCloser \<Rightarrow> 'w WriteCloser \<times> error option" where
  "WriteCloser_Close c rnd wr bew =
     (if bew_lenTotal bew \<noteq> bew_lenWritten bew then (bew, Some (Fmt ''Frame len different from declared''))
      else if bew_remBuf bew \<noteq> [] then
        (case emitFrame c rnd wr (bew_remBuf bew) bew of
           (bew', Some e) \<Rightarrow> (bew', Some e)
         | (bew', None) \<Rightarrow> (bew'\<lparr>bew_remBuf := []\<rparr>, None))
      else (bew, None))"

text \<open>\<open>bytes.Buffer\<close> as a writer.\<close>

definition Buffer_Write :: "byte list Writer" where
  "Buffer_Write p b = (b @ p, None)"

definition Encrypt :: "Cipher \<Rightarrow> rand \<Rightarrow> nat \<Rightarrow> byte list \<Rightarrow> (byte list) result" where
  "Encrypt c rnd k plain =
     (case WriteCloser_Write c rnd Buffer_Write plain (NewWriteCloser [] (int (length plain)) k) of
        (bew, Inl e) \<Rightarrow> Inl e
      | (bew, Inr n) \<Rightarrow>
          (case WriteCloser_Close c rnd Buffer_Write bew of
             (bew', Some e) \<Rightarrow> Inl e
           | (bew', None) \<Rightarrow> Inr (bew_dst bew')))"

section \<open>Reader\<close>

text \<open>A source answers \<open>io.ReadFull\<close> for a buffer of \<open>n\<close> bytes.\<close>

type_synonym 's Source = "nat \<Rightarrow> 's \<Rightarrow> (byte list) result \<times> 's"

record 's Reader =
  bdr_src :: 's
  bdr_lenTotal :: int
  bdr_lenRead :: int
  bdr_unread :: "byte list"

text \<open>\<open>pooled\<close> is the field \<open>unread\<close> of the object the pool hands out: nobody resets it.\<close>

definition NewReader :: "byte list \<Rightarrow> 's \<Rightarrow> int \<Rightarrow> 's Reader" where
  "NewReader pooled src lenTotal =
     \<lparr>bdr_src = src, bdr_lenTotal = lenTotal, bdr_lenRead = 0, bdr_unread = pooled\<rparr>"

definition decryptNextFrame :: "Cipher \<Rightarrow> 's Source \<Rightarrow> 's Reader \<Rightarrow> 's Reader \<times> error option" where
  "decryptNextFrame c rd bdr =
     (let frameLen = min (nat (bdr_lenTotal bdr - bdr_lenRead bdr)) BtnFrameMaxPayload in
      case rd (EncryptedFrameSize c frameLen) (bdr_src bdr) of
        (Inl e, s) \<Rightarrow> (bdr\<lparr>bdr_src := s\<rparr>, Some e)
      | (Inr enc, s) \<Rightarrow>
          (case DecryptFrame c decFrameBufCap enc of
             Inl e \<Rightarrow> (bdr\<lparr>bdr_src := s\<rparr>, Some e)
           | Inr dec \<Rightarrow> (bdr\<lparr>bdr_src := s, bdr_unread := dec\<rparr>, None)))"

text \<open>
  The loop of \<open>Read\<close> with \<open>n\<close> bytes of the buffer left: the bytes it copies, and the error it
  stops with.
\<close>

function read_loop ::
    "Cipher \<Rightarrow> 's Source \<Rightarrow> nat \<Rightarrow> 's Reader \<Rightarrow> (byte list \<times> error option) \<times> 's Reader" where
  "read_loop c rd n bdr =
     (if n = 0 then (([], None), bdr)
      else
        case (if bdr_unread bdr = [] then decryptNextFrame c rd bdr else (bdr, None)) of
          (bdr1, Some e) \<Rightarrow> (([], Some e), bdr1)
        | (bdr1, None) \<Rightarrow>
            if bdr_unread bdr1 = [] then
              (([], Some (Panic ''decryptNextFrame should have decrypted something and placed it on the buf'')), bdr1)
            else
              (let consumeLen = min (length (bdr_unread bdr1)) n;
                   ((bs, e), bdr2) = read_loop c rd (n - consumeLen)
                     (bdr1\<lparr>bdr_unread := drop consumeLen (bdr_unread bdr1),
                           bdr_lenRead := bdr_lenRead bdr1 + int consumeLen\<rparr>)
               in ((take consumeLen (bdr_unread bdr1) @ bs, e), bdr2)))"
  by pat_completeness auto
termination
  by (relation "measure (\<lambda>(c, rd, n, bdr). n)") (auto simp: Suc_le_eq)

declare read_loop.simps [simp del]

definition Reader_Read ::
    "Cipher \<Rightarrow> 's Source \<Rightarrow> nat \<Rightarrow> 's Reader \<Rightarrow> (byte list \<times> error option) \<times> 's Reader" where
  "Reader_Read c rd n bdr =
     (let nr = min (int n) (bdr_lenTotal bdr - bdr_lenRead bdr) in
      if nr < 0 then (([], Some (Panic ''slice bounds out of range'')), bdr)
      else if nr = 0 then (([], Some EOF), bdr)
      else read_loop c rd (nat nr) bdr)"

definition HasReadAll :: "'s Reader \<Rightarrow> bool" where
  "HasReadAll bdr = (bdr_lenRead bdr = bdr_lenTotal bdr)"

text \<open>A \<open>Read\<close> without an error fills what it asked the loop for, so \<open>io.ReadFull\<close> ends.\<close>

lemma read_loop_length:
  "read_loop c rd n bdr = ((bs, e), bdr') \<Longrightarrow> if e = None then length bs = n else length bs < n"
proof (induction c rd n bdr arbitrary: bs e bdr' rule: read_loop.induct)
  case (1 c rd n bdr)
  define r where "r = (if bdr_unread bdr = [] then decryptNextFrame c rd bdr else (bdr, None))"
  obtain bdr1 e1 where one: "r = (bdr1, e1)" by fastforce
  consider "n = 0" | "n \<noteq> 0" "e1 \<noteq> None \<or> bdr_unread bdr1 = []" | "n \<noteq> 0" "e1 = None" "bdr_unread bdr1 \<noteq> []" by blast
  then show ?case
  proof cases
    case 2
    with 1(2) one show ?thesis by (subst (asm) read_loop.simps) (auto simp flip: r_def split: if_splits option.splits)
  next
    case 3
    obtain bs2 bdr2 where "read_loop c rd (n - min (length (bdr_unread bdr1)) n)
        (bdr1\<lparr>bdr_unread := drop (min (length (bdr_unread bdr1)) n) (bdr_unread bdr1),
           bdr_lenRead := bdr_lenRead bdr1 + int (min (length (bdr_unread bdr1)) n)\<rparr>) = ((bs2, e), bdr2)"
      "bs = take (min (length (bdr_unread bdr1)) n) (bdr_unread bdr1) @ bs2"
      using 1(2) 3 one by (subst (asm) read_loop.simps) (auto simp: Let_def simp flip: r_def split: prod.splits)
    with 1(1) [OF 3(1) one [unfolded r_def, symmetric] 3(2,3) refl] show ?thesis by (auto split: if_splits)
  qed (use 1(2) in \<open>simp add: read_loop.simps\<close>)
qed

lemma Read_progress: "Reader_Read c rd n bdr = ((bs, None), bdr') \<Longrightarrow> 0 < length bs \<and> length bs \<le> n"
  by (auto simp: Reader_Read_def Let_def dest: read_loop_length split: if_splits)

function Reader_ReadFull :: "Cipher \<Rightarrow> 's Source \<Rightarrow> nat \<Rightarrow> 's Reader \<Rightarrow> (byte list) result \<times> 's Reader" where
  "Reader_ReadFull c rd n bdr =
     (if n = 0 then (Inr [], bdr)
      else
        case Reader_Read c rd n bdr of
          ((bs, Some e), bdr1) \<Rightarrow>
            (if length bs = n then Inr bs
             else if e = EOF \<and> bs \<noteq> [] then Inl (Fmt ''unexpected EOF'') else Inl e, bdr1)
        | ((bs, None), bdr1) \<Rightarrow>
            (case Reader_ReadFull c rd (n - length bs) bdr1 of
               (Inl e, bdr2) \<Rightarrow> (Inl (if e = EOF then Fmt ''unexpected EOF'' else e), bdr2)
             | (Inr bs', bdr2) \<Rightarrow> (Inr (bs @ bs'), bdr2)))"
  by pat_completeness auto
termination
  by (relation "measure (\<lambda>(c, rd, n, bdr). n)") (auto dest!: sym [THEN Read_progress])

declare Reader_ReadFull.simps [simp del]

text \<open>\<open>io.ReadFull\<close> on a \<open>bytes.Reader\<close>.\<close>

definition bytes_ReadFull :: "byte list Source" where
  "bytes_ReadFull n s =
     (if n \<le> length s then (Inr (take n s), drop n s)
      else (Inl (if s = [] then EOF else Fmt ''unexpected EOF''), []))"

text \<open>
  \<open>Decrypt\<close>. The second component is the field \<open>unread\<close> of the reader that goes back to the pool.
\<close>

definition Decrypt :: "Cipher \<Rightarrow> byte list \<Rightarrow> byte list \<Rightarrow> int \<Rightarrow> (byte list) result \<times> byte list" where
  "Decrypt c pooled envelope lenTotal =
     (if lenTotal < 0 then (Inl (Panic ''makeslice: len out of range''), pooled)
      else
        case Reader_ReadFull c bytes_ReadFull (nat lenTotal) (NewReader pooled envelope lenTotal) of
          (r, bdr) \<Rightarrow> (r, bdr_unread bdr))"

section \<open>Streams of frames\<close>

definition aead_ok :: "Cipher \<Rightarrow> bool" where
  "aead_ok c \<longleftrightarrow>
     (\<forall>nonce p. length nonce = gcm_NonceSize c \<longrightarrow>
        gcm_Open c nonce (gcm_Seal c nonce p) = Inr p \<and> length (gcm_Seal c nonce p) = length p + gcm_Overhead c)"

definition seal_frame :: "Cipher \<Rightarrow> rand \<Rightarrow> nat \<Rightarrow> byte list \<Rightarrow> byte list" where
  "seal_frame c rnd k p =
     (let nonce = ReadRandomBytes rnd k (gcm_NonceSize c) in nonce @ gcm_Seal c nonce p)"

function frames :: "Cipher \<Rightarrow> rand \<Rightarrow> nat \<Rightarrow> byte list \<Rightarrow> byte list" where
  "frames c rnd k p =
     (if p = [] then []
      else seal_frame c rnd k (take BtnFrameMaxPayload p) @
        frames c rnd (k + gcm_NonceSize c) (drop BtnFrameMaxPayload p))"
  by pat_completeness auto
termination
  by (relation "measure (\<lambda>(c, rnd, k, p). length p)") (auto simp: BtnFrameMaxPayload_def)

declare frames.simps [simp del]

lemma Max_pos [simp]: "0 < BtnFrameMaxPayload" "BtnFrameMaxPayload \<noteq> 0"
  by (simp_all add: BtnFrameMaxPayload_def)

lemma frames_Nil [simp]: "frames c rnd k [] = []"
  by (simp add: frames.simps)

lemma frames_short:
  "p \<noteq> [] \<Longrightarrow> length p \<le> BtnFrameMaxPayload \<Longrightarrow> frames c rnd k p = seal_frame c rnd k p"
  by (subst frames.simps) simp

lemma frames_full: "length p = BtnFrameMaxPayload \<Longrightarrow> frames c rnd k p = seal_frame c rnd k p"
  using Max_pos by (intro frames_short) auto

lemma length_nonce [simp]: "length (ReadRandomBytes rnd k n) = n"
  by (simp add: ReadRandomBytes_def)

lemma length_seal_frame [simp]:
  "aead_ok c \<Longrightarrow> length (seal_frame c rnd k p) = EncryptedFrameSize c (length p)"
  by (simp add: aead_ok_def seal_frame_def Let_def EncryptedFrameSize_def frameOverhead_def)

lemma EncryptFrame_seal:
  assumes "aead_ok c" "length p \<le> BtnFrameMaxPayload"
  shows "EncryptFrame c (encFrameBufCap c) rnd k p = Inr (seal_frame c rnd k p)"
  using assms length_seal_frame [OF assms(1), of rnd k p]
  by (simp add: EncryptFrame_def seal_frame_def Let_def encFrameBufCap_def EncryptedFrameSize_def)

lemma DecryptFrame_seal:
  assumes "aead_ok c" "length p \<le> BtnFrameMaxPayload"
  shows "DecryptFrame c decFrameBufCap (seal_frame c rnd k p) = Inr p"
proof -
  have "length (seal_frame c rnd k p) = length p + frameOverhead c"
    using assms(1) by (simp add: EncryptedFrameSize_def)
  moreover have "gcm_Open c (ReadRandomBytes rnd k (gcm_NonceSize c)) (gcm_Seal c (ReadRandomBytes rnd k (gcm_NonceSize c)) p) = Inr p"
    using assms(1) by (simp add: aead_ok_def)
  ultimately show ?thesis
    using assms(2) by (simp add: DecryptFrame_def decFrameBufCap_def frameOverhead_def, simp add: seal_frame_def Let_def)
qed

lemma frames_append_full:
  "length a = m * BtnFrameMaxPayload \<Longrightarrow>
   frames c rnd k (a @ b) = frames c rnd k a @ frames c rnd (k + m * gcm_NonceSize c) b"
proof (induction m arbitrary: a k)
  case (Suc m)
  then have ne: "a \<noteq> []" and le: "BtnFrameMaxPayload \<le> length a" by auto
  have "frames c rnd (k + gcm_NonceSize c) (drop BtnFrameMaxPayload a @ b) =
      frames c rnd (k + gcm_NonceSize c) (drop BtnFrameMaxPayload a) @
      frames c rnd (k + gcm_NonceSize c + m * gcm_NonceSize c) b"
    using Suc by (intro Suc.IH) simp
  then show ?case
    using ne le by (subst (1 2) frames.simps) (simp add: algebra_simps)
qed simp

lemma length_frames:
  "aead_ok c \<Longrightarrow> length (frames c rnd k p) =
   length p + (length p + BtnFrameMaxPayload - 1) div BtnFrameMaxPayload * frameOverhead c"
proof (induction c rnd k p rule: frames.induct)
  case (1 c rnd k p)
  show ?case
  proof (cases "length p \<le> BtnFrameMaxPayload")
    case True
    show ?thesis
    proof (cases "p = []")
      case False
      with True have "(length p + BtnFrameMaxPayload - 1) div BtnFrameMaxPayload = 1"
        by (cases p) (auto intro!: div_nat_eqI)
      with True False 1(2) show ?thesis by (simp add: frames_short EncryptedFrameSize_def)
    qed (simp add: BtnFrameMaxPayload_def)
  next
    case False
    have "length p + BtnFrameMaxPayload - 1 = (length p - BtnFrameMaxPayload + BtnFrameMaxPayload - 1) + BtnFrameMaxPayload"
      using False by simp
    then have "(length p + BtnFrameMaxPayload - 1) div BtnFrameMaxPayload =
        Suc ((length p - BtnFrameMaxPayload + BtnFrameMaxPayload - 1) div BtnFrameMaxPayload)"
      by (metis Max_pos(2) div_add_self2 Suc_eq_plus1)
    with False 1 show ?thesis
      by (subst frames.simps) (auto simp: EncryptedFrameSize_def algebra_simps)
  qed
qed

section \<open>Sinks and sources\<close>

text \<open>
  A sink: \<open>emits w bs w'\<close> when writing the bytes \<open>bs\<close> to \<open>w\<close> leads to \<open>w'\<close>; \<open>room w n\<close> when \<open>n\<close> bytes
  can be written to \<open>w\<close>.
\<close>

locale byte_sink =
  fixes wr :: "'w Writer" and emits :: "'w \<Rightarrow> byte list \<Rightarrow> 'w \<Rightarrow> bool" and room :: "'w \<Rightarrow> nat \<Rightarrow> bool"
  assumes emits_start: "room w n \<Longrightarrow> emits w [] w"
    and emits_step: "emits w p v \<Longrightarrow> room w (length p + length q) \<Longrightarrow> \<exists>v'. wr q v = (v', None) \<and> emits w (p @ q) v'"
    and room_mono: "room w n \<Longrightarrow> m \<le> n \<Longrightarrow> room w m"
    and emits_trans: "emits w p v \<Longrightarrow> emits v q u \<Longrightarrow> room w (length p + length q) \<Longrightarrow> emits w (p @ q) u"
    and room_after: "emits w p v \<Longrightarrow> room w (length p + n) \<Longrightarrow> room v n"

text \<open>A source that holds bytes delivers them in order.\<close>

locale byte_source =
  fixes rd :: "'s Source" and holds :: "'s \<Rightarrow> byte list \<Rightarrow> bool"
  assumes holds_read: "holds s (a @ b) \<Longrightarrow> \<exists>s'. rd (length a) s = (Inr a, s') \<and> holds s' b"

subsection \<open>Writing frames to a sink\<close>

text \<open>The state of a \<open>WriteCloser\<close> that started at \<open>w\<close> and has been given the bytes \<open>q\<close>.\<close>

definition bew_has ::
    "('w \<Rightarrow> byte list \<Rightarrow> 'w \<Rightarrow> bool) \<Rightarrow> Cipher \<Rightarrow> rand \<Rightarrow> 'w \<Rightarrow> nat \<Rightarrow> byte list \<Rightarrow> 'w WriteCloser \<Rightarrow> bool" where
  "bew_has emits c rnd w k q bew \<longleftrightarrow>
     (\<exists>m a. q = a @ bew_remBuf bew \<and> length a = m * BtnFrameMaxPayload \<and>
        length (bew_remBuf bew) < BtnFrameMaxPayload \<and> bew_k bew = k + m * gcm_NonceSize c \<and>
        emits w (frames c rnd k a) (bew_dst bew) \<and> bew_lenWritten bew = int (length q))"

context byte_sink
begin

lemma emitFrame_emits:
  assumes "aead_ok c" "length p \<le> BtnFrameMaxPayload" "emits w o1 (bew_dst bew)"
    and "room w (length o1 + length (seal_frame c rnd (bew_k bew) p))"
  shows "\<exists>v. emitFrame c rnd wr p bew = (bew\<lparr>bew_dst := v, bew_k := bew_k bew + gcm_NonceSize c\<rparr>, None) \<and>
    emits w (o1 @ seal_frame c rnd (bew_k bew) p) v"
  using emits_step [OF assms(3,4)] by (auto simp: emitFrame_def EncryptFrame_seal [OF assms(1,2)])

lemma emit_full_emits:
  assumes "aead_ok c" "length a = m * BtnFrameMaxPayload" "bew_k bew = k + m * gcm_NonceSize c"
    and "emits w (frames c rnd k a) (bew_dst bew)" "room w (length (frames c rnd k (a @ p)))"
  shows "\<exists>bew' m' a' p'. emit_full c rnd wr p bew = (bew', Inr p') \<and> a @ p = a' @ p' \<and>
    length a' = m' * BtnFrameMaxPayload \<and> length p' < BtnFrameMaxPayload \<and>
    bew_k bew' = k + m' * gcm_NonceSize c \<and> emits w (frames c rnd k a') (bew_dst bew') \<and>
    bew_remBuf bew' = bew_remBuf bew \<and> bew_lenWritten bew' = bew_lenWritten bew \<and> bew_lenTotal bew' = bew_lenTotal bew"
  using assms(2-)
proof (induction p arbitrary: a m bew rule: length_induct)
  case (1 p)
  show ?case
  proof (cases "BtnFrameMaxPayload \<le> length p")
    case False
    then show ?thesis using 1(2-) by (subst emit_full.simps) auto
  next
    case True
    define p1 where "p1 = take BtnFrameMaxPayload p"
    define p2 where "p2 = drop BtnFrameMaxPayload p"
    have p: "p = p1 @ p2" "length p1 = BtnFrameMaxPayload" "length p2 < length p"
      using True by (auto simp: p1_def p2_def intro: diff_less)
    have a1: "length (a @ p1) = Suc m * BtnFrameMaxPayload" using 1(2) p(2) by simp
    have f1: "frames c rnd k (a @ p1) = frames c rnd k a @ seal_frame c rnd (bew_k bew) p1"
      using frames_append_full [OF 1(2), of c rnd k p1] p(2) 1(3) by (simp add: frames_full)
    have f2: "room w (length (frames c rnd k (a @ p1)))"
      using room_mono [OF 1(5)] frames_append_full [OF a1, of c rnd k p2] p(1) by simp
    obtain v where v: "emitFrame c rnd wr p1 bew = (bew\<lparr>bew_dst := v, bew_k := bew_k bew + gcm_NonceSize c\<rparr>, None)"
      "emits w (frames c rnd k (a @ p1)) v"
      using emitFrame_emits [OF assms(1) _ 1(4), of p1 rnd] p(2) f1 f2 by auto
    have "emit_full c rnd wr p bew = emit_full c rnd wr p2 (bew\<lparr>bew_dst := v, bew_k := bew_k bew + gcm_NonceSize c\<rparr>)"
      using True v(1) by (subst emit_full.simps) (simp add: p1_def p2_def)
    with 1(1) [rule_format, OF p(3) a1, of "bew\<lparr>bew_dst := v, bew_k := bew_k bew + gcm_NonceSize c\<rparr>"] v(2) 1(3,5) p(1)
    show ?thesis by simp
  qed
qed

lemma fill_frame_emits:
  assumes "aead_ok c" "bew_has emits c rnd w k q bew" "room w (length (frames c rnd k (q @ p)))"
  shows "(\<exists>bew'. fill_frame c rnd wr p bew = (bew', Inr None) \<and> bew_lenTotal bew' = bew_lenTotal bew \<and>
      bew_has emits c rnd w k (q @ p) (bew'\<lparr>bew_lenWritten := bew_lenWritten bew' + int (length p)\<rparr>)) \<or>
    (\<exists>bew' m a p'. fill_frame c rnd wr p bew = (bew', Inr (Some p')) \<and> q @ p = a @ p' \<and> bew_remBuf bew' = [] \<and>
      length a = m * BtnFrameMaxPayload \<and> bew_k bew' = k + m * gcm_NonceSize c \<and>
      emits w (frames c rnd k a) (bew_dst bew') \<and>
      bew_lenWritten bew' = int (length q) \<and> bew_lenTotal bew' = bew_lenTotal bew)"
proof -
  obtain m a where q: "q = a @ bew_remBuf bew" "length a = m * BtnFrameMaxPayload"
      "length (bew_remBuf bew) < BtnFrameMaxPayload" "bew_k bew = k + m * gcm_NonceSize c"
      "emits w (frames c rnd k a) (bew_dst bew)" "bew_lenWritten bew = int (length q)"
    using assms(2) by (auto simp: bew_has_def)
  consider "bew_remBuf bew = []" | "bew_remBuf bew \<noteq> []" "length (bew_remBuf bew) + length p < BtnFrameMaxPayload"
    | "bew_remBuf bew \<noteq> []" "BtnFrameMaxPayload \<le> length (bew_remBuf bew) + length p" by linarith
  then show ?thesis
  proof cases
    case 1
    with q show ?thesis by (auto simp: fill_frame_def Let_def)
  next
    case 2
    with q show ?thesis by (auto simp: fill_frame_def Let_def bew_has_def)
  next
    case 3
    define n where "n = BtnFrameMaxPayload - length (bew_remBuf bew)"
    define r where "r = bew_remBuf bew @ take n p"
    have r: "length r = BtnFrameMaxPayload" "q @ p = (a @ r) @ drop n p"
      using 3 q by (auto simp: r_def n_def)
    have a1: "length (a @ r) = Suc m * BtnFrameMaxPayload" using q(2) r(1) by simp
    have f1: "frames c rnd k (a @ r) = frames c rnd k a @ seal_frame c rnd (bew_k bew) r"
      using frames_append_full [OF q(2), of c rnd k r] r(1) q(4) by (simp add: frames_full)
    have f2: "room w (length (frames c rnd k (a @ r)))"
      using room_mono [OF assms(3)] frames_append_full [OF a1, of c rnd k "drop n p"] r(2) by simp
    obtain v where "emitFrame c rnd wr r (bew\<lparr>bew_remBuf := r\<rparr>) =
        (bew\<lparr>bew_remBuf := r, bew_dst := v, bew_k := bew_k bew + gcm_NonceSize c\<rparr>, None)"
      "emits w (frames c rnd k (a @ r)) v"
      using emitFrame_emits [OF assms(1), of r w "frames c rnd k a" "bew\<lparr>bew_remBuf := r\<rparr>" rnd] q(5) r(1) f1 f2 by auto
    moreover have "fill_frame c rnd wr p bew =
        (case emitFrame c rnd wr r (bew\<lparr>bew_remBuf := r\<rparr>) of
           (bew2, Some e) \<Rightarrow> (bew2, Inl e) | (bew2, None) \<Rightarrow> (bew2\<lparr>bew_remBuf := []\<rparr>, Inr (Some (drop n p))))"
      using 3 by (simp add: fill_frame_def Let_def r_def flip: n_def)
    ultimately show ?thesis using a1 q(4,6) r(2) by (intro disjI2) (auto intro!: exI [of _ "Suc m"] exI [of _ "a @ r"])
  qed
qed

text \<open>However the bytes are cut into calls of \<open>Write\<close>, the frames are those of the whole.\<close>

lemma Write_emits:
  assumes "aead_ok c" "bew_has emits c rnd w k q bew" "room w (length (frames c rnd k (q @ p)))"
  shows "\<exists>bew'. WriteCloser_Write c rnd wr p bew = (bew', Inr (length p)) \<and>
    bew_has emits c rnd w k (q @ p) bew' \<and> bew_lenTotal bew' = bew_lenTotal bew"
proof (cases "p = []")
  case True
  with assms(2) show ?thesis by (simp add: WriteCloser_Write_def)
next
  case False
  from fill_frame_emits [OF assms] show ?thesis
  proof (elim disjE exE conjE)
    fix bew1 m a p1
    assume f: "fill_frame c rnd wr p bew = (bew1, Inr (Some p1))" "q @ p = a @ p1" "bew_remBuf bew1 = []"
      "length a = m * BtnFrameMaxPayload" "bew_k bew1 = k + m * gcm_NonceSize c"
      "emits w (frames c rnd k a) (bew_dst bew1)" "bew_lenWritten bew1 = int (length q)" "bew_lenTotal bew1 = bew_lenTotal bew"
    obtain bew2 m' a' p' where g: "emit_full c rnd wr p1 bew1 = (bew2, Inr p')" "a @ p1 = a' @ p'"
      "length a' = m' * BtnFrameMaxPayload" "length p' < BtnFrameMaxPayload"
      "bew_k bew2 = k + m' * gcm_NonceSize c" "emits w (frames c rnd k a') (bew_dst bew2)"
      "bew_remBuf bew2 = []" "bew_lenWritten bew2 = int (length q)" "bew_lenTotal bew2 = bew_lenTotal bew"
      using emit_full_emits [OF assms(1) f(4-6), of p1] assms(3) f by auto
    have "int (length q) + int (length p) = int (length a' + length p')"
      using f(2) g(2) by (metis length_append of_nat_add)
    then have "bew_has emits c rnd w k (q @ p) (bew2\<lparr>bew_remBuf := p', bew_lenWritten := int (length q) + int (length p)\<rparr>)"
      unfolding bew_has_def using f(2) g
      by (intro exI [of _ m'] exI [of _ a'] conjI) simp_all
    with False f(1) g show ?thesis by (simp add: WriteCloser_Write_def Let_def)
  qed (use False in \<open>auto simp: WriteCloser_Write_def Let_def\<close>)
qed

lemma Close_emits:
  assumes "aead_ok c" "bew_has emits c rnd w k q bew" "room w (length (frames c rnd k q))"
    and "bew_lenTotal bew = int (length q)"
  shows "\<exists>bew'. WriteCloser_Close c rnd wr bew = (bew', None) \<and> emits w (frames c rnd k q) (bew_dst bew')"
proof -
  obtain m a where q: "q = a @ bew_remBuf bew" "length a = m * BtnFrameMaxPayload"
      "length (bew_remBuf bew) < BtnFrameMaxPayload" "bew_k bew = k + m * gcm_NonceSize c"
      "emits w (frames c rnd k a) (bew_dst bew)" "bew_lenWritten bew = int (length q)"
    using assms(2) by (auto simp: bew_has_def)
  show ?thesis
  proof (cases "bew_remBuf bew = []")
    case True
    with q assms(4) show ?thesis by (auto simp: WriteCloser_Close_def)
  next
    case False
    then have "frames c rnd k q = frames c rnd k a @ seal_frame c rnd (bew_k bew) (bew_remBuf bew)"
      using frames_append_full [OF q(2), of c rnd k "bew_remBuf bew"] q frames_short [of "bew_remBuf bew"] by auto
    with emitFrame_emits [OF assms(1) _ q(5), of "bew_remBuf bew" rnd] q(3,6) assms(3,4) False
    show ?thesis by (auto simp: WriteCloser_Close_def)
  qed
qed

lemma NewWriteCloser_has: "room w n \<Longrightarrow> bew_has emits c rnd w k [] (NewWriteCloser w l k)"
  by (auto simp: bew_has_def NewWriteCloser_def dest: emits_start)

end

subsection \<open>Reading frames from a source\<close>

text \<open>
  A \<open>Reader\<close> with the plaintext \<open>q\<close> still to deliver, whose source continues with \<open>z\<close> behind its
  frames.
\<close>

definition bdr_has ::
    "('s \<Rightarrow> byte list \<Rightarrow> bool) \<Rightarrow> Cipher \<Rightarrow> rand \<Rightarrow> byte list \<Rightarrow> byte list \<Rightarrow> 's Reader \<Rightarrow> bool" where
  "bdr_has holds c rnd q z bdr \<longleftrightarrow>
     (\<exists>k q'. q = bdr_unread bdr @ q' \<and> holds (bdr_src bdr) (frames c rnd k q' @ z) \<and>
        bdr_lenTotal bdr - bdr_lenRead bdr = int (length q))"

context byte_source
begin

lemma decryptNextFrame_has:
  assumes "aead_ok c" "bdr_has holds c rnd q z bdr" "bdr_unread bdr = []" "q \<noteq> []"
  shows "\<exists>bdr'. decryptNextFrame c rd bdr = (bdr', None) \<and> bdr_has holds c rnd q z bdr' \<and> bdr_unread bdr' \<noteq> []"
proof -
  obtain k where k: "holds (bdr_src bdr) (frames c rnd k q @ z)" "bdr_lenTotal bdr - bdr_lenRead bdr = int (length q)"
    using assms(2,3) by (auto simp: bdr_has_def)
  define q1 where "q1 = take BtnFrameMaxPayload q"
  define q2 where "q2 = drop BtnFrameMaxPayload q"
  have f: "frames c rnd k q = seal_frame c rnd k q1 @ frames c rnd (k + gcm_NonceSize c) q2"
    using assms(4) by (subst frames.simps) (simp add: q1_def q2_def)
  have len: "length (seal_frame c rnd k q1) = EncryptedFrameSize c (min (length q) BtnFrameMaxPayload)"
    using assms(1) by (simp add: q1_def min.commute)
  obtain s' where s': "rd (EncryptedFrameSize c (min (length q) BtnFrameMaxPayload)) (bdr_src bdr) = (Inr (seal_frame c rnd k q1), s')"
    "holds s' (frames c rnd (k + gcm_NonceSize c) q2 @ z)"
    using holds_read [of "bdr_src bdr" "seal_frame c rnd k q1" "frames c rnd (k + gcm_NonceSize c) q2 @ z"] k(1) f len by auto
  have "DecryptFrame c decFrameBufCap (seal_frame c rnd k q1) = Inr q1"
    by (rule DecryptFrame_seal [OF assms(1)]) (simp add: q1_def)
  then have "decryptNextFrame c rd bdr = (bdr\<lparr>bdr_src := s', bdr_unread := q1\<rparr>, None)"
    using s'(1) k(2) by (simp add: decryptNextFrame_def)
  then show ?thesis
    using s'(2) k(2) assms(4) unfolding bdr_has_def
    by (intro exI [of _ "bdr\<lparr>bdr_src := s', bdr_unread := q1\<rparr>"] conjI exI [of _ "k + gcm_NonceSize c"] exI [of _ q2])
      (auto simp: q1_def q2_def)
qed

lemma read_loop_has:
  assumes "aead_ok c" "bdr_has holds c rnd q z bdr" "n \<le> length q"
  shows "\<exists>bdr'. read_loop c rd n bdr = ((take n q, None), bdr') \<and> bdr_has holds c rnd (drop n q) z bdr'"
  using assms(2,3)
proof (induction n arbitrary: q bdr rule: less_induct)
  case (less n)
  show ?case
  proof (cases "n = 0")
    case True
    with less(2) show ?thesis by (simp add: read_loop.simps)
  next
    case False
    then have "q \<noteq> []" using less(3) by auto
    then obtain bdr1 where one: "(if bdr_unread bdr = [] then decryptNextFrame c rd bdr else (bdr, None)) = (bdr1, None)"
      "bdr_has holds c rnd q z bdr1" "bdr_unread bdr1 \<noteq> []"
      using decryptNextFrame_has [OF assms(1) less(2)] less(2) by (cases "bdr_unread bdr = []") auto
    define m where "m = min (length (bdr_unread bdr1)) n"
    define bdr2 where "bdr2 = bdr1\<lparr>bdr_unread := drop m (bdr_unread bdr1), bdr_lenRead := bdr_lenRead bdr1 + int m\<rparr>"
    have m: "0 < m" "m \<le> n" "m \<le> length (bdr_unread bdr1)" using one(3) False by (auto simp: m_def)
    have q: "take m q = take m (bdr_unread bdr1)" using one(2) m(3) by (auto simp: bdr_has_def)
    have "bdr_has holds c rnd (drop m q) z bdr2"
      using one(2) m(3) by (auto simp: bdr_has_def bdr2_def)
    then obtain bdr3 where three: "read_loop c rd (n - m) bdr2 = ((take (n - m) (drop m q), None), bdr3)"
      "bdr_has holds c rnd (drop (n - m) (drop m q)) z bdr3"
      using less(1) [of "n - m" "drop m q" bdr2] m less(3) by (auto simp: diff_le_mono)
    have "read_loop c rd n bdr = ((take m q @ take (n - m) (drop m q), None), bdr3)"
      using False one(1,3) three(1) q unfolding bdr2_def m_def by (subst read_loop.simps) (simp add: Let_def)
    moreover have "take m q @ take (n - m) (drop m q) = take n q"
      using m(2) by (metis le_add_diff_inverse take_add)
    ultimately show ?thesis using three(2) m(2) by simp
  qed
qed

lemma Read_has:
  assumes "aead_ok c" "bdr_has holds c rnd q z bdr"
  shows "\<exists>bdr'. Reader_Read c rd n bdr = ((take n q, if n = 0 \<or> q = [] then Some EOF else None), bdr') \<and>
    bdr_has holds c rnd (drop n q) z bdr'"
proof -
  have len: "bdr_lenTotal bdr - bdr_lenRead bdr = int (length q)" using assms(2) by (auto simp: bdr_has_def)
  have "take (min n (length q)) q = take n q" "drop (min n (length q)) q = drop n q" by (simp_all add: min_def)
  with read_loop_has [OF assms, of "min n (length q)"] len assms(2) show ?thesis
    by (cases "n = 0 \<or> q = []") (auto simp: Reader_Read_def Let_def min_def)
qed

lemma ReadFull_has:
  assumes "aead_ok c" "bdr_has holds c rnd q z bdr" "n \<le> length q"
  shows "\<exists>bdr'. Reader_ReadFull c rd n bdr = (Inr (take n q), bdr') \<and> bdr_has holds c rnd (drop n q) z bdr'"
proof (cases "n = 0")
  case True
  with assms(2) show ?thesis by (simp add: Reader_ReadFull.simps)
next
  case False
  then have "q \<noteq> []" using assms(3) by auto
  with False Read_has [OF assms(1,2), of n] obtain bdr' where
    "Reader_Read c rd n bdr = ((take n q, None), bdr')" "bdr_has holds c rnd (drop n q) z bdr'" by auto
  with False assms(3) show ?thesis by (subst Reader_ReadFull.simps) (simp add: Reader_ReadFull.simps [of c rd 0])
qed

lemma NewReader_has: "holds s (frames c rnd k q @ z) \<Longrightarrow> bdr_has holds c rnd q z (NewReader [] s (int (length q)))"
  by (auto simp: bdr_has_def NewReader_def)

end

subsection \<open>Buffers and blobs as sinks and sources\<close>

interpretation buffer: byte_sink Buffer_Write "\<lambda>w p v. v = w @ p" "\<lambda>_ _. True"
  by unfold_locales (auto simp: Buffer_Write_def)

interpretation bytes: byte_source bytes_ReadFull "\<lambda>s bs. \<exists>z. s = bs @ z"
  by unfold_locales (auto simp: bytes_ReadFull_def)

definition offset_emits ::
    "('h \<Rightarrow> byte list) \<Rightarrow> ('h \<Rightarrow> bool) \<Rightarrow> 'h OffsetIO \<Rightarrow> byte list \<Rightarrow> 'h OffsetIO \<Rightarrow> bool" where
  "offset_emits content ok w p v \<longleftrightarrow>
     ok (fst v) \<and> snd v = snd w + int (length p) \<and> content (fst v) = fwrite (content (fst w)) (nat (snd w)) p"

definition offset_room :: "('h \<Rightarrow> bool) \<Rightarrow> 'h OffsetIO \<Rightarrow> nat \<Rightarrow> bool" where
  "offset_room ok w n \<longleftrightarrow> ok (fst w) \<and> 0 \<le> snd w \<and> snd w + int n \<le> MaxInt64"

definition offset_holds :: "('h \<Rightarrow> byte list) \<Rightarrow> ('h \<Rightarrow> bool) \<Rightarrow> 'h OffsetIO \<Rightarrow> byte list \<Rightarrow> bool" where
  "offset_holds content ok s bs \<longleftrightarrow>
     ok (fst s) \<and> 0 \<le> snd s \<and> snd s + int (length bs) \<le> int (length (content (fst s))) \<and>
     fread (content (fst s)) (nat (snd s)) (length bs) = bs"

sublocale blob_handle \<subseteq> offset_writer: byte_sink "OffsetWriter_Write ops" "offset_emits content inv" "offset_room inv"
proof
  fix w n assume "offset_room inv w n"
  then show "offset_emits content inv w [] w" by (simp add: offset_emits_def offset_room_def)
next
  fix w v :: "'h OffsetIO" and p q :: "byte list"
  assume e: "offset_emits content inv w p v" and r: "offset_room inv w (length p + length q)"
  obtain h off where v: "v = (h, off)" by (cases v)
  have off: "0 \<le> off" "off + int (length q) \<le> MaxInt64" "nat off = nat (snd w) + length p"
    using e r v by (auto simp: offset_emits_def offset_room_def)
  obtain h' where h': "bh_PWrite ops q off h = (h', None)" "inv h'" "content h' = fwrite (content h) (nat off) q"
    using pwrite_content [of h off q] e v off by (auto simp: offset_emits_def)
  then have "offset_emits content inv w (p @ q) (h', off + int (length q))"
    using e v off by (simp add: offset_emits_def fwrite_fwrite_adjacent)
  then show "\<exists>v'. OffsetWriter_Write ops q v = (v', None) \<and> offset_emits content inv w (p @ q) v'"
    using v h'(1) by simp
next
  fix w v u :: "'h OffsetIO" and p q :: "byte list"
  assume "offset_emits content inv w p v" "offset_emits content inv v q u" "offset_room inv w (length p + length q)"
  moreover from this have "nat (snd v) = nat (snd w) + length p" by (auto simp: offset_emits_def offset_room_def)
  ultimately show "offset_emits content inv w (p @ q) u"
    by (simp add: offset_emits_def fwrite_fwrite_adjacent)
qed (auto simp: offset_room_def offset_emits_def)

sublocale blob_handle \<subseteq> offset_reader: byte_source "OffsetReader_Read ops" "offset_holds content inv"
proof
  fix s :: "'h OffsetIO" and a b :: "byte list"
  assume s: "offset_holds content inv s (a @ b)"
  obtain h off where so: "s = (h, off)" by (cases s)
  have o: "inv h" "0 \<le> off" "off + int (length a) + int (length b) \<le> int (length (content h))"
    "fread (content h) (nat off) (length a) @ fread (content h) (nat off + length a) (length b) = a @ b"
    using s so by (auto simp: offset_holds_def fread_split)
  then have ab: "fread (content h) (nat off) (length a) = a" "fread (content h) (nat off + length a) (length b) = b"
    by (subst (asm) append_eq_append_conv; simp)+
  have "bh_PRead ops h (length a) off = Inr a"
    using pread_content [of h off "length a"] o ab(1) by simp
  moreover have "offset_holds content inv (h, off + int (length a)) b"
    using o ab(2) by (simp add: offset_holds_def nat_add_distrib)
  ultimately show "\<exists>s'. OffsetReader_Read ops (length a) s = (Inr a, s') \<and> offset_holds content inv s' b"
    using so by simp
qed

subsection \<open>What decrypting consumes\<close>

definition frame_count :: "nat \<Rightarrow> nat" where
  "frame_count n = (n + BtnFrameMaxPayload - 1) div BtnFrameMaxPayload"

lemma frame_count_0 [simp]: "frame_count 0 = 0"
  by (simp add: frame_count_def)

lemma frame_count_step:
  assumes "0 < n" shows "frame_count n = Suc (frame_count (n - min n BtnFrameMaxPayload))"
proof (cases "n \<le> BtnFrameMaxPayload")
  case True
  then have "(n + BtnFrameMaxPayload - 1) div BtnFrameMaxPayload = 1"
    using assms by (intro div_nat_eqI) auto
  with True show ?thesis by (simp add: frame_count_def)
next
  case False
  have "n + BtnFrameMaxPayload - 1 = (n - BtnFrameMaxPayload + BtnFrameMaxPayload - 1) + BtnFrameMaxPayload"
    using False by simp
  then have "frame_count n = Suc (frame_count (n - BtnFrameMaxPayload))"
    unfolding frame_count_def by (metis Max_pos(2) div_add_self2 Suc_eq_plus1)
  with False show ?thesis by (simp add: min_def)
qed

text \<open>The other half of the contract of the cipher: opening removes the overhead.\<close>

definition open_len_ok :: "Cipher \<Rightarrow> bool" where
  "open_len_ok c \<longleftrightarrow> (\<forall>nonce ct p. gcm_Open c nonce ct = Inr p \<longrightarrow> length ct = length p + gcm_Overhead c)"

lemma decryptNextFrame_bytes:
  assumes "open_len_ok c" "decryptNextFrame c bytes_ReadFull bdr = (bdr', None)"
    and "bdr_lenTotal bdr - bdr_lenRead bdr = int n"
  shows "length (bdr_src bdr) = length (bdr_src bdr') + EncryptedFrameSize c (min n BtnFrameMaxPayload) \<and>
    length (bdr_unread bdr') = min n BtnFrameMaxPayload \<and>
    bdr_lenTotal bdr' = bdr_lenTotal bdr \<and> bdr_lenRead bdr' = bdr_lenRead bdr"
proof -
  define m where "m = EncryptedFrameSize c (min n BtnFrameMaxPayload)"
  have m: "EncryptedFrameSize c (min (nat (bdr_lenTotal bdr - bdr_lenRead bdr)) BtnFrameMaxPayload) = m"
    using assms(3) by (simp add: m_def)
  obtain dec where d: "m \<le> length (bdr_src bdr)" "DecryptFrame c decFrameBufCap (take m (bdr_src bdr)) = Inr dec"
    "bdr' = bdr\<lparr>bdr_src := drop m (bdr_src bdr), bdr_unread := dec\<rparr>"
    using assms(2) unfolding decryptNextFrame_def m Let_def
    by (auto simp: bytes_ReadFull_def split: if_splits sum.splits)
  from d(2) have "gcm_Open c (take (gcm_NonceSize c) (take m (bdr_src bdr))) (drop (gcm_NonceSize c) (take m (bdr_src bdr))) = Inr dec"
    by (auto simp: DecryptFrame_def split: if_splits)
  then have "length (drop (gcm_NonceSize c) (take m (bdr_src bdr))) = length dec + gcm_Overhead c"
    using assms(1) unfolding open_len_ok_def by blast
  then show ?thesis using d by (auto simp: m_def EncryptedFrameSize_def frameOverhead_def)
qed

lemma read_loop_bytes:
  assumes "open_len_ok c" "read_loop c bytes_ReadFull n bdr = ((bs, None), bdr')"
    and "bdr_lenTotal bdr - bdr_lenRead bdr = int n" "length (bdr_unread bdr) \<le> n"
  shows "n - length (bdr_unread bdr) + frame_count (n - length (bdr_unread bdr)) * frameOverhead c \<le> length (bdr_src bdr)"
  using assms(2-)
proof (induction n arbitrary: bdr bs rule: less_induct)
  case (less n)
  show ?case
  proof (cases "n = 0")
    case False
    then obtain bdr1 where one: "(if bdr_unread bdr = [] then decryptNextFrame c bytes_ReadFull bdr else (bdr, None)) = (bdr1, None)"
      "bdr_unread bdr1 \<noteq> []"
      using less(2) by (subst (asm) read_loop.simps) (auto split: prod.splits option.splits if_splits)
    have src: "length (bdr_unread bdr1) \<le> n" "bdr_lenTotal bdr1 - bdr_lenRead bdr1 = int n"
      "(if bdr_unread bdr = [] then EncryptedFrameSize c (length (bdr_unread bdr1)) else 0) + length (bdr_src bdr1) = length (bdr_src bdr)"
      "bdr_unread bdr = [] \<Longrightarrow> length (bdr_unread bdr1) = min n BtnFrameMaxPayload"
      "bdr_unread bdr \<noteq> [] \<Longrightarrow> bdr_unread bdr1 = bdr_unread bdr"
      using decryptNextFrame_bytes [OF assms(1) _ less(3), of bdr1] one(1) less(3,4) by (auto split: if_splits)
    define m where "m = length (bdr_unread bdr1)"
    define bdr2 where "bdr2 = bdr1\<lparr>bdr_unread := [], bdr_lenRead := bdr_lenRead bdr1 + int m\<rparr>"
    have m: "min m n = m" "0 < m" using src(1) one(2) by (auto simp: m_def)
    obtain bs2 where "read_loop c bytes_ReadFull (n - m) bdr2 = ((bs2, None), bdr')"
      using less(2) False one m(1) unfolding bdr2_def m_def
      by (subst (asm) read_loop.simps) (auto simp: Let_def split: prod.splits)
    with less(1) [of "n - m" bdr2] m src(1,2) False
    have "n - m + frame_count (n - m) * frameOverhead c \<le> length (bdr_src bdr1)"
      by (simp add: bdr2_def m_def)
    then show ?thesis
    proof (cases "bdr_unread bdr = []")
      case True
      then have "frame_count n = Suc (frame_count (n - m))" "m \<le> n" "m + frameOverhead c + length (bdr_src bdr1) = length (bdr_src bdr)"
        using src frame_count_step [of n] False by (auto simp: m_def EncryptedFrameSize_def)
      with \<open>n - m + frame_count (n - m) * frameOverhead c \<le> length (bdr_src bdr1)\<close> True show ?thesis by simp
    qed (use src in \<open>simp add: m_def\<close>)
  qed simp
qed

lemma Decrypt_consumes:
  assumes "open_len_ok c" "Decrypt c [] env (int n) = (Inr p, u)"
  shows "n + frame_count n * frameOverhead c \<le> length env"
proof (cases "n = 0")
  case False
  obtain bs e bdr1 where r: "Reader_Read c bytes_ReadFull n (NewReader [] env (int n)) = ((bs, e), bdr1)"
    by (metis prod.exhaust)
  then have l: "read_loop c bytes_ReadFull n (NewReader [] env (int n)) = ((bs, e), bdr1)"
    using False by (simp add: Reader_Read_def NewReader_def Let_def)
  show ?thesis
  proof (cases e)
    case None
    with read_loop_bytes [OF assms(1), of n "NewReader [] env (int n)" bs bdr1] l show ?thesis
      by (simp add: NewReader_def)
  next
    case (Some e')
    then have "length bs = n" using assms(2) r False
      by (auto simp: Decrypt_def Reader_ReadFull.simps [of c bytes_ReadFull n] split: if_splits)
    with Some read_loop_length [OF l] show ?thesis by simp
  qed
qed simp

section \<open>Properties\<close>

lemma Encrypt_frames:
  assumes "aead_ok c"
  shows "Encrypt c rnd k plain = Inr (frames c rnd k plain)"
proof -
  obtain bew where bew: "WriteCloser_Write c rnd Buffer_Write plain (NewWriteCloser [] (int (length plain)) k) = (bew, Inr (length plain))"
    "bew_has (\<lambda>w p v. v = w @ p) c rnd [] k plain bew" "bew_lenTotal bew = int (length plain)"
    using buffer.Write_emits [where c = c and rnd = rnd and w = "[]" and k = k and q = "[]" and p = plain and
        bew = "NewWriteCloser [] (int (length plain)) k", OF assms buffer.NewWriteCloser_has]
    by (auto simp: NewWriteCloser_def)
  then show ?thesis
    using buffer.Close_emits [OF assms bew(2)] by (auto simp: Encrypt_def)
qed

text \<open>
  C10. Decrypting what was encrypted with the same cipher, with the length of the plaintext, gives the
  plaintext back, whatever the random source delivered, for a plaintext of any length, and the
  reader goes back to the pool with nothing unread; the envelope is longer than the plaintext by
  one overhead per started 256 KiB.
\<close>

theorem Encrypt_Decrypt:
  assumes "aead_ok c"
  shows "\<exists>env. Encrypt c rnd k plain = Inr env \<and> Decrypt c [] env (int (length plain)) = (Inr plain, []) \<and>
    length env = length plain + (length plain + BtnFrameMaxPayload - 1) div BtnFrameMaxPayload * frameOverhead c"
proof -
  have "bdr_has (\<lambda>s bs. \<exists>z. s = bs @ z) c rnd plain [] (NewReader [] (frames c rnd k plain) (int (length plain)))"
    by (intro bytes.NewReader_has) auto
  from bytes.ReadFull_has [OF assms this, of "length plain"] have
    "Decrypt c [] (frames c rnd k plain) (int (length plain)) = (Inr plain, [])"
    by (auto simp: Decrypt_def bdr_has_def)
  then show ?thesis by (simp add: Encrypt_frames [OF assms] length_frames [OF assms])
qed

text \<open>A cipher that keeps the contract: the nonce is added to every byte, one tag byte is appended.\<close>

definition toy_cipher :: Cipher where
  "toy_cipher = \<lparr>gcm_NonceSize = 1, gcm_Overhead = 1,
     gcm_Seal = (\<lambda>nonce p. map (\<lambda>b. b + hd nonce) p @ [7]),
     gcm_Open = (\<lambda>nonce ct. if ct = [] then Inl (Fmt ''cipher: message authentication failed'')
        else if last ct = 7 then Inr (map (\<lambda>b. b - hd nonce) (butlast ct))
        else Inl (Fmt ''cipher: message authentication failed''))\<rparr>"

lemma toy_cipher_ok: "aead_ok toy_cipher"
  by (auto simp: aead_ok_def toy_cipher_def comp_def)

theorem Encrypt_Decrypt_witness:
  "\<exists>env. Encrypt toy_cipher (\<lambda>i. of_nat i) 5 [1, 2] = Inr env \<and> Decrypt toy_cipher [] env 2 = (Inr [1, 2], []) \<and>
     length env = 4"
proof -
  have "(2 + BtnFrameMaxPayload - 1) div BtnFrameMaxPayload = 1" "frameOverhead toy_cipher = 2"
    by (simp_all add: BtnFrameMaxPayload_def frameOverhead_def toy_cipher_def)
  then show ?thesis using Encrypt_Decrypt [OF toy_cipher_ok, of "\<lambda>i. of_nat i" 5 "[1, 2]"] by (simp add: numeral_eq_Suc)
qed

text \<open>
  C31. A reader that was closed before everything it had decrypted was read is handed out again with
  those bytes: the next \<open>Decrypt\<close> of at most that many bytes returns them, whatever envelope it
  was given, encrypted or not.
\<close>

theorem stale_plaintext_leaks:
  assumes "n \<le> length stale"
  shows "Decrypt c stale envelope (int n) = (Inr (take n stale), drop n stale)"
proof (cases "n = 0")
  case True
  then show ?thesis by (simp add: Decrypt_def NewReader_def Reader_ReadFull.simps)
next
  case False
  then have "read_loop c bytes_ReadFull n (NewReader stale envelope (int n)) =
      ((take n stale, None), (NewReader (drop n stale) envelope (int n))\<lparr>bdr_lenRead := int n\<rparr>)"
    using assms by (subst read_loop.simps) (auto simp: NewReader_def min_def read_loop.simps [of _ _ 0])
  with False assms show ?thesis
    by (simp add: Decrypt_def Reader_Read_def NewReader_def Let_def Reader_ReadFull.simps [of c bytes_ReadFull n]
        Reader_ReadFull.simps [of c bytes_ReadFull 0])
qed

theorem stale_plaintext_leaks_witness:
  "Decrypt toy_cipher [42, 43] [] 1 = (Inr [42], [43])"
  using stale_plaintext_leaks [of 1 "[42, 43]" toy_cipher "[]"] by simp

end
