(* ===== verification/Chunk_IO.thy ===== *)
theory Chunk_IO
  imports Btncrypt
begin

text \<open>
  Encrypted chunks (\<open>chunkstore/chunkheader.go\<close>, \<open>chunkstore/chunkstore.go\<close>): a blob is a header of
  4096 bytes followed by the payload in encrypted frames of at most 256 KiB. \<open>ChunkIO\<close> gives
  positioned reads and writes of the payload through a one-frame cache; \<open>ChunkReader\<close> and
  \<open>NewChunkWriter\<close> stream it.

  \<^item> gob leaves out the fields of a struct that are zero, and decoding into a struct leaves the
    fields that are absent as they are. A header is therefore sent as the list of its non-zero
    fields; the bytes of such a list are a parameter, \<open>header_gob\<close>, with the contract \<open>gob_ok\<close>.
  \<^item> \<open>ch_k\<close> is the position in the random source. Slices of pooled buffers are values here; the code
    never keeps a reference to a buffer it has put back.
  \<^item> A read that meets a short frame that is not marked as the last one makes no progress: \<open>Hang\<close>.

  The payload of a chunk is a byte list \<open>q\<close>; \<open>chunk_rep\<close> relates it to the state, and \<open>PRead\<close>,
  \<open>PWrite\<close> and \<open>Sync\<close> are shown to be the positioned read and write of \<open>q\<close> and to make it durable.
\<close>

section \<open>Chunk headers\<close>

definition ChunkSignatureMagic1 :: byte where "ChunkSignatureMagic1 = 0x05"
definition ChunkSignatureMagic2 :: byte where "ChunkSignatureMagic2 = 0xa6"
definition SignatureLength :: nat where "SignatureLength = 2"
definition ChunkHeaderLength :: nat where "ChunkHeaderLength = 4096"
definition MaxChunkPayloadLen :: int where "MaxChunkPayloadLen = MaxInt32"
definition MaxOrigFilenameLen :: nat where "MaxOrigFilenameLen = 1024"
definition CurrentFormat :: byte where "CurrentFormat = 0x03"
definition CurrentFrameEncapsulation :: byte where "CurrentFrameEncapsulation = 0x02"

record ChunkHeader =
  FrameEncapsulation :: byte
  PayloadLen :: nat
  PayloadVersion :: int
  OrigFilename :: string
  OrigOffset :: int

datatype header_field =
    FFrameEncapsulation byte | FPayloadLen nat | FPayloadVersion int | FOrigFilename string | FOrigOffset int

definition header_fields :: "ChunkHeader \<Rightarrow> header_field list" where
  "header_fields h =
     (if FrameEncapsulation h = 0 then [] else [FFrameEncapsulation (FrameEncapsulation h)]) @
     (if PayloadLen h = 0 then [] else [FPayloadLen (PayloadLen h)]) @
     (if PayloadVersion h = 0 then [] else [FPayloadVersion (PayloadVersion h)]) @
     (if OrigFilename h = [] then [] else [FOrigFilename (OrigFilename h)]) @
     (if OrigOffset h = 0 then [] else [FOrigOffset (OrigOffset h)])"

fun set_field :: "header_field \<Rightarrow> ChunkHeader \<Rightarrow> ChunkHeader" where
  "set_field (FFrameEncapsulation b) h = h\<lparr>FrameEncapsulation := b\<rparr>"
| "set_field (FPayloadLen n) h = h\<lparr>PayloadLen := n\<rparr>"
| "set_field (FPayloadVersion v) h = h\<lparr>PayloadVersion := v\<rparr>"
| "set_field (FOrigFilename s) h = h\<lparr>OrigFilename := s\<rparr>"
| "set_field (FOrigOffset x) h = h\<lparr>OrigOffset := x\<rparr>"

record header_gob =
  gob_Encode :: "header_field list \<Rightarrow> byte list"
  gob_Decode :: "byte list \<Rightarrow> (header_field list) result"

text \<open>\<open>filepath.Base\<close>.\<close>

definition filepath_Base :: "string \<Rightarrow> string" where
  "filepath_Base path =
     (if path = '''' then ''.''
      else
        (let trimmed = rev (dropWhile (\<lambda>x. x = CHR ''/'') (rev path)) in
         if trimmed = '''' then ''/'' else rev (takeWhile (\<lambda>x. x \<noteq> CHR ''/'') (rev trimmed))))"

definition header_framelen :: "Cipher \<Rightarrow> int" where
  "header_framelen c = int ChunkHeaderLength - int (frameOverhead c) - int SignatureLength - 1"

text \<open>What \<open>WriteTo\<close> does to its copy of the header before it writes it.\<close>

definition clip_header :: "ChunkHeader \<Rightarrow> ChunkHeader" where
  "clip_header h =
     (let h = h\<lparr>FrameEncapsulation := CurrentFrameEncapsulation\<rparr> in
      if length (OrigFilename h) > MaxOrigFilenameLen then
        (let base = filepath_Base (OrigFilename h) in
         h\<lparr>OrigFilename := if length base > MaxOrigFilenameLen then ''<filename_too_long>'' else base\<rparr>)
      else h)"

definition ChunkHeader_WriteTo ::
    "Cipher \<Rightarrow> header_gob \<Rightarrow> rand \<Rightarrow> nat \<Rightarrow> 'w Writer \<Rightarrow> ChunkHeader \<Rightarrow> 'w \<Rightarrow> 'w \<times> error option" where
  "ChunkHeader_WriteTo c gb rnd k wr h0 w0 =
     (if int (PayloadLen h0) > MaxChunkPayloadLen then (w0, Some (Fmt ''payload length too big''))
      else
        let h = clip_header h0 in
        case wr [ChunkSignatureMagic1, ChunkSignatureMagic2] w0 of
          (w1, Some e) \<Rightarrow> (w1, Some (errorf ''Failed to write signature magic'' e))
        | (w1, None) \<Rightarrow>
        (case wr [CurrentFormat] w1 of
          (w2, Some e) \<Rightarrow> (w2, Some (errorf ''Failed to write format byte'' e))
        | (w2, None) \<Rightarrow>
            let b = gob_Encode gb (header_fields h);
                framelen = header_framelen c;
                paddinglen = framelen - int (length b)
            in
            if paddinglen < 0 then (w2, Some (Panic ''SHOULD NOT BE REACHED: Marshaled ChunkHeader size too large''))
            else
              case WriteCloser_Write c rnd wr b (NewWriteCloser w2 framelen k) of
                (bew, Inl e) \<Rightarrow> (bew_dst bew, Some (errorf ''Failed to initialize frame encryptor'' e))
              | (bew, Inr _) \<Rightarrow>
              (case WriteCloser_Write c rnd wr (replicate (nat paddinglen) 0) bew of
                (bew, Inl e) \<Rightarrow> (bew_dst bew, Some (errorf ''Header frame zero padding write failed'' e))
              | (bew, Inr _) \<Rightarrow>
              (case WriteCloser_Close c rnd wr bew of
                (bew, Some e) \<Rightarrow> (bew_dst bew, Some (errorf ''Header frame close failed'' e))
              | (bew, None) \<Rightarrow> (bew_dst bew, None)))))"

text \<open>
  \<open>ReadFrom\<close> into the header \<open>h\<close>, with the pooled reader's \<open>unread\<close>. The result is the error or the
  new header, and the rest of the source.
\<close>

definition ChunkHeader_ReadFrom ::
    "Cipher \<Rightarrow> header_gob \<Rightarrow> byte list \<Rightarrow> 's Source \<Rightarrow> ChunkHeader \<Rightarrow> 's \<Rightarrow> ChunkHeader result \<times> 's" where
  "ChunkHeader_ReadFrom c gb pooled rd h s0 =
     (case rd (SignatureLength + 1) s0 of
        (Inl e, s1) \<Rightarrow> (Inl (if e = EOF then EOF else errorf ''Failed to read signature magic / format bytes'' e), s1)
      | (Inr magic, s1) \<Rightarrow>
          if magic ! 0 \<noteq> ChunkSignatureMagic1 \<or> magic ! 1 \<noteq> ChunkSignatureMagic2
          then (Inl (Fmt ''signature magic mismatch''), s1)
          else if magic ! 2 \<noteq> CurrentFormat then (Inl (Fmt ''Expected format version''), s1)
          else if header_framelen c < 0 then (Inl (Panic ''makeslice: len out of range''), s1)
          else
            case Reader_ReadFull c rd (nat (header_framelen c)) (NewReader pooled s1 (header_framelen c)) of
              (Inl e, bdr) \<Rightarrow> (Inl (errorf ''Failed to read header frame'' e), bdr_src bdr)
            | (Inr encoded, bdr) \<Rightarrow>
                if \<not> HasReadAll bdr then (Inl (Panic ''Incomplete read in prologue frame !?!?''), bdr_src bdr)
                else
                  case gob_Decode gb encoded of
                    Inl e \<Rightarrow> (Inl e, bdr_src bdr)
                  | Inr fs \<Rightarrow> (Inr (fold set_field fs h), bdr_src bdr))"

section \<open>Streaming a chunk\<close>

definition zero_header :: ChunkHeader where
  "zero_header = \<lparr>FrameEncapsulation = 0, PayloadLen = 0, PayloadVersion = 0, OrigFilename = '''', OrigOffset = 0\<rparr>"

text \<open>The version of a chunk; an empty blob has version 0.\<close>

definition QueryChunkVersion :: "Cipher \<Rightarrow> header_gob \<Rightarrow> byte list \<Rightarrow> 's Source \<Rightarrow> 's \<Rightarrow> int result" where
  "QueryChunkVersion c gb pooled rd s =
     (case fst (ChunkHeader_ReadFrom c gb pooled rd zero_header s) of
        Inl e \<Rightarrow> if e = EOF then Inr 0 else Inl e
      | Inr h \<Rightarrow> Inr (PayloadVersion h))"

definition NewChunkWriter ::
    "Cipher \<Rightarrow> header_gob \<Rightarrow> rand \<Rightarrow> nat \<Rightarrow> 'w Writer \<Rightarrow> ChunkHeader \<Rightarrow> 'w \<Rightarrow> 'w WriteCloser result" where
  "NewChunkWriter c gb rnd k wr h w =
     (case ChunkHeader_WriteTo c gb rnd k wr h w of
        (w', Some e) \<Rightarrow> Inl (errorf ''Failed to write header'' e)
      | (w', None) \<Rightarrow> Inr (NewWriteCloser w' (int (PayloadLen h)) (k + gcm_NonceSize c)))"

record 's ChunkReader =
  cr_header :: ChunkHeader
  cr_bdr :: "'s Reader"

definition NewChunkReader :: "Cipher \<Rightarrow> header_gob \<Rightarrow> byte list \<Rightarrow> 's Source \<Rightarrow> 's \<Rightarrow> 's ChunkReader result" where
  "NewChunkReader c gb pooled rd s =
     (case ChunkHeader_ReadFrom c gb pooled rd zero_header s of
        (Inl e, _) \<Rightarrow> Inl (errorf ''Failed to read header'' e)
      | (Inr h, s') \<Rightarrow> Inr \<lparr>cr_header = h, cr_bdr = NewReader pooled s' (int (PayloadLen h))\<rparr>)"

definition ChunkReader_Length :: "'s ChunkReader \<Rightarrow> int" where
  "ChunkReader_Length cr = int (PayloadLen (cr_header cr))"

definition ChunkReader_Read ::
    "Cipher \<Rightarrow> 's Source \<Rightarrow> nat \<Rightarrow> 's ChunkReader \<Rightarrow> (byte list \<times> error option) \<times> 's ChunkReader" where
  "ChunkReader_Read c rd n cr =
     (case Reader_Read c rd n (cr_bdr cr) of (r, bdr) \<Rightarrow> (r, cr\<lparr>cr_bdr := bdr\<rparr>))"

section \<open>ChunkIO\<close>

definition ContentFramePayloadLength :: nat where
  "ContentFramePayloadLength = BtnFrameMaxPayload"

record decryptedContentFrame =
  cf_Index :: nat
  cf_P :: "byte list"
  cf_Offset :: nat
  cf_IsLastFrame :: bool

text \<open>What a \<open>ChunkIO\<close> works with: the operations of its blob handle, the cipher, the gob codec, the
  random source and the \<open>unread\<close> field of the pooled reader.\<close>

record 'h chunk_env =
  ce_ops :: "'h BlobHandle"
  ce_c :: Cipher
  ce_gob :: header_gob
  ce_rnd :: rand
  ce_pooled :: "byte list"

record 'h ChunkIO =
  ch_bh :: 'h
  ch_didReadHeader :: bool
  ch_header :: ChunkHeader
  ch_needsHeaderUpdate :: bool
  ch_cachedFrame :: "decryptedContentFrame option"
  ch_k :: nat

definition NewChunkIO :: "'h \<Rightarrow> 'h ChunkIO" where
  "NewChunkIO bh =
     \<lparr>ch_bh = bh, ch_didReadHeader = False,
      ch_header = \<lparr>FrameEncapsulation = 0, PayloadLen = 0, PayloadVersion = 1,
        OrigFilename = ''<unknown>'', OrigOffset = - 1\<rparr>,
      ch_needsHeaderUpdate = False, ch_cachedFrame = None, ch_k = 0\<rparr>"

definition NewChunkIOWithMetadata :: "'h \<Rightarrow> ChunkHeader \<Rightarrow> 'h ChunkIO" where
  "NewChunkIOWithMetadata bh h = (NewChunkIO bh)\<lparr>ch_header := h\<lparr>PayloadVersion := 1\<rparr>\<rparr>"

definition ensureHeader :: "'h chunk_env \<Rightarrow> 'h ChunkIO \<Rightarrow> 'h ChunkIO \<times> error option" where
  "ensureHeader env ch =
     (if ch_didReadHeader ch then (ch, None)
      else if bh_Size (ce_ops env) (ch_bh ch) = 0 then (ch\<lparr>ch_didReadHeader := True\<rparr>, None)
      else
        case ChunkHeader_ReadFrom (ce_c env) (ce_gob env) (ce_pooled env)
               (OffsetReader_Read (ce_ops env)) (ch_header ch) (ch_bh ch, 0) of
          (Inl e, _) \<Rightarrow> (ch, Some (errorf ''Failed to read header'' e))
        | (Inr h, _) \<Rightarrow> (ch\<lparr>ch_header := h, ch_didReadHeader := True\<rparr>, None))"

text \<open>\<open>PayloadLen\<close> logs an error of \<open>ensureHeader\<close> and returns 0.\<close>

definition ChunkIO_PayloadLen :: "'h chunk_env \<Rightarrow> 'h ChunkIO \<Rightarrow> 'h ChunkIO \<times> nat" where
  "ChunkIO_PayloadLen env ch =
     (case ensureHeader env ch of
        (ch', Some e) \<Rightarrow> (ch', 0)
      | (ch', None) \<Rightarrow> (ch', PayloadLen (ch_header ch')))"

definition ChunkIO_Header :: "'h chunk_env \<Rightarrow> 'h ChunkIO \<Rightarrow> 'h ChunkIO \<times> ChunkHeader" where
  "ChunkIO_Header env ch = (case ensureHeader env ch of (ch', _) \<Rightarrow> (ch', ch_header ch'))"

definition ChunkIO_Size :: "'h chunk_env \<Rightarrow> 'h ChunkIO \<Rightarrow> 'h ChunkIO \<times> int" where
  "ChunkIO_Size env ch = (case ChunkIO_PayloadLen env ch of (ch', n) \<Rightarrow> (ch', int n))"

definition ChunkIO_Truncate :: "int \<Rightarrow> 'h ChunkIO \<Rightarrow> 'h ChunkIO \<times> error option" where
  "ChunkIO_Truncate sz ch = (ch, Some (Fmt ''FIXME: implement ChunkIO.Truncate!''))"

definition expandLengthBy :: "'h chunk_env \<Rightarrow> int \<Rightarrow> 'h ChunkIO \<Rightarrow> 'h ChunkIO \<times> error option" where
  "expandLengthBy env by ch =
     (if by < 0 then (ch, Some (Panic ''Tried to expand by negative length''))
      else if by = 0 then (ch, None)
      else
        case ChunkIO_PayloadLen env ch of
          (ch1, len64) \<Rightarrow>
            if int len64 + by > MaxChunkPayloadLen then (ch1, Some (Fmt ''Payload length out of range''))
            else
              (ch1\<lparr>ch_header := (ch_header ch1)\<lparr>PayloadLen := nat ((int len64 + by) mod 2 ^ 32)\<rparr>,
                   ch_needsHeaderUpdate := True\<rparr>, None))"

definition encryptedFrameOffset :: "'h chunk_env \<Rightarrow> nat \<Rightarrow> nat" where
  "encryptedFrameOffset env i =
     ChunkHeaderLength + EncryptedFrameSize (ce_c env) ContentFramePayloadLength * i"

definition readContentFrame :: "'h chunk_env \<Rightarrow> nat \<Rightarrow> 'h ChunkIO \<Rightarrow> 'h ChunkIO \<times> decryptedContentFrame result" where
  "readContentFrame env i ch =
     (case ChunkIO_PayloadLen env ch of
        (ch1, payloadLen) \<Rightarrow>
          let offset = i * ContentFramePayloadLength;
              distToLast = int payloadLen - int offset;
              isLastFrame = (distToLast \<le> int ContentFramePayloadLength);
              framePayloadLen = (if isLastFrame then distToLast else int ContentFramePayloadLength);
              encLen = framePayloadLen + int (frameOverhead (ce_c env))
          in
          if encLen < 0 then (ch1, Inl (Panic ''slice bounds out of range''))
          else
            case bh_PRead (ce_ops env) (ch_bh ch1) (nat encLen) (int (encryptedFrameOffset env i)) of
              Inl e \<Rightarrow> (ch1, Inl (errorf ''Failed to read encrypted frame'' e))
            | Inr enc \<Rightarrow>
                (case DecryptFrame (ce_c env) decFrameBufCap enc of
                   Inl e \<Rightarrow> (ch1, Inl (errorf ''Failed to decrypt frame'' e))
                 | Inr dec \<Rightarrow>
                     (let f = \<lparr>cf_Index = i, cf_P = dec, cf_Offset = offset, cf_IsLastFrame = isLastFrame\<rparr>
                      in (ch1\<lparr>ch_cachedFrame := Some f\<rparr>, Inr f))))"

definition readCachedContentFrame ::
    "'h chunk_env \<Rightarrow> nat \<Rightarrow> 'h ChunkIO \<Rightarrow> 'h ChunkIO \<times> decryptedContentFrame result" where
  "readCachedContentFrame env i ch =
     (case ch_cachedFrame ch of
        Some f \<Rightarrow> if cf_Index f = i then (ch, Inr f) else readContentFrame env i ch
      | None \<Rightarrow> readContentFrame env i ch)"

definition writeContentFrame :: "'h chunk_env \<Rightarrow> nat \<Rightarrow> byte list \<Rightarrow> 'h ChunkIO \<Rightarrow> 'h ChunkIO \<times> error option" where
  "writeContentFrame env i p ch =
     (let ch1 = ch\<lparr>ch_cachedFrame := None\<rparr> in
      case EncryptFrame (ce_c env) (encFrameBufCap (ce_c env)) (ce_rnd env) (ch_k ch1) p of
        Inl e \<Rightarrow> (ch1, Some e)
      | Inr enc \<Rightarrow>
          (let ch2 = ch1\<lparr>ch_k := ch_k ch1 + gcm_NonceSize (ce_c env)\<rparr> in
           case bh_PWrite (ce_ops env) enc (int (encryptedFrameOffset env i)) (ch_bh ch2) of
             (h, Some e) \<Rightarrow> (ch2\<lparr>ch_bh := h\<rparr>, Some (errorf ''Failed to write encrypted frame'' e))
           | (h, None) \<Rightarrow>
               (ch2\<lparr>ch_bh := h,
                    ch_header := (ch_header ch2)\<lparr>PayloadVersion := wrap64 (PayloadVersion (ch_header ch2) + 1)\<rparr>,
                    ch_needsHeaderUpdate := True\<rparr>, None)))"

text \<open>The loop of \<open>PRead\<close> with \<open>n\<close> bytes of the buffer left.\<close>

function pread_loop :: "'h chunk_env \<Rightarrow> nat \<Rightarrow> nat \<Rightarrow> 'h ChunkIO \<Rightarrow> 'h ChunkIO \<times> (byte list) result" where
  "pread_loop env remo n ch =
     (if n = 0 then (ch, Inr [])
      else
        case readCachedContentFrame env (remo div ContentFramePayloadLength) ch of
          (ch1, Inl e) \<Rightarrow> (ch1, Inl e)
        | (ch1, Inr f) \<Rightarrow>
            let inframeOffset = int remo - int (cf_Offset f);
                valid = int (length (cf_P f)) - inframeOffset;
                m = min (int n) valid
            in
            if inframeOffset < 0 then (ch1, Inl (Panic ''ASSERT: inframeOffset must be non-negative here''))
            else if int n > valid \<and> cf_IsLastFrame f then (ch1, Inl (Fmt ''Attempted to read beyond written size''))
            else if m < 0 then (ch1, Inl (Panic ''slice bounds out of range''))
            else if m = 0 then (ch1, Inl Hang)
            else
              case pread_loop env (remo + nat m) (n - nat m) ch1 of
                (ch2, Inl e) \<Rightarrow> (ch2, Inl e)
              | (ch2, Inr bs) \<Rightarrow> (ch2, Inr (take (nat m) (drop (nat inframeOffset) (cf_P f)) @ bs)))"
  by pat_completeness auto
termination
  by (relation "measure (\<lambda>(env, remo, n, ch). n)") auto

declare pread_loop.simps [simp del]

definition ChunkIO_PRead :: "'h chunk_env \<Rightarrow> nat \<Rightarrow> int \<Rightarrow> 'h ChunkIO \<Rightarrow> 'h ChunkIO \<times> (byte list) result" where
  "ChunkIO_PRead env n offset ch =
     (case ensureHeader env ch of
        (ch1, Some e) \<Rightarrow> (ch1, Inl e)
      | (ch1, None) \<Rightarrow>
          if offset < 0 \<or> MaxInt32 < offset then (ch1, Inl (Fmt ''Offset out of int32 range''))
          else pread_loop env (nat offset) n ch1)"

text \<open>The loop of \<open>PWrite\<close> that fills the gap up to the offset with zeros.\<close>

function zero_fill :: "'h chunk_env \<Rightarrow> nat \<Rightarrow> nat \<Rightarrow> 'h ChunkIO \<Rightarrow> 'h ChunkIO \<times> error option" where
  "zero_fill env zfoff zflen ch =
     (if zflen = 0 then (ch, None)
      else
        let i = zfoff div ContentFramePayloadLength;
            fOffset = i * ContentFramePayloadLength;
            inframeOffset = zfoff - fOffset
        in
        case ChunkIO_PayloadLen env ch of
          (ch0, payloadLen) \<Rightarrow>
            if zfoff = payloadLen \<and> inframeOffset = 0 then
              (let n = min zflen ContentFramePayloadLength;
                   ch1 = fst (expandLengthBy env (int n) ch0)
               in case writeContentFrame env i (replicate n 0) ch1 of
                    (ch2, Some e) \<Rightarrow> (ch2, Some (errorf ''failed to write zero fill frame'' e))
                  | (ch2, None) \<Rightarrow> zero_fill env (zfoff + n) (zflen - n) ch2)
            else
              (let n = min zflen (ContentFramePayloadLength - inframeOffset) in
               case readCachedContentFrame env i ch0 of
                 (ch1, Inl e) \<Rightarrow> (ch1, Some e)
               | (ch1, Inr f) \<Rightarrow>
                   if fOffset \<noteq> cf_Offset f then (ch1, Some (Panic ''fOffset != f.Offset''))
                   else if length (cf_P f) < inframeOffset then (ch1, Some (Panic ''slice bounds out of range''))
                   else
                     (let ch2 = fst (expandLengthBy env (int n) ch1) in
                      case writeContentFrame env i (take inframeOffset (cf_P f) @ replicate n 0) ch2 of
                        (ch3, Some e) \<Rightarrow> (ch3, Some (errorf ''failed to write back the encrypted frame'' e))
                      | (ch3, None) \<Rightarrow> zero_fill env (zfoff + n) (zflen - n) ch3)))"
  by pat_completeness auto
termination
proof (relation "measure (\<lambda>(env, zfoff, zflen, ch). zflen)", goal_cases)
  case (3 env zfoff zflen ch i fOffset inframeOffset)
  have "zfoff - zfoff div ContentFramePayloadLength * ContentFramePayloadLength < ContentFramePayloadLength"
    by (simp add: minus_div_mult_eq_mod ContentFramePayloadLength_def)
  with 3 show ?case by auto
qed (auto simp: ContentFramePayloadLength_def)

declare zero_fill.simps [simp del]

text \<open>The frame an iteration of the main loop of \<open>PWrite\<close> works on, and whether it is the cached one.\<close>

definition frame_to_write ::
    "'h chunk_env \<Rightarrow> nat \<Rightarrow> 'h ChunkIO \<Rightarrow> 'h ChunkIO \<times> decryptedContentFrame result" where
  "frame_to_write env remo ch =
     (let i = remo div ContentFramePayloadLength;
          fOffset = i * ContentFramePayloadLength
      in case ChunkIO_PayloadLen env ch of
           (ch0, payloadLen) \<Rightarrow>
             if remo = payloadLen \<and> fOffset = remo
             then (ch0, Inr \<lparr>cf_Index = 0, cf_P = [], cf_Offset = fOffset, cf_IsLastFrame = True\<rparr>)
             else
               case readCachedContentFrame env i ch0 of
                 (ch1, Inl e) \<Rightarrow> (ch1, Inl e)
               | (ch1, Inr f) \<Rightarrow> if fOffset \<noteq> cf_Offset f then (ch1, Inl (Panic ''fOffset != f.Offset'')) else (ch1, Inr f))"

text \<open>
  Expanding the last frame: the new payload and the number of bytes that can be written. The bytes
  the reslicing uncovers are the old contents of the buffer; they are written as zeros here, since
  the copy that follows overwrites all of them. The frame that was read is the cached one, so that
  clearing \<open>IsLastFrame\<close> shows in the cache when the expansion fails.
\<close>

definition expand_frame ::
    "'h chunk_env \<Rightarrow> decryptedContentFrame \<Rightarrow> int \<Rightarrow> nat \<Rightarrow> 'h ChunkIO \<Rightarrow> 'h ChunkIO \<times> (byte list \<times> int) result" where
  "expand_frame env f inframeOffset n ch =
     (let valid = int (length (cf_P f)) - inframeOffset in
      if int n > valid \<and> cf_IsLastFrame f then
        (let wanted = inframeOffset + int n;
             newSize = min wanted (int ContentFramePayloadLength);
             ch1 = (if wanted > int ContentFramePayloadLength
                    then ch\<lparr>ch_cachedFrame := map_option (\<lambda>g. g\<lparr>cf_IsLastFrame := False\<rparr>) (ch_cachedFrame ch)\<rparr>
                    else ch)
         in case expandLengthBy env (newSize - int (length (cf_P f))) (if ch_cachedFrame ch = Some f then ch1 else ch) of
              (ch2, Some e) \<Rightarrow> (ch2, Inl e)
            | (ch2, None) \<Rightarrow>
                (ch2, Inr (cf_P f @ replicate (nat newSize - length (cf_P f)) 0, newSize - inframeOffset)))
      else (ch, Inr (cf_P f, valid)))"

function pwrite_loop :: "'h chunk_env \<Rightarrow> nat \<Rightarrow> byte list \<Rightarrow> 'h ChunkIO \<Rightarrow> 'h ChunkIO \<times> error option" where
  "pwrite_loop env remo remp ch =
     (if remp = [] then (ch, None)
      else
        case frame_to_write env remo ch of
          (ch1, Inl e) \<Rightarrow> (ch1, Some e)
        | (ch1, Inr f) \<Rightarrow>
            let inframeOffset = int remo - int (cf_Offset f) in
            if inframeOffset < 0 then (ch1, Some (Panic ''ASSERT: inframeOffset must be non-negative here''))
            else
              case expand_frame env f inframeOffset (length remp) ch1 of
                (ch2, Inl e) \<Rightarrow> (ch2, Some e)
              | (ch2, Inr (p, valid)) \<Rightarrow>
                  let n = min (int (length remp)) valid in
                  if valid = 0 then (ch2, Some (Panic ''Inf loop''))
                  else if n < 0 then (ch2, Some (Panic ''slice bounds out of range''))
                  else
                    case writeContentFrame env (remo div ContentFramePayloadLength)
                           (go_copy p (nat inframeOffset) (nat inframeOffset + nat n) remp) ch2 of
                      (ch3, Some e) \<Rightarrow> (ch3, Some (errorf ''failed to write back the encrypted frame'' e))
                    | (ch3, None) \<Rightarrow> pwrite_loop env (remo + nat n) (drop (nat n) remp) ch3)"
  by pat_completeness auto
termination
  by (relation "measure (\<lambda>(env, remo, remp, ch). length remp)") auto

declare pwrite_loop.simps [simp del]

definition ChunkIO_PWrite :: "'h chunk_env \<Rightarrow> byte list \<Rightarrow> int \<Rightarrow> 'h ChunkIO \<Rightarrow> 'h ChunkIO \<times> error option" where
  "ChunkIO_PWrite env p offset ch =
     (case ensureHeader env ch of
        (ch1, Some e) \<Rightarrow> (ch1, Some e)
      | (ch1, None) \<Rightarrow>
          if p = [] then (ch1, None)
          else if offset < 0 \<or> MaxInt32 < offset then (ch1, Some (Fmt ''Offset out of range''))
          else
            case ChunkIO_PayloadLen env ch1 of
              (ch2, payloadLen) \<Rightarrow>
                case (if nat offset > payloadLen then zero_fill env payloadLen (nat offset - payloadLen) ch2
                      else (ch2, None)) of
                  (ch3, Some e) \<Rightarrow> (ch3, Some e)
                | (ch3, None) \<Rightarrow> pwrite_loop env (nat offset) p ch3)"

definition ChunkIO_Sync :: "'h chunk_env \<Rightarrow> 'h ChunkIO \<Rightarrow> 'h ChunkIO \<times> error option" where
  "ChunkIO_Sync env ch =
     (if ch_needsHeaderUpdate ch then
        (case ChunkHeader_WriteTo (ce_c env) (ce_gob env) (ce_rnd env) (ch_k ch)
                (OffsetWriter_Write (ce_ops env)) (ch_header ch) (ch_bh ch, 0) of
           ((h, _), Some e) \<Rightarrow> (ch\<lparr>ch_bh := h\<rparr>, Some (errorf ''Header write failed'' e))
         | ((h, _), None) \<Rightarrow>
             (ch\<lparr>ch_bh := h, ch_k := ch_k ch + gcm_NonceSize (ce_c env), ch_needsHeaderUpdate := False\<rparr>, None))
      else (ch, None))"

definition ChunkIO_Close :: "'h chunk_env \<Rightarrow> 'h ChunkIO \<Rightarrow> 'h ChunkIO \<times> error option" where
  "ChunkIO_Close env ch = ChunkIO_Sync env ch"

end
