(* ===== verification/Chunk_Payload.thy ===== *)
theory Chunk_Payload
  imports Chunk_IO File_Blobstore
begin

text \<open>
  What the chunk operations do to the payload. \<open>chunk_blob\<close> says that the bytes of a blob store a
  payload, \<open>chunk_rep\<close> that a \<open>ChunkIO\<close> represents it (its frames are in the blob, the cached frame is
  current, and the header is in the blob unless an update is pending), \<open>chunk_state\<close> adds the
  \<open>ChunkIO\<close> that has not read its header yet. Inside the locale \<open>blob_handle\<close> it is shown that
  \<open>PRead\<close>, \<open>PWrite\<close>, \<open>Size\<close>, \<open>Sync\<close> and \<open>Close\<close> keep the relation and act on the payload as on an
  ideal file. A \<open>gob\<close> codec and a cipher that keep the contracts are given at the end.
\<close>

section \<open>The payload of a chunk\<close>

definition frame_at :: "nat \<Rightarrow> byte list \<Rightarrow> byte list" where
  "frame_at i q = piece ContentFramePayloadLength i q"

definition stored_frame :: "'h chunk_env \<Rightarrow> byte list \<Rightarrow> nat \<Rightarrow> byte list \<Rightarrow> bool" where
  "stored_frame env bytes i p \<longleftrightarrow>
     (\<exists>k. fread bytes (encryptedFrameOffset env i) (EncryptedFrameSize (ce_c env) (length p)) =
        seal_frame (ce_c env) (ce_rnd env) k p)"

definition stored_frames :: "'h chunk_env \<Rightarrow> byte list \<Rightarrow> byte list \<Rightarrow> bool" where
  "stored_frames env bytes q \<longleftrightarrow>
     (\<forall>i. i * ContentFramePayloadLength < length q \<longrightarrow> stored_frame env bytes i (frame_at i q))"

definition header_payload :: "Cipher \<Rightarrow> header_gob \<Rightarrow> ChunkHeader \<Rightarrow> byte list" where
  "header_payload c gb h =
     (let b = gob_Encode gb (header_fields (clip_header h)) in b @ replicate (nat (header_framelen c) - length b) 0)"

definition header_bytes :: "Cipher \<Rightarrow> header_gob \<Rightarrow> rand \<Rightarrow> nat \<Rightarrow> ChunkHeader \<Rightarrow> byte list" where
  "header_bytes c gb rnd k h =
     [ChunkSignatureMagic1, ChunkSignatureMagic2, CurrentFormat] @ seal_frame c rnd k (header_payload c gb h)"

text \<open>The values the fields of a header can take in Go.\<close>

definition header_range :: "ChunkHeader \<Rightarrow> bool" where
  "header_range h \<longleftrightarrow> PayloadLen h < 2 ^ 32 \<and> - (2 ^ 63) \<le> PayloadVersion h \<and> PayloadVersion h \<le> MaxInt64 \<and>
     - (2 ^ 63) \<le> OrigOffset h \<and> OrigOffset h \<le> MaxInt64"

text \<open>A blob that stores the payload \<open>q\<close>: nothing at all for the empty payload, or a header and frames.\<close>

definition chunk_blob :: "'h chunk_env \<Rightarrow> byte list \<Rightarrow> byte list \<Rightarrow> bool" where
  "chunk_blob env bytes q \<longleftrightarrow>
     stored_frames env bytes q \<and> int (length q) \<le> MaxInt32 \<and>
     (bytes = [] \<and> q = [] \<or>
      (\<exists>k h. fread bytes 0 ChunkHeaderLength = header_bytes (ce_c env) (ce_gob env) (ce_rnd env) k h \<and>
         PayloadLen h = length q \<and> header_range h))"

text \<open>The frame of index \<open>i\<close> as the cache holds it.\<close>

definition frame_rec :: "nat \<Rightarrow> byte list \<Rightarrow> decryptedContentFrame" where
  "frame_rec i q =
     \<lparr>cf_Index = i, cf_P = frame_at i q, cf_Offset = i * ContentFramePayloadLength,
      cf_IsLastFrame = (length q \<le> i * ContentFramePayloadLength + ContentFramePayloadLength)\<rparr>"

definition chunk_rep :: "'h chunk_env \<Rightarrow> ('h \<Rightarrow> byte list) \<Rightarrow> ('h \<Rightarrow> bool) \<Rightarrow> byte list \<Rightarrow> 'h ChunkIO \<Rightarrow> bool" where
  "chunk_rep env content ok q ch \<longleftrightarrow>
     ok (ch_bh ch) \<and> ch_didReadHeader ch \<and> PayloadLen (ch_header ch) = length q \<and> int (length q) \<le> MaxInt32 \<and>
     stored_frames env (content (ch_bh ch)) q \<and>
     (\<forall>f. ch_cachedFrame ch = Some f \<longrightarrow> f = frame_rec (cf_Index f) q) \<and>
     (\<not> ch_needsHeaderUpdate ch \<longrightarrow> chunk_blob env (content (ch_bh ch)) q) \<and> header_range (ch_header ch)"

text \<open>The contract of the gob codec on headers, and of the environment of a \<open>ChunkIO\<close>.\<close>

definition gob_ok :: "Cipher \<Rightarrow> header_gob \<Rightarrow> bool" where
  "gob_ok c gb \<longleftrightarrow> 0 < header_framelen c \<and>
     (\<forall>h. header_range h \<and> length (OrigFilename h) \<le> MaxOrigFilenameLen \<longrightarrow>
        int (length (gob_Encode gb (header_fields h))) \<le> header_framelen c \<and>
        (\<forall>n. gob_Decode gb (gob_Encode gb (header_fields h) @ replicate n 0) = Inr (header_fields h)))"

definition chunk_env_ok :: "'h BlobHandle \<Rightarrow> 'h chunk_env \<Rightarrow> bool" where
  "chunk_env_ok ops env \<longleftrightarrow>
     ce_ops env = ops \<and> aead_ok (ce_c env) \<and> gob_ok (ce_c env) (ce_gob env) \<and> ce_pooled env = []"

lemma CFPL_pos [simp]: "0 < ContentFramePayloadLength" "ContentFramePayloadLength \<noteq> 0"
  by (simp_all add: ContentFramePayloadLength_def)

lemma length_frame_at: "length (frame_at i q) = min ContentFramePayloadLength (length q - i * ContentFramePayloadLength)"
  by (simp add: frame_at_def length_piece)

lemma nth_frame_at: "j < length (frame_at i q) \<Longrightarrow> frame_at i q ! j = q ! (i * ContentFramePayloadLength + j)"
  by (simp add: frame_at_def nth_piece)

lemma frame_at_empty: "length q \<le> i * ContentFramePayloadLength \<Longrightarrow> frame_at i q = []"
  by (simp add: frame_at_def piece_def)

lemma frame_at_fwrite:
  "i * ContentFramePayloadLength + k \<le> length q \<Longrightarrow> k + length p \<le> ContentFramePayloadLength \<Longrightarrow> p \<noteq> [] \<Longrightarrow>
   frame_at j (fwrite q (i * ContentFramePayloadLength + k) p) = (if j = i then fwrite (frame_at i q) k p else frame_at j q)"
  unfolding frame_at_def by (intro piece_fwrite) auto

lemma div_split:
  obtains k where "n = n div ContentFramePayloadLength * ContentFramePayloadLength + k" "k < ContentFramePayloadLength"
  by (metis CFPL_pos(1) div_mult_mod_eq mod_less_divisor)

text \<open>Where the frames lie in the blob.\<close>

lemma frame_offset_less:
  "j < i \<Longrightarrow> n \<le> ContentFramePayloadLength \<Longrightarrow>
   encryptedFrameOffset env j + EncryptedFrameSize (ce_c env) n \<le> encryptedFrameOffset env i"
proof -
  assume j: "j < i" and n: "n \<le> ContentFramePayloadLength"
  have "EncryptedFrameSize (ce_c env) ContentFramePayloadLength * Suc j \<le> EncryptedFrameSize (ce_c env) ContentFramePayloadLength * i"
    using j by (intro mult_le_mono2) simp
  with n show ?thesis by (simp add: encryptedFrameOffset_def EncryptedFrameSize_def algebra_simps)
qed

lemma stored_frameD:
  assumes "stored_frame env bytes i p" "aead_ok (ce_c env)" "0 < EncryptedFrameSize (ce_c env) (length p)"
  shows "encryptedFrameOffset env i + EncryptedFrameSize (ce_c env) (length p) \<le> length bytes"
proof -
  obtain k where "fread bytes (encryptedFrameOffset env i) (EncryptedFrameSize (ce_c env) (length p)) = seal_frame (ce_c env) (ce_rnd env) k p"
    using assms(1) by (auto simp: stored_frame_def)
  from arg_cong [OF this, of length] assms(2,3) show ?thesis by auto
qed

text \<open>Writing a frame leaves the others as they are.\<close>

lemma stored_frame_other:
  assumes "stored_frame env bytes j p" "aead_ok (ce_c env)" "j \<noteq> i" "p \<noteq> []"
    and "length p \<le> ContentFramePayloadLength" "length p' \<le> ContentFramePayloadLength"
    and "length enc = EncryptedFrameSize (ce_c env) (length p')"
  shows "stored_frame env (fwrite bytes (encryptedFrameOffset env i) enc) j p"
proof -
  have "0 < EncryptedFrameSize (ce_c env) (length p)" using assms(4) by (simp add: EncryptedFrameSize_def)
  note len = stored_frameD [OF assms(1,2) this]
  have "fread (fwrite bytes (encryptedFrameOffset env i) enc) (encryptedFrameOffset env j) (EncryptedFrameSize (ce_c env) (length p)) =
      fread bytes (encryptedFrameOffset env j) (EncryptedFrameSize (ce_c env) (length p))"
  proof (cases "j < i")
    case True
    with frame_offset_less [OF True assms(5), of env] len show ?thesis by (intro fread_fwrite_before) auto
  next
    case False
    with assms(3) have "i < j" by simp
    from frame_offset_less [OF this assms(6), of env] assms(7) show ?thesis by (intro fread_fwrite_after) auto
  qed
  with assms(1) show ?thesis by (simp add: stored_frame_def)
qed

lemma stored_frame_same:
  assumes "aead_ok (ce_c env)" "enc = seal_frame (ce_c env) (ce_rnd env) k p"
  shows "stored_frame env (fwrite bytes (encryptedFrameOffset env i) enc) i p"
  using assms fread_fwrite_same [of bytes "encryptedFrameOffset env i" enc] by (auto simp: stored_frame_def)

lemma stored_frames_write:
  assumes "aead_ok (ce_c env)" "stored_frames env bytes q" "i * ContentFramePayloadLength + k \<le> length q"
    and "k + length p \<le> ContentFramePayloadLength" "p \<noteq> []" "q' = fwrite q (i * ContentFramePayloadLength + k) p"
    and "enc = seal_frame (ce_c env) (ce_rnd env) kk (frame_at i q')"
  shows "stored_frames env (fwrite bytes (encryptedFrameOffset env i) enc) q'"
  unfolding stored_frames_def
proof (intro allI impI)
  fix j assume j: "j * ContentFramePayloadLength < length q'"
  show "stored_frame env (fwrite bytes (encryptedFrameOffset env i) enc) j (frame_at j q')"
  proof (cases "j = i")
    case True
    with stored_frame_same [OF assms(1,7)] show ?thesis by simp
  next
    case False
    have same: "frame_at j q' = frame_at j q" using frame_at_fwrite [OF assms(3-5), of j] False assms(6) by simp
    have "frame_at j q' \<noteq> []" using j length_frame_at [of j q'] by (metis CFPL_pos(1) length_greater_0_conv min_less_iff_conj zero_less_diff)
    then have "frame_at j q \<noteq> []" "j * ContentFramePayloadLength < length q"
      using same length_frame_at [of j q] by (auto simp flip: length_greater_0_conv)
    with assms(2) have "stored_frame env bytes j (frame_at j q)" by (simp add: stored_frames_def)
    then show ?thesis
      unfolding same
      by (rule stored_frame_other [where p' = "frame_at i q'"])
        (use assms(1,7) False \<open>frame_at j q \<noteq> []\<close> in \<open>auto simp: length_frame_at\<close>)
  qed
qed

text \<open>The length of the header frame bounds the overhead, and with it the offsets in a blob.\<close>

lemma gob_ok_framelen: "gob_ok c gb \<Longrightarrow> 0 < header_framelen c"
  by (simp add: gob_ok_def)

lemma overhead_le: "chunk_env_ok ops env \<Longrightarrow> frameOverhead (ce_c env) \<le> ChunkHeaderLength"
  using gob_ok_framelen by (force simp: chunk_env_ok_def header_framelen_def)

lemma frame_end_le:
  assumes "chunk_env_ok ops env" "int (i * ContentFramePayloadLength) \<le> MaxInt32" "n \<le> ContentFramePayloadLength"
  shows "int (encryptedFrameOffset env i) + int (EncryptedFrameSize (ce_c env) n) \<le> MaxInt64"
proof -
  have i: "i \<le> 8192"
    using assms(2) by (simp add: ContentFramePayloadLength_def BtnFrameMaxPayload_def MaxInt32_def)
  have o: "frameOverhead (ce_c env) \<le> 4096" using overhead_le [OF assms(1)] by (simp add: ChunkHeaderLength_def)
  then have "EncryptedFrameSize (ce_c env) ContentFramePayloadLength \<le> 266240"
    by (simp add: EncryptedFrameSize_def ContentFramePayloadLength_def BtnFrameMaxPayload_def)
  from mult_le_mono [OF this i] have "encryptedFrameOffset env i \<le> 4096 + 266240 * 8192"
    by (simp add: encryptedFrameOffset_def ChunkHeaderLength_def)
  moreover have "EncryptedFrameSize (ce_c env) n \<le> 266240"
    using assms(3) o by (simp add: EncryptedFrameSize_def ContentFramePayloadLength_def BtnFrameMaxPayload_def)
  ultimately have "encryptedFrameOffset env i + EncryptedFrameSize (ce_c env) n \<le> 3000000000" by simp
  then have "int (encryptedFrameOffset env i + EncryptedFrameSize (ce_c env) n) \<le> 3000000000" by linarith
  then show ?thesis by (simp add: MaxInt64_def)
qed

lemma frame_len_arith:
  "a < (l::nat) \<Longrightarrow> nat ((if int l - int a \<le> int c then int l - int a else int c) + int ov) = min c (l - a) + ov"
  by auto

lemma frame_dist_arith: "a < (l::nat) \<Longrightarrow> 0 < int l - int a \<and> (int l - int a \<le> int c \<longleftrightarrow> l \<le> a + c)"
  by auto

lemma PayloadLen_read [simp]: "ch_didReadHeader ch \<Longrightarrow> ChunkIO_PayloadLen env ch = (ch, PayloadLen (ch_header ch))"
  by (simp add: ChunkIO_PayloadLen_def ensureHeader_def)

lemma expandLengthBy_read:
  assumes "ch_didReadHeader ch" "0 < n" "int (PayloadLen (ch_header ch)) + int n \<le> MaxInt32"
  shows "expandLengthBy env (int n) ch =
    (ch\<lparr>ch_header := (ch_header ch)\<lparr>PayloadLen := PayloadLen (ch_header ch) + n\<rparr>, ch_needsHeaderUpdate := True\<rparr>, None)"
proof -
  have "(int (PayloadLen (ch_header ch)) + int n) mod 2 ^ 32 = int (PayloadLen (ch_header ch)) + int n"
    using assms(3) by (simp add: MaxInt32_def)
  then have "nat ((int (PayloadLen (ch_header ch)) + int n) mod 2 ^ 32) = PayloadLen (ch_header ch) + n"
    by (simp add: nat_add_distrib)
  with assms show ?thesis by (simp add: expandLengthBy_def MaxChunkPayloadLen_def)
qed

lemma header_range_version:
  "header_range h \<Longrightarrow> header_range (h\<lparr>PayloadVersion := wrap64 x\<rparr>)"
  using wrap64_le_MaxInt64 [of x] by (simp add: header_range_def) (simp add: wrap64_def)

lemma header_range_len:
  "header_range h \<Longrightarrow> int n \<le> MaxInt32 \<Longrightarrow> header_range (h\<lparr>PayloadLen := n\<rparr>)"
  by (simp add: header_range_def MaxInt32_def)

context blob_handle
begin

lemma writeContentFrame_rep:
  assumes "chunk_env_ok ops env" "inv (ch_bh ch)" "ch_didReadHeader ch" "PayloadLen (ch_header ch) = length q'"
    and "int (length q') \<le> MaxInt32" "stored_frames env (content (ch_bh ch)) q"
    and "i * ContentFramePayloadLength + k \<le> length q" "k + length p \<le> ContentFramePayloadLength" "p \<noteq> []"
    and "q' = fwrite q (i * ContentFramePayloadLength + k) p" "header_range (ch_header ch)"
  shows "\<exists>ch'. writeContentFrame env i (frame_at i q') ch = (ch', None) \<and> chunk_rep env content inv q' ch'"
proof -
  have env: "ce_ops env = ops" "aead_ok (ce_c env)" using assms(1) by (simp_all add: chunk_env_ok_def)
  define enc where "enc = seal_frame (ce_c env) (ce_rnd env) (ch_k ch) (frame_at i q')"
  have short: "length (frame_at i q') \<le> ContentFramePayloadLength" by (simp add: length_frame_at)
  have e: "EncryptFrame (ce_c env) (encFrameBufCap (ce_c env)) (ce_rnd env) (ch_k ch) (frame_at i q') = Inr enc"
    unfolding enc_def by (rule EncryptFrame_seal [OF env(2)]) (use short in \<open>simp add: ContentFramePayloadLength_def\<close>)
  have "i * ContentFramePayloadLength \<le> length q'"
    using assms(9,10) by (simp add: length_fwrite)
  then have "int (i * ContentFramePayloadLength) \<le> MaxInt32"
    using assms(5) by (meson of_nat_mono order_trans)
  from frame_end_le [OF assms(1) this short] have "int (encryptedFrameOffset env i) + int (length enc) \<le> MaxInt64"
    using env(2) by (simp add: enc_def)
  then obtain h' where h': "bh_PWrite ops enc (int (encryptedFrameOffset env i)) (ch_bh ch) = (h', None)" "inv h'"
    "content h' = fwrite (content (ch_bh ch)) (encryptedFrameOffset env i) enc"
    using pwrite_content [OF assms(2), of "int (encryptedFrameOffset env i)" enc] by auto
  have "stored_frames env (content h') q'"
    unfolding h'(3) by (rule stored_frames_write [OF env(2) assms(6-10) enc_def])
  with e h' assms(3-5,11) env(1) show ?thesis
    by (simp add: writeContentFrame_def chunk_rep_def Let_def header_range_version)
qed

lemma readCachedContentFrame_rep:
  assumes "chunk_env_ok ops env" "chunk_rep env content inv q ch" "i * ContentFramePayloadLength < length q"
  shows "\<exists>ch'. readCachedContentFrame env i ch = (ch', Inr (frame_rec i q)) \<and> chunk_rep env content inv q ch' \<and>
    ch_cachedFrame ch' = Some (frame_rec i q)"
proof (cases "\<exists>f. ch_cachedFrame ch = Some f \<and> cf_Index f = i")
  case True
  with assms(2) show ?thesis by (auto simp: readCachedContentFrame_def chunk_rep_def)
next
  case False
  have env: "ce_ops env = ops" "aead_ok (ce_c env)" using assms(1) by (simp_all add: chunk_env_ok_def)
  have rep: "inv (ch_bh ch)" "ch_didReadHeader ch" "PayloadLen (ch_header ch) = length q"
    "stored_frame env (content (ch_bh ch)) i (frame_at i q)"
    using assms(2,3) by (auto simp: chunk_rep_def stored_frames_def)
  have "0 < length (frame_at i q)" using assms(3) by (simp add: length_frame_at)
  then have "encryptedFrameOffset env i + EncryptedFrameSize (ce_c env) (length (frame_at i q)) \<le> length (content (ch_bh ch))"
    by (intro stored_frameD [OF rep(4) env(2)]) (simp add: EncryptedFrameSize_def)
  then have "bh_PRead ops (ch_bh ch) (EncryptedFrameSize (ce_c env) (length (frame_at i q))) (int (encryptedFrameOffset env i)) =
      Inr (fread (content (ch_bh ch)) (encryptedFrameOffset env i) (EncryptedFrameSize (ce_c env) (length (frame_at i q))))"
    using pread_content [OF rep(1), of "int (encryptedFrameOffset env i)" "EncryptedFrameSize (ce_c env) (length (frame_at i q))"] by simp
  moreover obtain k where "fread (content (ch_bh ch)) (encryptedFrameOffset env i) (EncryptedFrameSize (ce_c env) (length (frame_at i q))) =
      seal_frame (ce_c env) (ce_rnd env) k (frame_at i q)"
    using rep(4) by (auto simp: stored_frame_def)
  moreover have "DecryptFrame (ce_c env) decFrameBufCap (seal_frame (ce_c env) (ce_rnd env) k (frame_at i q)) = Inr (frame_at i q)"
    by (rule DecryptFrame_seal [OF env(2)]) (simp add: length_frame_at ContentFramePayloadLength_def)
  moreover define d where "d = int (length q) - int (i * ContentFramePayloadLength)"
  have pos: "0 < d" "(d \<le> int ContentFramePayloadLength) = (length q \<le> i * ContentFramePayloadLength + ContentFramePayloadLength)"
    using frame_dist_arith [OF assms(3), of ContentFramePayloadLength] by (simp_all only: d_def)
  moreover define fl where
    "fl = (if length q \<le> i * ContentFramePayloadLength + ContentFramePayloadLength then d else int ContentFramePayloadLength)"
  have len: "nat (fl + int (frameOverhead (ce_c env))) = EncryptedFrameSize (ce_c env) (length (frame_at i q))"
    using frame_len_arith [OF assms(3), of ContentFramePayloadLength "frameOverhead (ce_c env)"] pos(2) by (simp only: length_frame_at EncryptedFrameSize_def d_def fl_def)
  have "\<not> fl + int (frameOverhead (ce_c env)) < 0" using pos(1) by (simp add: fl_def)
  ultimately have "readContentFrame env i ch = (ch\<lparr>ch_cachedFrame := Some (frame_rec i q)\<rparr>, Inr (frame_rec i q))"
    unfolding readContentFrame_def PayloadLen_read [OF rep(2)] rep(3) prod.case Let_def d_def [symmetric] pos(2) fl_def [symmetric] len env(1)
    by (simp add: frame_rec_def)
  moreover have "chunk_rep env content inv q (ch\<lparr>ch_cachedFrame := Some (frame_rec i q)\<rparr>)"
    using assms(2) by (simp add: chunk_rep_def) (simp add: frame_rec_def)
  ultimately show ?thesis
    using False by (auto simp: readCachedContentFrame_def split: option.splits)
qed

lemma chunk_repD:
  assumes "chunk_rep env content inv q ch"
  shows "inv (ch_bh ch)" "ch_didReadHeader ch" "PayloadLen (ch_header ch) = length q" "int (length q) \<le> MaxInt32"
    "stored_frames env (content (ch_bh ch)) q" "header_range (ch_header ch)"
  using assms by (auto simp: chunk_rep_def)

text \<open>One iteration that writes \<open>p\<close> into frame \<open>i\<close>: the length is expanded, the frame is written back.\<close>

lemma write_step_rep:
  assumes "chunk_env_ok ops env" "chunk_rep env content inv q ch0" "i * ContentFramePayloadLength + k \<le> length q"
    and "k + length p \<le> ContentFramePayloadLength" "p \<noteq> []" "q' = fwrite q (i * ContentFramePayloadLength + k) p"
    and "int (length q') \<le> MaxInt32" "ch_bh ch = ch_bh ch0" "ch_didReadHeader ch" "PayloadLen (ch_header ch) = length q'"
    and "fp = fwrite (frame_at i q) k p" "header_range (ch_header ch)"
  shows "\<exists>ch'. writeContentFrame env i fp ch = (ch', None) \<and> chunk_rep env content inv q' ch'"
proof -
  have "fp = frame_at i q'" using frame_at_fwrite [OF assms(3-5), of i] assms(6,11) by simp
  with writeContentFrame_rep [OF assms(1) _ assms(9,10,7) _ assms(3-6,12)] chunk_repD [OF assms(2)] assms(8)
  show ?thesis by simp
qed

lemma zero_fill_step:
  assumes "chunk_env_ok ops env" "chunk_rep env content inv q ch" "int (length q + n) \<le> MaxInt32" "n \<noteq> 0"
  shows "\<exists>m ch'. 0 < m \<and> m \<le> n \<and> chunk_rep env content inv (q @ replicate m 0) ch' \<and>
    zero_fill env (length q) n ch = zero_fill env (length q + m) (n - m) ch'"
proof -
  define i where "i = length q div ContentFramePayloadLength"
  obtain k where k: "length q = i * ContentFramePayloadLength + k" "k < ContentFramePayloadLength"
    unfolding i_def by (rule div_split)
  define m where "m = min n (ContentFramePayloadLength - k)"
  have m: "0 < m" "m \<le> n" "k + m \<le> ContentFramePayloadLength" using k assms(4) by (auto simp: m_def)
  note rep = chunk_repD [OF assms(2)]
  define p where "p = replicate m (0 :: byte)"
  have q': "q @ p = fwrite q (i * ContentFramePayloadLength + k) p" using fwrite_append_end [of q p] k(1) by simp
  have len: "int (length (q @ p)) \<le> MaxInt32" using assms(3) m(2) by (simp add: p_def)
  define exp where "exp ch = ch\<lparr>ch_header := (ch_header ch)\<lparr>PayloadLen := PayloadLen (ch_header ch) + m\<rparr>,
    ch_needsHeaderUpdate := True\<rparr>" for ch :: "'h ChunkIO"
  have step: "\<exists>ch'. writeContentFrame env i (frame_at i q @ p) (exp ch1) = (ch', None) \<and> chunk_rep env content inv (q @ p) ch'"
    if "chunk_rep env content inv q ch1" for ch1
  proof (rule write_step_rep [OF assms(1) that _ _ _ q' len])
    show "frame_at i q @ p = fwrite (frame_at i q) k p"
      using fwrite_append_end [of "frame_at i q" p] k by (simp add: length_frame_at min_def)
  qed (use k m len chunk_repD [OF that] in \<open>auto simp: p_def exp_def intro!: header_range_len\<close>)
  have expand: "expandLengthBy env (int m) ch1 = (exp ch1, None)" if "chunk_rep env content inv q ch1" for ch1
    unfolding exp_def using chunk_repD [OF that] len m(1) by (intro expandLengthBy_read) (auto simp: p_def)
  have "\<exists>ch2. chunk_rep env content inv (q @ p) ch2 \<and> zero_fill env (length q) n ch = zero_fill env (length q + m) (n - m) ch2"
  proof (cases "k = 0")
    case True
    then have mm: "min n ContentFramePayloadLength = m" "frame_at i q = []" using k by (simp_all add: m_def frame_at_empty)
    obtain ch2 where "writeContentFrame env i p (exp ch) = (ch2, None)" "chunk_rep env content inv (q @ p) ch2"
      using step [OF assms(2)] mm by auto
    moreover from this have "zero_fill env (length q) n ch = zero_fill env (length q + m) (n - m) ch2"
      using True k mm expand [OF assms(2)] rep assms(4) by (subst zero_fill.simps) (simp add: Let_def p_def flip: i_def)
    ultimately show ?thesis by blast
  next
    case False
    then have "i * ContentFramePayloadLength < length q" using k by simp
    from readCachedContentFrame_rep [OF assms(1,2) this] obtain ch1 where
      ch1: "readCachedContentFrame env i ch = (ch1, Inr (frame_rec i q))" "chunk_rep env content inv q ch1" by blast
    have fr: "cf_Offset (frame_rec i q) = i * ContentFramePayloadLength" "cf_P (frame_rec i q) = frame_at i q"
      "length (frame_at i q) = k"
      using k by (simp_all add: frame_rec_def length_frame_at)
    obtain ch2 where "writeContentFrame env i (frame_at i q @ p) (exp ch1) = (ch2, None)" "chunk_rep env content inv (q @ p) ch2"
      using step [OF ch1(2)] by auto
    moreover from this have "zero_fill env (length q) n ch = zero_fill env (length q + m) (n - m) ch2"
      using False k fr ch1 expand [OF ch1(2)] rep assms(4) by (subst zero_fill.simps) (simp add: Let_def p_def flip: i_def m_def)
    ultimately show ?thesis by blast
  qed
  with m show ?thesis unfolding p_def by blast
qed

lemma zero_fill_rep:
  assumes "chunk_env_ok ops env" "chunk_rep env content inv q ch" "int (length q + n) \<le> MaxInt32"
  shows "\<exists>ch'. zero_fill env (length q) n ch = (ch', None) \<and> chunk_rep env content inv (q @ replicate n 0) ch'"
  using assms(2,3)
proof (induction n arbitrary: q ch rule: less_induct)
  case (less n)
  show ?case
  proof (cases "n = 0")
    case True
    with less show ?thesis by (simp add: zero_fill.simps)
  next
    case False
    from zero_fill_step [OF assms(1) less(2,3) False] obtain m ch2 where m: "0 < m" "m \<le> n"
      "chunk_rep env content inv (q @ replicate m 0) ch2" "zero_fill env (length q) n ch = zero_fill env (length q + m) (n - m) ch2"
      by blast
    moreover have "int (length (q @ replicate m 0) + (n - m)) \<le> MaxInt32" using less(3) m(2) by simp
    moreover have "(q @ replicate m 0) @ replicate (n - m) 0 = q @ replicate n 0"
      using m(2) by (simp flip: replicate_add)
    ultimately show ?thesis using less(1) [of "n - m" "q @ replicate m 0" ch2] by auto
  qed
qed

lemma frame_to_write_rep:
  assumes "chunk_env_ok ops env" "chunk_rep env content inv q ch" "remo \<le> length q"
    and "i = remo div ContentFramePayloadLength"
  shows "\<exists>ch1 f. frame_to_write env remo ch = (ch1, Inr f) \<and> chunk_rep env content inv q ch1 \<and> cf_P f = frame_at i q \<and>
    cf_Offset f = i * ContentFramePayloadLength \<and>
    cf_IsLastFrame f = (length q \<le> i * ContentFramePayloadLength + ContentFramePayloadLength)"
proof (cases "remo = length q \<and> i * ContentFramePayloadLength = remo")
  case True
  with chunk_repD [OF assms(2)] assms(2,4) show ?thesis
    by (simp add: frame_to_write_def Let_def frame_at_empty)
next
  case False
  obtain k where "remo = i * ContentFramePayloadLength + k" unfolding assms(4) by (rule div_split)
  with False assms(3) have "i * ContentFramePayloadLength < length q" by auto
  from readCachedContentFrame_rep [OF assms(1,2) this] False chunk_repD [OF assms(2)] show ?thesis
    by (auto simp: frame_to_write_def Let_def frame_rec_def simp flip: assms(4))
qed

lemma expand_frame_rep:
  assumes "chunk_rep env content inv q ch" "i * ContentFramePayloadLength + k \<le> length q" "k < ContentFramePayloadLength"
    and "remp \<noteq> []" "n = min (length remp) (ContentFramePayloadLength - k)"
    and "q' = fwrite q (i * ContentFramePayloadLength + k) (take n remp)" "int (length q') \<le> MaxInt32"
    and "cf_P f = frame_at i q" "cf_IsLastFrame f = (length q \<le> i * ContentFramePayloadLength + ContentFramePayloadLength)"
  shows "\<exists>ch2 p valid. expand_frame env f (int k) (length remp) ch = (ch2, Inr (p, valid)) \<and> valid \<noteq> 0 \<and>
    min (int (length remp)) valid = int n \<and> go_copy p k (k + n) remp = fwrite (frame_at i q) k (take n remp) \<and>
    ch_bh ch2 = ch_bh ch \<and> ch_didReadHeader ch2 \<and> PayloadLen (ch_header ch2) = length q' \<and> header_range (ch_header ch2)"
proof -
  define l where "l = length (frame_at i q)"
  have l: "l = min ContentFramePayloadLength (length q - i * ContentFramePayloadLength)" "k \<le> l" "l \<le> ContentFramePayloadLength"
    using assms(2,3) by (auto simp: l_def length_frame_at)
  have n: "0 < n" "n \<le> length remp" "k + n \<le> ContentFramePayloadLength" "take n remp \<noteq> []" "length (take n remp) = n"
    using assms(3,4,5) by auto
  note rep = chunk_repD [OF assms(1)]
  show ?thesis
  proof (cases "length remp > l - k \<and> cf_IsLastFrame f")
    case False
    then have nv: "n = min (length remp) (l - k)" "n \<le> l - k" "l - k \<noteq> 0" using assms(3,4,5,9) l by auto
    have "l \<le> length q - i * ContentFramePayloadLength" using l(1) by simp
    then have "i * ContentFramePayloadLength + k + n \<le> length q" using nv(2) l(2) assms(2) by linarith
    then have "length q' = length q" using assms(6) n by (simp add: length_fwrite)
    moreover have v: "int (length (cf_P f)) - int k = int (l - k)" using l(2) assms(8) by (simp add: l_def of_nat_diff)
    have "expand_frame env f (int k) (length remp) ch = (ch, Inr (frame_at i q, int (l - k)))"
      unfolding expand_frame_def Let_def v using False assms(8) by (subst if_not_P) simp_all
    moreover have "go_copy (frame_at i q) k (k + n) remp = fwrite (frame_at i q) k (take n remp)"
      using n nv(2) l by (simp add: go_copy_def fwrite_def l_def)
    ultimately show ?thesis using rep nv by (simp flip: of_nat_min)
  next
    case True
    define x where "x = k + n - l"
    have lq: "length q = i * ContentFramePayloadLength + l" using True assms(2,9) l by auto
    have x: "k + n = l + x" using True assms(5) l(2,3) by (auto simp: x_def min_def)
    have q': "length q' = length q + x" using assms(6) n lq x by (auto simp: length_fwrite)
    define ch0 where "ch0 = (if ch_cachedFrame ch = Some f then
        (if int k + int (length remp) > int ContentFramePayloadLength
         then ch\<lparr>ch_cachedFrame := map_option (\<lambda>g. g\<lparr>cf_IsLastFrame := False\<rparr>) (ch_cachedFrame ch)\<rparr> else ch) else ch)"
    have ch0: "ch_bh ch0 = ch_bh ch" "ch_didReadHeader ch0" "PayloadLen (ch_header ch0) = length q" "header_range (ch_header ch0)"
      using rep by (auto simp: ch0_def)
    obtain ch2 where ch2: "expandLengthBy env (int x) ch0 = (ch2, None)" "ch_bh ch2 = ch_bh ch" "ch_didReadHeader ch2"
      "PayloadLen (ch_header ch2) = length q'" "header_range (ch_header ch2)"
    proof (cases "x = 0")
      case True
      with ch0 q' that [of ch0] show thesis by (simp add: expandLengthBy_def)
    next
      case False
      with ch0 q' assms(7) show thesis by (intro that [OF expandLengthBy_read]) (auto intro: header_range_len)
    qed
    have ns: "min (int k + int (length remp)) (int ContentFramePayloadLength) = int (l + x)" using x assms(3,5) by auto
    have c: "int (length remp) > int l - int k \<and> cf_IsLastFrame f" using True by auto
    have "expand_frame env f (int k) (length remp) ch =
        (case expandLengthBy env (int (l + x) - int l) ch0 of (ch2, Some e) \<Rightarrow> (ch2, Inl e)
         | (ch2, None) \<Rightarrow> (ch2, Inr (frame_at i q @ replicate (l + x - l) 0, int (l + x) - int k)))"
      unfolding expand_frame_def Let_def assms(8) l_def [symmetric] if_P [OF c] ns ch0_def [symmetric] nat_int by (rule refl)
    with ch2 have "expand_frame env f (int k) (length remp) ch = (ch2, Inr (frame_at i q @ replicate x 0, int (l + x) - int k))"
      by simp
    moreover have "go_copy (frame_at i q @ replicate x 0) k (k + n) remp = fwrite (frame_at i q) k (take n remp)"
    proof -
      have "length (frame_at i q) + x - k = n" "k \<le> length (frame_at i q)" using x l(2) by (simp_all add: l_def)
      then show ?thesis using n x by (simp add: go_copy_def fwrite_def l_def)
    qed
    ultimately show ?thesis using ch2 n x by (auto simp: of_nat_diff)
  qed
qed

lemma pwrite_loop_rep:
  assumes "chunk_env_ok ops env" "chunk_rep env content inv q ch" "remo \<le> length q" "int (remo + length remp) \<le> MaxInt32"
  shows "\<exists>ch'. pwrite_loop env remo remp ch = (ch', None) \<and> chunk_rep env content inv (fwrite q remo remp) ch'"
  using assms(2-)
proof (induction "length remp" arbitrary: remp remo q ch rule: less_induct)
  case less
  show ?case
  proof (cases "remp = []")
    case True
    with less(2) show ?thesis by (simp add: pwrite_loop.simps)
  next
    case False
    define i where "i = remo div ContentFramePayloadLength"
    obtain k where k: "remo = i * ContentFramePayloadLength + k" "k < ContentFramePayloadLength"
      unfolding i_def by (rule div_split)
    define n where "n = min (length remp) (ContentFramePayloadLength - k)"
    have n: "0 < n" "n \<le> length remp" "k + n \<le> ContentFramePayloadLength" "take n remp \<noteq> []" "length (take n remp) = n"
      using k False by (auto simp: n_def)
    define q' where "q' = fwrite q (i * ContentFramePayloadLength + k) (take n remp)"
    have "length q' = max (length q) (remo + n)" using n k(1) by (simp add: q'_def length_fwrite)
    then have len: "int (length q') \<le> MaxInt32" "remo + n \<le> length q'" "int (remo + n + length (drop n remp)) \<le> MaxInt32"
      using less(4) n(2) chunk_repD(4) [OF less(2)] by (auto simp: max_def)
    obtain ch1 f where f: "frame_to_write env remo ch = (ch1, Inr f)" "chunk_rep env content inv q ch1" "cf_P f = frame_at i q"
      "cf_Offset f = i * ContentFramePayloadLength" "cf_IsLastFrame f = (length q \<le> i * ContentFramePayloadLength + ContentFramePayloadLength)"
      using frame_to_write_rep [OF assms(1) less(2,3) i_def] by blast
    have ik: "i * ContentFramePayloadLength + k \<le> length q" using less(3) k(1) by simp
    obtain ch2 p valid where e: "expand_frame env f (int k) (length remp) ch1 = (ch2, Inr (p, valid))" "valid \<noteq> 0"
      "min (int (length remp)) valid = int n" "go_copy p k (k + n) remp = fwrite (frame_at i q) k (take n remp)"
      "ch_bh ch2 = ch_bh ch1" "ch_didReadHeader ch2" "PayloadLen (ch_header ch2) = length q'" "header_range (ch_header ch2)"
      using expand_frame_rep [OF f(2) ik k(2) False n_def q'_def len(1) f(3,5)] by blast
    obtain ch3 where w: "writeContentFrame env i (go_copy p k (k + n) remp) ch2 = (ch3, None)" "chunk_rep env content inv q' ch3"
      using write_step_rep [OF assms(1) f(2) ik _ n(4) q'_def len(1) e(5-7,4,8)] n by auto
    have "int remo - int (i * ContentFramePayloadLength) = int k" "\<not> remo < i * ContentFramePayloadLength" using k(1) by simp_all
    then have "pwrite_loop env remo remp ch = pwrite_loop env (remo + n) (drop n remp) ch3"
      using False f(1,4) e(1-3) w(1) by (subst pwrite_loop.simps) (simp add: Let_def flip: i_def)
    moreover have "fwrite q' (remo + n) (drop n remp) = fwrite q remo remp"
      using fwrite_fwrite_adjacent [of q remo "take n remp" "drop n remp"] n(5) k(1) by (simp add: q'_def)
    ultimately show ?thesis
      using less(1) [of "drop n remp" q' ch3 "remo + n"] w(2) len(2,3) n(1) False by auto
  qed
qed

text \<open>\<open>PRead\<close>, \<open>PWrite\<close> and \<open>Size\<close> of the payload.\<close>

lemma pread_loop_rep:
  assumes "chunk_env_ok ops env" "chunk_rep env content inv q ch" "remo + n \<le> length q"
  shows "\<exists>ch'. pread_loop env remo n ch = (ch', Inr (fread q remo n)) \<and> chunk_rep env content inv q ch'"
  using assms(2-)
proof (induction n arbitrary: remo ch rule: less_induct)
  case (less n)
  show ?case
  proof (cases "n = 0")
    case True
    with less(2) show ?thesis by (simp add: pread_loop.simps)
  next
    case False
    define i where "i = remo div ContentFramePayloadLength"
    obtain k where k: "remo = i * ContentFramePayloadLength + k" "k < ContentFramePayloadLength"
      unfolding i_def by (rule div_split)
    have "i * ContentFramePayloadLength < length q" using less(3) k False by simp
    from readCachedContentFrame_rep [OF assms(1) less(2) this] obtain ch1 where
      ch1: "readCachedContentFrame env i ch = (ch1, Inr (frame_rec i q))" "chunk_rep env content inv q ch1" by blast
    define l where "l = length (frame_at i q)"
    have l: "k < l" "l = min ContentFramePayloadLength (length q - i * ContentFramePayloadLength)"
      using less(3) k False by (auto simp: l_def length_frame_at)
    have last: "\<not> (n > l - k \<and> cf_IsLastFrame (frame_rec i q))"
      using less(3) k l by (auto simp: frame_rec_def)
    define m where "m = min n (l - k)"
    have m: "0 < m" "m \<le> n" "m \<le> l - k" using False l by (auto simp: m_def)
    have off: "int remo - int (cf_Offset (frame_rec i q)) = int k" and v: "int (length (cf_P (frame_rec i q))) - int k = int (l - k)"
      and mm: "min (int n) (int (l - k)) = int m"
      using k l(1) by (simp_all add: frame_rec_def l_def m_def of_nat_diff)
    have piece: "take m (drop k (frame_at i q)) = fread q remo m"
    proof (rule nth_equalityI)
      show "length (take m (drop k (frame_at i q))) = length (fread q remo m)"
        using m less(3) by (simp flip: l_def)
      show "take m (drop k (frame_at i q)) ! j = fread q remo m ! j" if "j < length (take m (drop k (frame_at i q)))" for j
        using that m less(3) k by (simp add: nth_frame_at nth_fread add.assoc flip: l_def)
    qed
    obtain ch2 where ch2: "pread_loop env (remo + m) (n - m) ch1 = (ch2, Inr (fread q (remo + m) (n - m)))" "chunk_rep env content inv q ch2"
      using less(1) [of "n - m" ch1 "remo + m"] ch1(2) less(3) m by auto
    have "pread_loop env remo n ch = (ch2, Inr (take m (drop k (cf_P (frame_rec i q))) @ fread q (remo + m) (n - m)))"
      using False ch1(1) last m(1) ch2(1)
      by (subst pread_loop.simps) (simp only: Let_def off v mm i_def [symmetric] prod.case sum.case if_False, simp)
    moreover have "take m (drop k (cf_P (frame_rec i q))) @ fread q (remo + m) (n - m) = fread q remo n"
      using piece fread_split [of q remo m "n - m"] m(2) by (simp add: frame_rec_def)
    ultimately show ?thesis using ch2(2) by simp
  qed
qed

lemma ensureHeader_rep: "chunk_rep env content inv q ch \<Longrightarrow> ensureHeader env ch = (ch, None)"
  by (simp add: ensureHeader_def chunk_rep_def)

lemma PRead_rep:
  assumes "chunk_env_ok ops env" "chunk_rep env content inv q ch" "0 \<le> off" "off + int n \<le> int (length q)"
  shows "\<exists>ch'. ChunkIO_PRead env n off ch = (ch', Inr (fread q (nat off) n)) \<and> chunk_rep env content inv q ch'"
proof -
  have "off \<le> MaxInt32" using assms(4) chunk_repD(4) [OF assms(2)] by simp
  moreover have "nat off + n \<le> length q" using assms(3,4) by simp
  ultimately show ?thesis
    using pread_loop_rep [OF assms(1,2), of "nat off" n] assms(3) ensureHeader_rep [OF assms(2)]
    by (simp add: ChunkIO_PRead_def)
qed

lemma fwrite_gap:
  "length c \<le> off \<Longrightarrow> fwrite (c @ replicate (off - length c) 0) off p = (if p = [] then c @ replicate (off - length c) 0 else fwrite c off p)"
  by (simp add: fwrite_def)

lemma PWrite_rep:
  assumes "chunk_env_ok ops env" "chunk_rep env content inv q ch" "0 \<le> off" "off + int (length p) \<le> MaxInt32"
  shows "\<exists>ch'. ChunkIO_PWrite env p off ch = (ch', None) \<and> chunk_rep env content inv (fwrite q (nat off) p) ch'"
proof (cases "p = []")
  case True
  with assms(2) ensureHeader_rep [OF assms(2)] show ?thesis by (simp add: ChunkIO_PWrite_def)
next
  case False
  define q1 where "q1 = q @ replicate (nat off - length q) 0"
  have q1: "fwrite q1 (nat off) p = fwrite q (nat off) p"
    using fwrite_gap [of q "nat off" p] False by (cases "length q \<le> nat off") (auto simp: q1_def)
  note rep = chunk_repD [OF assms(2)]
  obtain ch1 where ch1: "(if nat off > length q then zero_fill env (length q) (nat off - length q) ch else (ch, None)) = (ch1, None)"
    "chunk_rep env content inv q1 ch1"
  proof (cases "nat off > length q")
    case True
    have "int (length q + (nat off - length q)) \<le> MaxInt32" using True assms(3,4) by simp
    from zero_fill_rep [OF assms(1,2) this] True show thesis using that by (auto simp: q1_def)
  next
    case False
    with assms(2) that show thesis by (simp add: q1_def)
  qed
  have "nat off \<le> length q1" "int (nat off + length p) \<le> MaxInt32" using assms(3,4) by (auto simp: q1_def)
  from pwrite_loop_rep [OF assms(1) ch1(2) this] False assms(3,4) ensureHeader_rep [OF assms(2)] rep ch1(1) q1
  show ?thesis by (simp add: ChunkIO_PWrite_def del: if_split)
qed

end

section \<open>Header round trip\<close>

lemma clip_header_name: "length (OrigFilename (clip_header h)) \<le> MaxOrigFilenameLen"
  by (simp add: clip_header_def Let_def MaxOrigFilenameLen_def)

lemma clip_header_len [simp]: "PayloadLen (clip_header h) = PayloadLen h" "PayloadVersion (clip_header h) = PayloadVersion h"
  by (simp_all add: clip_header_def Let_def)

lemma clip_header_range: "header_range h \<Longrightarrow> header_range (clip_header h)"
  by (simp add: header_range_def clip_header_def Let_def)

lemma gob_okD:
  assumes "gob_ok c gb" "header_range h"
  shows "int (length (gob_Encode gb (header_fields (clip_header h)))) \<le> header_framelen c"
    "gob_Decode gb (header_payload c gb h) = Inr (header_fields (clip_header h))"
  using assms clip_header_name [of h] clip_header_range [OF assms(2)] by (auto simp: gob_ok_def header_payload_def Let_def)

lemma length_header_payload: "gob_ok c gb \<Longrightarrow> header_range h \<Longrightarrow> int (length (header_payload c gb h)) = header_framelen c"
  using gob_okD(1) [of c gb h] gob_ok_framelen [of c gb] by (simp add: header_payload_def Let_def)

lemma header_payload_short:
  assumes "gob_ok c gb" "header_range h"
  shows "header_payload c gb h \<noteq> []" "length (header_payload c gb h) \<le> BtnFrameMaxPayload"
proof -
  note len = length_header_payload [OF assms] gob_ok_framelen [OF assms(1)]
  then show "header_payload c gb h \<noteq> []" by auto
  have "header_framelen c \<le> 4096" by (simp add: header_framelen_def ChunkHeaderLength_def SignatureLength_def)
  with len show "length (header_payload c gb h) \<le> BtnFrameMaxPayload" by (simp add: BtnFrameMaxPayload_def)
qed

lemma length_header_bytes:
  assumes "gob_ok c gb" "aead_ok c" "header_range h"
  shows "length (header_bytes c gb rnd k h) = ChunkHeaderLength"
proof -
  have "int (length (header_bytes c gb rnd k h)) = int ChunkHeaderLength"
    using length_header_payload [OF assms(1,3)] assms(2)
    by (simp add: header_bytes_def EncryptedFrameSize_def header_framelen_def SignatureLength_def)
  then show ?thesis by simp
qed

context byte_sink
begin

lemma WriteTo_emits:
  assumes "aead_ok c" "gob_ok c gb" "int (PayloadLen h) \<le> MaxInt32" "room w ChunkHeaderLength" "header_range h"
  shows "\<exists>v. ChunkHeader_WriteTo c gb rnd k wr h w = (v, None) \<and> emits w (header_bytes c gb rnd k h) v"
proof -
  define b where "b = gob_Encode gb (header_fields (clip_header h))"
  define pad :: "byte list" where "pad = replicate (nat (header_framelen c - int (length b))) 0"
  have room: "room w n" if "n \<le> ChunkHeaderLength" for n using room_mono [OF assms(4) that] .
  have le: "int (length b) \<le> header_framelen c" using gob_okD(1) [OF assms(2,5)] by (simp add: b_def)
  then have bp: "b @ pad = header_payload c gb h"
    by (simp add: b_def pad_def header_payload_def Let_def nat_diff_distrib)
  have fr: "frames c rnd k (b @ pad) = seal_frame c rnd k (header_payload c gb h)"
    using header_payload_short [OF assms(2,5)] bp by (simp add: frames_short)
  have hb: "header_bytes c gb rnd k h = [ChunkSignatureMagic1, ChunkSignatureMagic2, CurrentFormat] @ frames c rnd k (b @ pad)"
    by (simp add: header_bytes_def fr)
  have hl: "ChunkHeaderLength = length ([ChunkSignatureMagic1, ChunkSignatureMagic2, CurrentFormat] @ frames c rnd k (b @ pad))"
    using length_header_bytes [OF assms(2,1,5)] hb by metis
  obtain w1 where w1: "wr [ChunkSignatureMagic1, ChunkSignatureMagic2] w = (w1, None)"
      "emits w [ChunkSignatureMagic1, ChunkSignatureMagic2] w1"
    using emits_step [OF emits_start [OF assms(4)], of "[ChunkSignatureMagic1, ChunkSignatureMagic2]"] room [of "Suc (Suc 0)"] hl by auto
  obtain w2 where w2: "wr [CurrentFormat] w1 = (w2, None)" "emits w [ChunkSignatureMagic1, ChunkSignatureMagic2, CurrentFormat] w2"
    using emits_step [OF w1(2), of "[CurrentFormat]"] room [of "Suc (Suc (Suc 0))"] hl by auto
  have r2: "room w2 (length (frames c rnd k (b @ pad)))" using room_after [OF w2(2)] assms(4) hl by simp
  have pre: "length (frames c rnd k b) \<le> length (frames c rnd k (b @ pad))"
    using length_frames [OF assms(1)] by (simp add: add_mono div_le_mono mult_le_mono1)
  obtain bew1 where bew1: "WriteCloser_Write c rnd wr b (NewWriteCloser w2 (header_framelen c) k) = (bew1, Inr (length b))"
    "bew_has emits c rnd w2 k b bew1" "bew_lenTotal bew1 = header_framelen c"
    using Write_emits [where q = "[]" and p = b and bew = "NewWriteCloser w2 (header_framelen c) k",
        OF assms(1) NewWriteCloser_has [OF r2]] room_mono [OF r2 pre]
    by (auto simp: NewWriteCloser_def)
  obtain bew2 where bew2: "WriteCloser_Write c rnd wr pad bew1 = (bew2, Inr (length pad))"
    "bew_has emits c rnd w2 k (b @ pad) bew2" "bew_lenTotal bew2 = header_framelen c"
    using Write_emits [OF assms(1) bew1(2) r2] bew1(3) by auto
  have "bew_lenTotal bew2 = int (length (b @ pad))" using bew2(3) length_header_payload [OF assms(2,5)] bp by simp
  from Close_emits [OF assms(1) bew2(2) r2 this] obtain bew3 where bew3: "WriteCloser_Close c rnd wr bew2 = (bew3, None)"
    "emits w2 (frames c rnd k (b @ pad)) (bew_dst bew3)" by auto
  have "emits w (header_bytes c gb rnd k h) (bew_dst bew3)"
    unfolding hb using emits_trans [OF w2(2) bew3(2)] assms(4) hl by simp
  moreover have "ChunkHeader_WriteTo c gb rnd k wr h w = (bew_dst bew3, None)"
    using assms(3) w1(1) w2(1) bew1(1) bew2(1) bew3(1) le
    by (simp add: ChunkHeader_WriteTo_def MaxChunkPayloadLen_def Let_def b_def pad_def)
  ultimately show ?thesis by blast
qed

end

context byte_source
begin

lemma ReadFrom_header:
  assumes "aead_ok c" "gob_ok c gb" "header_range h" "holds s (header_bytes c gb rnd k h @ z)"
  shows "\<exists>s'. ChunkHeader_ReadFrom c gb [] rd h0 s = (Inr (fold set_field (header_fields (clip_header h)) h0), s') \<and> holds s' z"
proof -
  define magic where "magic = [ChunkSignatureMagic1, ChunkSignatureMagic2, CurrentFormat]"
  define q where "q = header_payload c gb h"
  have q: "q \<noteq> []" "length q \<le> BtnFrameMaxPayload" "int (length q) = header_framelen c"
    using header_payload_short [OF assms(2,3)] length_header_payload [OF assms(2,3)] by (auto simp: q_def)
  obtain s1 where s1: "rd 3 s = (Inr magic, s1)" "holds s1 (frames c rnd k q @ z)"
    using holds_read [of s magic "frames c rnd k q @ z"] assms(4) q(1,2)
    by (auto simp: header_bytes_def magic_def frames_short q_def numeral_3_eq_3)
  obtain bdr where bdr: "Reader_ReadFull c rd (length q) (NewReader [] s1 (int (length q))) = (Inr q, bdr)"
    "bdr_has holds c rnd [] z bdr"
    using ReadFull_has [OF assms(1) NewReader_has [OF s1(2)], of "length q"] by auto
  then have "HasReadAll bdr" "holds (bdr_src bdr) z" by (auto simp: bdr_has_def HasReadAll_def)
  moreover have "nat (header_framelen c) = length q" using q(3) by simp
  ultimately show ?thesis
    using s1(1) bdr(1) q(3) gob_okD(2) [OF assms(2,3)] gob_ok_framelen [OF assms(2)]
    by (simp add: ChunkHeader_ReadFrom_def SignatureLength_def magic_def flip: q_def numeral_3_eq_3)
qed

end

lemma set_fields_len: "PayloadLen (fold set_field (header_fields h) h0) = (if PayloadLen h = 0 then PayloadLen h0 else PayloadLen h)"
  by (simp add: header_fields_def)

lemma set_fields_range: "header_range h \<Longrightarrow> header_range h0 \<Longrightarrow> header_range (fold set_field (header_fields h) h0)"
  by (simp add: header_fields_def header_range_def)

lemma set_fields_zero: "fold set_field (header_fields h) zero_header = h"
  by (simp add: header_fields_def zero_header_def)

section \<open>Opening and syncing\<close>

text \<open>A \<open>ChunkIO\<close> that has not looked at its blob yet, or one that represents the payload.\<close>

definition chunk_fresh :: "'h chunk_env \<Rightarrow> ('h \<Rightarrow> byte list) \<Rightarrow> ('h \<Rightarrow> bool) \<Rightarrow> byte list \<Rightarrow> 'h ChunkIO \<Rightarrow> bool" where
  "chunk_fresh env content ok q ch \<longleftrightarrow>
     ok (ch_bh ch) \<and> \<not> ch_didReadHeader ch \<and> PayloadLen (ch_header ch) = 0 \<and> ch_cachedFrame ch = None \<and>
     \<not> ch_needsHeaderUpdate ch \<and> chunk_blob env (content (ch_bh ch)) q \<and> header_range (ch_header ch)"

definition chunk_state :: "'h chunk_env \<Rightarrow> ('h \<Rightarrow> byte list) \<Rightarrow> ('h \<Rightarrow> bool) \<Rightarrow> byte list \<Rightarrow> 'h ChunkIO \<Rightarrow> bool" where
  "chunk_state env content ok q ch \<longleftrightarrow> chunk_rep env content ok q ch \<or> chunk_fresh env content ok q ch"

lemma stored_frames_header:
  assumes "stored_frames env bytes q" "length hb = ChunkHeaderLength"
  shows "stored_frames env (fwrite bytes 0 hb) q"
  unfolding stored_frames_def stored_frame_def
proof (intro allI impI)
  fix i assume "i * ContentFramePayloadLength < length q"
  with assms(1) obtain k where k: "fread bytes (encryptedFrameOffset env i) (EncryptedFrameSize (ce_c env) (length (frame_at i q))) =
      seal_frame (ce_c env) (ce_rnd env) k (frame_at i q)"
    by (auto simp: stored_frames_def stored_frame_def)
  have "0 + length hb \<le> encryptedFrameOffset env i" using assms(2) by (simp add: encryptedFrameOffset_def)
  from fread_fwrite_after [OF this] k show "\<exists>k. fread (fwrite bytes 0 hb) (encryptedFrameOffset env i)
      (EncryptedFrameSize (ce_c env) (length (frame_at i q))) = seal_frame (ce_c env) (ce_rnd env) k (frame_at i q)"
    by auto
qed

context blob_handle
begin

lemma Sync_rep:
  assumes "chunk_env_ok ops env" "chunk_rep env content inv q ch"
  shows "\<exists>ch'. ChunkIO_Sync env ch = (ch', None) \<and> chunk_rep env content inv q ch' \<and> chunk_blob env (content (ch_bh ch')) q"
proof (cases "ch_needsHeaderUpdate ch")
  case False
  with assms(2) show ?thesis by (simp add: ChunkIO_Sync_def chunk_rep_def)
next
  case True
  have env: "ce_ops env = ops" "aead_ok (ce_c env)" "gob_ok (ce_c env) (ce_gob env)"
    using assms(1) by (simp_all add: chunk_env_ok_def)
  note rep = chunk_repD [OF assms(2)]
  define hb where "hb = header_bytes (ce_c env) (ce_gob env) (ce_rnd env) (ch_k ch) (ch_header ch)"
  have hl: "length hb = ChunkHeaderLength" unfolding hb_def by (rule length_header_bytes [OF env(3,2) rep(6)])
  have "offset_room inv (ch_bh ch, 0) ChunkHeaderLength"
    using rep(1) by (simp add: offset_room_def ChunkHeaderLength_def MaxInt64_def)
  from offset_writer.WriteTo_emits [OF env(2,3) _ this rep(6), of "ce_rnd env" "ch_k ch"] rep(3,4)
  obtain h o' where w: "ChunkHeader_WriteTo (ce_c env) (ce_gob env) (ce_rnd env) (ch_k ch) (OffsetWriter_Write ops) (ch_header ch) (ch_bh ch, 0) = ((h, o'), None)"
    "inv h" "content h = fwrite (content (ch_bh ch)) 0 hb"
    by (auto simp: offset_emits_def hb_def)
  have "stored_frames env (content h) q" unfolding w(3) by (rule stored_frames_header [OF rep(5) hl])
  moreover have "fread (content h) 0 ChunkHeaderLength = hb"
    using fread_fwrite_same [of "content (ch_bh ch)" 0 hb] hl w(3) by simp
  ultimately have "chunk_blob env (content h) q" using rep(3,4,6) unfolding chunk_blob_def hb_def by blast
  with w True env(1) assms(2) \<open>stored_frames env (content h) q\<close> show ?thesis
    by (auto simp: ChunkIO_Sync_def chunk_rep_def)
qed

lemma ensureHeader_fresh:
  assumes "chunk_env_ok ops env" "chunk_fresh env content inv q ch"
  shows "\<exists>ch'. ensureHeader env ch = (ch', None) \<and> chunk_rep env content inv q ch'"
proof -
  have env: "ce_ops env = ops" "aead_ok (ce_c env)" "gob_ok (ce_c env) (ce_gob env)" "ce_pooled env = []"
    using assms(1) by (simp_all add: chunk_env_ok_def)
  have f: "inv (ch_bh ch)" "\<not> ch_didReadHeader ch" "PayloadLen (ch_header ch) = 0" "ch_cachedFrame ch = None"
    "chunk_blob env (content (ch_bh ch)) q" "stored_frames env (content (ch_bh ch)) q" "int (length q) \<le> MaxInt32" "header_range (ch_header ch)"
    using assms(2) by (auto simp: chunk_fresh_def chunk_blob_def)
  show ?thesis
  proof (cases "content (ch_bh ch) = []")
    case True
    have "ChunkHeaderLength \<noteq> 0" by (simp add: ChunkHeaderLength_def)
    then have "q = []"
      using f(5) True length_header_bytes [OF env(3,2)] unfolding chunk_blob_def
      by (metis fread_def length_0_conv take_Nil drop_Nil)
    with True f env(1) size_content [OF f(1)] show ?thesis
      by (auto simp: ensureHeader_def chunk_rep_def)
  next
    case False
    then obtain k h where h: "fread (content (ch_bh ch)) 0 ChunkHeaderLength = header_bytes (ce_c env) (ce_gob env) (ce_rnd env) k h"
      "PayloadLen h = length q" "header_range h"
      using f(5) by (auto simp: chunk_blob_def)
    have "length (fread (content (ch_bh ch)) 0 ChunkHeaderLength) = ChunkHeaderLength"
      unfolding h(1) by (rule length_header_bytes [OF env(3,2) h(3)])
    then have "ChunkHeaderLength \<le> length (content (ch_bh ch))" by simp
    then have "offset_holds content inv (ch_bh ch, 0) (header_bytes (ce_c env) (ce_gob env) (ce_rnd env) k h @ [])"
      using f(1) h(1) length_header_bytes [OF env(3,2) h(3), of "ce_rnd env" k] by (simp add: offset_holds_def)
    from offset_reader.ReadFrom_header [OF env(2,3) h(3) this, of "ch_header ch"] False size_content [OF f(1)] env f h(2)
      set_fields_range [OF clip_header_range [OF h(3)] f(8)]
    show ?thesis by (auto simp: ensureHeader_def chunk_rep_def set_fields_len)
  qed
qed

lemma ensureHeader_state:
  assumes "chunk_env_ok ops env" "chunk_state env content inv q ch"
  shows "\<exists>ch'. ensureHeader env ch = (ch', None) \<and> chunk_rep env content inv q ch'"
  using assms ensureHeader_fresh ensureHeader_rep unfolding chunk_state_def by blast

text \<open>The operations on a chunk in any state.\<close>

lemma PRead_state:
  assumes "chunk_env_ok ops env" "chunk_state env content inv q ch" "0 \<le> off" "off + int n \<le> int (length q)"
  shows "\<exists>ch'. ChunkIO_PRead env n off ch = (ch', Inr (fread q (nat off) n)) \<and> chunk_state env content inv q ch'"
proof -
  obtain ch1 where ch1: "ensureHeader env ch = (ch1, None)" "chunk_rep env content inv q ch1"
    using ensureHeader_state [OF assms(1,2)] by blast
  then have "ChunkIO_PRead env n off ch = ChunkIO_PRead env n off ch1"
    using ensureHeader_rep [OF ch1(2)] by (simp add: ChunkIO_PRead_def)
  with PRead_rep [OF assms(1) ch1(2) assms(3,4)] show ?thesis by (auto simp: chunk_state_def)
qed

lemma PWrite_state:
  assumes "chunk_env_ok ops env" "chunk_state env content inv q ch" "0 \<le> off" "off + int (length p) \<le> MaxInt32"
  shows "\<exists>ch'. ChunkIO_PWrite env p off ch = (ch', None) \<and> chunk_state env content inv (fwrite q (nat off) p) ch'"
proof -
  obtain ch1 where ch1: "ensureHeader env ch = (ch1, None)" "chunk_rep env content inv q ch1"
    using ensureHeader_state [OF assms(1,2)] by blast
  then have "ChunkIO_PWrite env p off ch = ChunkIO_PWrite env p off ch1"
    using ensureHeader_rep [OF ch1(2)] by (simp add: ChunkIO_PWrite_def)
  with PWrite_rep [OF assms(1) ch1(2) assms(3,4)] show ?thesis by (auto simp: chunk_state_def)
qed

lemma Size_state:
  assumes "chunk_env_ok ops env" "chunk_state env content inv q ch"
  shows "\<exists>ch'. ChunkIO_Size env ch = (ch', int (length q)) \<and> chunk_state env content inv q ch'"
  using ensureHeader_state [OF assms] by (auto simp: ChunkIO_Size_def ChunkIO_PayloadLen_def chunk_state_def dest: chunk_repD)

lemma Close_state:
  assumes "chunk_env_ok ops env" "chunk_state env content inv q ch"
  shows "\<exists>ch'. ChunkIO_Close env ch = (ch', None) \<and> inv (ch_bh ch') \<and> chunk_blob env (content (ch_bh ch')) q"
  using assms(2) Sync_rep [OF assms(1), of q ch] unfolding chunk_state_def
  by (auto simp: ChunkIO_Close_def ChunkIO_Sync_def chunk_fresh_def chunk_rep_def)

lemma Open_state:
  assumes "inv h" "chunk_blob env (content h) q" "PayloadLen md = 0" "header_range md"
  shows "chunk_state env content inv q (NewChunkIOWithMetadata h md)"
  using assms by (simp add: chunk_state_def chunk_fresh_def NewChunkIOWithMetadata_def NewChunkIO_def header_range_def MaxInt64_def)

end

lemma chunk_blob_empty: "chunk_blob env [] []"
  by (simp add: chunk_blob_def stored_frames_def MaxInt32_def)

section \<open>A codec that keeps the contract\<close>

fun enc_nat :: "nat \<Rightarrow> nat \<Rightarrow> byte list" where
  "enc_nat 0 x = []"
| "enc_nat (Suc k) x = word_of_nat (x mod 256) # enc_nat k (x div 256)"

fun dec_nat :: "byte list \<Rightarrow> nat" where
  "dec_nat [] = 0"
| "dec_nat (b # bs) = unat b + 256 * dec_nat bs"

lemma dec_enc_nat: "x < 256 ^ k \<Longrightarrow> dec_nat (enc_nat k x) = x"
proof (induction k arbitrary: x)
  case (Suc k)
  then have "x div 256 < 256 ^ k" by (simp add: less_mult_imp_div_less mult.commute)
  with Suc.IH have "dec_nat (enc_nat k (x div 256)) = x div 256" by blast
  then show ?case by (simp add: unsigned_of_nat take_bit_eq_mod)
qed simp

lemma length_enc_nat [simp]: "length (enc_nat k x) = k"
  by (induction k arbitrary: x) auto

fun enc_field :: "header_field \<Rightarrow> byte list" where
  "enc_field (FFrameEncapsulation b) = [1, b]"
| "enc_field (FPayloadLen n) = 2 # enc_nat 4 n"
| "enc_field (FPayloadVersion v) = 3 # enc_nat 8 (nat (v + 2 ^ 63))"
| "enc_field (FOrigFilename s) = 4 # enc_nat 2 (length s) @ map (\<lambda>ch. word_of_nat (of_char ch)) s"
| "enc_field (FOrigOffset x) = 5 # enc_nat 8 (nat (x + 2 ^ 63))"

definition dec_int64 :: "byte list \<Rightarrow> int" where
  "dec_int64 bs = int (dec_nat bs) - 2 ^ 63"

function dec_fields :: "byte list \<Rightarrow> header_field list" where
  "dec_fields [] = []"
| "dec_fields (t # bs) =
     (if t = 1 then FFrameEncapsulation (hd bs) # dec_fields (drop 1 bs)
      else if t = 2 then FPayloadLen (dec_nat (take 4 bs)) # dec_fields (drop 4 bs)
      else if t = 3 then FPayloadVersion (dec_int64 (take 8 bs)) # dec_fields (drop 8 bs)
      else if t = 4 then
        (let n = dec_nat (take 2 bs) in
         FOrigFilename (map (\<lambda>b. char_of (unat b)) (take n (drop 2 bs))) # dec_fields (drop n (drop 2 bs)))
      else if t = 5 then FOrigOffset (dec_int64 (take 8 bs)) # dec_fields (drop 8 bs)
      else [])"
  by pat_completeness auto
termination
  by (relation "measure length") auto

definition field_ok :: "header_field \<Rightarrow> bool" where
  "field_ok f = (case f of FFrameEncapsulation b \<Rightarrow> True | FPayloadLen n \<Rightarrow> n < 2 ^ 32
     | FPayloadVersion v \<Rightarrow> - (2 ^ 63) \<le> v \<and> v \<le> MaxInt64
     | FOrigFilename s \<Rightarrow> length s \<le> MaxOrigFilenameLen
     | FOrigOffset x \<Rightarrow> - (2 ^ 63) \<le> x \<and> x \<le> MaxInt64)"

lemma dec_enc_int64: "- (2 ^ 63) \<le> v \<Longrightarrow> v \<le> MaxInt64 \<Longrightarrow> dec_int64 (enc_nat 8 (nat (v + 2 ^ 63))) = v"
  by (simp add: dec_int64_def dec_enc_nat MaxInt64_def)

lemma char_byte: "char_of (unat (word_of_nat (of_char ch) :: byte)) = ch"
proof -
  have "of_char ch mod 256 = (of_char ch :: nat)" using nat_of_char_less_256 [of ch] by simp
  then show ?thesis by (simp add: unsigned_of_nat take_bit_eq_mod)
qed

lemma dec_enc_field: "field_ok f \<Longrightarrow> dec_fields (enc_field f @ bs) = f # dec_fields bs"
proof (cases f)
  case (FOrigFilename s)
  moreover assume "field_ok f"
  ultimately have "dec_nat (enc_nat 2 (length s)) = length s" by (intro dec_enc_nat) (simp add: field_ok_def MaxOrigFilenameLen_def)
  with FOrigFilename show ?thesis by (simp add: Let_def comp_def char_byte del: enc_nat.simps)
qed (auto simp: field_ok_def dec_enc_nat dec_enc_int64 [simplified] simp del: enc_nat.simps)

lemma dec_enc_fields: "\<forall>f\<in>set fs. field_ok f \<Longrightarrow> dec_fields (concat (map enc_field fs) @ replicate n 0) = fs"
proof (induction fs)
  case Nil
  then show ?case by (cases n) auto
qed (simp add: dec_enc_field)

definition toy_gob :: header_gob where
  "toy_gob = \<lparr>gob_Encode = (\<lambda>fs. concat (map enc_field fs)), gob_Decode = (\<lambda>bs. Inr (dec_fields bs))\<rparr>"

lemma toy_gob_ok: "gob_ok toy_cipher toy_gob"
proof -
  have len: "header_framelen toy_cipher = 4091"
    by (simp add: header_framelen_def frameOverhead_def toy_cipher_def ChunkHeaderLength_def SignatureLength_def)
  have enc: "int (length (gob_Encode toy_gob (header_fields h))) \<le> header_framelen toy_cipher"
    if name: "length (OrigFilename h) \<le> MaxOrigFilenameLen" for h
  proof -
    have "length (gob_Encode toy_gob (header_fields h)) \<le> 2 + 5 + 9 + (3 + length (OrigFilename h)) + 9"
      by (simp add: toy_gob_def header_fields_def del: enc_nat.simps)
    then show ?thesis using name len by (simp add: MaxOrigFilenameLen_def)
  qed
  have dec: "gob_Decode toy_gob (gob_Encode toy_gob (header_fields h) @ replicate n 0) = Inr (header_fields h)"
    if "header_range h" "length (OrigFilename h) \<le> MaxOrigFilenameLen" for h n
  proof -
    from that have "\<forall>f\<in>set (header_fields h). field_ok f"
      by (auto simp: header_fields_def field_ok_def header_range_def)
    then show ?thesis by (simp add: toy_gob_def dec_enc_fields)
  qed
  show ?thesis unfolding gob_ok_def using len enc dec by auto
qed

definition toy_env :: "'h BlobHandle \<Rightarrow> 'h chunk_env" where
  "toy_env ops = \<lparr>ce_ops = ops, ce_c = toy_cipher, ce_gob = toy_gob, ce_rnd = (\<lambda>i. of_nat i), ce_pooled = []\<rparr>"

lemma toy_env_ok: "chunk_env_ok ops (toy_env ops)"
  by (simp add: chunk_env_ok_def toy_env_def toy_cipher_ok toy_gob_ok)

section \<open>Properties\<close>

fun chunk_writes :: "'h chunk_env \<Rightarrow> (byte list \<times> int) list \<Rightarrow> 'h ChunkIO \<Rightarrow> 'h ChunkIO \<times> error option" where
  "chunk_writes env [] ch = (ch, None)"
| "chunk_writes env ((p, off) # ws) ch =
     (case ChunkIO_PWrite env p off ch of
        (ch', Some e) \<Rightarrow> (ch', Some e)
      | (ch', None) \<Rightarrow> chunk_writes env ws ch')"

definition ideal_payload :: "(byte list \<times> int) list \<Rightarrow> byte list \<Rightarrow> byte list" where
  "ideal_payload ws q = fold (\<lambda>(p, off) q. fwrite q (nat off) p) ws q"

context blob_handle
begin

lemma chunk_writes_state:
  assumes "chunk_env_ok ops env" "chunk_state env content inv q ch"
    and "\<forall>(p, off)\<in>set ws. 0 \<le> off \<and> off + int (length p) \<le> MaxInt32"
  shows "\<exists>ch'. chunk_writes env ws ch = (ch', None) \<and> chunk_state env content inv (ideal_payload ws q) ch'"
  using assms(2,3)
proof (induction ws arbitrary: q ch)
  case (Cons w ws)
  obtain p off where w: "w = (p, off)" by (cases w)
  obtain ch1 where ch1: "ChunkIO_PWrite env p off ch = (ch1, None)" "chunk_state env content inv (fwrite q (nat off) p) ch1"
    using PWrite_state [OF assms(1) Cons(2), of off p] Cons(3) w by auto
  with Cons(1) [OF ch1(2)] Cons(3) w show ?case by (auto simp: ideal_payload_def)
qed (auto simp: ideal_payload_def)

end

text \<open>
  C5. Writes at any offsets inside the 2 GiB a chunk can hold, in any order, overlapping or with gaps,
  into a new chunk all succeed, and after \<open>Close\<close> a new \<open>ChunkIO\<close> over the same file reads exactly
  the bytes an ideal file would hold after the same writes: frames, padding, zero filling, header
  and encryption do not show.
\<close>

theorem chunk_written_closed_reopened:
  assumes "chunk_env_ok FileBlobHandle_ops env" "fh_readable h" "fh_writable h" "fh_content h = []"
    and "\<forall>(p, off)\<in>set ws. 0 \<le> off \<and> off + int (length p) \<le> MaxInt32"
    and "PayloadLen md = 0" "header_range md" "PayloadLen md' = 0" "header_range md'"
  shows "\<exists>ch1 ch2. chunk_writes env ws (NewChunkIOWithMetadata h md) = (ch1, None) \<and> ChunkIO_Close env ch1 = (ch2, None) \<and>
    (\<forall>off n. off + n \<le> length (ideal_payload ws []) \<longrightarrow>
       snd (ChunkIO_PRead env n (int off) (NewChunkIOWithMetadata (ch_bh ch2) md')) = Inr (fread (ideal_payload ws []) off n))"
proof -
  have "chunk_state env fh_content (\<lambda>h. fh_readable h \<and> fh_writable h) [] (NewChunkIOWithMetadata h md)"
    using assms(2-4,6,7) chunk_blob_empty by (intro file_handle.Open_state) auto
  from file_handle.chunk_writes_state [OF assms(1) this assms(5)] obtain ch1 where
    ch1: "chunk_writes env ws (NewChunkIOWithMetadata h md) = (ch1, None)"
      "chunk_state env fh_content (\<lambda>h. fh_readable h \<and> fh_writable h) (ideal_payload ws []) ch1" by blast
  from file_handle.Close_state [OF assms(1) ch1(2)] obtain ch2 where
    ch2: "ChunkIO_Close env ch1 = (ch2, None)" "fh_readable (ch_bh ch2) \<and> fh_writable (ch_bh ch2)"
      "chunk_blob env (fh_content (ch_bh ch2)) (ideal_payload ws [])" by blast
  note again = file_handle.Open_state [OF ch2(2,3) assms(8,9)]
  have "snd (ChunkIO_PRead env n (int off) (NewChunkIOWithMetadata (ch_bh ch2) md')) = Inr (fread (ideal_payload ws []) off n)"
    if "off + n \<le> length (ideal_payload ws [])" for off n
    using file_handle.PRead_state [OF assms(1) again, of "int off" n] that by auto
  with ch1(1) ch2(1) show ?thesis by blast
qed

theorem chunk_written_closed_reopened_witness:
  "\<exists>ch1 ch2. chunk_writes (toy_env FileBlobHandle_ops) [([1, 2], 3), ([9], 0)]
      (NewChunkIOWithMetadata \<lparr>fh_content = [], fh_readable = True, fh_writable = True\<rparr> zero_header) = (ch1, None) \<and>
    ChunkIO_Close (toy_env FileBlobHandle_ops) ch1 = (ch2, None) \<and>
    snd (ChunkIO_PRead (toy_env FileBlobHandle_ops) 5 0 (NewChunkIOWithMetadata (ch_bh ch2) zero_header)) = Inr [9, 0, 0, 1, 2]"
proof -
  have ideal: "ideal_payload [([1, 2], 3), ([9], 0)] [] = [9, 0, 0, 1, 2]"
    by (simp add: ideal_payload_def fwrite_def numeral_eq_Suc)
  have h0: "PayloadLen zero_header = 0" "header_range zero_header"
    by (simp_all add: zero_header_def header_range_def MaxInt64_def)
  have ws: "\<forall>(p, off)\<in>set [([1, 2 :: byte], 3), ([9], 0)]. 0 \<le> off \<and> off + int (length p) \<le> MaxInt32"
    by (simp add: MaxInt32_def)
  define h where "h = \<lparr>fh_content = [], fh_readable = True, fh_writable = True\<rparr>"
  have h: "fh_readable h" "fh_writable h" "fh_content h = []" by (simp_all add: h_def)
  obtain ch1 ch2 where "chunk_writes (toy_env FileBlobHandle_ops) [([1, 2], 3), ([9], 0)] (NewChunkIOWithMetadata h zero_header) = (ch1, None)"
      "ChunkIO_Close (toy_env FileBlobHandle_ops) ch1 = (ch2, None)"
    and r: "\<forall>off n. off + n \<le> length [9, 0, 0, 1, 2 :: byte] \<longrightarrow>
       snd (ChunkIO_PRead (toy_env FileBlobHandle_ops) n (int off) (NewChunkIOWithMetadata (ch_bh ch2) zero_header)) =
         Inr (fread [9, 0, 0, 1, 2] off n)"
    using chunk_written_closed_reopened [OF toy_env_ok h ws h0 h0] unfolding ideal by blast
  moreover from r [rule_format, of 0 5] have
    "snd (ChunkIO_PRead (toy_env FileBlobHandle_ops) 5 0 (NewChunkIOWithMetadata (ch_bh ch2) zero_header)) = Inr [9, 0, 0, 1, 2]"
    by (simp add: fread_def)
  ultimately show ?thesis unfolding h_def by blast
qed

lemma set_fields_default:
  "fold set_field (header_fields h) h0 =
     \<lparr>FrameEncapsulation = (if FrameEncapsulation h = 0 then FrameEncapsulation h0 else FrameEncapsulation h),
      PayloadLen = (if PayloadLen h = 0 then PayloadLen h0 else PayloadLen h),
      PayloadVersion = (if PayloadVersion h = 0 then PayloadVersion h0 else PayloadVersion h),
      OrigFilename = (if OrigFilename h = [] then OrigFilename h0 else OrigFilename h),
      OrigOffset = (if OrigOffset h = 0 then OrigOffset h0 else OrigOffset h)\<rparr>"
  by (cases h0) (simp add: header_fields_def)

context blob_handle
begin

lemma Sync_reads_back:
  assumes "chunk_env_ok ops env" "inv (ch_bh ch)"
    and "header_range (ch_header ch)" "int (PayloadLen (ch_header ch)) \<le> MaxInt32" "ch_needsHeaderUpdate ch"
  shows "\<exists>ch'. ChunkIO_Sync env ch = (ch', None) \<and> snd (ChunkIO_Header env (NewChunkIO (ch_bh ch'))) =
    fold set_field (header_fields (clip_header (ch_header ch))) (ch_header (NewChunkIO (ch_bh ch')))"
proof -
  have env: "ce_ops env = ops" "aead_ok (ce_c env)" "gob_ok (ce_c env) (ce_gob env)" "ce_pooled env = []"
    using assms(1) by (simp_all add: chunk_env_ok_def)
  define hb where "hb = header_bytes (ce_c env) (ce_gob env) (ce_rnd env) (ch_k ch) (ch_header ch)"
  have len: "length hb = ChunkHeaderLength" unfolding hb_def by (rule length_header_bytes [OF env(3,2) assms(3)])
  have "offset_room inv (ch_bh ch, 0) ChunkHeaderLength"
    using assms(2) by (simp add: offset_room_def ChunkHeaderLength_def MaxInt64_def)
  from offset_writer.WriteTo_emits [OF env(2,3) assms(4) this assms(3), of "ce_rnd env" "ch_k ch"]
  obtain h' k' where w: "ChunkHeader_WriteTo (ce_c env) (ce_gob env) (ce_rnd env) (ch_k ch) (OffsetWriter_Write ops)
      (ch_header ch) (ch_bh ch, 0) = ((h', k'), None)" "inv h'" "content h' = fwrite (content (ch_bh ch)) 0 hb"
    by (auto simp: offset_emits_def hb_def)
  have "length (content h') \<ge> ChunkHeaderLength" unfolding w(3) using len
    by (auto simp: length_fwrite ChunkHeaderLength_def)
  moreover have "fread (content h') 0 ChunkHeaderLength = hb"
    unfolding w(3) using fread_fwrite_same [of "content (ch_bh ch)" 0 hb] len by simp
  ultimately have "offset_holds content inv (h', 0) (hb @ [])"
    using w(2) len by (simp add: offset_holds_def)
  from offset_reader.ReadFrom_header [OF env(2,3) assms(3) this [unfolded hb_def], of "ch_header (NewChunkIO h')"]
  obtain s' where "ChunkHeader_ReadFrom (ce_c env) (ce_gob env) [] (OffsetReader_Read ops) (ch_header (NewChunkIO h')) (h', 0) =
      (Inr (fold set_field (header_fields (clip_header (ch_header ch))) (ch_header (NewChunkIO h'))), s')" by blast
  moreover have "bh_Size ops h' \<noteq> 0"
    using \<open>length (content h') \<ge> ChunkHeaderLength\<close> size_content [OF w(2)] by (auto simp: ChunkHeaderLength_def)
  ultimately have "snd (ChunkIO_Header env (NewChunkIO h')) =
      fold set_field (header_fields (clip_header (ch_header ch))) (ch_header (NewChunkIO h'))"
    using env by (simp add: ChunkIO_Header_def ensureHeader_def NewChunkIO_def)
  moreover have "ChunkIO_Sync env ch = (ch\<lparr>ch_bh := h', ch_k := ch_k ch + gcm_NonceSize (ce_c env), ch_needsHeaderUpdate := False\<rparr>, None)"
    using w(1) assms(5) env(1) by (simp add: ChunkIO_Sync_def)
  ultimately show ?thesis by simp
qed

end

text \<open>
  C23. What \<open>Sync\<close> writes, a \<open>ChunkIO\<close> opened later reads back: the length and the version of the
  payload, and the file name, shortened if it is longer than 1024 bytes. A field that is zero is
  not stored and comes back with the preset of \<open>NewChunkIO\<close>: the offset 0 of the first chunk of
  every file comes back as -1.
\<close>

theorem Sync_header_roundtrip:
  assumes "chunk_env_ok FileBlobHandle_ops env" "fh_readable (ch_bh ch)" "fh_writable (ch_bh ch)"
    and "header_range (ch_header ch)" "int (PayloadLen (ch_header ch)) \<le> MaxInt32" "ch_needsHeaderUpdate ch"
  shows "\<exists>ch' h. ChunkIO_Sync env ch = (ch', None) \<and> snd (ChunkIO_Header env (NewChunkIO (ch_bh ch'))) = h \<and>
    PayloadLen h = PayloadLen (ch_header ch) \<and>
    PayloadVersion h = (if PayloadVersion (ch_header ch) = 0 then 1 else PayloadVersion (ch_header ch)) \<and>
    OrigOffset h = (if OrigOffset (ch_header ch) = 0 then - 1 else OrigOffset (ch_header ch)) \<and>
    (OrigFilename (ch_header ch) \<noteq> [] \<and> length (OrigFilename (ch_header ch)) \<le> MaxOrigFilenameLen \<longrightarrow>
       OrigFilename h = OrigFilename (ch_header ch))"
proof -
  obtain ch' where "ChunkIO_Sync env ch = (ch', None)"
    "snd (ChunkIO_Header env (NewChunkIO (ch_bh ch'))) =
      fold set_field (header_fields (clip_header (ch_header ch))) (ch_header (NewChunkIO (ch_bh ch')))"
    using file_handle.Sync_reads_back [OF assms(1) _ assms(4-6)] assms(2,3) by auto
  then show ?thesis by (simp add: set_fields_default NewChunkIO_def) (simp add: clip_header_def Let_def)
qed

definition toy_chunk :: "FileBlobHandle ChunkIO" where
  "toy_chunk = (NewChunkIOWithMetadata \<lparr>fh_content = [], fh_readable = True, fh_writable = True\<rparr>
     (zero_header\<lparr>OrigFilename := ''a'', PayloadLen := 5\<rparr>))\<lparr>ch_needsHeaderUpdate := True\<rparr>"

theorem Sync_header_roundtrip_witness:
  "\<exists>ch'. ChunkIO_Sync (toy_env FileBlobHandle_ops) toy_chunk = (ch', None) \<and>
     OrigOffset (ch_header toy_chunk) = 0 \<and>
     OrigOffset (snd (ChunkIO_Header (toy_env FileBlobHandle_ops) (NewChunkIO (ch_bh ch')))) = - 1"
proof -
  have "fh_readable (ch_bh toy_chunk)" "fh_writable (ch_bh toy_chunk)" "header_range (ch_header toy_chunk)"
    "int (PayloadLen (ch_header toy_chunk)) \<le> MaxInt32" "ch_needsHeaderUpdate toy_chunk" "OrigOffset (ch_header toy_chunk) = 0"
    by (simp_all add: toy_chunk_def NewChunkIOWithMetadata_def NewChunkIO_def zero_header_def header_range_def MaxInt64_def MaxInt32_def)
  with Sync_header_roundtrip [OF toy_env_ok, of toy_chunk] show ?thesis by auto
qed

text \<open>
  Reading a frame or more behind the end of a chunk panics: the length of the frame that would
  have to be read is negative, and the slice of the buffer is taken before anything is checked.
\<close>

theorem PRead_behind_end_panics:
  assumes "ch_didReadHeader ch" "ch_cachedFrame ch = None" "0 \<le> off" "off \<le> MaxInt32" "0 < n"
    and "int (PayloadLen (ch_header ch)) + int (frameOverhead (ce_c env)) < int (nat off div ContentFramePayloadLength * ContentFramePayloadLength)"
  shows "ChunkIO_PRead env n off ch = (ch, Inl (Panic ''slice bounds out of range''))"
proof -
  define i where "i = nat off div ContentFramePayloadLength"
  define a where "a = i * ContentFramePayloadLength"
  have "int (PayloadLen (ch_header ch)) - int a \<le> int ContentFramePayloadLength"
    "int (PayloadLen (ch_header ch)) - int a + int (frameOverhead (ce_c env)) < 0"
    using assms(6) unfolding a_def [symmetric] i_def [symmetric] by simp_all
  then have "readCachedContentFrame env i ch = (ch, Inl (Panic ''slice bounds out of range''))"
    unfolding readCachedContentFrame_def readContentFrame_def PayloadLen_read [OF assms(1)] assms(2) prod.case option.case
      Let_def a_def [symmetric] by simp
  with assms(1,3,4,5) show ?thesis
    by (simp add: ChunkIO_PRead_def ensureHeader_def, subst pread_loop.simps, simp flip: i_def)
qed

theorem PRead_behind_end_panics_witness:
  "snd (ChunkIO_PRead (toy_env FileBlobHandle_ops) 1 262144 (toy_chunk\<lparr>ch_didReadHeader := True\<rparr>)) =
     Inl (Panic ''slice bounds out of range'')"
proof -
  have "nat 262144 div ContentFramePayloadLength * ContentFramePayloadLength = 262144"
    by (simp add: ContentFramePayloadLength_def BtnFrameMaxPayload_def)
  then show ?thesis
    using PRead_behind_end_panics [of "toy_chunk\<lparr>ch_didReadHeader := True\<rparr>" 262144 1 "toy_env FileBlobHandle_ops"]
    by (simp add: toy_chunk_def NewChunkIOWithMetadata_def NewChunkIO_def zero_header_def MaxInt32_def toy_env_def toy_cipher_def frameOverhead_def)
qed

end
