(* ===== verification/Chunked_File.thy ===== *)
theory Chunked_File
  imports Chunk_Payload Inode_DB
begin

text \<open>
  A file as an array of chunks (\<open>chunkstore/chunkedfile.go\<close>).

  \<^item> What \<open>ChunkedFileIO\<close> uses of its blob store and of the \<open>ChunkIO\<close>s over it is the record
    \<open>chunk_ops\<close>: \<open>'s\<close> is the store, \<open>'h\<close> a blob handle, \<open>'i\<close> a \<open>ChunkIO\<close>, which reads and writes the
    store through its handle. The chunk array is kept through \<open>'a ChunksArrayIO\<close>.
  \<^item> \<open>PWrite\<close> only logs a failure to write a chunk and tries again with the next or with a new chunk;
    its two loops may run forever, so that they have fuel, and \<open>None\<close> is running out of it.
  \<^item> \<open>ReadAt\<close> gets the contents of its buffer and returns the new contents with the count.
\<close>

section \<open>Interfaces\<close>

definition ChunkSplitSize :: int where
  "ChunkSplitSize = 256 * 1024 * 1024"

record 'a ChunksArrayIO =
  ca_Read :: "'a \<Rightarrow> FileChunk list result"
  ca_Write :: "FileChunk list \<Rightarrow> 'a \<Rightarrow> error option \<times> 'a"

record SimpleDBChunksArrayIO =
  Cs :: "FileChunk list"

definition NewSimpleDBChunksArrayIO :: SimpleDBChunksArrayIO where
  "NewSimpleDBChunksArrayIO = \<lparr>Cs = []\<rparr>"

definition SimpleDBChunksArrayIO_ops :: "SimpleDBChunksArrayIO ChunksArrayIO" where
  "SimpleDBChunksArrayIO_ops = \<lparr>ca_Read = (\<lambda>caio. Inr (Cs caio)), ca_Write = (\<lambda>cs caio. (None, caio\<lparr>Cs := cs\<rparr>))\<rparr>"

record ('s, 'h, 'i) chunk_ops =
  co_Flags :: "'s \<Rightarrow> flags"
  co_GenerateNewBlobPath :: "'s \<Rightarrow> string result \<times> 's"
  co_Open :: "string \<Rightarrow> flags \<Rightarrow> 's \<Rightarrow> 'h result \<times> 's"
  co_CloseHandle :: "'h \<Rightarrow> 's \<Rightarrow> error option \<times> 's"
  co_newChunkIO :: "'h \<Rightarrow> string \<Rightarrow> int \<Rightarrow> 'i"
  co_PRead :: "nat \<Rightarrow> int \<Rightarrow> 'i \<times> 's \<Rightarrow> ('i \<times> 's) \<times> (byte list) result"
  co_PWrite :: "byte list \<Rightarrow> int \<Rightarrow> 'i \<times> 's \<Rightarrow> ('i \<times> 's) \<times> error option"
  co_Size :: "'i \<times> 's \<Rightarrow> ('i \<times> 's) \<times> int"
  co_Truncate :: "int \<Rightarrow> 'i \<times> 's \<Rightarrow> ('i \<times> 's) \<times> error option"
  co_Close :: "'i \<times> 's \<Rightarrow> ('i \<times> 's) \<times> error option"

record ('s, 'h, 'i, 'a) ChunkedFileIO =
  cf_bs :: 's
  cf_caio :: 'a
  cf_origFilename :: string
  cf_cs :: "FileChunk list"
  cf_cachedBh :: "'h option"
  cf_cachedCio :: "'i option"
  cf_cachedCioBlobpath :: string

section \<open>Opening\<close>

text \<open>A chunk array that cannot be read makes the constructor return nil.\<close>

definition NewChunkedFileIO :: "'s \<Rightarrow> 'a ChunksArrayIO \<Rightarrow> 'a \<Rightarrow> ('s, 'h, 'i, 'a) ChunkedFileIO option" where
  "NewChunkedFileIO bs caops caio =
     (case ca_Read caops caio of
        Inl e \<Rightarrow> None
      | Inr cs \<Rightarrow>
          Some \<lparr>cf_bs = bs, cf_caio = caio, cf_origFilename = ''<unknown>'', cf_cs = cs,
                cf_cachedBh = None, cf_cachedCio = None, cf_cachedCioBlobpath = ''''\<rparr>)"

definition SetOrigFilename :: "string \<Rightarrow> ('s, 'h, 'i, 'a) ChunkedFileIO \<Rightarrow> ('s, 'h, 'i, 'a) ChunkedFileIO" where
  "SetOrigFilename name cf = cf\<lparr>cf_origFilename := name\<rparr>"

definition newFileChunk ::
    "('s, 'h, 'i) chunk_ops \<Rightarrow> int \<Rightarrow> ('s, 'h, 'i, 'a) ChunkedFileIO \<Rightarrow> ('s, 'h, 'i, 'a) ChunkedFileIO \<times> FileChunk result" where
  "newFileChunk co newo cf =
     (case co_GenerateNewBlobPath co (cf_bs cf) of
        (Inl e, s) \<Rightarrow> (cf\<lparr>cf_bs := s\<rparr>, Inl (errorf ''Failed to generate new blobpath'' e))
      | (Inr bpath, s) \<Rightarrow> (cf\<lparr>cf_bs := s\<rparr>, Inr \<lparr>fc_Offset = newo, fc_Length = 0, fc_BlobPath = bpath\<rparr>))"

definition closeCachedChunkIO ::
    "('s, 'h, 'i) chunk_ops \<Rightarrow> ('s, 'h, 'i, 'a) ChunkedFileIO \<Rightarrow> ('s, 'h, 'i, 'a) ChunkedFileIO \<times> error option" where
  "closeCachedChunkIO co cf =
     (let (cf1, e1) =
        (case cf_cachedCio cf of
           None \<Rightarrow> (cf, None)
         | Some cio \<Rightarrow>
             (case co_Close co (cio, cf_bs cf) of
                ((_, s), e) \<Rightarrow>
                  (cf\<lparr>cf_bs := s, cf_cachedCio := None\<rparr>, map_option (errorf ''Failed to close previously cached cio'') e)));
          (cf2, e2) =
        (case cf_cachedBh cf1 of
           None \<Rightarrow> (cf1, None)
         | Some bh \<Rightarrow>
             (case co_CloseHandle co bh (cf_bs cf1) of
                (e, s) \<Rightarrow>
                  (cf1\<lparr>cf_bs := s, cf_cachedBh := None\<rparr>, map_option (errorf ''Failed to close previously cached bh'') e)))
      in (cf2\<lparr>cf_cachedCioBlobpath := ''''\<rparr>, case e1 of Some e \<Rightarrow> Some e | None \<Rightarrow> e2))"

unbundle bit_operations_syntax

definition openChunkIO ::
    "('s, 'h, 'i) chunk_ops \<Rightarrow> string \<Rightarrow> bool \<Rightarrow> int \<Rightarrow> ('s, 'h, 'i, 'a) ChunkedFileIO \<Rightarrow>
     ('s, 'h, 'i, 'a) ChunkedFileIO \<times> 'i result" where
  "openChunkIO co blobpath isNewChunk offset cf =
     (if blobpath = cf_cachedCioBlobpath cf then
        if isNewChunk then (cf, Inl (Panic ''isNewChunk specified, but cache hit!''))
        else case cf_cachedCio cf of
            None \<Rightarrow> (cf, Inl (Panic ''blobpath match, but cachedCio nil!''))
          | Some cio \<Rightarrow> (cf, Inr cio)
      else
        case closeCachedChunkIO co cf of
          (cf1, Some e) \<Rightarrow> (cf1, Inl e)
        | (cf1, None) \<Rightarrow>
            (let f0 = (if IsWriteAllowed (co_Flags co (cf_bs cf1)) then O_RDWR else O_RDONLY);
                 f = (if isNewChunk then f0 OR (O_CREATE OR O_EXCL) else f0)
             in case co_Open co blobpath f (cf_bs cf1) of
                  (Inl e, s) \<Rightarrow> (cf1\<lparr>cf_bs := s\<rparr>, Inl (errorf ''Failed to open path'' e))
                | (Inr bh, s) \<Rightarrow>
                    (let cio = co_newChunkIO co bh (cf_origFilename cf1) offset in
                     (cf1\<lparr>cf_bs := s, cf_cachedBh := Some bh, cf_cachedCio := Some cio, cf_cachedCioBlobpath := blobpath\<rparr>,
                      Inr cio))))"

section \<open>PWrite\<close>

text \<open>
  \<open>writeToChunk\<close> returns the chunk with its new length, the number of bytes written and whether the
  length changed. An error is logged and becomes 0 bytes; only a panic leaves the function.
\<close>

definition writeToChunk ::
    "('s, 'h, 'i) chunk_ops \<Rightarrow> FileChunk \<Rightarrow> bool \<Rightarrow> int \<Rightarrow> byte list \<Rightarrow> int \<Rightarrow> ('s, 'h, 'i, 'a) ChunkedFileIO \<Rightarrow>
     ('s, 'h, 'i, 'a) ChunkedFileIO \<times> (FileChunk \<times> nat \<times> bool) result" where
  "writeToChunk co c isNewChunk maxChunkLen p offset cf =
     (case openChunkIO co (fc_BlobPath c) isNewChunk (FileChunk_Left c) cf of
        (cf1, Inl e) \<Rightarrow> (cf1, if is_panic e then Inl e else Inr (c, 0, False))
      | (cf1, Inr cio) \<Rightarrow>
          (let coff = wrap64 (offset - FileChunk_Left c);
               n = min (int (length p)) (wrap64 (maxChunkLen - coff))
           in
           if n < 0 then (cf1, Inl (Panic ''Attempt to write negative len''))
           else
             case co_PWrite co (take (nat n) p) coff (cio, cf_bs cf1) of
               ((cio', s), Some e) \<Rightarrow>
                 (cf1\<lparr>cf_bs := s, cf_cachedCio := Some cio'\<rparr>, if is_panic e then Inl e else Inr (c, 0, False))
             | ((cio', s), None) \<Rightarrow>
                 (case co_Size co (cio', s) of
                    ((cio'', s'), sz) \<Rightarrow>
                      (cf1\<lparr>cf_bs := s', cf_cachedCio := Some cio''\<rparr>,
                       Inr (c\<lparr>fc_Length := sz\<rparr>, nat n, fc_Length c \<noteq> sz)))))"

text \<open>\<open>remo / ChunkSplitSize * ChunkSplitSize\<close>; division in Go rounds toward zero.\<close>

definition align_down :: "int \<Rightarrow> int" where
  "align_down x = (if x < 0 then - (- x div ChunkSplitSize) else x div ChunkSplitSize) * ChunkSplitSize"

text \<open>Offset and maximal length of a chunk that is inserted at \<open>i\<close>.\<close>

definition insert_place :: "FileChunk list \<Rightarrow> nat \<Rightarrow> int \<Rightarrow> int \<times> int" where
  "insert_place cs i remo =
     (let newo = align_down remo;
          maxlen = ChunkSplitSize;
          (newo, maxlen) =
            (if i > 0 then
               (let pright = FileChunk_Right (cs ! (i - 1)) in
                if newo < pright then (pright, wrap64 (maxlen - (pright - newo))) else (newo, maxlen))
             else (newo, maxlen));
          maxlen =
            (if int i < int (length cs) - 1 then
               (let next = cs ! (i + 1) in
                if wrap64 (newo + maxlen) > FileChunk_Left next then wrap64 (FileChunk_Left next - newo) else maxlen)
             else maxlen)
      in (newo, maxlen))"

text \<open>The maximal length of the existing chunk \<open>i\<close>.\<close>

definition chunk_maxlen :: "FileChunk list \<Rightarrow> nat \<Rightarrow> int" where
  "chunk_maxlen cs i =
     (let c = cs ! i; maxlen = ChunkSplitSize in
      if int i < int (length cs) - 1 then
        (let next = cs ! (i + 1) in
         if wrap64 (FileChunk_Left c + maxlen) > FileChunk_Left next
         then wrap64 (FileChunk_Left next - FileChunk_Left c) else maxlen)
      else maxlen)"

text \<open>
  The loop over the existing chunks. The new chunk is stored in the array before it is written
  to, so that the array keeps its length 0. The result is \<open>needCSUpdate\<close>, \<open>remo\<close> and \<open>remp\<close>.
\<close>

primrec pwrite_chunks ::
    "('s, 'h, 'i) chunk_ops \<Rightarrow> nat \<Rightarrow> nat \<Rightarrow> bool \<Rightarrow> int \<Rightarrow> byte list \<Rightarrow> ('s, 'h, 'i, 'a) ChunkedFileIO \<Rightarrow>
     (('s, 'h, 'i, 'a) ChunkedFileIO \<times> (bool \<times> int \<times> byte list) result) option" where
  "pwrite_chunks co 0 i need remo remp cf = None"
| "pwrite_chunks co (Suc fuel) i need remo remp cf =
     (if \<not> (i < length (cf_cs cf) \<and> remp \<noteq> []) then Some (cf, Inr (need, remo, remp))
      else if FileChunk_Left (cf_cs cf ! i) > remo then
        (case insert_place (cf_cs cf) i remo of
           (newo, maxlen) \<Rightarrow>
             (case newFileChunk co newo cf of
                (cf1, Inl e) \<Rightarrow> Some (cf1, Inl e)
              | (cf1, Inr newc) \<Rightarrow>
                  (let cf2 = cf1\<lparr>cf_cs := take i (cf_cs cf1) @ [newc] @ drop i (cf_cs cf1)\<rparr> in
                   case writeToChunk co newc True maxlen remp remo cf2 of
                     (cf3, Inl e) \<Rightarrow> Some (cf3, Inl e)
                   | (cf3, Inr (_, n, _)) \<Rightarrow>
                       pwrite_chunks co fuel (i + 1) True (wrap64 (remo + int n)) (drop n remp) cf3)))
      else
        (let maxlen = chunk_maxlen (cf_cs cf) i;
             cRight = wrap64 (FileChunk_Left (cf_cs cf ! i) + maxlen)
         in
         if cRight < remo then pwrite_chunks co fuel (i + 1) need remo remp cf
         else
           case writeToChunk co (cf_cs cf ! i) False maxlen remp remo cf of
             (cf1, Inl e) \<Rightarrow> Some (cf1, Inl e)
           | (cf1, Inr (c', n, updated)) \<Rightarrow>
               pwrite_chunks co fuel (i + 1) (need \<or> updated) (wrap64 (remo + int n)) (drop n remp)
                 (cf1\<lparr>cf_cs := (cf_cs cf1)[i := c']\<rparr>)))"

text \<open>Offset and maximal length of a chunk that is appended.\<close>

definition append_place :: "FileChunk list \<Rightarrow> int \<Rightarrow> int \<times> int" where
  "append_place cs remo =
     (let newo = align_down remo;
          maxlen = ChunkSplitSize
      in
      if cs \<noteq> [] then
        (let lastRight = FileChunk_Right (last cs) in
         if newo < lastRight then (lastRight, wrap64 (maxlen - (lastRight - newo))) else (newo, maxlen))
      else (newo, maxlen))"

text \<open>The loop that appends chunks at the end.\<close>

primrec pwrite_append ::
    "('s, 'h, 'i) chunk_ops \<Rightarrow> nat \<Rightarrow> bool \<Rightarrow> int \<Rightarrow> byte list \<Rightarrow> ('s, 'h, 'i, 'a) ChunkedFileIO \<Rightarrow>
     (('s, 'h, 'i, 'a) ChunkedFileIO \<times> bool result) option" where
  "pwrite_append co 0 need remo remp cf = None"
| "pwrite_append co (Suc fuel) need remo remp cf =
     (if remp = [] then Some (cf, Inr need)
      else
        (case newFileChunk co (fst (append_place (cf_cs cf) remo)) cf of
           (cf1, Inl e) \<Rightarrow> Some (cf1, Inl e)
         | (cf1, Inr newc) \<Rightarrow>
             (case writeToChunk co newc True (snd (append_place (cf_cs cf) remo)) remp remo cf1 of
                (cf2, Inl e) \<Rightarrow> Some (cf2, Inl e)
              | (cf2, Inr (newc', n, _)) \<Rightarrow>
                  pwrite_append co fuel True (wrap64 (remo + int n)) (drop n remp)
                    (cf2\<lparr>cf_cs := cf_cs cf2 @ [newc']\<rparr>))))"

text \<open>A failure to write the chunk array back is logged only.\<close>

definition ChunkedFileIO_PWrite ::
    "('s, 'h, 'i) chunk_ops \<Rightarrow> 'a ChunksArrayIO \<Rightarrow> nat \<Rightarrow> byte list \<Rightarrow> int \<Rightarrow> ('s, 'h, 'i, 'a) ChunkedFileIO \<Rightarrow>
     (('s, 'h, 'i, 'a) ChunkedFileIO \<times> error option) option" where
  "ChunkedFileIO_PWrite co caops fuel p offset cf =
     (if \<not> IsReadWriteAllowed (co_Flags co (cf_bs cf)) then Some (cf, Some (Errno EACCES))
      else if p = [] then Some (cf, None)
      else
        case pwrite_chunks co fuel 0 False offset p cf of
          None \<Rightarrow> None
        | Some (cf1, Inl e) \<Rightarrow> Some (cf1, Some e)
        | Some (cf1, Inr (need, remo, remp)) \<Rightarrow>
            (case pwrite_append co fuel need remo remp cf1 of
               None \<Rightarrow> None
             | Some (cf2, Inl e) \<Rightarrow> Some (cf2, Some e)
             | Some (cf2, Inr need') \<Rightarrow>
                 Some (if need' then cf2\<lparr>cf_caio := snd (ca_Write caops (cf_cs cf2) (cf_caio cf2))\<rparr> else cf2, None)))"

section \<open>ReadAt, Size, Close, Truncate\<close>

definition readFromChunk ::
    "('s, 'h, 'i) chunk_ops \<Rightarrow> FileChunk \<Rightarrow> nat \<Rightarrow> int \<Rightarrow> ('s, 'h, 'i, 'a) ChunkedFileIO \<Rightarrow>
     ('s, 'h, 'i, 'a) ChunkedFileIO \<times> (byte list) result" where
  "readFromChunk co c len coff cf =
     (case openChunkIO co (fc_BlobPath c) False (FileChunk_Left c) cf of
        (cf1, Inl e) \<Rightarrow> (cf1, Inl e)
      | (cf1, Inr cio) \<Rightarrow>
          (let n = min (int len) (wrap64 (fc_Length c - coff)) in
           if n < 0 then (cf1, Inl (Panic ''slice bounds out of range''))
           else
             case co_PRead co (nat n) coff (cio, cf_bs cf1) of
               ((cio', s), r) \<Rightarrow>
                 (cf1\<lparr>cf_bs := s, cf_cachedCio := Some cio'\<rparr>,
                  case r of Inl e \<Rightarrow> Inl (errorf ''cio PRead failed'' e) | Inr bs \<Rightarrow> Inr bs)))"

text \<open>
  The loop of \<open>ReadAt\<close> over the chunks: \<open>buf\<close> is the buffer, of which the first \<open>pos\<close> bytes are done
  (\<open>remp\<close> is the rest). Filling a gap advances \<open>remo\<close>, but not \<open>remp\<close>.
\<close>

primrec read_chunks ::
    "('s, 'h, 'i) chunk_ops \<Rightarrow> FileChunk list \<Rightarrow> int \<Rightarrow> nat \<Rightarrow> byte list \<Rightarrow> ('s, 'h, 'i, 'a) ChunkedFileIO \<Rightarrow>
     ('s, 'h, 'i, 'a) ChunkedFileIO \<times> byte list \<times> int \<times> error option" where
  "read_chunks co [] remo pos buf cf = (cf, buf, remo, None)"
| "read_chunks co (c # cs) remo pos buf cf =
     (if pos \<ge> length buf then (cf, buf, remo, None)
      else if FileChunk_Left c > wrap64 (remo + int (length buf - pos)) then (cf, buf, remo, None)
      else if FileChunk_Right c \<le> remo then read_chunks co cs remo pos buf cf
      else
        (let coff = wrap64 (remo - FileChunk_Left c);
             gap = (if coff < 0 then nat (min (int (length buf - pos)) (- coff)) else 0);
             buf1 = take pos buf @ replicate gap 0 @ drop (pos + gap) buf;
             remo1 = remo + int gap;
             coff1 = max coff 0
         in
         case readFromChunk co c (length buf1 - pos) coff1 cf of
           (cf1, Inl e) \<Rightarrow> (cf1, buf1, remo1, Some (errorf ''readFromChunk failed'' e))
         | (cf1, Inr bs) \<Rightarrow>
             read_chunks co cs (remo1 + int (length bs)) (pos + length bs)
               (take pos buf1 @ bs @ drop (pos + length bs) buf1) cf1))"

definition ChunkedFileIO_ReadAt ::
    "('s, 'h, 'i) chunk_ops \<Rightarrow> byte list \<Rightarrow> int \<Rightarrow> ('s, 'h, 'i, 'a) ChunkedFileIO \<Rightarrow>
     ('s, 'h, 'i, 'a) ChunkedFileIO \<times> byte list \<times> int \<times> error option" where
  "ChunkedFileIO_ReadAt co p offset cf =
     (if offset < 0 then (cf, p, 0, Some (Fmt ''negative offset given''))
      else if \<not> IsReadAllowed (co_Flags co (cf_bs cf)) then (cf, p, 0, Some (Errno EACCES))
      else
        case read_chunks co (cf_cs cf) offset 0 p cf of
          (cf', buf, remo, e) \<Rightarrow> (cf', buf, remo - offset, e))"

definition ChunkedFileIO_Size :: "('s, 'h, 'i, 'a) ChunkedFileIO \<Rightarrow> int" where
  "ChunkedFileIO_Size cf = (if cf_cs cf = [] then 0 else FileChunk_Right (last (cf_cs cf)))"

definition ChunkedFileIO_Close ::
    "('s, 'h, 'i) chunk_ops \<Rightarrow> ('s, 'h, 'i, 'a) ChunkedFileIO \<Rightarrow> ('s, 'h, 'i, 'a) ChunkedFileIO \<times> error option" where
  "ChunkedFileIO_Close co cf = closeCachedChunkIO co cf"

text \<open>The loop of \<open>Truncate\<close> from the last chunk down: the new array, or the error it stops with.\<close>

primrec truncate_chunks ::
    "('s, 'h, 'i) chunk_ops \<Rightarrow> int \<Rightarrow> nat \<Rightarrow> ('s, 'h, 'i, 'a) ChunkedFileIO \<Rightarrow>
     ('s, 'h, 'i, 'a) ChunkedFileIO \<times> error option" where
  "truncate_chunks co sz 0 cf = (cf\<lparr>cf_cs := []\<rparr>, None)"
| "truncate_chunks co sz (Suc i) cf =
     (let c = cf_cs cf ! i in
      if FileChunk_Left c \<ge> sz then truncate_chunks co sz i cf
      else if FileChunk_Right c > sz then
        (case openChunkIO co (fc_BlobPath c) False (FileChunk_Left c) cf of
           (cf1, Inl e) \<Rightarrow> (cf1, Some e)
         | (cf1, Inr cio) \<Rightarrow>
             (case co_Truncate co (sz - FileChunk_Left c) (cio, cf_bs cf1) of
                ((cio', s), Some e) \<Rightarrow> (cf1\<lparr>cf_bs := s, cf_cachedCio := Some cio'\<rparr>, Some e)
              | ((cio', s), None) \<Rightarrow>
                  (case co_Size co (cio', s) of
                     ((cio'', s'), l) \<Rightarrow>
                       (cf1\<lparr>cf_bs := s', cf_cachedCio := Some cio'',
                            cf_cs := take i (cf_cs cf1) @ [c\<lparr>fc_Length := l\<rparr>]\<rparr>, None))))
      else (cf\<lparr>cf_cs := take (Suc i) (cf_cs cf)\<rparr>, None))"

definition ChunkedFileIO_Truncate ::
    "('s, 'h, 'i) chunk_ops \<Rightarrow> 'a ChunksArrayIO \<Rightarrow> int \<Rightarrow> ('s, 'h, 'i, 'a) ChunkedFileIO \<Rightarrow>
     ('s, 'h, 'i, 'a) ChunkedFileIO \<times> error option" where
  "ChunkedFileIO_Truncate co caops sz cf =
     (if \<not> IsReadWriteAllowed (co_Flags co (cf_bs cf)) then (cf, Some (Errno EACCES))
      else
        case truncate_chunks co sz (length (cf_cs cf)) cf of
          (cf1, Some e) \<Rightarrow> (cf1, Some e)
        | (cf1, None) \<Rightarrow>
            (case ca_Write caops (cf_cs cf1) (cf_caio cf1) of
               (e, caio) \<Rightarrow> (cf1\<lparr>cf_caio := caio\<rparr>, map_option (errorf ''Failed to write updated cfio.cs array (empty)'') e)))"

section \<open>A file in chunks as the file below a write cache\<close>

text \<open>
  \<open>ReadAt\<close> as a \<open>ReadAter\<close> delivers the bytes the count stands for, at most the buffer; \<open>PWrite\<close> as a
  \<open>PWriter\<close> that does not return within the fuel hangs.
\<close>

definition cfio_read :: "('s, 'h, 'i) chunk_ops \<Rightarrow> (('s, 'h, 'i, 'a) ChunkedFileIO) ReadAter" where
  "cfio_read co n off cf =
     (case ChunkedFileIO_ReadAt co (replicate n 0) off cf of (cf', buf, k, e) \<Rightarrow> (cf', take (nat k) buf, e))"

definition cfio_write ::
    "('s, 'h, 'i) chunk_ops \<Rightarrow> 'a ChunksArrayIO \<Rightarrow> nat \<Rightarrow> (('s, 'h, 'i, 'a) ChunkedFileIO) PWriter" where
  "cfio_write co caops fuel p off cf =
     (case ChunkedFileIO_PWrite co caops fuel p off cf of None \<Rightarrow> (cf, Some Hang) | Some r \<Rightarrow> r)"

end
