(* ===== verification/Chunked_File_Rep.thy ===== *)
theory Chunked_File_Rep
  imports Chunked_File
begin

text \<open>
  Files in chunks refine ideal files. The locale \<open>chunk_store\<close> is what \<open>ChunkedFileIO\<close> relies on of the
  store and of the open chunks; \<open>file_rep\<close> relates a file without holes to its content \<open>q\<close>: chunk \<open>k\<close>
  is the \<open>k\<close>-th piece of \<open>ChunkSplitSize\<close> bytes, in the chunk that is open or durable in its blob.
  Under that relation \<open>PWrite\<close> is \<open>fwrite\<close> as long as the write starts no chunk behind the end, \<open>ReadAt\<close>
  is \<open>fread\<close>, \<open>Size\<close> is the length, and \<open>Close\<close> makes all chunks durable.
\<close>

section \<open>What a chunk store promises\<close>

text \<open>
  \<open>stored s bp q\<close>: the blob \<open>bp\<close> of the store \<open>s\<close> durably stores the payload \<open>q\<close>; \<open>known s\<close>: the paths in
  use; \<open>has i bp s q\<close>: the open chunk \<open>i\<close> over \<open>bp\<close> has the payload \<open>q\<close>. An operation on a chunk keeps the
  other blobs.
\<close>

definition keeps :: "('s \<Rightarrow> string set) \<Rightarrow> ('s \<Rightarrow> string \<Rightarrow> byte list \<Rightarrow> bool) \<Rightarrow> string \<Rightarrow> 's \<Rightarrow> 's \<Rightarrow> bool" where
  "keeps known stored bp s s' \<longleftrightarrow> known s' = known s \<and> (\<forall>b q. b \<noteq> bp \<longrightarrow> stored s b q \<longrightarrow> stored s' b q)"

locale chunk_store =
  fixes co :: "('s, 'h, 'i) chunk_ops"
    and sinv :: "'s \<Rightarrow> bool"
    and known :: "'s \<Rightarrow> string set"
    and stored :: "'s \<Rightarrow> string \<Rightarrow> byte list \<Rightarrow> bool"
    and has :: "'i \<Rightarrow> string \<Rightarrow> 's \<Rightarrow> byte list \<Rightarrow> bool"
  assumes flags_rw: "sinv s \<Longrightarrow> IsReadWriteAllowed (co_Flags co s)"
    and has_known: "has i bp s q \<Longrightarrow> sinv s \<and> bp \<in> known s"
    and stored_known: "stored s bp q \<Longrightarrow> bp \<in> known s"
    and generate: "sinv s \<Longrightarrow> \<exists>bp s'. co_GenerateNewBlobPath co s = (Inr bp, s') \<and> sinv s' \<and> bp \<notin> known s' \<and> bp \<noteq> '''' \<and>
        (\<forall>b q. stored s b q \<longrightarrow> stored s' b q) \<and> (\<forall>i b q. has i b s q \<longrightarrow> has i b s' q)"
    and open_old: "sinv s \<Longrightarrow> stored s bp q \<Longrightarrow> - (2 ^ 63) \<le> off \<and> off \<le> MaxInt64 \<Longrightarrow>
        \<exists>h s'. co_Open co bp O_RDWR s = (Inr h, s') \<and> keeps known stored bp s s' \<and>
          has (co_newChunkIO co h name off) bp s' q"
    and open_new: "sinv s \<Longrightarrow> bp \<notin> known s \<Longrightarrow> - (2 ^ 63) \<le> off \<and> off \<le> MaxInt64 \<Longrightarrow>
        \<exists>h s'. co_Open co bp (O_RDWR OR (O_CREATE OR O_EXCL)) s = (Inr h, s') \<and>
          known s' = insert bp (known s) \<and> (\<forall>b q. stored s b q \<longrightarrow> stored s' b q) \<and>
          has (co_newChunkIO co h name off) bp s' []"
    and close_handle: "sinv s \<Longrightarrow> \<exists>s'. co_CloseHandle co h s = (None, s') \<and> sinv s' \<and>
        known s' = known s \<and> (\<forall>b q. stored s b q \<longrightarrow> stored s' b q)"
    and chunk_pread: "has i bp s q \<Longrightarrow> 0 \<le> off \<Longrightarrow> off + int n \<le> int (length q) \<Longrightarrow>
        \<exists>i' s'. co_PRead co n off (i, s) = ((i', s'), Inr (fread q (nat off) n)) \<and> has i' bp s' q \<and> keeps known stored bp s s'"
    and chunk_pwrite: "has i bp s q \<Longrightarrow> 0 \<le> off \<Longrightarrow> off + int (length p) \<le> MaxInt32 \<Longrightarrow>
        \<exists>i' s'. co_PWrite co p off (i, s) = ((i', s'), None) \<and> has i' bp s' (fwrite q (nat off) p) \<and> keeps known stored bp s s'"
    and chunk_size: "has i bp s q \<Longrightarrow>
        \<exists>i' s'. co_Size co (i, s) = ((i', s'), int (length q)) \<and> has i' bp s' q \<and> keeps known stored bp s s'"
    and chunk_close: "has i bp s q \<Longrightarrow>
        \<exists>i' s'. co_Close co (i, s) = ((i', s'), None) \<and> sinv s' \<and> stored s' bp q \<and> keeps known stored bp s s'"

section \<open>Files without holes\<close>

text \<open>
  \<open>split_size\<close> is \<open>ChunkSplitSize\<close> as a natural number. In a file without holes chunk \<open>k\<close> holds the
  \<open>k\<close>-th piece of that size, all but the last one full.
\<close>

definition split_size :: nat where
  "split_size = nat ChunkSplitSize"

definition layout :: "FileChunk list \<Rightarrow> byte list \<Rightarrow> bool" where
  "layout cs q \<longleftrightarrow>
     (\<forall>k < length cs. fc_Offset (cs ! k) = int (k * split_size) \<and> fc_Length (cs ! k) = int (length (piece split_size k q)) \<and>
        fc_BlobPath (cs ! k) \<noteq> '''') \<and>
     distinct (map fc_BlobPath cs) \<and> (\<forall>k. k < length cs \<longleftrightarrow> k * split_size < length q) \<and>
     int (length q) + ChunkSplitSize \<le> MaxInt64"

definition cached_ok ::
    "('i \<Rightarrow> string \<Rightarrow> 's \<Rightarrow> byte list \<Rightarrow> bool) \<Rightarrow> ('s, 'h, 'i, 'a) ChunkedFileIO \<Rightarrow> bool" where
  "cached_ok has cf \<longleftrightarrow>
     (if cf_cachedCioBlobpath cf = '''' then cf_cachedCio cf = None
      else \<exists>i q. cf_cachedCio cf = Some i \<and> has i (cf_cachedCioBlobpath cf) (cf_bs cf) q)"

text \<open>The chunk with the path \<open>bp\<close> has the payload \<open>q\<close>, in the open \<open>ChunkIO\<close> or in the store.\<close>

definition chunk_at ::
    "('s \<Rightarrow> string \<Rightarrow> byte list \<Rightarrow> bool) \<Rightarrow> ('i \<Rightarrow> string \<Rightarrow> 's \<Rightarrow> byte list \<Rightarrow> bool) \<Rightarrow>
     ('s, 'h, 'i, 'a) ChunkedFileIO \<Rightarrow> string \<Rightarrow> byte list \<Rightarrow> bool" where
  "chunk_at stored has cf bp q \<longleftrightarrow>
     (if bp = cf_cachedCioBlobpath cf then \<exists>i. cf_cachedCio cf = Some i \<and> has i bp (cf_bs cf) q
      else stored (cf_bs cf) bp q)"

definition file_rep ::
    "('s \<Rightarrow> bool) \<Rightarrow> ('s \<Rightarrow> string \<Rightarrow> byte list \<Rightarrow> bool) \<Rightarrow> ('i \<Rightarrow> string \<Rightarrow> 's \<Rightarrow> byte list \<Rightarrow> bool) \<Rightarrow>
     byte list \<Rightarrow> ('s, 'h, 'i, 'a) ChunkedFileIO \<Rightarrow> bool" where
  "file_rep sinv stored has q cf \<longleftrightarrow>
     sinv (cf_bs cf) \<and> layout (cf_cs cf) q \<and> cached_ok has cf \<and>
     (\<forall>k < length (cf_cs cf). chunk_at stored has cf (fc_BlobPath (cf_cs cf ! k)) (piece split_size k q))"

lemma split_size [simp]: "int split_size = ChunkSplitSize" "0 < split_size" "split_size \<noteq> 0"
  by (simp_all add: split_size_def ChunkSplitSize_def)

lemma file_repD:
  assumes "file_rep sinv stored has q cf"
  shows "sinv (cf_bs cf)" "layout (cf_cs cf) q" "cached_ok has cf"
    "k < length (cf_cs cf) \<Longrightarrow> chunk_at stored has cf (fc_BlobPath (cf_cs cf ! k)) (piece split_size k q)"
  using assms by (auto simp: file_rep_def)

lemma layout_bound: "layout cs q \<Longrightarrow> n \<le> length q \<Longrightarrow> int n + ChunkSplitSize \<le> MaxInt64"
  unfolding layout_def by linarith

lemma int64_range: "int n \<le> MaxInt64 \<Longrightarrow> - (2 ^ 63) \<le> int n \<and> int n \<le> MaxInt64"
  by (intro conjI order_trans [OF _ of_nat_0_le_iff]) simp

lemma split_pos: "0 < ChunkSplitSize"
  by (simp add: ChunkSplitSize_def)

lemma layoutD:
  assumes "layout cs q" "k < length cs"
  shows "FileChunk_Left (cs ! k) = int (k * split_size)" "fc_Length (cs ! k) = int (length (piece split_size k q))"
    "fc_BlobPath (cs ! k) \<noteq> ''''" "k * split_size < length q"
    "FileChunk_Right (cs ! k) = int (min (Suc k * split_size) (length q))"
proof -
  show a: "FileChunk_Left (cs ! k) = int (k * split_size)" and b: "fc_Length (cs ! k) = int (length (piece split_size k q))"
    and "fc_BlobPath (cs ! k) \<noteq> ''''" and c: "k * split_size < length q"
    using assms by (auto simp: layout_def FileChunk_Left_def)
  have "k * split_size + length (piece split_size k q) = min (Suc k * split_size) (length q)"
    using c by (simp add: length_piece)
  then have "fc_Offset (cs ! k) + fc_Length (cs ! k) = int (min (Suc k * split_size) (length q))"
    using a b unfolding FileChunk_Left_def by (metis of_nat_add)
  moreover have "int (min (Suc k * split_size) (length q)) \<le> MaxInt64"
    using layout_bound [OF assms(1) min.cobounded2, of "Suc k * split_size"] split_pos by linarith
  ultimately show "FileChunk_Right (cs ! k) = int (min (Suc k * split_size) (length q))"
    by (simp add: FileChunk_Right_def wrap64_id)
qed

lemma layout_path: "layout cs q \<Longrightarrow> k < length cs \<Longrightarrow> j < length cs \<Longrightarrow> fc_BlobPath (cs ! k) = fc_BlobPath (cs ! j) \<longleftrightarrow> k = j"
  using nth_eq_iff_index_eq [of "map fc_BlobPath cs" k j] by (auto simp: layout_def)

text \<open>A write into chunk \<open>k\<close> changes its piece and its length only.\<close>

lemma piece_write:
  assumes "k * split_size \<le> length q" "j + length p \<le> split_size"
  shows "piece split_size x (fwrite q (k * split_size + j) p) =
    (if x = k then fwrite (piece split_size k q) j p else piece split_size x q)"
  using piece_fwrite [OF assms] by (cases "p = []") auto

lemma layout_write:
  assumes "layout cs q" "k < length cs" "j + length p \<le> split_size"
    and "q' = fwrite q (k * split_size + j) p" "int (length q') + ChunkSplitSize \<le> MaxInt64"
  shows "layout (cs[k := (cs ! k)\<lparr>fc_Length := int (length (fwrite (piece split_size k q) j p))\<rparr>]) q'"
proof -
  have iff: "x < length cs \<longleftrightarrow> x * split_size < length q" for x
    using assms(1) by (simp add: layout_def)
  have "x < length cs \<longleftrightarrow> x * split_size < length q'" for x
  proof -
    have "k * split_size + j + length p \<le> Suc k * split_size" using assms(3) by simp
    then have "x * split_size < k * split_size + j + length p \<Longrightarrow> x \<le> k"
      by (metis less_Suc_eq_le mult_less_cancel2 order_less_le_trans)
    moreover have "x \<le> k \<Longrightarrow> x * split_size < length q" using iff [of x] assms(2) by simp
    ultimately show ?thesis using iff by (auto simp: assms(4) length_fwrite less_max_iff_disj)
  qed
  moreover have "map fc_BlobPath (cs[k := (cs ! k)\<lparr>fc_Length := l\<rparr>]) = map fc_BlobPath cs" for l
    by (simp add: map_update) (metis assms(2) list_update_id nth_map)
  moreover have "piece split_size x q' = (if x = k then fwrite (piece split_size k q) j p else piece split_size x q)" for x
    unfolding assms(4) by (rule piece_write) (use iff assms(2,3) in \<open>auto intro: less_imp_le\<close>)
  ultimately show ?thesis
    using assms(1,2,5) unfolding layout_def by (auto simp: nth_list_update)
qed

lemma layout_append:
  assumes "layout cs q" "length q = length cs * split_size" "j + length p \<le> split_size" "p \<noteq> []"
    and "q' = fwrite q (length cs * split_size + j) p" "int (length q') + ChunkSplitSize \<le> MaxInt64"
    and "bp \<notin> set (map fc_BlobPath cs)" "bp \<noteq> ''''"
  shows "layout (cs @ [\<lparr>fc_Offset = int (length cs * split_size), fc_Length = int (length (fwrite [] j p)), fc_BlobPath = bp\<rparr>]) q'"
proof -
  have len: "length q' = length cs * split_size + j + length p" using assms(2,4,5) by (simp add: length_fwrite)
  have "x < Suc (length cs) \<longleftrightarrow> x * split_size < length q'" for x
  proof
    assume "x < Suc (length cs)"
    then have "x * split_size \<le> length cs * split_size" by (intro mult_le_mono1) simp
    moreover have "0 < length p" using assms(4) by simp
    ultimately show "x * split_size < length q'" using len by linarith
  next
    assume "x * split_size < length q'"
    then have "x * split_size < Suc (length cs) * split_size" using len assms(3) by simp
    then show "x < Suc (length cs)" by (rule mult_less_cancel2 [THEN iffD1, THEN conjunct2])
  qed
  moreover have "piece split_size x q' = (if x = length cs then fwrite [] j p else piece split_size x q)" for x
    using piece_write [of "length cs" q j p x] assms(2,3) unfolding assms(5) by (simp add: piece_def)
  ultimately show ?thesis
    using assms(1,6,7,8) unfolding layout_def by (auto simp: nth_append less_Suc_eq)
qed

lemma chunk_maxlen_layout:
  assumes "layout cs q" "i < length cs"
  shows "chunk_maxlen cs i = ChunkSplitSize" "wrap64 (FileChunk_Left (cs ! i) + ChunkSplitSize) = int (Suc i * split_size)"
proof -
  have "int (i * split_size) + ChunkSplitSize \<le> MaxInt64"
    using layout_bound [OF assms(1), of "i * split_size"] layoutD(4) [OF assms] by simp
  moreover have "int (i * split_size) + ChunkSplitSize = int (Suc i * split_size)"
    by (simp add: distrib_right)
  ultimately have "wrap64 (int (i * split_size) + ChunkSplitSize) = int (Suc i * split_size)"
    using int64_range [of "Suc i * split_size"] wrap64_id by metis
  then show w: "wrap64 (FileChunk_Left (cs ! i) + ChunkSplitSize) = int (Suc i * split_size)"
    using layoutD(1) [OF assms] by simp
  have "FileChunk_Left (cs ! Suc i) = int (Suc i * split_size)" if "Suc i < length cs"
    using layoutD(1) [OF assms(1) that] .
  then show "chunk_maxlen cs i = ChunkSplitSize"
    unfolding chunk_maxlen_def Let_def w by auto
qed

context chunk_store
begin

abbreviation rep :: "byte list \<Rightarrow> ('s, 'h, 'i, 'a) ChunkedFileIO \<Rightarrow> bool" where
  "rep \<equiv> file_rep sinv stored has"

lemma keepsD: "keeps known stored bp s s' \<Longrightarrow> stored s b q \<Longrightarrow> b \<noteq> bp \<Longrightarrow> stored s' b q"
  by (simp add: keeps_def)

lemma keeps_trans: "keeps known stored bp s s' \<Longrightarrow> keeps known stored bp s' s'' \<Longrightarrow> keeps known stored bp s s''"
  by (simp add: keeps_def)

text \<open>Closing the cached chunk makes its payload durable.\<close>

lemma closeCached_rep:
  assumes "sinv (cf_bs cf)" "cached_ok has cf"
  shows "\<exists>s'. closeCachedChunkIO co cf =
      (cf\<lparr>cf_bs := s', cf_cachedCio := None, cf_cachedBh := None, cf_cachedCioBlobpath := ''''\<rparr>, None) \<and>
    sinv s' \<and> known s' = known (cf_bs cf) \<and>
    (\<forall>b r. chunk_at stored has cf b r \<and> b \<noteq> '''' \<longrightarrow> stored s' b r)"
proof -
  obtain s1 where s1: "sinv s1" "known s1 = known (cf_bs cf)" "\<forall>b r. chunk_at stored has cf b r \<and> b \<noteq> '''' \<longrightarrow> stored s1 b r"
    "(case cf_cachedCio cf of None \<Rightarrow> (cf, None) | Some cio \<Rightarrow>
       (case co_Close co (cio, cf_bs cf) of ((_, s), e) \<Rightarrow>
          (cf\<lparr>cf_bs := s, cf_cachedCio := None\<rparr>, map_option (errorf ''Failed to close previously cached cio'') e))) =
      (cf\<lparr>cf_bs := s1, cf_cachedCio := None\<rparr>, None)"
  proof (cases "cf_cachedCio cf")
    case None
    with assms(2) have "cf_cachedCioBlobpath cf = ''''" by (auto simp: cached_ok_def split: if_splits)
    with None assms(1) show thesis by (intro that [of "cf_bs cf"]) (auto simp: chunk_at_def)
  next
    case (Some i)
    with assms(2) obtain q' where i: "has i (cf_cachedCioBlobpath cf) (cf_bs cf) q'"
      by (auto simp: cached_ok_def split: if_splits)
    obtain i' s' where c: "co_Close co (i, cf_bs cf) = ((i', s'), None)" "sinv s'" "keeps known stored (cf_cachedCioBlobpath cf) (cf_bs cf) s'"
      using chunk_close [OF i] by blast
    have "stored s' (cf_cachedCioBlobpath cf) r" if "has i (cf_cachedCioBlobpath cf) (cf_bs cf) r" for r
      using chunk_close [OF that] c(1) by auto
    then have "\<forall>b r. chunk_at stored has cf b r \<and> b \<noteq> '''' \<longrightarrow> stored s' b r"
      using Some c(3) by (auto simp: chunk_at_def keeps_def)
    with Some c show thesis by (intro that [of s']) (auto simp: keeps_def)
  qed
  obtain s2 where s2: "sinv s2" "known s2 = known s1" "\<forall>b r. stored s1 b r \<longrightarrow> stored s2 b r"
    "cf_cachedBh cf = None \<and> s2 = s1 \<or> (\<exists>h. cf_cachedBh cf = Some h \<and> co_CloseHandle co h s1 = (None, s2))"
  proof (cases "cf_cachedBh cf")
    case None
    with s1(1) show thesis by (intro that [of s1]) auto
  next
    case (Some h)
    with close_handle [OF s1(1), of h] show thesis by (auto intro: that)
  qed
  have "closeCachedChunkIO co cf =
      (cf\<lparr>cf_bs := s2, cf_cachedCio := None, cf_cachedBh := None, cf_cachedCioBlobpath := ''''\<rparr>, None)"
    unfolding closeCachedChunkIO_def s1(4) using s2(4) by (cases cf) (auto simp: Let_def)
  with s1 s2 show ?thesis by auto
qed

text \<open>Opening a chunk of the file, and opening a new one.\<close>

lemma openChunkIO_old:
  assumes "sinv (cf_bs cf)" "cached_ok has cf" "chunk_at stored has cf bp r" "bp \<noteq> ''''" "- (2 ^ 63) \<le> off \<and> off \<le> MaxInt64"
  shows "\<exists>cf' i. openChunkIO co bp False off cf = (cf', Inr i) \<and> cf_cachedCioBlobpath cf' = bp \<and> cf_cachedCio cf' = Some i \<and>
    has i bp (cf_bs cf') r \<and> cf_cs cf' = cf_cs cf \<and> cf_caio cf' = cf_caio cf \<and>
    (\<forall>b r. chunk_at stored has cf b r \<and> b \<noteq> '''' \<and> b \<noteq> bp \<longrightarrow> stored (cf_bs cf') b r)"
proof (cases "bp = cf_cachedCioBlobpath cf")
  case True
  with assms(3) show ?thesis by (auto simp: openChunkIO_def chunk_at_def)
next
  case False
  obtain s1 where s1: "closeCachedChunkIO co cf =
      (cf\<lparr>cf_bs := s1, cf_cachedCio := None, cf_cachedBh := None, cf_cachedCioBlobpath := ''''\<rparr>, None)" "sinv s1"
      "\<forall>b r. chunk_at stored has cf b r \<and> b \<noteq> '''' \<longrightarrow> stored s1 b r"
    using closeCached_rep [OF assms(1,2)] by blast
  have "stored s1 bp r" using s1(3) assms(3,4) by blast
  from open_old [OF s1(2) this assms(5), of "cf_origFilename cf"] obtain h s2 where
    s2: "co_Open co bp O_RDWR s1 = (Inr h, s2)" "keeps known stored bp s1 s2" "has (co_newChunkIO co h (cf_origFilename cf) off) bp s2 r"
    by blast
  have "IsWriteAllowed (co_Flags co s1)" using flags_rw [OF s1(2)] by (simp add: IsReadWriteAllowed_def IsWriteAllowed_def)
  with False s1(1) s2(1) have "openChunkIO co bp False off cf =
      (cf\<lparr>cf_bs := s2, cf_cachedBh := Some h, cf_cachedCio := Some (co_newChunkIO co h (cf_origFilename cf) off), cf_cachedCioBlobpath := bp\<rparr>,
       Inr (co_newChunkIO co h (cf_origFilename cf) off))"
    by (simp add: openChunkIO_def Let_def)
  with s1(3) s2(2,3) show ?thesis by (auto dest: keepsD)
qed

lemma openChunkIO_new:
  assumes "sinv (cf_bs cf)" "cached_ok has cf" "bp \<notin> known (cf_bs cf)" "bp \<noteq> ''''" "- (2 ^ 63) \<le> off \<and> off \<le> MaxInt64"
  shows "\<exists>cf' i. openChunkIO co bp True off cf = (cf', Inr i) \<and> cf_cachedCioBlobpath cf' = bp \<and> cf_cachedCio cf' = Some i \<and>
    has i bp (cf_bs cf') [] \<and> cf_cs cf' = cf_cs cf \<and> cf_caio cf' = cf_caio cf \<and>
    (\<forall>b r. chunk_at stored has cf b r \<and> b \<noteq> '''' \<longrightarrow> stored (cf_bs cf') b r)"
proof -
  have "bp \<noteq> cf_cachedCioBlobpath cf"
    using assms(2-4) has_known by (auto simp: cached_ok_def split: if_splits)
  obtain s1 where s1: "closeCachedChunkIO co cf =
      (cf\<lparr>cf_bs := s1, cf_cachedCio := None, cf_cachedBh := None, cf_cachedCioBlobpath := ''''\<rparr>, None)" "sinv s1"
      "known s1 = known (cf_bs cf)" "\<forall>b r. chunk_at stored has cf b r \<and> b \<noteq> '''' \<longrightarrow> stored s1 b r"
    using closeCached_rep [OF assms(1,2)] by blast
  from open_new [OF s1(2) _ assms(5), of bp "cf_origFilename cf"] assms(3) s1(3) obtain h s2 where
    s2: "co_Open co bp (O_RDWR OR (O_CREATE OR O_EXCL)) s1 = (Inr h, s2)" "\<forall>b q. stored s1 b q \<longrightarrow> stored s2 b q"
      "has (co_newChunkIO co h (cf_origFilename cf) off) bp s2 []"
    by auto
  have "IsWriteAllowed (co_Flags co s1)" using flags_rw [OF s1(2)] by (simp add: IsReadWriteAllowed_def IsWriteAllowed_def)
  with \<open>bp \<noteq> cf_cachedCioBlobpath cf\<close> s1(1) s2(1) have "openChunkIO co bp True off cf =
      (cf\<lparr>cf_bs := s2, cf_cachedBh := Some h, cf_cachedCio := Some (co_newChunkIO co h (cf_origFilename cf) off), cf_cachedCioBlobpath := bp\<rparr>,
       Inr (co_newChunkIO co h (cf_origFilename cf) off))"
    by (simp add: openChunkIO_def Let_def)
  with s1(4) s2(2,3) show ?thesis by auto
qed

text \<open>Writing to the open chunk.\<close>

lemma writeToChunk_open:
  assumes "openChunkIO co (fc_BlobPath c) isNew (FileChunk_Left c) cf = (cf1, Inr i)" "has i (fc_BlobPath c) (cf_bs cf1) r"
    and "cf_cachedCioBlobpath cf1 = fc_BlobPath c"
    and "remo - FileChunk_Left c = int k" "k \<le> split_size" "n = min (length p) (split_size - k)"
  shows "\<exists>cf'. writeToChunk co c isNew ChunkSplitSize p remo cf =
      (cf', Inr (c\<lparr>fc_Length := int (length (fwrite r k (take n p)))\<rparr>, n, fc_Length c \<noteq> int (length (fwrite r k (take n p))))) \<and>
    cf_cs cf' = cf_cs cf1 \<and> cf_caio cf' = cf_caio cf1 \<and> cf_cachedCioBlobpath cf' = fc_BlobPath c \<and>
    (\<exists>i'. cf_cachedCio cf' = Some i' \<and> has i' (fc_BlobPath c) (cf_bs cf') (fwrite r k (take n p))) \<and>
    keeps known stored (fc_BlobPath c) (cf_bs cf1) (cf_bs cf')"
proof -
  have w: "wrap64 (remo - FileChunk_Left c) = int k" "wrap64 (ChunkSplitSize - int k) = int (split_size - k)"
    using assms(4,5) by (simp_all add: wrap64_id MaxInt64_def of_nat_diff ChunkSplitSize_def split_size_def MaxInt64_def)
  have n: "min (int (length p)) (int (split_size - k)) = int n" using assms(6) by simp
  have "int k + int (length (take n p)) \<le> MaxInt32"
    using assms(5,6) by (simp add: split_size_def ChunkSplitSize_def MaxInt32_def)
  from chunk_pwrite [OF assms(2) _ this] obtain i1 s1 where
    s1: "co_PWrite co (take n p) (int k) (i, cf_bs cf1) = ((i1, s1), None)" "has i1 (fc_BlobPath c) s1 (fwrite r k (take n p))"
      "keeps known stored (fc_BlobPath c) (cf_bs cf1) s1" by auto
  from chunk_size [OF s1(2)] obtain i2 s2 where
    s2: "co_Size co (i1, s1) = ((i2, s2), int (length (fwrite r k (take n p))))" "has i2 (fc_BlobPath c) s2 (fwrite r k (take n p))"
      "keeps known stored (fc_BlobPath c) s1 s2" by auto
  have "writeToChunk co c isNew ChunkSplitSize p remo cf =
      (cf1\<lparr>cf_bs := s2, cf_cachedCio := Some i2\<rparr>,
       Inr (c\<lparr>fc_Length := int (length (fwrite r k (take n p)))\<rparr>, n, fc_Length c \<noteq> int (length (fwrite r k (take n p)))))"
    using assms(1) s1(1) s2(1) by (simp add: writeToChunk_def Let_def w n)
  with s1(3) s2(2,3) assms(3) show ?thesis by (auto intro: keeps_trans)
qed

lemma rep_intro:
  assumes "sinv (cf_bs cf)" "layout (cf_cs cf) q" "cf_cachedCio cf = Some i" "has i (cf_cachedCioBlobpath cf) (cf_bs cf) r"
    and "cf_cachedCioBlobpath cf \<noteq> ''''"
    and "\<And>k. k < length (cf_cs cf) \<Longrightarrow> fc_BlobPath (cf_cs cf ! k) = cf_cachedCioBlobpath cf \<Longrightarrow> r = piece split_size k q"
    and "\<And>k. k < length (cf_cs cf) \<Longrightarrow> fc_BlobPath (cf_cs cf ! k) \<noteq> cf_cachedCioBlobpath cf \<Longrightarrow>
        stored (cf_bs cf) (fc_BlobPath (cf_cs cf ! k)) (piece split_size k q)"
  shows "rep q cf"
  using assms by (auto simp: file_rep_def cached_ok_def chunk_at_def)

lemma write_old_rep:
  assumes "rep q cf" "k < length (cf_cs cf)" "j \<le> split_size" "n = min (length p) (split_size - j)"
    and "q' = fwrite q (k * split_size + j) (take n p)" "int (length q') + ChunkSplitSize \<le> MaxInt64"
  shows "\<exists>cf' c' u. writeToChunk co (cf_cs cf ! k) False ChunkSplitSize p (int (k * split_size + j)) cf = (cf', Inr (c', n, u)) \<and>
    rep q' (cf'\<lparr>cf_cs := (cf_cs cf')[k := c']\<rparr>) \<and> length (cf_cs cf') = length (cf_cs cf)"
proof -
  note r = file_repD [OF assms(1)] and l = layoutD [OF file_repD(2) [OF assms(1)] assms(2)]
  define c where "c = cf_cs cf ! k"
  have "int (k * split_size) \<le> MaxInt64"
    using layout_bound [OF r(2), of "k * split_size"] l(4) split_pos by linarith
  then have off: "- (2 ^ 63) \<le> FileChunk_Left c \<and> FileChunk_Left c \<le> MaxInt64"
    unfolding c_def l(1) by (rule int64_range)
  obtain cf1 i where o1: "openChunkIO co (fc_BlobPath c) False (FileChunk_Left c) cf = (cf1, Inr i)"
      "cf_cachedCioBlobpath cf1 = fc_BlobPath c" "has i (fc_BlobPath c) (cf_bs cf1) (piece split_size k q)" "cf_cs cf1 = cf_cs cf"
      "\<forall>b r. chunk_at stored has cf b r \<and> b \<noteq> '''' \<and> b \<noteq> fc_BlobPath c \<longrightarrow> stored (cf_bs cf1) b r"
    using openChunkIO_old [OF r(1,3) r(4) [OF assms(2)] l(3) off] unfolding c_def by blast
  have d: "int (k * split_size + j) - FileChunk_Left c = int j" using l(1) by (simp add: c_def)
  define r' where "r' = fwrite (piece split_size k q) j (take n p)"
  obtain cf2 i2 where w: "writeToChunk co c False ChunkSplitSize p (int (k * split_size + j)) cf =
      (cf2, Inr (c\<lparr>fc_Length := int (length r')\<rparr>, n, fc_Length c \<noteq> int (length r')))"
      "cf_cs cf2 = cf_cs cf" "cf_cachedCioBlobpath cf2 = fc_BlobPath c" "cf_cachedCio cf2 = Some i2"
      "has i2 (fc_BlobPath c) (cf_bs cf2) r'" "keeps known stored (fc_BlobPath c) (cf_bs cf1) (cf_bs cf2)"
    using writeToChunk_open [OF o1(1,3,2) d assms(3,4)] o1(4) unfolding r'_def by auto
  have n: "j + length (take n p) \<le> split_size" using assms(3,4) by auto
  have pc: "piece split_size x q' = (if x = k then r' else piece split_size x q)" for x
    unfolding assms(5) r'_def by (rule piece_write [OF less_imp_le [OF l(4)] n])
  have lay: "layout ((cf_cs cf)[k := c\<lparr>fc_Length := int (length r')\<rparr>]) q'"
    unfolding c_def r'_def by (rule layout_write [OF r(2) assms(2) n assms(5,6)])
  have path: "fc_BlobPath ((cf_cs cf)[k := c\<lparr>fc_Length := int (length r')\<rparr>] ! x) = fc_BlobPath (cf_cs cf ! x)" for x
    by (cases "x = k") (simp_all add: c_def assms(2))
  have "rep q' (cf2\<lparr>cf_cs := (cf_cs cf2)[k := c\<lparr>fc_Length := int (length r')\<rparr>]\<rparr>)"
  proof (rule rep_intro [of _ _ i2 r'])
    show "sinv (cf_bs (cf2\<lparr>cf_cs := (cf_cs cf2)[k := c\<lparr>fc_Length := int (length r')\<rparr>]\<rparr>))" using has_known [OF w(5)] by simp
    show "r' = piece split_size x q'" if "x < length (cf_cs (cf2\<lparr>cf_cs := (cf_cs cf2)[k := c\<lparr>fc_Length := int (length r')\<rparr>]\<rparr>))"
      "fc_BlobPath (cf_cs (cf2\<lparr>cf_cs := (cf_cs cf2)[k := c\<lparr>fc_Length := int (length r')\<rparr>]\<rparr>) ! x) =
        cf_cachedCioBlobpath (cf2\<lparr>cf_cs := (cf_cs cf2)[k := c\<lparr>fc_Length := int (length r')\<rparr>]\<rparr>)" for x
      using that layout_path [OF r(2) _ assms(2), of x] w(2,3) pc by (simp add: path) (simp add: c_def)
    show "stored (cf_bs (cf2\<lparr>cf_cs := (cf_cs cf2)[k := c\<lparr>fc_Length := int (length r')\<rparr>]\<rparr>))
        (fc_BlobPath (cf_cs (cf2\<lparr>cf_cs := (cf_cs cf2)[k := c\<lparr>fc_Length := int (length r')\<rparr>]\<rparr>) ! x)) (piece split_size x q')"
      if "x < length (cf_cs (cf2\<lparr>cf_cs := (cf_cs cf2)[k := c\<lparr>fc_Length := int (length r')\<rparr>]\<rparr>))"
      "fc_BlobPath (cf_cs (cf2\<lparr>cf_cs := (cf_cs cf2)[k := c\<lparr>fc_Length := int (length r')\<rparr>]\<rparr>) ! x) \<noteq>
        cf_cachedCioBlobpath (cf2\<lparr>cf_cs := (cf_cs cf2)[k := c\<lparr>fc_Length := int (length r')\<rparr>]\<rparr>)" for x
    proof -
      have x: "x < length (cf_cs cf)" "fc_BlobPath (cf_cs cf ! x) \<noteq> fc_BlobPath c" using that w(2,3) by (simp_all add: path)
      then have "x \<noteq> k" by (auto simp: c_def)
      moreover have "stored (cf_bs cf1) (fc_BlobPath (cf_cs cf ! x)) (piece split_size x q)"
        using o1(5) r(4) [OF x(1)] x(2) layoutD(3) [OF r(2) x(1)] by blast
      ultimately show ?thesis using w(2) keepsD [OF w(6) _ x(2)] by (simp add: path pc)
    qed
  qed (use w l lay in \<open>simp_all add: c_def\<close>)
  with w(1,2) show ?thesis unfolding c_def by auto
qed

text \<open>The loop over the chunks of a file without holes inserts no chunk.\<close>

lemma pwrite_chunks_rep:
  assumes "rep q cf" "i \<le> remo div split_size \<or> remp = []" "remo div split_size \<le> length q div split_size"
    and "int (max (length q) (remo + length remp)) + ChunkSplitSize \<le> MaxInt64" "length (cf_cs cf) - i < fuel"
  shows "\<exists>cf' need' m. pwrite_chunks co fuel i need (int remo) remp cf = Some (cf', Inr (need', int (remo + m), drop m remp)) \<and>
    m \<le> length remp \<and> rep (fwrite q remo (take m remp)) cf' \<and>
    (remo + m) div split_size \<le> length (fwrite q remo (take m remp)) div split_size \<and>
    (m = length remp \<or> length (cf_cs cf') \<le> (remo + m) div split_size)"
  using assms
proof (induction fuel arbitrary: i need remo remp q cf)
  case 0
  then show ?case by simp
next
  case (Suc fuel)
  note lay = file_repD(2) [OF Suc(2)]
  show ?case
  proof (cases "i < length (cf_cs cf) \<and> remp \<noteq> []")
    case False
    with Suc(2-4) show ?thesis by (intro exI [of _ cf] exI [of _ need] exI [of _ 0]) auto
  next
    case True
    then have i: "i < length (cf_cs cf)" "i \<le> remo div split_size" using Suc(3) by auto
    then have left: "\<not> FileChunk_Left (cf_cs cf ! i) > int remo"
      using layoutD(1) [OF lay i(1)] by (metis not_less of_nat_le_iff less_eq_div_iff_mult_less_eq split_size(2))
    note mx = chunk_maxlen_layout [OF lay i(1)]
    show ?thesis
    proof (cases "Suc i * split_size < remo")
      case True
      then have "Suc i \<le> remo div split_size" by (simp add: less_eq_div_iff_mult_less_eq)
      moreover have "wrap64 (FileChunk_Left (cf_cs cf ! i) + ChunkSplitSize) < int remo" unfolding mx(2) using True by (rule of_nat_less_iff [THEN iffD2])
      then have "pwrite_chunks co (Suc fuel) i need (int remo) remp cf = pwrite_chunks co fuel (i + 1) need (int remo) remp cf"
        using \<open>i < length (cf_cs cf) \<and> remp \<noteq> []\<close> left mx(1) by (simp add: Let_def)
      ultimately show ?thesis
        using Suc.IH [OF Suc(2) _ Suc(4,5), of "i + 1" need] Suc(6) i(1) by simp
    next
      case False
      define j where "j = remo - i * split_size"
      have j: "remo = i * split_size + j" "j \<le> split_size"
        using i(2) False by (auto simp: j_def less_eq_div_iff_mult_less_eq)
      define n where "n = min (length remp) (split_size - j)"
      have ln: "length (take n remp) = n" "n \<le> length remp" by (auto simp: n_def)
      define q1 where "q1 = fwrite q remo (take n remp)"
      have len: "length q1 \<le> max (length q) (remo + length remp)" using ln by (auto simp: q1_def length_fwrite)
      have "int (length q1) + ChunkSplitSize \<le> MaxInt64" using Suc(5) len by linarith
      with write_old_rep [OF Suc(2) i(1) j(2) n_def, of q1] obtain cf1 c' u where
        w: "writeToChunk co (cf_cs cf ! i) False ChunkSplitSize remp (int remo) cf = (cf1, Inr (c', n, u))"
          "rep q1 (cf1\<lparr>cf_cs := (cf_cs cf1)[i := c']\<rparr>)" "length (cf_cs cf1) = length (cf_cs cf)"
        unfolding q1_def j(1) by blast
      have "int (remo + n) \<le> MaxInt64" using Suc(5) ln(2) split_pos by linarith
      then have "wrap64 (int remo + int n) = int (remo + n)" using int64_range [of "remo + n"] by (simp add: wrap64_id)
      moreover have "\<not> wrap64 (FileChunk_Left (cf_cs cf ! i) + ChunkSplitSize) < int remo" unfolding mx(2) of_nat_less_iff by (rule False)
      ultimately have step: "pwrite_chunks co (Suc fuel) i need (int remo) remp cf =
          pwrite_chunks co fuel (i + 1) (need \<or> u) (int (remo + n)) (drop n remp) (cf1\<lparr>cf_cs := (cf_cs cf1)[i := c']\<rparr>)"
        using True left mx(1) w(1) by (simp add: Let_def)
      have "i + 1 \<le> (remo + n) div split_size \<or> drop n remp = []"
        using j by (auto simp: n_def less_eq_div_iff_mult_less_eq min_def)
      moreover have "(remo + n) div split_size \<le> length q1 div split_size"
        using Suc(4) ln(1) by (cases "n = 0") (auto simp: q1_def length_fwrite intro!: div_le_mono)
      moreover have "max (length q1) (remo + n + length (drop n remp)) \<le> max (length q) (remo + length remp)"
        using len ln by auto
      then have "int (max (length q1) (remo + n + length (drop n remp))) + ChunkSplitSize \<le> MaxInt64"
        using Suc(5) by linarith
      moreover have "length (cf_cs (cf1\<lparr>cf_cs := (cf_cs cf1)[i := c']\<rparr>)) - (i + 1) < fuel" using w(3) Suc(6) i(1) by simp
      ultimately obtain cf' need' m where m: "pwrite_chunks co (Suc fuel) i need (int remo) remp cf =
          Some (cf', Inr (need', int (remo + n + m), drop m (drop n remp)))" "m \<le> length (drop n remp)"
          "rep (fwrite q1 (remo + n) (take m (drop n remp))) cf'"
          "(remo + n + m) div split_size \<le> length (fwrite q1 (remo + n) (take m (drop n remp))) div split_size"
          "m = length (drop n remp) \<or> length (cf_cs cf') \<le> (remo + n + m) div split_size"
        unfolding step using Suc.IH [OF w(2), of "i + 1" "remo + n" "drop n remp" "need \<or> u"] by blast
      have f: "fwrite q1 (remo + n) (take m (drop n remp)) = fwrite q remo (take (n + m) remp)"
        using fwrite_fwrite_adjacent [of q remo "take n remp" "take m (drop n remp)"] ln(1) by (simp add: q1_def take_add)
      have e: "drop m (drop n remp) = drop (n + m) remp" by (simp add: add.commute)
      show ?thesis
      proof (intro exI conjI)
        show "pwrite_chunks co (Suc fuel) i need (int remo) remp cf = Some (cf', Inr (need', int (remo + (n + m)), drop (n + m) remp))"
          using m(1) unfolding e add.assoc .
        show "n + m \<le> length remp" using m(2) ln(2) by simp
        show "rep (fwrite q remo (take (n + m) remp)) cf'" using m(3) unfolding f .
        show "(remo + (n + m)) div split_size \<le> length (fwrite q remo (take (n + m) remp)) div split_size"
          using m(4) unfolding f add.assoc .
        show "n + m = length remp \<or> length (cf_cs cf') \<le> (remo + (n + m)) div split_size"
          using m(5) ln(2) unfolding add.assoc by auto
      qed
    qed
  qed
qed

lemma newFileChunk_rep:
  assumes "rep q cf"
  shows "\<exists>s bp. newFileChunk co newo cf = (cf\<lparr>cf_bs := s\<rparr>, Inr \<lparr>fc_Offset = newo, fc_Length = 0, fc_BlobPath = bp\<rparr>) \<and>
    rep q (cf\<lparr>cf_bs := s\<rparr>) \<and> bp \<notin> known s \<and> bp \<noteq> '''' \<and> bp \<notin> set (map fc_BlobPath (cf_cs cf))"
proof -
  obtain bp s where g: "co_GenerateNewBlobPath co (cf_bs cf) = (Inr bp, s)" "sinv s" "bp \<notin> known s" "bp \<noteq> ''''"
    "\<forall>b q. stored (cf_bs cf) b q \<longrightarrow> stored s b q" "\<forall>i b q. has i b (cf_bs cf) q \<longrightarrow> has i b s q"
    using generate [OF file_repD(1) [OF assms]] by blast
  have r: "rep q (cf\<lparr>cf_bs := s\<rparr>)"
    using assms g(2,5,6) by (auto simp: file_rep_def cached_ok_def chunk_at_def split: if_splits) blast
  have "fc_BlobPath (cf_cs cf ! k) \<in> known s" if "k < length (cf_cs cf)" for k
    using file_repD(4) [OF r, of k] that has_known stored_known by (auto simp: chunk_at_def split: if_splits)
  then have "bp \<notin> set (map fc_BlobPath (cf_cs cf))" using g(3) by (auto simp: in_set_conv_nth)
  with r show ?thesis using g by (auto simp: newFileChunk_def)
qed

lemma align_down_nat: "align_down (int x) = int (x div split_size * split_size)"
  by (simp add: align_down_def zdiv_int)

lemma append_place_layout:
  assumes "layout cs q" "length q = length cs * split_size" "remo div split_size = length cs"
  shows "append_place cs (int remo) = (int (length cs * split_size), ChunkSplitSize)"
proof (cases "cs = []")
  case True
  with assms(3) show ?thesis by (simp add: append_place_def align_down_nat Let_def)
next
  case False
  then have k: "length cs - 1 < length cs" "Suc (length cs - 1) = length cs" by auto
  have "FileChunk_Right (last cs) = int (length cs * split_size)"
    using layoutD(5) [OF assms(1) k(1)] assms(2) k(2) False by (simp add: last_conv_nth)
  with False show ?thesis by (simp add: append_place_def align_down_nat Let_def assms(3) del: of_nat_mult)
qed

text \<open>Appending one chunk.\<close>

lemma append_step_rep:
  assumes "rep q cf" "length q = length (cf_cs cf) * split_size" "remo = length (cf_cs cf) * split_size + j" "j < split_size"
    and "n = min (length remp) (split_size - j)" "remp \<noteq> []" "q' = fwrite q remo (take n remp)" "int (length q') + ChunkSplitSize \<le> MaxInt64"
  shows "\<exists>cf' newc s u. newFileChunk co (int (length (cf_cs cf) * split_size)) cf = (cf\<lparr>cf_bs := s\<rparr>, Inr newc) \<and>
    (\<exists>newc'. writeToChunk co newc True ChunkSplitSize remp (int remo) (cf\<lparr>cf_bs := s\<rparr>) = (cf', Inr (newc', n, u)) \<and>
      rep q' (cf'\<lparr>cf_cs := cf_cs cf' @ [newc']\<rparr>) \<and> length (cf_cs cf') = length (cf_cs cf))"
proof -
  define l where "l = length (cf_cs cf) * split_size"
  obtain s bp where g: "newFileChunk co (int l) cf = (cf\<lparr>cf_bs := s\<rparr>, Inr \<lparr>fc_Offset = int l, fc_Length = 0, fc_BlobPath = bp\<rparr>)"
      "rep q (cf\<lparr>cf_bs := s\<rparr>)" "bp \<notin> known s" "bp \<noteq> ''''" "bp \<notin> set (map fc_BlobPath (cf_cs cf))"
    using newFileChunk_rep [OF assms(1)] by blast
  define newc where "newc = \<lparr>fc_Offset = int l, fc_Length = 0, fc_BlobPath = bp\<rparr>"
  note r = file_repD [OF g(2)]
  have tk: "take n remp \<noteq> []" "length (take n remp) = n" "j + length (take n remp) \<le> split_size" using assms(4,5,6) by auto
  have "l \<le> length q'" using assms(2,7) by (auto simp: l_def length_fwrite)
  then have "int l \<le> MaxInt64" using assms(8) split_pos by linarith
  then have off: "- (2 ^ 63) \<le> FileChunk_Left newc \<and> FileChunk_Left newc \<le> MaxInt64"
    using int64_range [of l] by (simp add: newc_def FileChunk_Left_def)
  obtain cf1 i where o1: "openChunkIO co (fc_BlobPath newc) True (FileChunk_Left newc) (cf\<lparr>cf_bs := s\<rparr>) = (cf1, Inr i)"
      "cf_cachedCioBlobpath cf1 = fc_BlobPath newc" "has i (fc_BlobPath newc) (cf_bs cf1) []" "cf_cs cf1 = cf_cs cf"
      "\<forall>b r. chunk_at stored has (cf\<lparr>cf_bs := s\<rparr>) b r \<and> b \<noteq> '''' \<longrightarrow> stored (cf_bs cf1) b r"
    using openChunkIO_new [OF r(1,3) _ _ off, of "fc_BlobPath newc"] g(3,4) by (auto simp: newc_def)
  have d: "int remo - FileChunk_Left newc = int j" using assms(3) by (simp add: newc_def FileChunk_Left_def l_def)
  define r' where "r' = fwrite [] j (take n remp)"
  obtain cf2 i2 u where w: "writeToChunk co newc True ChunkSplitSize remp (int remo) (cf\<lparr>cf_bs := s\<rparr>) =
      (cf2, Inr (newc\<lparr>fc_Length := int (length r')\<rparr>, n, u))" "cf_cs cf2 = cf_cs cf" "cf_cachedCioBlobpath cf2 = fc_BlobPath newc"
      "cf_cachedCio cf2 = Some i2" "has i2 (fc_BlobPath newc) (cf_bs cf2) r'" "keeps known stored (fc_BlobPath newc) (cf_bs cf1) (cf_bs cf2)"
    using writeToChunk_open [OF o1(1,3,2) d less_imp_le [OF assms(4)] assms(5)] o1(4) unfolding r'_def by auto
  have pc: "piece split_size x q' = (if x = length (cf_cs cf) then r' else piece split_size x q)" for x
    using piece_write [of "length (cf_cs cf)" q j "take n remp" x] assms(2,3,7) tk(3) by (simp add: r'_def piece_def)
  have lay: "layout (cf_cs cf @ [newc\<lparr>fc_Length := int (length r')\<rparr>]) q'"
    using layout_append [OF file_repD(2) [OF assms(1)] assms(2) tk(3,1) _ assms(8) g(5,4)] assms(3,7)
    by (simp add: newc_def r'_def l_def)
  have "rep q' (cf2\<lparr>cf_cs := cf_cs cf2 @ [newc\<lparr>fc_Length := int (length r')\<rparr>]\<rparr>)"
  proof (rule rep_intro [of _ _ i2 r'])
    fix x assume "x < length (cf_cs (cf2\<lparr>cf_cs := cf_cs cf2 @ [newc\<lparr>fc_Length := int (length r')\<rparr>]\<rparr>))"
    then have x: "x < length (cf_cs cf) \<or> x = length (cf_cs cf)" using w(2) by auto
    have path: "fc_BlobPath (cf_cs cf ! x) \<noteq> bp" if "x < length (cf_cs cf)" using g(5) that by force
    show "r' = piece split_size x q'" if "fc_BlobPath (cf_cs (cf2\<lparr>cf_cs := cf_cs cf2 @ [newc\<lparr>fc_Length := int (length r')\<rparr>]\<rparr>) ! x) =
        cf_cachedCioBlobpath (cf2\<lparr>cf_cs := cf_cs cf2 @ [newc\<lparr>fc_Length := int (length r')\<rparr>]\<rparr>)"
      using that x path w(2,3) pc by (auto simp: nth_append newc_def)
    show "stored (cf_bs (cf2\<lparr>cf_cs := cf_cs cf2 @ [newc\<lparr>fc_Length := int (length r')\<rparr>]\<rparr>))
        (fc_BlobPath (cf_cs (cf2\<lparr>cf_cs := cf_cs cf2 @ [newc\<lparr>fc_Length := int (length r')\<rparr>]\<rparr>) ! x)) (piece split_size x q')"
      if "fc_BlobPath (cf_cs (cf2\<lparr>cf_cs := cf_cs cf2 @ [newc\<lparr>fc_Length := int (length r')\<rparr>]\<rparr>) ! x) \<noteq>
        cf_cachedCioBlobpath (cf2\<lparr>cf_cs := cf_cs cf2 @ [newc\<lparr>fc_Length := int (length r')\<rparr>]\<rparr>)"
    proof -
      have x': "x < length (cf_cs cf)" using that x w(2,3) by (auto simp: nth_append newc_def)
      then have "stored (cf_bs cf1) (fc_BlobPath (cf_cs cf ! x)) (piece split_size x q)"
        using o1(5) r(4) [of x] layoutD(3) [OF file_repD(2) [OF assms(1)] x'] by simp
      with keepsD [OF w(6)] path [OF x'] x' w(2) pc show ?thesis by (simp add: nth_append newc_def)
    qed
  qed (use w lay has_known [OF w(5)] g(4) in \<open>simp_all add: newc_def\<close>)
  with w(1,2) have "writeToChunk co newc True ChunkSplitSize remp (int remo) (cf\<lparr>cf_bs := s\<rparr>) =
      (cf2, Inr (newc\<lparr>fc_Length := int (length r')\<rparr>, n, u)) \<and>
    rep q' (cf2\<lparr>cf_cs := cf_cs cf2 @ [newc\<lparr>fc_Length := int (length r')\<rparr>]\<rparr>) \<and> length (cf_cs cf2) = length (cf_cs cf)"
    by simp
  with g(1) show ?thesis unfolding l_def [symmetric] newc_def [symmetric] by blast
qed

text \<open>The loop that appends chunks writes the rest.\<close>

lemma pwrite_append_rep:
  assumes "rep q cf" "remp \<noteq> [] \<Longrightarrow> remo div split_size = length (cf_cs cf) \<and> length q = length (cf_cs cf) * split_size"
    and "int (max (length q) (remo + length remp)) + ChunkSplitSize \<le> MaxInt64" "length remp < fuel"
  shows "\<exists>cf' need'. pwrite_append co fuel need (int remo) remp cf = Some (cf', Inr need') \<and> rep (fwrite q remo remp) cf'"
  using assms
proof (induction fuel arbitrary: need remo remp q cf)
  case 0
  then show ?case by simp
next
  case (Suc fuel)
  show ?case
  proof (cases "remp = []")
    case True
    with Suc.prems(1) show ?thesis by simp
  next
    case False
    define j where "j = remo mod split_size"
    define n where "n = min (length remp) (split_size - j)"
    define q1 where "q1 = fwrite q remo (take n remp)"
    have l: "remo div split_size = length (cf_cs cf)" "length q = length (cf_cs cf) * split_size" using Suc.prems(2) [OF False] by auto
    have remo: "remo = length (cf_cs cf) * split_size + j" and j: "j < split_size"
      using l(1) div_mult_mod_eq [of remo split_size] by (simp_all add: j_def)
    have n: "0 < n" "n \<le> length remp" using False j by (auto simp: n_def)
    have len1: "length q1 = max (length q) (remo + n)" using n False by (simp add: q1_def length_fwrite)
    have b: "int (length q1) + ChunkSplitSize \<le> MaxInt64" using Suc.prems(3) n(2) unfolding len1 by linarith
    obtain cf1 newc s u newc' where st: "newFileChunk co (int (length (cf_cs cf) * split_size)) cf = (cf\<lparr>cf_bs := s\<rparr>, Inr newc)"
        "writeToChunk co newc True ChunkSplitSize remp (int remo) (cf\<lparr>cf_bs := s\<rparr>) = (cf1, Inr (newc', n, u))"
        "rep q1 (cf1\<lparr>cf_cs := cf_cs cf1 @ [newc']\<rparr>)" "length (cf_cs cf1) = length (cf_cs cf)"
      using append_step_rep [OF Suc.prems(1) l(2) remo j n_def False q1_def b] by blast
    have w: "wrap64 (int remo + int n) = int (remo + n)"
      using Suc.prems(3) n(2) split_pos by (simp add: wrap64_id)
    have step: "pwrite_append co (Suc fuel) need (int remo) remp cf =
        pwrite_append co fuel True (int (remo + n)) (drop n remp) (cf1\<lparr>cf_cs := cf_cs cf1 @ [newc']\<rparr>)"
      using False st(1,2) append_place_layout [OF file_repD(2) [OF Suc.prems(1)] l(2,1)] w by (simp del: of_nat_mult of_nat_add)
    have rest: "(remo + n) div split_size = length (cf_cs (cf1\<lparr>cf_cs := cf_cs cf1 @ [newc']\<rparr>)) \<and>
        length q1 = length (cf_cs (cf1\<lparr>cf_cs := cf_cs cf1 @ [newc']\<rparr>)) * split_size" if "drop n remp \<noteq> []"
    proof -
      from that have "n = split_size - j" by (auto simp: n_def)
      with j remo have "remo + n = Suc (length (cf_cs cf)) * split_size" by simp
      with l(2) st(4) len1 show ?thesis by simp
    qed
    have "int (max (length q1) (remo + n + length (drop n remp))) + ChunkSplitSize \<le> MaxInt64"
      using Suc.prems(3) n(2) unfolding len1 by (simp add: max_def split: if_splits)
    from Suc.IH [OF st(3) rest this] Suc.prems(4) n obtain cf' need' where
      m: "pwrite_append co fuel True (int (remo + n)) (drop n remp) (cf1\<lparr>cf_cs := cf_cs cf1 @ [newc']\<rparr>) = Some (cf', Inr need')"
        "rep (fwrite q1 (remo + n) (drop n remp)) cf'" by fastforce
    have "fwrite q1 (remo + n) (drop n remp) = fwrite q remo remp"
      using fwrite_fwrite_adjacent [of q remo "take n remp" "drop n remp"] n(2) by (simp add: q1_def)
    with m step show ?thesis by (simp del: pwrite_append.simps)
  qed
qed

lemma layout_full:
  assumes "layout cs q" "length cs \<le> length q div split_size"
  shows "length q = length cs * split_size"
proof -
  have "length cs * split_size \<le> length q" using assms(2) by (metis div_times_less_eq_dividend le_trans mult_le_mono1)
  moreover have "\<not> length cs * split_size < length q" using assms(1) unfolding layout_def by blast
  ultimately show ?thesis by simp
qed

lemma PWrite_rep:
  assumes "rep q cf" "off div split_size \<le> length q div split_size" "int (max (length q) (off + length p)) + ChunkSplitSize \<le> MaxInt64"
    and "length (cf_cs cf) + length p < fuel"
  shows "\<exists>cf'. ChunkedFileIO_PWrite co caops fuel p (int off) cf = Some (cf', None) \<and> rep (fwrite q off p) cf'"
proof (cases "p = []")
  case True
  with assms(1) flags_rw [OF file_repD(1) [OF assms(1)]] show ?thesis by (simp add: ChunkedFileIO_PWrite_def)
next
  case False
  obtain cf1 need m where m: "pwrite_chunks co fuel 0 False (int off) p cf = Some (cf1, Inr (need, int (off + m), drop m p))"
      "m \<le> length p" "rep (fwrite q off (take m p)) cf1"
      "(off + m) div split_size \<le> length (fwrite q off (take m p)) div split_size"
      "m = length p \<or> length (cf_cs cf1) \<le> (off + m) div split_size"
    using pwrite_chunks_rep [OF assms(1) _ assms(2,3), of 0 fuel False] assms(4) by auto
  define q1 where "q1 = fwrite q off (take m p)"
  have full: "(off + m) div split_size = length (cf_cs cf1) \<and> length q1 = length (cf_cs cf1) * split_size" if "drop m p \<noteq> []"
  proof -
    from that m(5) have l: "length (cf_cs cf1) \<le> (off + m) div split_size" by auto
    with m(4) layout_full [OF file_repD(2) [OF m(3)]] have "length q1 = length (cf_cs cf1) * split_size" by (simp add: q1_def)
    with l m(4) show ?thesis by (simp add: q1_def)
  qed
  have b: "int (max (length q1) (off + m + length (drop m p))) + ChunkSplitSize \<le> MaxInt64"
    using assms(3) m(2) by (simp add: q1_def length_fwrite max_def split: if_splits)
  from m(2) assms(4) have "length (drop m p) < fuel" by simp
  from pwrite_append_rep [OF m(3) [folded q1_def] full b this] obtain cf2 need' where
    a: "pwrite_append co fuel need (int (off + m)) (drop m p) cf1 = Some (cf2, Inr need')"
      "rep (fwrite q1 (off + m) (drop m p)) cf2" by blast
  have "fwrite q1 (off + m) (drop m p) = fwrite q off p"
    using fwrite_fwrite_adjacent [of q off "take m p" "drop m p"] m(2) by (simp add: q1_def)
  then have "rep (fwrite q off p) (if need' then cf2\<lparr>cf_caio := c\<rparr> else cf2)" for c
    using a(2) by (auto simp: file_rep_def cached_ok_def chunk_at_def split: if_splits)
  moreover note flags_rw [OF file_repD(1) [OF assms(1)]]
  ultimately show ?thesis using False m(1) a(1) by (simp add: ChunkedFileIO_PWrite_def)
qed

text \<open>Reading one chunk.\<close>

lemma fread_piece:
  assumes "j + n \<le> length (piece m k q)"
  shows "fread (piece m k q) j n = fread q (k * m + j) n"
proof -
  from assms have "j + n \<le> m" by (simp add: length_piece)
  then show ?thesis by (simp add: piece_def fread_def drop_take min_absorb1 add.commute)
qed

text \<open>The chunk of an index opened, and kept by what is done to it: the file stays.\<close>

lemma open_old_rep:
  assumes "rep q cf" "k < length (cf_cs cf)" "c = cf_cs cf ! k"
  shows "\<exists>cf1 i. openChunkIO co (fc_BlobPath c) False (FileChunk_Left c) cf = (cf1, Inr i) \<and>
    has i (fc_BlobPath c) (cf_bs cf1) (piece split_size k q) \<and> cf_cs cf1 = cf_cs cf \<and> cf_caio cf1 = cf_caio cf \<and>
    (\<forall>i' s. has i' (fc_BlobPath c) s (piece split_size k q) \<and> keeps known stored (fc_BlobPath c) (cf_bs cf1) s \<longrightarrow>
       rep q (cf1\<lparr>cf_bs := s, cf_cachedCio := Some i'\<rparr>))"
proof -
  note r = file_repD [OF assms(1)]
  note l = layoutD [OF r(2) assms(2)]
  have "int (k * split_size) \<le> MaxInt64" using layout_bound [OF r(2) less_imp_le [OF l(4)]] split_pos by linarith
  then have off: "- (2 ^ 63) \<le> FileChunk_Left c \<and> FileChunk_Left c \<le> MaxInt64"
    unfolding l(1) assms(3) by (rule int64_range)
  obtain cf1 i where o1: "openChunkIO co (fc_BlobPath c) False (FileChunk_Left c) cf = (cf1, Inr i)"
      "cf_cachedCioBlobpath cf1 = fc_BlobPath c" "has i (fc_BlobPath c) (cf_bs cf1) (piece split_size k q)" "cf_cs cf1 = cf_cs cf"
      "cf_caio cf1 = cf_caio cf" "\<forall>b r. chunk_at stored has cf b r \<and> b \<noteq> '''' \<and> b \<noteq> fc_BlobPath c \<longrightarrow> stored (cf_bs cf1) b r"
    using openChunkIO_old [OF r(1,3) r(4) [OF assms(2)] l(3) off [unfolded assms(3)]] unfolding assms(3) by blast
  have "rep q (cf1\<lparr>cf_bs := s, cf_cachedCio := Some i'\<rparr>)"
    if p: "has i' (fc_BlobPath c) s (piece split_size k q)" "keeps known stored (fc_BlobPath c) (cf_bs cf1) s" for i' s
  proof (rule rep_intro [of _ _ i' "piece split_size k q"])
    let ?cf = "cf1\<lparr>cf_bs := s, cf_cachedCio := Some i'\<rparr>"
    fix x assume "x < length (cf_cs ?cf)"
    then have x: "x < length (cf_cs cf)" by (simp add: o1(4))
    show "piece split_size k q = piece split_size x q" if "fc_BlobPath (cf_cs ?cf ! x) = cf_cachedCioBlobpath ?cf"
      using that layout_path [OF r(2) x assms(2)] o1(2,4) by (simp add: assms(3))
    show "stored (cf_bs ?cf) (fc_BlobPath (cf_cs ?cf ! x)) (piece split_size x q)"
      if "fc_BlobPath (cf_cs ?cf ! x) \<noteq> cf_cachedCioBlobpath ?cf"
      using that o1 r(4) [OF x] layoutD(3) [OF r(2) x] keepsD [OF p(2)] by (simp add: assms(3))
  qed (use r(2) o1 p l(3) has_known [OF p(1)] assms(3) in simp_all)
  with o1 show ?thesis by blast
qed

lemma readFromChunk_rep:
  assumes "rep q cf" "k < length (cf_cs cf)" "j < length (piece split_size k q)" "n = min len (length (piece split_size k q) - j)"
  shows "\<exists>cf'. readFromChunk co (cf_cs cf ! k) len (int j) cf = (cf', Inr (fread q (k * split_size + j) n)) \<and> rep q cf' \<and> cf_cs cf' = cf_cs cf"
proof -
  note l = layoutD [OF file_repD(2) [OF assms(1)] assms(2)]
  define c where "c = cf_cs cf ! k"
  obtain cf1 i where o1: "openChunkIO co (fc_BlobPath c) False (FileChunk_Left c) cf = (cf1, Inr i)"
      "has i (fc_BlobPath c) (cf_bs cf1) (piece split_size k q)" "cf_cs cf1 = cf_cs cf"
      "\<forall>i' s. has i' (fc_BlobPath c) s (piece split_size k q) \<and> keeps known stored (fc_BlobPath c) (cf_bs cf1) s \<longrightarrow>
         rep q (cf1\<lparr>cf_bs := s, cf_cachedCio := Some i'\<rparr>)"
    using open_old_rep [OF assms(1,2) c_def] by blast
  have jn: "j + n \<le> length (piece split_size k q)" using assms(3,4) by simp
  then have "int j + int n \<le> int (length (piece split_size k q))" by simp
  from chunk_pread [OF o1(2) _ this] obtain i' s where
    p: "co_PRead co n (int j) (i, cf_bs cf1) = ((i', s), Inr (fread (piece split_size k q) j n))"
      "has i' (fc_BlobPath c) s (piece split_size k q)" "keeps known stored (fc_BlobPath c) (cf_bs cf1) s"
    by auto
  have len: "length (piece split_size k q) \<le> split_size" by (simp add: length_piece)
  have "wrap64 (fc_Length c - int j) = int (length (piece split_size k q) - j)"
    using l(2) assms(3) len by (subst wrap64_id) (auto simp: c_def of_nat_diff ChunkSplitSize_def split_size_def MaxInt64_def)
  then have "readFromChunk co c len (int j) cf = (cf1\<lparr>cf_bs := s, cf_cachedCio := Some i'\<rparr>, Inr (fread (piece split_size k q) j n))"
    using o1(1) p(1) assms(4) by (simp add: readFromChunk_def Let_def del: of_nat_diff flip: of_nat_min)
  with p(2,3) o1(3,4) fread_piece [OF jn] show ?thesis by (auto simp: c_def)
qed

lemma read_buffer:
  assumes "length (fread q remo n) = n" "n \<le> length buf - pos" "pos < length buf"
  shows "let buf1 = take pos buf @ fread q remo n @ drop (pos + length (fread q remo n)) buf;
      rest = fread q (remo + n) (length buf - (pos + n)) in
    take (pos + n) buf1 @ rest @ drop (pos + n + length rest) buf1 =
      take pos buf @ fread q remo (length buf - pos) @ drop (pos + length (fread q remo (length buf - pos))) buf \<and>
    remo + n + length rest = remo + length (fread q remo (length buf - pos))"
proof -
  have "length buf - pos = n + (length buf - (pos + n))" using assms(2) by simp
  then have e: "fread q remo (length buf - pos) = fread q remo n @ fread q (remo + n) (length buf - (pos + n))"
    by (metis fread_split)
  show ?thesis unfolding e Let_def using assms by (simp add: add.commute add.left_commute) (simp add: add.assoc)
qed

text \<open>Chunk \<open>k\<close> and those behind it: the loop copies the rest of the file into the buffer.\<close>

lemma read_chunks_rep:
  assumes "rep q cf" "k \<le> length (cf_cs cf)" "k * split_size \<le> remo \<or> length q \<le> remo \<or> length buf \<le> pos"
    and "pos \<le> length buf" "int (max (length q) (remo + (length buf - pos))) + ChunkSplitSize \<le> MaxInt64"
  shows "\<exists>cf'. read_chunks co (drop k (cf_cs cf)) (int remo) pos buf cf =
      (cf', take pos buf @ fread q remo (length buf - pos) @ drop (pos + length (fread q remo (length buf - pos))) buf,
       int (remo + length (fread q remo (length buf - pos))), None) \<and> rep q cf' \<and> cf_cs cf' = cf_cs cf"
  using assms
proof (induction "length (cf_cs cf) - k" arbitrary: k remo pos buf cf)
  case 0
  have "\<not> length (cf_cs cf) * split_size < length q" using file_repD(2) [OF "0.prems"(1)] unfolding layout_def by blast
  moreover have "k = length (cf_cs cf)" using 0 by simp
  ultimately have "fread q remo (length buf - pos) = []" using "0.prems"(3) by (auto simp: fread_def)
  with 0 show ?case by simp
next
  case (Suc d)
  then have k: "k < length (cf_cs cf)" "d = length (cf_cs cf) - Suc k" by auto
  note r = file_repD [OF Suc.prems(1)]
  note l = layoutD [OF r(2) k(1)]
  define c where "c = cf_cs cf ! k"
  have drop: "drop k (cf_cs cf) = c # drop (Suc k) (cf_cs cf)" using Cons_nth_drop_Suc [OF k(1)] by (simp add: c_def)
  have w: "wrap64 (int remo + int (length buf - pos)) = int (remo + (length buf - pos))"
    using Suc.prems(5) split_pos by (simp add: wrap64_id)
  consider "length buf \<le> pos" | "pos < length buf" "length q \<le> remo" | "pos < length buf" "k * split_size \<le> remo" "remo < length q"
    using Suc.prems(3) by linarith
  then show ?case
  proof cases
    case 1
    with Suc.prems(1,4) show ?thesis by (simp add: drop fread_def)
  next
    case 2
    then have "FileChunk_Right c \<le> int remo" using l(5) by (simp add: c_def)
    moreover have "\<not> FileChunk_Left c > int (remo + (length buf - pos))" using 2 l(1,4) by (simp add: c_def del: of_nat_mult)
    ultimately have "read_chunks co (drop k (cf_cs cf)) (int remo) pos buf cf = read_chunks co (drop (Suc k) (cf_cs cf)) (int remo) pos buf cf"
      using 2(1) w by (simp add: drop)
    with Suc.hyps(1) [OF k(2) Suc.prems(1) _ _ Suc.prems(4,5)] k(1) 2 show ?thesis by simp
  next
    case 3
    show ?thesis
    proof (cases "Suc k * split_size \<le> remo")
      case True
      then have "FileChunk_Right c \<le> int remo" using l(5) by (simp add: c_def del: of_nat_mult)
      moreover have "\<not> FileChunk_Left c > int (remo + (length buf - pos))" using 3(2) l(1) by (simp add: c_def del: of_nat_mult)
      ultimately have "read_chunks co (drop k (cf_cs cf)) (int remo) pos buf cf = read_chunks co (drop (Suc k) (cf_cs cf)) (int remo) pos buf cf"
        using 3(1) w by (simp add: drop)
      with Suc.hyps(1) [OF k(2) Suc.prems(1) _ _ Suc.prems(4,5)] k(1) True show ?thesis by simp
    next
      case False
      define j n where "j = remo - k * split_size" and "n = min (length buf - pos) (length (piece split_size k q) - j)"
      have j: "remo = k * split_size + j" "j < length (piece split_size k q)"
        using 3(2,3) False by (auto simp: j_def length_piece)
      obtain cf1 where rd: "readFromChunk co c (length buf - pos) (int j) cf = (cf1, Inr (fread q remo n))" "rep q cf1" "cf_cs cf1 = cf_cs cf"
        using readFromChunk_rep [OF Suc.prems(1) k(1) j(2) n_def] unfolding c_def j(1) by blast
      define buf1 where "buf1 = take pos buf @ fread q remo n @ drop (pos + length (fread q remo n)) buf"
      have n: "length (fread q remo n) = n" "n \<le> length buf - pos" using j by (auto simp: fread_def n_def length_piece)
      have len: "length buf1 = length buf" using 3(1) n by (simp add: buf1_def)
      have "wrap64 (int remo - FileChunk_Left c) = int j"
        using Suc.prems(5) j(1) l(1) split_pos by (simp add: c_def wrap64_id)
      moreover have "\<not> FileChunk_Left c > int (remo + (length buf - pos))" using 3(2) l(1) by (simp add: c_def del: of_nat_mult)
      moreover have "\<not> FileChunk_Right c \<le> int remo" using l(5) 3(3) False by (simp add: c_def del: of_nat_mult)
      ultimately have step: "read_chunks co (drop k (cf_cs cf)) (int remo) pos buf cf =
          read_chunks co (drop (Suc k) (cf_cs cf1)) (int (remo + n)) (pos + n) buf1 cf1"
        using 3(1) w rd n(1) by (simp add: drop Let_def buf1_def add.commute [of n pos])
      have c1: "Suc k * split_size \<le> remo + n \<or> length q \<le> remo + n \<or> length buf1 \<le> pos + n"
        unfolding len n_def j(1) length_piece by auto
      have c2: "remo + n + (length buf - (pos + n)) = remo + (length buf - pos)" using n(2) by simp
      have "d = length (cf_cs cf1) - Suc k" "Suc k \<le> length (cf_cs cf1)" "pos + n \<le> length buf1" using k rd(3) n(2) len 3(1) by auto
      from Suc.hyps(1) [OF this(1) rd(2) this(2) c1 this(3)] Suc.prems(5) obtain cf' where
        h: "read_chunks co (drop (Suc k) (cf_cs cf1)) (int (remo + n)) (pos + n) buf1 cf1 =
          (cf', take (pos + n) buf1 @ fread q (remo + n) (length buf - (pos + n)) @
             drop (pos + n + length (fread q (remo + n) (length buf - (pos + n)))) buf1,
           int (remo + n + length (fread q (remo + n) (length buf - (pos + n)))), None)" "rep q cf'" "cf_cs cf' = cf_cs cf1"
        unfolding len c2 by blast
      from read_buffer [OF n 3(1), folded buf1_def, unfolded Let_def]
      show ?thesis unfolding step h(1) using h(2,3) rd(3) by auto
    qed
  qed
qed

lemma ReadAt_rep:
  assumes "rep q cf" "int (max (length q) (off + length p)) + ChunkSplitSize \<le> MaxInt64"
  shows "\<exists>cf'. ChunkedFileIO_ReadAt co p (int off) cf =
      (cf', fread q off (length p) @ drop (length (fread q off (length p))) p, int (length (fread q off (length p))), None) \<and>
    rep q cf' \<and> cf_cs cf' = cf_cs cf"
proof -
  have "IsReadAllowed (co_Flags co (cf_bs cf))"
    using flags_rw [OF file_repD(1) [OF assms(1)]] by (auto simp: IsReadAllowed_def IsReadWriteAllowed_def Let_def)
  moreover obtain cf' where "read_chunks co (cf_cs cf) (int off) 0 p cf =
      (cf', fread q off (length p) @ drop (length (fread q off (length p))) p, int (off + length (fread q off (length p))), None)"
      "rep q cf'" "cf_cs cf' = cf_cs cf"
    using read_chunks_rep [OF assms(1), of 0 off p 0] assms(2) by auto
  ultimately show ?thesis by (simp add: ChunkedFileIO_ReadAt_def)
qed

text \<open>Behind the end nothing is read, for every offset of an \<open>int64\<close>.\<close>

lemma read_chunks_behind:
  assumes "\<forall>c \<in> set cs. FileChunk_Right c \<le> remo"
  shows "read_chunks co cs remo 0 p cf = (cf, p, remo, None)"
  using assms by (induction cs) auto

lemma Size_rep:
  assumes "rep q cf"
  shows "ChunkedFileIO_Size cf = int (length q)"
proof (cases "cf_cs cf = []")
  case True
  with file_repD(2) [OF assms] show ?thesis by (auto simp: ChunkedFileIO_Size_def layout_def dest: spec [of _ 0])
next
  case False
  then have k: "length (cf_cs cf) - 1 < length (cf_cs cf)" "Suc (length (cf_cs cf) - 1) = length (cf_cs cf)" by auto
  have "\<not> length (cf_cs cf) * split_size < length q" using file_repD(2) [OF assms] unfolding layout_def by blast
  with False layoutD(5) [OF file_repD(2) [OF assms] k(1)] k(2) show ?thesis
    by (simp add: ChunkedFileIO_Size_def last_conv_nth del: of_nat_mult)
qed

lemma Close_rep:
  assumes "rep q cf"
  shows "\<exists>cf'. ChunkedFileIO_Close co cf = (cf', None) \<and> rep q cf' \<and> cf_cs cf' = cf_cs cf \<and> cf_cachedCioBlobpath cf' = ''''"
proof -
  note r = file_repD [OF assms]
  obtain s where s: "closeCachedChunkIO co cf =
      (cf\<lparr>cf_bs := s, cf_cachedCio := None, cf_cachedBh := None, cf_cachedCioBlobpath := ''''\<rparr>, None)" "sinv s"
      "\<forall>b r. chunk_at stored has cf b r \<and> b \<noteq> '''' \<longrightarrow> stored s b r"
    using closeCached_rep [OF r(1,3)] by blast
  have "stored s (fc_BlobPath (cf_cs cf ! k)) (piece split_size k q)" if "k < length (cf_cs cf)" for k
    using s(3) r(4) [OF that] layoutD(3) [OF r(2) that] by blast
  with s r(2) show ?thesis using layoutD(3) [OF r(2)]
    by (auto simp: ChunkedFileIO_Close_def file_rep_def cached_ok_def chunk_at_def)
qed

end

end
