(* ===== verification/File_In_Chunks.thy ===== *)
theory File_In_Chunks
  imports Chunked_File_Rep
begin

text \<open>
  Files in chunks over the file blob store: the store of \<open>File_Blobstore\<close> and the \<open>ChunkIO\<close> of \<open>Chunk_IO\<close> keep the
  contract \<open>chunk_store\<close>, so that files in chunks are ideal files as long as they have no holes, also
  behind a \<open>FileWriteCache\<close> and after closing and opening again. What fails is shown as well: writing into
  a hole, reading across one, truncating inside a chunk, and a store that cannot open blobs.

  Names of new blobs come from the random source \<open>names\<close>; \<open>names_ok\<close> says that it does not repeat itself.
\<close>

section \<open>Chunks in the files of a directory\<close>

text \<open>
  The store below \<open>ChunkedFileIO\<close>: the file blob store, and the number of path names generated so far;
  \<open>names n\<close> are the candidates the random source produces for the \<open>n\<close>-th name. An open chunk is a
  \<open>ChunkIO\<close> and the path of the file it was opened on; it reads and writes that file.
\<close>

record file_chunks =
  fcs_bs :: "(byte list) FileBlobStore"
  fcs_n :: nat

definition open_size :: "(byte list) FileBlobStore \<Rightarrow> string \<Rightarrow> int result" where
  "open_size bs bp = (case fst (FileBlobStore_Open bp O_RDONLY bs) of Inl e \<Rightarrow> Inl e | Inr h \<Rightarrow> Inr (File_Size h))"

definition load :: "file_chunks \<Rightarrow> string \<Rightarrow> FileBlobHandle ChunkIO \<Rightarrow> FileBlobHandle ChunkIO" where
  "load s bp ch =
     (case fmlookup (fbs_files (fcs_bs s)) bp of
        None \<Rightarrow> ch
      | Some c \<Rightarrow> ch\<lparr>ch_bh := (ch_bh ch)\<lparr>fh_content := c\<rparr>\<rparr>)"

definition store :: "string \<Rightarrow> FileBlobHandle ChunkIO \<Rightarrow> file_chunks \<Rightarrow> file_chunks" where
  "store bp ch s =
     (case fmlookup (fbs_files (fcs_bs s)) bp of
        None \<Rightarrow> s
      | Some c \<Rightarrow> s\<lparr>fcs_bs := (fcs_bs s)\<lparr>fbs_files := fmupd bp (fh_content (ch_bh ch)) (fbs_files (fcs_bs s))\<rparr>\<rparr>)"

definition on_file ::
    "(FileBlobHandle ChunkIO \<Rightarrow> FileBlobHandle ChunkIO \<times> 'r) \<Rightarrow> (string \<times> FileBlobHandle ChunkIO) \<times> file_chunks \<Rightarrow>
     ((string \<times> FileBlobHandle ChunkIO) \<times> file_chunks) \<times> 'r" where
  "on_file f is =
     (case is of ((bp, ch), s) \<Rightarrow> (case f (load s bp ch) of (ch', r) \<Rightarrow> (((bp, ch'), store bp ch' s), r)))"

definition file_chunk_ops ::
    "FileBlobHandle chunk_env \<Rightarrow> (nat \<Rightarrow> string list) \<Rightarrow>
     (file_chunks, string \<times> FileBlobHandle, string \<times> FileBlobHandle ChunkIO) chunk_ops" where
  "file_chunk_ops env names =
     \<lparr>co_Flags = (\<lambda>s. FileBlobStore_Flags (fcs_bs s)),
      co_GenerateNewBlobPath = (\<lambda>s. (GenerateNewBlobPath (open_size (fcs_bs s)) (names (fcs_n s)), s\<lparr>fcs_n := Suc (fcs_n s)\<rparr>)),
      co_Open = (\<lambda>bp f s. case FileBlobStore_Open bp f (fcs_bs s) of
         (Inl e, bs) \<Rightarrow> (Inl e, s\<lparr>fcs_bs := bs\<rparr>)
       | (Inr h, bs) \<Rightarrow> (Inr (bp, h), s\<lparr>fcs_bs := bs\<rparr>)),
      co_CloseHandle = (\<lambda>h s. (None, s)),
      co_newChunkIO = (\<lambda>(bp, h) name off.
         (bp, NewChunkIOWithMetadata h \<lparr>FrameEncapsulation = 0, PayloadLen = 0, PayloadVersion = 0, OrigFilename = name, OrigOffset = off\<rparr>)),
      co_PRead = (\<lambda>n off. on_file (ChunkIO_PRead env n off)),
      co_PWrite = (\<lambda>p off. on_file (ChunkIO_PWrite env p off)),
      co_Size = on_file (ChunkIO_Size env),
      co_Truncate = (\<lambda>sz. on_file (ChunkIO_Truncate sz)),
      co_Close = on_file (ChunkIO_Close env)\<rparr>"

type_synonym file_in_chunks =
  "(file_chunks, string \<times> FileBlobHandle, string \<times> FileBlobHandle ChunkIO, SimpleDBChunksArrayIO) ChunkedFileIO"

definition names_ok :: "(nat \<Rightarrow> string list) \<Rightarrow> bool" where
  "names_ok names \<longleftrightarrow> (\<forall>n. names n \<noteq> [] \<and> hd (names n) \<noteq> '''') \<and> (\<forall>n m. hd (names n) = hd (names m) \<longrightarrow> n = m)"

abbreviation fcs_files :: "file_chunks \<Rightarrow> (string, byte list) fmap" where
  "fcs_files s \<equiv> fbs_files (fcs_bs s)"

definition fcs_inv :: "(nat \<Rightarrow> string list) \<Rightarrow> file_chunks \<Rightarrow> bool" where
  "fcs_inv names s \<longleftrightarrow> fbs_flags (fcs_bs s) = O_RDWR \<and> fbs_fmask (fcs_bs s) = O_RDONLY OR O_WRONLY OR O_RDWR OR O_CREATE OR O_EXCL \<and>
     (\<forall>n \<ge> fcs_n s. hd (names n) \<notin> fmdom' (fcs_files s))"

definition fcs_known :: "(nat \<Rightarrow> string list) \<Rightarrow> file_chunks \<Rightarrow> string set" where
  "fcs_known names s = fmdom' (fcs_files s) \<union> {hd (names n) | n. fcs_n s \<le> n}"

definition fcs_stored :: "FileBlobHandle chunk_env \<Rightarrow> file_chunks \<Rightarrow> string \<Rightarrow> byte list \<Rightarrow> bool" where
  "fcs_stored env s bp q \<longleftrightarrow> (\<exists>c. fmlookup (fcs_files s) bp = Some c \<and> chunk_blob env c q)"

definition fcs_has ::
    "FileBlobHandle chunk_env \<Rightarrow> (nat \<Rightarrow> string list) \<Rightarrow> string \<times> FileBlobHandle ChunkIO \<Rightarrow> string \<Rightarrow> file_chunks \<Rightarrow> byte list \<Rightarrow> bool" where
  "fcs_has env names i bp s q \<longleftrightarrow>
     fcs_inv names s \<and> fst i = bp \<and> fmlookup (fcs_files s) bp = Some (fh_content (ch_bh (snd i))) \<and>
     chunk_state env fh_content (\<lambda>h. fh_readable h \<and> fh_writable h) q (snd i)"

lemma on_file_has:
  assumes "fcs_has env names i bp s q" "f (snd i) = (ch', r)"
  shows "on_file f (i, s) = (((bp, ch'), store bp ch' s), r)"
    "chunk_state env fh_content (\<lambda>h. fh_readable h \<and> fh_writable h) q' ch' \<Longrightarrow> fcs_has env names (bp, ch') bp (store bp ch' s) q'"
    "chunk_blob env (fh_content (ch_bh ch')) q' \<Longrightarrow> fcs_inv names (store bp ch' s) \<and> fcs_stored env (store bp ch' s) bp q'"
    "keeps (fcs_known names) (fcs_stored env) bp s (store bp ch' s)"
proof -
  obtain ch where i: "i = (bp, ch)" using assms(1) by (cases i) (simp add: fcs_has_def)
  have "load s bp ch = ch" using assms(1) i by (simp add: fcs_has_def load_def)
  with assms(2) i show "on_file f (i, s) = (((bp, ch'), store bp ch' s), r)" by (simp add: on_file_def)
  have d: "fmdom' (fcs_files (store bp ch' s)) = fmdom' (fcs_files s)" "fcs_n (store bp ch' s) = fcs_n s"
    using assms(1) by (auto simp: fcs_has_def store_def insert_absorb fmdom'I split: option.splits)
  have inv: "fcs_inv names (store bp ch' s)"
    using assms(1) d by (auto simp: fcs_has_def fcs_inv_def store_def split: option.splits)
  then show "chunk_state env fh_content (\<lambda>h. fh_readable h \<and> fh_writable h) q' ch' \<Longrightarrow> fcs_has env names (bp, ch') bp (store bp ch' s) q'"
    "chunk_blob env (fh_content (ch_bh ch')) q' \<Longrightarrow> fcs_inv names (store bp ch' s) \<and> fcs_stored env (store bp ch' s) bp q'"
    using assms(1) by (auto simp: fcs_has_def fcs_stored_def store_def)
  show "keeps (fcs_known names) (fcs_stored env) bp s (store bp ch' s)"
    using d by (auto simp: keeps_def fcs_known_def fcs_stored_def store_def split: option.splits)
qed

lemma rdwr_mask:
  "O_RDWR AND (O_RDONLY OR O_WRONLY OR O_RDWR OR O_CREATE OR O_EXCL) = O_RDWR"
  "(O_RDWR OR (O_CREATE OR O_EXCL)) AND (O_RDONLY OR O_WRONLY OR O_RDWR OR O_CREATE OR O_EXCL) = O_RDWR OR (O_CREATE OR O_EXCL)"
  "IsReadAllowed O_RDWR" "IsWriteAllowed O_RDWR" "IsReadAllowed (O_RDWR OR (O_CREATE OR O_EXCL))" "IsWriteAllowed (O_RDWR OR (O_CREATE OR O_EXCL))"
  "O_RDWR AND O_CREATE = 0" "(O_RDWR OR (O_CREATE OR O_EXCL)) AND O_CREATE \<noteq> 0" "IsReadWriteAllowed O_RDWR"
  by (simp_all add: flag_defs IsReadAllowed_def IsWriteAllowed_def IsReadWriteAllowed_def O_ACCMODE_def O_CREATE_def O_EXCL_def Let_def)

lemma new_header_range:
  "- (2 ^ 63) \<le> off \<and> off \<le> MaxInt64 \<Longrightarrow>
   header_range \<lparr>FrameEncapsulation = 0, PayloadLen = 0, PayloadVersion = 0, OrigFilename = name, OrigOffset = off\<rparr>"
  by (simp add: header_range_def MaxInt64_def)

lemma fcs_generate:
  assumes "names_ok names" "fcs_inv names s"
  shows "co_GenerateNewBlobPath (file_chunk_ops env names) s = (Inr (hd (names (fcs_n s))), s\<lparr>fcs_n := Suc (fcs_n s)\<rparr>)"
    "fcs_inv names (s\<lparr>fcs_n := Suc (fcs_n s)\<rparr>)" "hd (names (fcs_n s)) \<notin> fcs_known names (s\<lparr>fcs_n := Suc (fcs_n s)\<rparr>)"
proof -
  obtain c cs where c: "names (fcs_n s) = c # cs" "c \<noteq> ''''" using assms(1) unfolding names_ok_def by (metis list.collapse)
  have n: "c \<notin> fmdom' (fcs_files s)" using assms(2) c(1) unfolding fcs_inv_def by fastforce
  then have "open_size (fcs_bs s) c = Inl (Errno ENOENT)"
    by (simp add: open_size_def FileBlobStore_Open_def Let_def O_RDONLY_def fmdom'_notD)
  with c show "co_GenerateNewBlobPath (file_chunk_ops env names) s = (Inr (hd (names (fcs_n s))), s\<lparr>fcs_n := Suc (fcs_n s)\<rparr>)"
    by (simp add: file_chunk_ops_def GenerateNewBlobPath_def MaxTrial_def numeral_eq_Suc)
  show "fcs_inv names (s\<lparr>fcs_n := Suc (fcs_n s)\<rparr>)" using assms(2) by (simp add: fcs_inv_def)
  show "hd (names (fcs_n s)) \<notin> fcs_known names (s\<lparr>fcs_n := Suc (fcs_n s)\<rparr>)"
    using n c(1) assms(1) unfolding fcs_known_def names_ok_def by fastforce
qed

text \<open>The directory keeps the contract.\<close>

lemma file_chunk_store:
  assumes env: "chunk_env_ok FileBlobHandle_ops env" and names: "names_ok names"
  shows "chunk_store (file_chunk_ops env names) (fcs_inv names) (fcs_known names) (fcs_stored env) (fcs_has env names)"
proof
  fix s assume s: "fcs_inv names s"
  show "IsReadWriteAllowed (co_Flags (file_chunk_ops env names) s)"
    using s by (simp add: fcs_inv_def file_chunk_ops_def FileBlobStore_Flags_def rdwr_mask)
  show "\<exists>bp s'. co_GenerateNewBlobPath (file_chunk_ops env names) s = (Inr bp, s') \<and> fcs_inv names s' \<and> bp \<notin> fcs_known names s' \<and> bp \<noteq> '''' \<and>
      (\<forall>b q. fcs_stored env s b q \<longrightarrow> fcs_stored env s' b q) \<and> (\<forall>i b q. fcs_has env names i b s q \<longrightarrow> fcs_has env names i b s' q)"
    using fcs_generate [OF names s] names by (auto simp: names_ok_def fcs_stored_def fcs_has_def)
next
  fix i bp s q assume "fcs_has env names i bp s q"
  then show "fcs_inv names s \<and> bp \<in> fcs_known names s" by (auto simp: fcs_has_def fcs_known_def fmdom'I)
next
  fix s bp q assume "fcs_stored env s bp q"
  then show "bp \<in> fcs_known names s" by (auto simp: fcs_stored_def fcs_known_def fmdom'I)
next
  fix s bp q off name assume a: "fcs_inv names s" "fcs_stored env s bp q" "- (2 ^ 63) \<le> off \<and> off \<le> MaxInt64"
  show "\<exists>h s'. co_Open (file_chunk_ops env names) bp O_RDWR s = (Inr h, s') \<and> keeps (fcs_known names) (fcs_stored env) bp s s' \<and>
      fcs_has env names (co_newChunkIO (file_chunk_ops env names) h name off) bp s' q"
  proof -
    obtain c where c: "fmlookup (fcs_files s) bp = Some c" "chunk_blob env c q" using a(2) by (auto simp: fcs_stored_def)
    define h where "h = \<lparr>fh_content = c, fh_readable = True, fh_writable = True\<rparr>"
    have "FileBlobStore_Open bp O_RDWR (fcs_bs s) = (Inr h, fcs_bs s)"
      using a(1) c(1) by (simp add: FileBlobStore_Open_def fcs_inv_def rdwr_mask h_def Let_def)
    then have "co_Open (file_chunk_ops env names) bp O_RDWR s = (Inr (bp, h), s)" by (simp add: file_chunk_ops_def)
    moreover have "fcs_has env names (co_newChunkIO (file_chunk_ops env names) (bp, h) name off) bp s q"
      using a(1) c file_handle.Open_state [OF _ _ _ new_header_range [OF a(3)], of h env q name]
      by (simp add: fcs_has_def file_chunk_ops_def h_def NewChunkIOWithMetadata_def NewChunkIO_def)
    ultimately show ?thesis by (auto simp: keeps_def)
  qed
next
  fix s bp off name assume a: "fcs_inv names s" "bp \<notin> fcs_known names s" "- (2 ^ 63) \<le> off \<and> off \<le> MaxInt64"
  show "\<exists>h s'. co_Open (file_chunk_ops env names) bp (O_RDWR OR (O_CREATE OR O_EXCL)) s = (Inr h, s') \<and>
      fcs_known names s' = insert bp (fcs_known names s) \<and> (\<forall>b q. fcs_stored env s b q \<longrightarrow> fcs_stored env s' b q) \<and>
      fcs_has env names (co_newChunkIO (file_chunk_ops env names) h name off) bp s' []"
  proof -
    define h where "h = \<lparr>fh_content = [], fh_readable = True, fh_writable = True\<rparr>"
    define s' where "s' = s\<lparr>fcs_bs := (fcs_bs s)\<lparr>fbs_files := fmupd bp [] (fcs_files s)\<rparr>\<rparr>"
    have n: "fmlookup (fcs_files s) bp = None" "\<forall>n \<ge> fcs_n s. bp \<noteq> hd (names n)"
      using a(2) by (auto simp: fcs_known_def fmdom'_notD)
    have "FileBlobStore_Open bp (O_RDWR OR (O_CREATE OR O_EXCL)) (fcs_bs s) = (Inr h, fcs_bs s')"
      using a(1) n(1) by (simp add: FileBlobStore_Open_def fcs_inv_def rdwr_mask h_def s'_def Let_def)
    then have "co_Open (file_chunk_ops env names) bp (O_RDWR OR (O_CREATE OR O_EXCL)) s = (Inr (bp, h), s')"
      by (simp add: file_chunk_ops_def s'_def)
    moreover have "fcs_inv names s'" using a(1) n(2) by (auto simp: fcs_inv_def s'_def)
    then have "fcs_has env names (co_newChunkIO (file_chunk_ops env names) (bp, h) name off) bp s' []"
      using file_handle.Open_state [OF _ _ _ new_header_range [OF a(3)], of h env "[]" name] chunk_blob_empty [of env]
      by (simp add: fcs_has_def file_chunk_ops_def h_def s'_def NewChunkIOWithMetadata_def NewChunkIO_def)
    ultimately show ?thesis using n(1) by (auto simp: fcs_known_def fcs_stored_def s'_def)
  qed
next
  fix s h assume "fcs_inv names s"
  then show "\<exists>s'. co_CloseHandle (file_chunk_ops env names) h s = (None, s') \<and> fcs_inv names s' \<and>
      fcs_known names s' = fcs_known names s \<and> (\<forall>b q. fcs_stored env s b q \<longrightarrow> fcs_stored env s' b q)"
    by (simp add: file_chunk_ops_def)
next
  fix i bp s q off n assume a: "fcs_has env names i bp s q" "0 \<le> off" "off + int n \<le> int (length q)"
  from a(1) have "chunk_state env fh_content (\<lambda>h. fh_readable h \<and> fh_writable h) q (snd i)" by (simp add: fcs_has_def)
  from file_handle.PRead_state [OF env this a(2,3)] on_file_has [OF a(1)]
  show "\<exists>i' s'. co_PRead (file_chunk_ops env names) n off (i, s) = ((i', s'), Inr (fread q (nat off) n)) \<and>
      fcs_has env names i' bp s' q \<and> keeps (fcs_known names) (fcs_stored env) bp s s'"
    by (fastforce simp: file_chunk_ops_def)
next
  fix i bp s q off and p :: "byte list" assume a: "fcs_has env names i bp s q" "0 \<le> off" "off + int (length p) \<le> MaxInt32"
  from a(1) have "chunk_state env fh_content (\<lambda>h. fh_readable h \<and> fh_writable h) q (snd i)" by (simp add: fcs_has_def)
  from file_handle.PWrite_state [OF env this a(2,3)] on_file_has [OF a(1)]
  show "\<exists>i' s'. co_PWrite (file_chunk_ops env names) p off (i, s) = ((i', s'), None) \<and>
      fcs_has env names i' bp s' (fwrite q (nat off) p) \<and> keeps (fcs_known names) (fcs_stored env) bp s s'"
    by (fastforce simp: file_chunk_ops_def)
next
  fix i bp s q assume a: "fcs_has env names i bp s q"
  then have st: "chunk_state env fh_content (\<lambda>h. fh_readable h \<and> fh_writable h) q (snd i)" by (simp add: fcs_has_def)
  from file_handle.Size_state [OF env st] on_file_has [OF a]
  show "\<exists>i' s'. co_Size (file_chunk_ops env names) (i, s) = ((i', s'), int (length q)) \<and>
      fcs_has env names i' bp s' q \<and> keeps (fcs_known names) (fcs_stored env) bp s s'"
    by (fastforce simp: file_chunk_ops_def)
  from file_handle.Close_state [OF env st] on_file_has [OF a]
  show "\<exists>i' s'. co_Close (file_chunk_ops env names) (i, s) = ((i', s'), None) \<and> fcs_inv names s' \<and> fcs_stored env s' bp q \<and>
      keeps (fcs_known names) (fcs_stored env) bp s s'"
    by (fastforce simp: file_chunk_ops_def)
qed

section \<open>The array that is saved\<close>

lemma closeCachedChunkIO_frame:
  "closeCachedChunkIO co cf = (cf', e) \<Longrightarrow> cf_cs cf' = cf_cs cf \<and> cf_caio cf' = cf_caio cf"
  by (auto simp: closeCachedChunkIO_def split: option.splits prod.splits)

lemma openChunkIO_frame: "openChunkIO co bp new off cf = (cf', r) \<Longrightarrow> cf_cs cf' = cf_cs cf \<and> cf_caio cf' = cf_caio cf"
  by (auto simp: openChunkIO_def Let_def dest: closeCachedChunkIO_frame split: if_splits option.splits prod.splits sum.splits)

lemma writeToChunk_frame:
  assumes "writeToChunk co c new maxlen p off cf = (cf', r)"
  shows "cf_cs cf' = cf_cs cf" "cf_caio cf' = cf_caio cf" "r = Inr (c', n, False) \<Longrightarrow> c' = c"
  using assms
  by (auto simp: writeToChunk_def Let_def split: prod.splits sum.splits option.splits if_splits dest!: openChunkIO_frame)

lemma newFileChunk_frame: "newFileChunk co newo cf = (cf', r) \<Longrightarrow> cf_cs cf' = cf_cs cf \<and> cf_caio cf' = cf_caio cf"
  by (auto simp: newFileChunk_def split: prod.splits sum.splits)

lemma pwrite_chunks_frame:
  "pwrite_chunks co fuel i need remo remp cf = Some (cf', Inr (need', remo', remp')) \<Longrightarrow>
   cf_caio cf' = cf_caio cf \<and> (need \<longrightarrow> need') \<and> (need' \<or> cf_cs cf' = cf_cs cf)"
proof (induction fuel arbitrary: i need remo remp cf)
  case (Suc fuel)
  let ?c = "cf_cs cf ! i"
  consider "\<not> (i < length (cf_cs cf) \<and> remp \<noteq> [])" | "i < length (cf_cs cf)" "remp \<noteq> []" "FileChunk_Left ?c > remo"
    | "i < length (cf_cs cf)" "remp \<noteq> []" "\<not> FileChunk_Left ?c > remo" by blast
  then show ?case
  proof cases
    case 1
    with Suc.prems show ?thesis by auto
  next
    case 2
    obtain newo maxlen where pl: "insert_place (cf_cs cf) i remo = (newo, maxlen)" by fastforce
    with Suc.prems 2 obtain cf1 newc where n: "newFileChunk co newo cf = (cf1, Inr newc)"
      by (auto split: prod.splits sum.splits)
    with Suc.prems 2 pl obtain cf3 c' m u where
      "writeToChunk co newc True maxlen remp remo (cf1\<lparr>cf_cs := take i (cf_cs cf1) @ [newc] @ drop i (cf_cs cf1)\<rparr>) = (cf3, Inr (c', m, u))"
      "pwrite_chunks co fuel (i + 1) True (wrap64 (remo + int m)) (drop m remp) cf3 = Some (cf', Inr (need', remo', remp'))"
      by (auto simp: Let_def split: prod.splits sum.splits)
    with Suc.IH [OF this(2)] writeToChunk_frame(2) [OF this(1)] newFileChunk_frame [OF n] show ?thesis by simp
  next
    case 3
    show ?thesis
    proof (cases "wrap64 (FileChunk_Left ?c + chunk_maxlen (cf_cs cf) i) < remo")
      case True
      with Suc.prems 3 show ?thesis by (intro Suc.IH [of "i + 1" need remo remp cf]) (simp add: Let_def)
    next
      case False
      with Suc.prems 3 obtain cf1 c' m u where
        w: "writeToChunk co ?c False (chunk_maxlen (cf_cs cf) i) remp remo cf = (cf1, Inr (c', m, u))"
        "pwrite_chunks co fuel (i + 1) (need \<or> u) (wrap64 (remo + int m)) (drop m remp) (cf1\<lparr>cf_cs := (cf_cs cf1)[i := c']\<rparr>) =
          Some (cf', Inr (need', remo', remp'))"
        by (auto simp: Let_def split: prod.splits sum.splits)
      from Suc.IH [OF w(2)] writeToChunk_frame(1,2) [OF w(1)] writeToChunk_frame(3) [OF w(1), of c' m]
      show ?thesis by (cases u) auto
    qed
  qed
qed simp

lemma pwrite_append_frame:
  "pwrite_append co fuel need remo remp cf = Some (cf', Inr need') \<Longrightarrow>
   cf_caio cf' = cf_caio cf \<and> (need \<longrightarrow> need') \<and> (need' \<or> cf_cs cf' = cf_cs cf)"
proof (induction fuel arbitrary: need remo remp cf)
  case (Suc fuel)
  show ?case
  proof (cases "remp = []")
    case False
    with Suc.prems obtain cf1 newc where n: "newFileChunk co (fst (append_place (cf_cs cf) remo)) cf = (cf1, Inr newc)"
      by (auto split: prod.splits sum.splits)
    with Suc.prems False obtain cf2 c' m u where
      "writeToChunk co newc True (snd (append_place (cf_cs cf) remo)) remp remo cf1 = (cf2, Inr (c', m, u))"
      "pwrite_append co fuel True (wrap64 (remo + int m)) (drop m remp) (cf2\<lparr>cf_cs := cf_cs cf2 @ [c']\<rparr>) = Some (cf', Inr need')"
      by (auto split: prod.splits sum.splits)
    with Suc.IH [OF this(2)] writeToChunk_frame(2) [OF this(1)] newFileChunk_frame [OF n] show ?thesis by simp
  qed (use Suc.prems in auto)
qed simp

lemma PWrite_saves_any:
  assumes "ChunkedFileIO_PWrite co caops fuel p off cf = Some (cf', None)" "A (cf_caio cf) (cf_cs cf)"
    and "\<And>cs0 cs a. A a cs0 \<Longrightarrow> A (snd (ca_Write caops cs a)) cs"
  shows "A (cf_caio cf') (cf_cs cf')"
proof (cases "p = [] \<or> \<not> IsReadWriteAllowed (co_Flags co (cf_bs cf))")
  case True
  with assms(1,2) show ?thesis by (auto simp: ChunkedFileIO_PWrite_def split: if_splits)
next
  case False
  with assms(1) obtain cf1 need remo remp where
    c: "pwrite_chunks co fuel 0 False off p cf = Some (cf1, Inr (need, remo, remp))"
    by (auto simp: ChunkedFileIO_PWrite_def split: option.splits prod.splits sum.splits)
  with assms(1) False obtain cf2 need' where a: "pwrite_append co fuel need remo remp cf1 = Some (cf2, Inr need')"
    by (auto simp: ChunkedFileIO_PWrite_def split: option.splits prod.splits sum.splits)
  have "cf' = (if need' then cf2\<lparr>cf_caio := snd (ca_Write caops (cf_cs cf2) (cf_caio cf2))\<rparr> else cf2)"
    using assms(1) False c a by (simp add: ChunkedFileIO_PWrite_def)
  with pwrite_chunks_frame [OF c] pwrite_append_frame [OF a] assms(2) show ?thesis
    using assms(3) by (auto split: if_splits)
qed

lemma PWrite_saves:
  assumes "ChunkedFileIO_PWrite co SimpleDBChunksArrayIO_ops fuel p off cf = Some (cf', None)" "Cs (cf_caio cf) = cf_cs cf"
  shows "Cs (cf_caio cf') = cf_cs cf'"
  using PWrite_saves_any [where A = "\<lambda>a cs. Cs a = cs", OF assms(1,2)] by (simp add: SimpleDBChunksArrayIO_ops_def)

section \<open>The write cache over a file in chunks\<close>

text \<open>A state with a ghost: the loops of the cache do the same on the state alone.\<close>

definition ghost_read :: "'r ReadAter \<Rightarrow> ('r \<times> byte list) ReadAter" where
  "ghost_read r n off st = (case r n off (fst st) of (s', bs, e) \<Rightarrow> ((s', snd st), bs, e))"

definition ghost_write :: "'r PWriter \<Rightarrow> ('r \<times> byte list) PWriter" where
  "ghost_write w p off st = (case w p off (fst st) of (s', e) \<Rightarrow> ((s', fwrite (snd st) (nat off) p), e))"

lemma sync_loop_ghost:
  "sync_loop (ghost_write w) ps contP off (s, q) = ((s', q'), e) \<Longrightarrow> sync_loop w ps contP off s = (s', e)"
  by (induction ps arbitrary: contP off s q) (auto simp: ghost_write_def Let_def split: if_splits prod.splits)

lemma read_through_ghost:
  "read_through (ghost_read r) ps st (s, q) = ((s', q'), res) \<Longrightarrow> read_through r ps st s = (s', res)"
proof (induction r ps st s arbitrary: q rule: read_through.induct)
  case (1 r remo n acc s)
  then show ?case by (auto simp: read_last_def ghost_read_def split: prod.splits option.splits)
next
  case (2 r patch ps remo n acc s)
  then show ?case
    by (auto simp: read_last_def read_gap_def ghost_read_def Let_def split: prod.splits option.splits if_splits sum.splits)
qed

text \<open>Rounds enough for a write anywhere below \<open>MaxInt64\<close> to a file of that size.\<close>

definition enough_fuel :: "nat \<Rightarrow> bool" where
  "enough_fuel fuel \<longleftrightarrow> 2 ^ 64 \<le> fuel"

lemma layout_length:
  assumes "layout cs q"
  shows "length cs \<le> length q"
proof (rule ccontr)
  assume "\<not> length cs \<le> length q"
  moreover have "(length q < length cs) = (length q * split_size < length q)" using assms unfolding layout_def by blast
  ultimately show False using split_size(2) by simp
qed

locale chunk_file = chunk_store co sinv known stored has
  for co :: "('s, 'h, 'i) chunk_ops" and sinv and known and stored and has +
  fixes caops :: "'a ChunksArrayIO" and fuel :: nat
  assumes fuel: "enough_fuel fuel"

sublocale chunk_file \<subseteq> chunk_reader: read_ater "ghost_read (cfio_read co)" "snd :: ('s, 'h, 'i, 'a) ChunkedFileIO \<times> byte list \<Rightarrow> byte list"
  "\<lambda>(cf, q). file_rep sinv stored has q cf" "MaxInt64 - ChunkSplitSize"
proof
  fix st :: "('s, 'h, 'i, 'a) ChunkedFileIO \<times> byte list" and off :: int and n :: nat
  assume a: "case st of (cf, q) \<Rightarrow> rep q cf" "0 \<le> off" "off + int n \<le> MaxInt64 - ChunkSplitSize"
  obtain cf q where st: "st = (cf, q)" by (cases st)
  with a(1) have r: "rep q cf" by simp
  have b: "int (max (length q) (nat off + length (replicate n (0 :: byte)))) + ChunkSplitSize \<le> MaxInt64"
    using layout_bound [OF file_repD(2) [OF r], of "length q"] a(2,3) by auto
  from ReadAt_rep [OF r b] a(2) st show "\<exists>st'. ghost_read (cfio_read co) n off st = (st', fread (snd st) (nat off) n, None) \<and>
      (case st' of (cf, q) \<Rightarrow> rep q cf) \<and> snd st' = snd st"
    by (auto simp: ghost_read_def cfio_read_def)
qed

sublocale chunk_file \<subseteq> chunk_writer: pwriter "ghost_write (cfio_write co caops fuel)" snd "\<lambda>(cf, q). file_rep sinv stored has q cf"
  "\<lambda>l off. off div split_size \<le> l div split_size" "MaxInt64 - ChunkSplitSize"
proof
  show "MaxInt64 - ChunkSplitSize \<le> MaxInt64" using split_pos by simp
  fix st :: "('s, 'h, 'i, 'a) ChunkedFileIO \<times> byte list" and off :: int and p :: "byte list"
  assume a: "case st of (cf, q) \<Rightarrow> rep q cf" "0 \<le> off" "off + int (length p) \<le> MaxInt64 - ChunkSplitSize"
    "nat off div split_size \<le> length (snd st) div split_size"
  obtain cf q where st: "st = (cf, q)" by (cases st)
  with a(1) have r: "rep q cf" by simp
  note q = layout_bound [OF file_repD(2) [OF r], of "length q"]
  have b: "int (max (length q) (nat off + length p)) + ChunkSplitSize \<le> MaxInt64" using q a(2,3) by auto
  have "int (length (cf_cs cf)) + int (length p) < 2 ^ 64"
    using layout_length [OF file_repD(2) [OF r]] q a(2,3) split_pos by (simp add: MaxInt64_def)
  then have "length (cf_cs cf) + length p < fuel" using fuel by (simp add: enough_fuel_def)
  from PWrite_rep [OF r _ b this, of caops] a st obtain cf' where
    "ChunkedFileIO_PWrite co caops fuel p off cf = Some (cf', None)" "rep (fwrite q (nat off) p) cf'" by auto
  with st show "\<exists>s'. ghost_write (cfio_write co caops fuel) p off st = (s', None) \<and>
      (case s' of (cf, q) \<Rightarrow> rep q cf) \<and> snd s' = fwrite (snd st) (nat off) p"
    by (simp add: ghost_write_def cfio_write_def)
qed

context chunk_file
begin

text \<open>The cache over the file: reading through it and syncing it.\<close>

lemma read_through_rep:
  fixes cf :: "('s, 'h, 'i, 'a) ChunkedFileIO"
  assumes "rep q cf" "wf_patches (wc_ps wc)" "0 \<le> off" "int n \<le> MaxInt32" "off + int n + ChunkSplitSize \<le> MaxInt64"
    and "\<forall>p \<in> set (wc_ps wc). int (length (Patch_P p)) \<le> MaxInt32"
  shows "\<exists>cf'. ReadAtThrough n off (cfio_read co) wc cf = (cf', fread (apply_patches (wc_ps wc) q) (nat off) n, None) \<and> rep q cf'"
proof -
  have inv: "case (cf, q) of (cf, q) \<Rightarrow> rep q cf" using assms(1) by simp
  have "off + int n \<le> MaxInt64 - ChunkSplitSize" using assms(5) by simp
  from chunk_reader.read_through_content [OF inv assms(2-4) this assms(6), of "[]"] obtain cf' q' where
    "read_through (ghost_read (cfio_read co)) (wc_ps wc) (off, n, []) (cf, q) =
      ((cf', q'), fread (apply_patches (wc_ps wc) q) (nat off) n, None)" "rep q' cf'" "q' = q" by auto
  with read_through_ghost [OF this(1)] show ?thesis by (auto simp: ReadAtThrough_def)
qed

lemma sync_rep:
  assumes "rep q cf" "wf_patches (wc_ps wc)" "\<forall>p \<in> set (wc_ps wc). \<not> IsSentinel p \<longrightarrow> patch_end p + ChunkSplitSize \<le> MaxInt64"
    and "runs_fit (\<lambda>l off. off div split_size \<le> l div split_size) (wc_ps wc) (length q) (- 1)"
  shows "\<exists>cf'. sync_loop (cfio_write co caops fuel) (wc_ps wc) None (- 1) cf = (cf', None) \<and> rep (apply_patches (wc_ps wc) q) cf'"
proof -
  have inv: "case (cf, q) of (cf, q) \<Rightarrow> rep q cf" using assms(1) by simp
  have "\<forall>p \<in> set (wc_ps wc). \<not> IsSentinel p \<longrightarrow> patch_end p \<le> MaxInt64 - ChunkSplitSize" using assms(3) by force
  with chunk_writer.sync_content [OF inv assms(2)] assms(4) obtain cf' q' where
    "sync_loop (ghost_write (cfio_write co caops fuel)) (wc_ps wc) None (- 1) (cf, q) = ((cf', q'), None)" "rep q' cf'"
    "q' = apply_patches (wc_ps wc) q" by auto
  with sync_loop_ghost [OF this(1)] show ?thesis by auto
qed

end

lemma file_chunk_file:
  "chunk_env_ok FileBlobHandle_ops env \<Longrightarrow> names_ok names \<Longrightarrow> enough_fuel fuel \<Longrightarrow>
   chunk_file (file_chunk_ops env names) (fcs_inv names) (fcs_known names) (fcs_stored env) (fcs_has env names) fuel"
  by (simp add: chunk_file_def chunk_file_axioms_def file_chunk_store)

definition toy_names :: "nat \<Rightarrow> string list" where
  "toy_names n = [replicate (Suc n) CHR ''a'']"

lemma toy_names_ok: "names_ok toy_names"
  by (simp add: names_ok_def toy_names_def)

interpretation toy_file: chunk_file "file_chunk_ops (toy_env FileBlobHandle_ops) toy_names" "fcs_inv toy_names" "fcs_known toy_names"
  "fcs_stored (toy_env FileBlobHandle_ops)" "fcs_has (toy_env FileBlobHandle_ops) toy_names" SimpleDBChunksArrayIO_ops "2 ^ 64"
  by (rule file_chunk_file [OF toy_env_ok toy_names_ok]) (simp add: enough_fuel_def)

section \<open>Properties\<close>

text \<open>Writes one after the other; \<open>starts_fit\<close> says that none of them starts in a chunk behind the last one.\<close>

fun cf_writes ::
    "('s, 'h, 'i) chunk_ops \<Rightarrow> 'a ChunksArrayIO \<Rightarrow> (byte list \<times> nat) list \<Rightarrow> ('s, 'h, 'i, 'a) ChunkedFileIO \<Rightarrow>
     (('s, 'h, 'i, 'a) ChunkedFileIO \<times> error option) option" where
  "cf_writes co caops [] cf = Some (cf, None)"
| "cf_writes co caops ((p, off) # ws) cf =
     (case ChunkedFileIO_PWrite co caops (Suc (length (cf_cs cf) + length p)) p (int off) cf of
        Some (cf', None) \<Rightarrow> cf_writes co caops ws cf'
      | r \<Rightarrow> r)"

fun starts_fit :: "(byte list \<times> nat) list \<Rightarrow> byte list \<Rightarrow> bool" where
  "starts_fit [] q = True"
| "starts_fit ((p, off) # ws) q \<longleftrightarrow>
     off div split_size \<le> length q div split_size \<and> int (off + length p) + ChunkSplitSize \<le> MaxInt64 \<and>
     starts_fit ws (fwrite q off p)"

definition ideal_file :: "(byte list \<times> nat) list \<Rightarrow> byte list \<Rightarrow> byte list" where
  "ideal_file ws q = fold (\<lambda>(p, off) q. fwrite q off p) ws q"

context chunk_store
begin

lemma cf_writes_rep:
  assumes "rep q cf" "Cs (cf_caio cf) = cf_cs cf" "starts_fit ws q"
  shows "\<exists>cf'. cf_writes co SimpleDBChunksArrayIO_ops ws cf = Some (cf', None) \<and> rep (ideal_file ws q) cf' \<and> Cs (cf_caio cf') = cf_cs cf'"
  using assms
proof (induction ws arbitrary: q cf)
  case (Cons w ws)
  obtain p off where w: "w = (p, off)" by (cases w)
  have b: "int (max (length q) (off + length p)) + ChunkSplitSize \<le> MaxInt64"
    using layout_bound [OF file_repD(2) [OF Cons.prems(1)], of "length q"] Cons.prems(3) w by auto
  obtain cf1 where c: "ChunkedFileIO_PWrite co SimpleDBChunksArrayIO_ops (Suc (length (cf_cs cf) + length p)) p (int off) cf = Some (cf1, None)"
      "rep (fwrite q off p) cf1"
    using PWrite_rep [OF Cons.prems(1) _ b] Cons.prems(3) w by fastforce
  with Cons.IH [OF c(2) PWrite_saves [OF c(1) Cons.prems(2)]] Cons.prems(3) w show ?case by (simp add: ideal_file_def)
qed (simp add: ideal_file_def)

lemma reopened_rep:
  assumes "rep q cf" "cf_cachedCioBlobpath cf = ''''" "Cs (cf_caio cf) = cf_cs cf"
  shows "\<exists>cf' :: ('s, 'h, 'i, SimpleDBChunksArrayIO) ChunkedFileIO. NewChunkedFileIO (cf_bs cf) SimpleDBChunksArrayIO_ops (cf_caio cf) = Some cf' \<and> rep q cf'"
proof -
  note r = file_repD [OF assms(1)]
  have "stored (cf_bs cf) (fc_BlobPath (cf_cs cf ! k)) (piece split_size k q)" if "k < length (cf_cs cf)" for k
    using r(4) [OF that] layoutD(3) [OF r(2) that] assms(2) by (simp add: chunk_at_def)
  then show ?thesis using r(1,2) assms(3) layoutD(3) [OF r(2)]
    by (auto simp: NewChunkedFileIO_def SimpleDBChunksArrayIO_ops_def file_rep_def cached_ok_def chunk_at_def)
qed

lemma new_file_rep: "sinv s \<Longrightarrow> NewChunkedFileIO s SimpleDBChunksArrayIO_ops NewSimpleDBChunksArrayIO = Some cf \<Longrightarrow>
    rep [] cf \<and> Cs (cf_caio cf) = cf_cs cf"
  by (auto simp: NewChunkedFileIO_def SimpleDBChunksArrayIO_ops_def NewSimpleDBChunksArrayIO_def file_rep_def layout_def cached_ok_def
      ChunkSplitSize_def MaxInt64_def)

end

text \<open>
  C6. A new file in chunks, written at any offsets that do not start in a chunk behind the last one
  (overlapping, across chunk boundaries, in any order): all writes return and succeed, so does
  \<open>Close\<close>, and a file opened again on the chunk array that was saved and on the blobs has the size and
  the bytes of an ideal file after the same writes. Splitting into chunks, reusing the chunk that is
  open, encryption and saving the array only when it changed do not show.
\<close>

theorem chunked_file_written_closed_reopened:
  fixes cf :: file_in_chunks
  assumes "co = file_chunk_ops env names" "chunk_env_ok FileBlobHandle_ops env" "names_ok names" "fcs_inv names s"
    and "NewChunkedFileIO s SimpleDBChunksArrayIO_ops NewSimpleDBChunksArrayIO = Some cf" "starts_fit ws []"
  shows "\<exists>cf1 cf2 cf3. cf_writes co SimpleDBChunksArrayIO_ops ws cf = Some (cf1, None) \<and> ChunkedFileIO_Close co cf1 = (cf2, None) \<and>
    NewChunkedFileIO (cf_bs cf2) SimpleDBChunksArrayIO_ops (cf_caio cf2) = Some cf3 \<and>
    ChunkedFileIO_Size cf3 = int (length (ideal_file ws [])) \<and>
    (\<forall>p off. int (off + length p) + ChunkSplitSize \<le> MaxInt64 \<longrightarrow>
       snd (ChunkedFileIO_ReadAt co p (int off) cf3) =
         (fread (ideal_file ws []) off (length p) @ drop (length (fread (ideal_file ws []) off (length p))) p,
          int (length (fread (ideal_file ws []) off (length p))), None))"
proof -
  note st = file_chunk_store [OF assms(2,3), folded assms(1)]
  let ?rep = "file_rep (fcs_inv names) (fcs_stored env) (fcs_has env names)"
  let ?q = "ideal_file ws []"
  obtain cf1 where c1: "cf_writes co SimpleDBChunksArrayIO_ops ws cf = Some (cf1, None)" "?rep ?q cf1" "Cs (cf_caio cf1) = cf_cs cf1"
    using chunk_store.cf_writes_rep [OF st] chunk_store.new_file_rep [OF st assms(4,5)] assms(6) by blast
  obtain cf2 where c2: "ChunkedFileIO_Close co cf1 = (cf2, None)" "?rep ?q cf2" "cf_cs cf2 = cf_cs cf1" "cf_cachedCioBlobpath cf2 = ''''"
    using chunk_store.Close_rep [OF st c1(2)] by blast
  have "Cs (cf_caio cf2) = cf_cs cf2"
    using closeCachedChunkIO_frame [of co cf1 cf2 None] c1(3) c2(1,3) by (simp add: ChunkedFileIO_Close_def)
  from chunk_store.reopened_rep [OF st c2(2,4) this] obtain cf3 :: file_in_chunks where
    c3: "NewChunkedFileIO (cf_bs cf2) SimpleDBChunksArrayIO_ops (cf_caio cf2) = Some cf3" "?rep ?q cf3" by blast
  have "snd (ChunkedFileIO_ReadAt co p (int off) cf3) =
      (fread ?q off (length p) @ drop (length (fread ?q off (length p))) p, int (length (fread ?q off (length p))), None)"
    if "int (off + length p) + ChunkSplitSize \<le> MaxInt64" for p off
  proof -
    have "int (max (length ?q) (off + length p)) + ChunkSplitSize \<le> MaxInt64"
      using layout_bound [OF file_repD(2) [OF c3(2)], of "length ?q"] that by auto
    from chunk_store.ReadAt_rep [OF st c3(2) this] show ?thesis by auto
  qed
  with c1(1) c2(1) c3(1) chunk_store.Size_rep [OF st c3(2)] show ?thesis by blast
qed

definition toy_store :: file_chunks where
  "toy_store = \<lparr>fcs_bs = NewFileBlobStore fmempty O_RDWR, fcs_n = 0\<rparr>"

lemma toy_store_inv: "fcs_inv names toy_store"
  by (simp add: toy_store_def fcs_inv_def NewFileBlobStore_def FileBlobStore_SetFlags_def rdwr_mask)

theorem chunked_file_written_closed_reopened_witness:
  "\<exists>cf cf1 cf2 cf3. NewChunkedFileIO toy_store SimpleDBChunksArrayIO_ops NewSimpleDBChunksArrayIO = Some cf \<and>
    cf_writes (file_chunk_ops (toy_env FileBlobHandle_ops) toy_names) SimpleDBChunksArrayIO_ops [([1, 2], 3), ([9], 4)] cf = Some (cf1, None) \<and>
    ChunkedFileIO_Close (file_chunk_ops (toy_env FileBlobHandle_ops) toy_names) cf1 = (cf2, None) \<and>
    NewChunkedFileIO (cf_bs cf2) SimpleDBChunksArrayIO_ops (cf_caio cf2) = Some cf3 \<and>
    snd (ChunkedFileIO_ReadAt (file_chunk_ops (toy_env FileBlobHandle_ops) toy_names) [7, 7, 7, 7] 2 cf3) = ([0, 1, 9, 7], 3, None)"
proof -
  let ?co = "file_chunk_ops (toy_env FileBlobHandle_ops) toy_names"
  obtain cf where cf: "NewChunkedFileIO toy_store SimpleDBChunksArrayIO_ops NewSimpleDBChunksArrayIO =
      (Some cf :: file_in_chunks option)"
    by (simp add: NewChunkedFileIO_def SimpleDBChunksArrayIO_ops_def)
  have fit: "starts_fit [([1, 2], 3), ([9], 4)] []" by (simp add: split_size_def ChunkSplitSize_def MaxInt64_def)
  have ideal: "ideal_file [([1, 2], 3), ([9], 4)] [] = [0, 0, 0, 1, 9]" by (simp add: ideal_file_def fwrite_def numeral_eq_Suc)
  have b: "int (2 + length [7, 7, 7, 7 :: byte]) + ChunkSplitSize \<le> MaxInt64" by (simp add: ChunkSplitSize_def MaxInt64_def)
  have "fread [0, 0, 0, 1, 9 :: byte] 2 (length [7, 7, 7, 7 :: byte]) = [0, 1, 9]" by (simp add: fread_def numeral_eq_Suc)
  with chunked_file_written_closed_reopened [OF refl toy_env_ok toy_names_ok toy_store_inv cf fit] b cf show ?thesis
    unfolding ideal by fastforce
qed



section \<open>What goes wrong\<close>

context chunk_store
begin

text \<open>The first write, at the start of some chunk.\<close>

lemma PWrite_first:
  assumes "rep [] cf" "d \<noteq> []" "length d \<le> split_size" "int (k * split_size) + 2 * ChunkSplitSize \<le> MaxInt64"
  shows "\<exists>cf' bp i. ChunkedFileIO_PWrite co caops (Suc (Suc fuel)) d (int (k * split_size)) cf = Some (cf', None) \<and> bp \<noteq> '''' \<and>
    cf_cs cf' = [\<lparr>fc_Offset = int (k * split_size), fc_Length = int (length d), fc_BlobPath = bp\<rparr>] \<and>
    cf_cachedCioBlobpath cf' = bp \<and> cf_cachedCio cf' = Some i \<and> has i bp (cf_bs cf') d"
proof -
  have cs: "cf_cs cf = []"
    using file_repD(2) [OF assms(1)] by (auto simp: layout_def)
  define l where "l = k * split_size"
  obtain s bp where g: "newFileChunk co (int l) cf = (cf\<lparr>cf_bs := s\<rparr>, Inr \<lparr>fc_Offset = int l, fc_Length = 0, fc_BlobPath = bp\<rparr>)"
      "rep [] (cf\<lparr>cf_bs := s\<rparr>)" "bp \<notin> known s" "bp \<noteq> ''''"
    using newFileChunk_rep [OF assms(1)] by blast
  define newc where "newc = \<lparr>fc_Offset = int l, fc_Length = 0, fc_BlobPath = bp\<rparr>"
  note r = file_repD [OF g(2)]
  have "int l \<le> MaxInt64" using assms(4) split_pos unfolding l_def by linarith
  then have off: "- (2 ^ 63) \<le> FileChunk_Left newc \<and> FileChunk_Left newc \<le> MaxInt64"
    using int64_range [of l] by (simp add: newc_def FileChunk_Left_def)
  obtain cf1 i where o1: "openChunkIO co (fc_BlobPath newc) True (FileChunk_Left newc) (cf\<lparr>cf_bs := s\<rparr>) = (cf1, Inr i)"
      "cf_cachedCioBlobpath cf1 = fc_BlobPath newc" "has i (fc_BlobPath newc) (cf_bs cf1) []" "cf_cs cf1 = cf_cs cf"
    using openChunkIO_new [OF r(1,3) _ _ off, of "fc_BlobPath newc"] g(3,4) by (auto simp: newc_def)
  have d: "int l - FileChunk_Left newc = int 0" by (simp add: newc_def FileChunk_Left_def)
  have n: "length d = min (length d) (split_size - 0)" using assms(3) by simp
  have fw: "fwrite [] 0 (take (length d) d) = d" using fwrite_append_end [of "[]" d] by simp
  obtain cf2 i2 u where w: "writeToChunk co newc True ChunkSplitSize d (int l) (cf\<lparr>cf_bs := s\<rparr>) =
      (cf2, Inr (newc\<lparr>fc_Length := int (length d)\<rparr>, length d, u))" "cf_cs cf2 = cf_cs cf" "cf_cachedCioBlobpath cf2 = fc_BlobPath newc"
      "cf_cachedCio cf2 = Some i2" "has i2 (fc_BlobPath newc) (cf_bs cf2) d"
    using writeToChunk_open [OF o1(1,3,2) d _ n] o1(4) unfolding fw by auto
  have "append_place [] (int l) = (int l, ChunkSplitSize)"
    by (simp add: append_place_def align_down_nat l_def Let_def del: of_nat_mult)
  moreover note flags_rw [OF file_repD(1) [OF assms(1)]]
  ultimately show ?thesis using g(1,4) w cs assms(2)
    unfolding l_def [symmetric] by (auto simp: ChunkedFileIO_PWrite_def newc_def)
qed

lemma gap_read:
  assumes "cf_cs cf = [\<lparr>fc_Offset = int l, fc_Length = int (length d), fc_BlobPath = bp\<rparr>]" "cf_cachedCioBlobpath cf = bp"
    and "cf_cachedCio cf = Some i" "has i bp (cf_bs cf) d" "0 < g" "g \<le> l" "g \<le> length p" "length p \<le> length d"
    and "int l + 2 * ChunkSplitSize \<le> MaxInt64" "length d \<le> split_size"
  shows "\<exists>cf'. ChunkedFileIO_ReadAt co p (int (l - g)) cf = (cf', take (length p) d, int (g + length p), None)"
proof -
  let ?c = "\<lparr>fc_Offset = int l, fc_Length = int (length d), fc_BlobPath = bp\<rparr>"
  have len: "int (length d) \<le> ChunkSplitSize" using assms(10) split_size(1) by linarith
  have lr: "FileChunk_Left ?c = int l" "FileChunk_Right ?c = int (l + length d)"
    using assms(9) len split_pos by (simp_all add: FileChunk_Left_def FileChunk_Right_def wrap64_id)
  have w: "wrap64 (int (l - g) + int (length p)) = int (l - g + length p)"
    using assms(5-9) len split_pos by (simp add: wrap64_id)
  have wg: "wrap64 (int (l - g) - int l) = - int g"
    using assms(6,9) split_pos by (subst wrap64_id) (simp_all add: MaxInt64_def)
  have m: "min (int (length p)) (int g) = int g" using assms(7) by simp
  have wl: "wrap64 (int (length d)) = int (length d)" using assms(9) len split_pos by (simp add: wrap64_id)
  have "0 + int (length p) \<le> int (length d)" using assms(8) by simp
  from chunk_pread [OF assms(4) order_refl this] obtain i' s' where
    rd: "co_PRead co (length p) 0 (i, cf_bs cf) = ((i', s'), Inr (take (length p) d))" by (auto simp: fread_def)
  have "readFromChunk co ?c (length p) 0 cf = (cf\<lparr>cf_bs := s', cf_cachedCio := Some i'\<rparr>, Inr (take (length p) d))"
    using assms(2,3,8) rd wl by (simp add: readFromChunk_def openChunkIO_def Let_def)
  moreover have "IsReadAllowed (co_Flags co (cf_bs cf))"
    using flags_rw has_known [OF assms(4)] by (auto simp: IsReadAllowed_def IsReadWriteAllowed_def Let_def)
  moreover have "length p \<noteq> 0" "p \<noteq> []" using assms(5,7) by auto
  ultimately show ?thesis using assms(1,5-8) lr w wg m
    by (simp add: ChunkedFileIO_ReadAt_def Let_def)
qed

text \<open>A write before the first chunk.\<close>

lemma hole_write:
  assumes "cf_cs cf = [c]" "FileChunk_Left c = int l" "0 < l" "cf_cachedCioBlobpath cf \<noteq> ''''"
    and "cf_cachedCio cf = Some i" "has i (cf_cachedCioBlobpath cf) (cf_bs cf) r" "p \<noteq> []" "length p \<le> split_size"
  shows "\<exists>cf' newc. ChunkedFileIO_PWrite co caops (Suc (Suc fuel)) p 0 cf = Some (cf', None) \<and> cf_cs cf' = [newc, c] \<and>
    fc_Offset newc = 0 \<and> fc_Length newc = 0 \<and> sinv (cf_bs cf')"
proof -
  have sinv: "sinv (cf_bs cf)" using has_known [OF assms(6)] by simp
  obtain bp s where g: "co_GenerateNewBlobPath co (cf_bs cf) = (Inr bp, s)" "sinv s" "bp \<notin> known s" "bp \<noteq> ''''"
    "has i (cf_cachedCioBlobpath cf) s r"
    using generate [OF sinv] assms(6) by blast
  define newc where "newc = \<lparr>fc_Offset = 0, fc_Length = 0, fc_BlobPath = bp\<rparr>"
  define cf0 where "cf0 = cf\<lparr>cf_bs := s, cf_cs := [newc, c]\<rparr>"
  have ok: "sinv (cf_bs cf0)" "cached_ok has cf0" "fc_BlobPath newc \<notin> known (cf_bs cf0)" "fc_BlobPath newc \<noteq> ''''"
    using g assms(4,5) by (auto simp: cf0_def cached_ok_def newc_def)
  have off: "- (2 ^ 63) \<le> FileChunk_Left newc \<and> FileChunk_Left newc \<le> MaxInt64"
    by (simp add: newc_def FileChunk_Left_def MaxInt64_def)
  obtain cf1 j where o1: "openChunkIO co (fc_BlobPath newc) True (FileChunk_Left newc) cf0 = (cf1, Inr j)"
      "cf_cachedCioBlobpath cf1 = fc_BlobPath newc" "has j (fc_BlobPath newc) (cf_bs cf1) []" "cf_cs cf1 = [newc, c]"
    using openChunkIO_new [OF ok off] by (auto simp: cf0_def)
  have d: "0 - FileChunk_Left newc = int 0" by (simp add: newc_def FileChunk_Left_def)
  have n: "length p = min (length p) (split_size - 0)" using assms(8) by simp
  obtain cf2 c2 u i2 r2 where w: "writeToChunk co newc True ChunkSplitSize p 0 cf0 = (cf2, Inr (c2, length p, u))" "cf_cs cf2 = [newc, c]"
      "has i2 (fc_BlobPath newc) (cf_bs cf2) r2"
    using writeToChunk_open [OF o1(1,3,2) d _ n] o1(4) by auto
  have "insert_place [c] 0 0 = (0, ChunkSplitSize)" by (simp add: insert_place_def align_down_def)
  moreover have "newFileChunk co 0 cf = (cf\<lparr>cf_bs := s\<rparr>, Inr newc)" using g(1) by (simp add: newFileChunk_def newc_def)
  ultimately have "ChunkedFileIO_PWrite co caops (Suc (Suc fuel)) p 0 cf =
      Some (cf2\<lparr>cf_caio := snd (ca_Write caops (cf_cs cf2) (cf_caio cf2))\<rparr>, None)"
    using assms(1-3,7) flags_rw [OF sinv] w(1,2) by (simp add: ChunkedFileIO_PWrite_def cf0_def)
  with w(2) has_known [OF w(3)] show ?thesis by (simp add: newc_def)
qed

lemma hole_read:
  assumes "sinv (cf_bs cf)" "cf_cs cf = [newc, c]" "fc_Offset newc = 0" "fc_Length newc = 0" "FileChunk_Left c = int l"
    and "length buf < l" "int l \<le> MaxInt64"
  shows "ChunkedFileIO_ReadAt co buf 0 cf = (cf, buf, 0, None)"
proof -
  have "IsReadAllowed (co_Flags co (cf_bs cf))"
    using flags_rw [OF assms(1)] by (auto simp: IsReadAllowed_def IsReadWriteAllowed_def Let_def)
  moreover have "wrap64 (int (length buf)) = int (length buf)" using assms(6,7) by (simp add: wrap64_id)
  moreover have "wrap64 0 = 0" by (simp add: wrap64_def)
  ultimately show ?thesis using assms
    by (simp add: ChunkedFileIO_ReadAt_def FileChunk_Right_def)
qed

end

text \<open>
  C32. Bytes written into a hole are lost. A new file gets \<open>d\<close> at the start of some later chunk and then \<open>p\<close>
  at its beginning: both writes succeed, but the chunk for \<open>p\<close> stays in the array with the length 0, and
  a read at the beginning that ends before the later chunk delivers no bytes.
\<close>

theorem write_into_hole_is_lost:
  fixes cf :: file_in_chunks
  assumes "co = file_chunk_ops env names" "chunk_env_ok FileBlobHandle_ops env" "names_ok names" "fcs_inv names s"
    and "NewChunkedFileIO s SimpleDBChunksArrayIO_ops NewSimpleDBChunksArrayIO = Some cf"
    and "d \<noteq> []" "length d \<le> split_size" "0 < k" "int (k * split_size) + 2 * ChunkSplitSize \<le> MaxInt64"
    and "p \<noteq> []" "length p \<le> split_size"
  shows "\<exists>cf1 cf2. ChunkedFileIO_PWrite co SimpleDBChunksArrayIO_ops 2 d (int (k * split_size)) cf = Some (cf1, None) \<and>
    ChunkedFileIO_PWrite co SimpleDBChunksArrayIO_ops 2 p 0 cf1 = Some (cf2, None) \<and>
    map fc_Length (Cs (cf_caio cf2)) = [0, int (length d)] \<and>
    (\<forall>buf. length buf < k * split_size \<longrightarrow> ChunkedFileIO_ReadAt co buf 0 cf2 = (cf2, buf, 0, None))"
proof -
  note st = file_chunk_store [OF assms(2,3), folded assms(1)]
  have new: "file_rep (fcs_inv names) (fcs_stored env) (fcs_has env names) [] cf" "Cs (cf_caio cf) = cf_cs cf"
    using chunk_store.new_file_rep [OF st assms(4,5)] by auto
  obtain cf1 bp i where f: "ChunkedFileIO_PWrite co SimpleDBChunksArrayIO_ops 2 d (int (k * split_size)) cf = Some (cf1, None)" "bp \<noteq> ''''"
      "cf_cs cf1 = [\<lparr>fc_Offset = int (k * split_size), fc_Length = int (length d), fc_BlobPath = bp\<rparr>]"
      "cf_cachedCioBlobpath cf1 = bp" "cf_cachedCio cf1 = Some i" "fcs_has env names i bp (cf_bs cf1) d"
    using chunk_store.PWrite_first [OF st new(1) assms(6,7,9), where fuel = 0 and caops = SimpleDBChunksArrayIO_ops]
    unfolding numeral_2_eq_2 by blast
  have l: "0 < k * split_size" "FileChunk_Left (hd (cf_cs cf1)) = int (k * split_size)" "int (k * split_size) \<le> MaxInt64"
    using assms(8,9) f(3) split_pos by (auto simp: FileChunk_Left_def)
  obtain cf2 newc where h: "ChunkedFileIO_PWrite co SimpleDBChunksArrayIO_ops 2 p 0 cf1 = Some (cf2, None)" "cf_cs cf2 = [newc, hd (cf_cs cf1)]"
      "fc_Offset newc = 0" "fc_Length newc = 0" "fcs_inv names (cf_bs cf2)"
    using chunk_store.hole_write [OF st _ l(2,1) _ f(5) _ assms(10,11), where fuel = 0 and caops = SimpleDBChunksArrayIO_ops and r = d]
      f(2-4,6) unfolding numeral_2_eq_2 by auto
  have "Cs (cf_caio cf2) = cf_cs cf2" using PWrite_saves [OF h(1) PWrite_saves [OF f(1) new(2)]] .
  with h f(1,3) chunk_store.hole_read [OF st h(5,2-4) l(2) _ l(3)] show ?thesis by auto
qed

lemma toy_file_exists: "\<exists>cf. NewChunkedFileIO toy_store SimpleDBChunksArrayIO_ops NewSimpleDBChunksArrayIO = Some (cf :: file_in_chunks)"
  by (simp add: NewChunkedFileIO_def SimpleDBChunksArrayIO_ops_def)

theorem write_into_hole_is_lost_witness:
  "\<exists>cf cf1 cf2. NewChunkedFileIO toy_store SimpleDBChunksArrayIO_ops NewSimpleDBChunksArrayIO = Some (cf :: file_in_chunks) \<and>
    ChunkedFileIO_PWrite (file_chunk_ops (toy_env FileBlobHandle_ops) toy_names) SimpleDBChunksArrayIO_ops 2 [7] (int (1 * split_size)) cf = Some (cf1, None) \<and>
    ChunkedFileIO_PWrite (file_chunk_ops (toy_env FileBlobHandle_ops) toy_names) SimpleDBChunksArrayIO_ops 2 [5] 0 cf1 = Some (cf2, None) \<and>
    ChunkedFileIO_ReadAt (file_chunk_ops (toy_env FileBlobHandle_ops) toy_names) [9] 0 cf2 = (cf2, [9], 0, None)"
proof -
  obtain cf where cf: "NewChunkedFileIO toy_store SimpleDBChunksArrayIO_ops NewSimpleDBChunksArrayIO = Some (cf :: file_in_chunks)"
    using toy_file_exists by blast
  have "length [7 :: byte] \<le> split_size" "0 < (1 :: nat)" "int (1 * split_size) + 2 * ChunkSplitSize \<le> MaxInt64" "length [5 :: byte] \<le> split_size"
    "length [9 :: byte] < 1 * split_size"
    by (simp_all add: split_size_def ChunkSplitSize_def MaxInt64_def)
  with write_into_hole_is_lost [OF refl toy_env_ok toy_names_ok toy_store_inv cf not_Cons_self2 this(1-3) not_Cons_self2 this(4)] cf
  show ?thesis by blast
qed

text \<open>
  Reading across the border of a hole delivers the wrong bytes. When a read starts \<open>g\<close> bytes before
  the only chunk of a file and ends in that chunk, \<open>ReadAt\<close> claims to have read \<open>g\<close> bytes more than
  the buffer has, and the buffer holds the bytes of the chunk where the hole should read as zeros.
\<close>

theorem read_across_hole:
  fixes cf :: file_in_chunks
  assumes "co = file_chunk_ops env names" "chunk_env_ok FileBlobHandle_ops env" "names_ok names" "fcs_inv names s"
    and "NewChunkedFileIO s SimpleDBChunksArrayIO_ops NewSimpleDBChunksArrayIO = Some cf"
    and "d \<noteq> []" "length d \<le> split_size" "int (k * split_size) + 2 * ChunkSplitSize \<le> MaxInt64"
    and "0 < g" "g \<le> k * split_size" "g \<le> length buf" "length buf \<le> length d"
  shows "\<exists>cf1 cf2. ChunkedFileIO_PWrite co SimpleDBChunksArrayIO_ops 2 d (int (k * split_size)) cf = Some (cf1, None) \<and>
    ChunkedFileIO_ReadAt co buf (int (k * split_size - g)) cf1 = (cf2, take (length buf) d, int (g + length buf), None)"
proof -
  note st = file_chunk_store [OF assms(2,3), folded assms(1)]
  have new: "file_rep (fcs_inv names) (fcs_stored env) (fcs_has env names) [] cf"
    using chunk_store.new_file_rep [OF st assms(4,5)] by auto
  obtain cf1 bp i where f: "ChunkedFileIO_PWrite co SimpleDBChunksArrayIO_ops 2 d (int (k * split_size)) cf = Some (cf1, None)"
      "cf_cs cf1 = [\<lparr>fc_Offset = int (k * split_size), fc_Length = int (length d), fc_BlobPath = bp\<rparr>]"
      "cf_cachedCioBlobpath cf1 = bp" "cf_cachedCio cf1 = Some i" "fcs_has env names i bp (cf_bs cf1) d"
    using chunk_store.PWrite_first [OF st new assms(6-8), where fuel = 0 and caops = SimpleDBChunksArrayIO_ops]
    unfolding numeral_2_eq_2 by blast
  with chunk_store.gap_read [OF st f(2-5) assms(9-12) assms(8,7)] show ?thesis by blast
qed

theorem read_across_hole_witness:
  "\<exists>cf cf1 cf2. NewChunkedFileIO toy_store SimpleDBChunksArrayIO_ops NewSimpleDBChunksArrayIO = Some (cf :: file_in_chunks) \<and>
    ChunkedFileIO_PWrite (file_chunk_ops (toy_env FileBlobHandle_ops) toy_names) SimpleDBChunksArrayIO_ops 2 [7, 8] (int (1 * split_size)) cf = Some (cf1, None) \<and>
    ChunkedFileIO_ReadAt (file_chunk_ops (toy_env FileBlobHandle_ops) toy_names) [0, 0] (int (1 * split_size - 1)) cf1 = (cf2, [7, 8], 3, None)"
proof -
  obtain cf where cf: "NewChunkedFileIO toy_store SimpleDBChunksArrayIO_ops NewSimpleDBChunksArrayIO = Some (cf :: file_in_chunks)"
    using toy_file_exists by blast
  have h: "[7, 8 :: byte] \<noteq> []" "length [7, 8 :: byte] \<le> split_size" "int (1 * split_size) + 2 * ChunkSplitSize \<le> MaxInt64"
    "0 < (1 :: nat)" "1 \<le> 1 * split_size" "1 \<le> length [0, 0 :: byte]" "length [0, 0 :: byte] \<le> length [7, 8 :: byte]"
    by (simp_all add: split_size_def ChunkSplitSize_def MaxInt64_def)
  from read_across_hole [OF refl toy_env_ok toy_names_ok toy_store_inv cf h] cf show ?thesis by auto
qed

lemma is_panic_errorf [simp]: "is_panic (errorf m e) = is_panic e"
  by (cases e) auto

lemma pwrite_append_never_returns:
  assumes "\<forall>s. \<exists>bp s'. co_GenerateNewBlobPath co s = (Inr bp, s') \<and> bp \<noteq> ''''"
    and "\<forall>bp f s. \<exists>e s'. co_Open co bp f s = (Inl e, s') \<and> \<not> is_panic e"
    and "cf_cachedCio cf = None" "cf_cachedBh cf = None" "cf_cachedCioBlobpath cf = ''''" "remp \<noteq> []"
  shows "pwrite_append co fuel need remo remp cf = None"
  using assms(3-6)
proof (induction fuel arbitrary: need remo remp cf)
  case (Suc fuel)
  let ?newo = "fst (append_place (cf_cs cf) remo)" and ?max = "snd (append_place (cf_cs cf) remo)"
  obtain bp s where g: "co_GenerateNewBlobPath co (cf_bs cf) = (Inr bp, s)" "bp \<noteq> ''''" using assms(1) by blast
  define newc where "newc = \<lparr>fc_Offset = ?newo, fc_Length = 0, fc_BlobPath = bp\<rparr>"
  have n: "newFileChunk co ?newo cf = (cf\<lparr>cf_bs := s\<rparr>, Inr newc)" using g(1) by (simp add: newFileChunk_def newc_def)
  have "closeCachedChunkIO co (cf\<lparr>cf_bs := s\<rparr>) = (cf\<lparr>cf_bs := s\<rparr>, None)"
    using Suc.prems by (cases cf) (simp add: closeCachedChunkIO_def)
  moreover obtain e s' where o: "co_Open co bp ((if IsWriteAllowed (co_Flags co s) then O_RDWR else O_RDONLY) OR (O_CREATE OR O_EXCL)) s = (Inl e, s')"
    "\<not> is_panic e" using assms(2) by blast
  ultimately have "openChunkIO co bp True (FileChunk_Left newc) (cf\<lparr>cf_bs := s\<rparr>) = (cf\<lparr>cf_bs := s'\<rparr>, Inl (errorf ''Failed to open path'' e))"
    using Suc.prems g(2) by (simp add: openChunkIO_def Let_def)
  with o(2) have w: "writeToChunk co newc True ?max remp remo (cf\<lparr>cf_bs := s\<rparr>) = (cf\<lparr>cf_bs := s'\<rparr>, Inr (newc, 0, False))"
    by (simp add: writeToChunk_def newc_def)
  from Suc.IH [of "cf\<lparr>cf_bs := s', cf_cs := cf_cs cf @ [newc]\<rparr>" remp True "wrap64 remo"] Suc.prems n w show ?case by simp
qed simp



section \<open>Truncation\<close>

lemma truncate_chunks_drop:
  assumes "\<forall>i. k \<le> i \<and> i < n \<longrightarrow> FileChunk_Left (cf_cs cf ! i) \<ge> sz" "k \<le> n"
  shows "truncate_chunks co sz n cf = truncate_chunks co sz k cf"
  using assms(2,1) by (induction rule: dec_induct) auto

lemma piece_take: "i < k \<Longrightarrow> piece m i (take (k * m) q) = piece m i q"
proof -
  assume "i < k"
  then have "i * m + m \<le> k * m" by (metis Suc_leI add.commute mult_Suc mult_le_mono1)
  then show ?thesis by (simp add: piece_def drop_take min_absorb1)
qed

lemma layout_take:
  assumes "layout cs q" "k \<le> length cs"
  shows "layout (take k cs) (take (k * split_size) q)"
proof -
  have iff: "(i < length cs) = (i * split_size < length q)" and b: "int (length q) + ChunkSplitSize \<le> MaxInt64" for i
    using assms(1) by (auto simp: layout_def)
  have "(i < length (take k cs)) = (i * split_size < length (take (k * split_size) q))" for i
    using iff [of i] assms(2) by auto
  moreover have "int (length (take (k * split_size) q)) + ChunkSplitSize \<le> MaxInt64"
    using b by (rule order_trans [rotated]) (simp del: of_nat_mult)
  ultimately show ?thesis
    using assms unfolding layout_def by (simp add: piece_take distinct_take flip: take_map) (meson order_less_le_trans)
qed

lemma rep_frame:
  "chunk_at stored has (cf\<lparr>cf_cs := cs\<rparr>) bp q = chunk_at stored has cf bp q" "cached_ok has (cf\<lparr>cf_cs := cs\<rparr>) = cached_ok has cf"
  by (simp_all add: chunk_at_def cached_ok_def)

context chunk_store
begin

lemma Truncate_rep:
  assumes "rep q cf" "k * split_size \<le> length q"
  shows "\<exists>cf'. truncate_chunks co (int (k * split_size)) (length (cf_cs cf)) cf = (cf', None) \<and> rep (take (k * split_size) q) cf' \<and>
    cf' = cf\<lparr>cf_cs := take k (cf_cs cf)\<rparr>"
proof -
  note r = file_repD [OF assms(1)]
  have k: "k \<le> length (cf_cs cf)"
  proof (rule ccontr)
    assume "\<not> k \<le> length (cf_cs cf)"
    then have "length (cf_cs cf) * split_size < k * split_size" by simp
    with assms(2) r(2) show False unfolding layout_def by (meson less_le_trans less_irrefl)
  qed
  have "FileChunk_Left (cf_cs cf ! i) \<ge> int (k * split_size)" if "k \<le> i" "i < length (cf_cs cf)" for i
    using layoutD(1) [OF r(2) that(2)] that(1) by (simp del: of_nat_mult)
  with k have "truncate_chunks co (int (k * split_size)) (length (cf_cs cf)) cf = truncate_chunks co (int (k * split_size)) k cf"
    by (intro truncate_chunks_drop) auto
  also have "\<dots> = (cf\<lparr>cf_cs := take k (cf_cs cf)\<rparr>, None)"
  proof (cases k)
    case (Suc j)
    with k have "FileChunk_Left (cf_cs cf ! j) = int (j * split_size)" "FileChunk_Right (cf_cs cf ! j) = int (k * split_size)"
      using layoutD(1,5) [OF r(2), of j] assms(2) by (simp_all add: min_absorb1)
    with Suc show ?thesis using split_pos by (simp add: Let_def)
  qed simp
  moreover have "rep (take (k * split_size) q) (cf\<lparr>cf_cs := take k (cf_cs cf)\<rparr>)"
    using assms(1) k layout_take [OF r(2) k] by (auto simp: file_rep_def piece_take rep_frame)
  ultimately show ?thesis by simp
qed

text \<open>Trimming a chunk: with a \<open>ChunkIO\<close> that does not implement \<open>Truncate\<close> it fails, and the array stays.\<close>

lemma Truncate_inside:
  assumes "rep q cf" "0 < j" "j < split_size" "k * split_size + j < length q"
    and "\<And>i bp s r sz. has i bp s r \<Longrightarrow>
      \<exists>i' s'. co_Truncate co sz (i, s) = ((i', s'), Some e) \<and> has i' bp s' r \<and> keeps known stored bp s s'"
  shows "\<exists>cf'. truncate_chunks co (int (k * split_size + j)) (length (cf_cs cf)) cf = (cf', Some e) \<and> rep q cf' \<and>
    cf_cs cf' = cf_cs cf \<and> cf_caio cf' = cf_caio cf"
proof -
  note r = file_repD [OF assms(1)]
  have k: "k < length (cf_cs cf)" using r(2) assms(4) unfolding layout_def by (metis add_lessD1)
  note l = layoutD [OF r(2) k]
  have "FileChunk_Left (cf_cs cf ! i) \<ge> int (k * split_size + j)" if "Suc k \<le> i" "i < length (cf_cs cf)" for i
  proof -
    have "Suc k * split_size \<le> i * split_size" using that(1) by (rule mult_le_mono1)
    with assms(3) have "k * split_size + j \<le> i * split_size" by simp
    with layoutD(1) [OF r(2) that(2)] show ?thesis by (simp del: of_nat_mult)
  qed
  with k have e: "truncate_chunks co (int (k * split_size + j)) (length (cf_cs cf)) cf = truncate_chunks co (int (k * split_size + j)) (Suc k) cf"
    by (intro truncate_chunks_drop) auto
  define c where "c = cf_cs cf ! k"
  obtain cf1 i where o1: "openChunkIO co (fc_BlobPath c) False (FileChunk_Left c) cf = (cf1, Inr i)"
      "has i (fc_BlobPath c) (cf_bs cf1) (piece split_size k q)" "cf_cs cf1 = cf_cs cf" "cf_caio cf1 = cf_caio cf"
      "\<forall>i' s. has i' (fc_BlobPath c) s (piece split_size k q) \<and> keeps known stored (fc_BlobPath c) (cf_bs cf1) s \<longrightarrow>
         rep q (cf1\<lparr>cf_bs := s, cf_cachedCio := Some i'\<rparr>)"
    using open_old_rep [OF assms(1) k c_def] by blast
  have "\<not> FileChunk_Left c \<ge> int (k * split_size + j)" "FileChunk_Right c > int (k * split_size + j)"
    using l(1,5) assms(2-4) by (auto simp: c_def simp del: of_nat_mult)
  moreover obtain i' s where "co_Truncate co (int (k * split_size + j) - FileChunk_Left c) (i, cf_bs cf1) = ((i', s), Some e)"
      "has i' (fc_BlobPath c) s (piece split_size k q)" "keeps known stored (fc_BlobPath c) (cf_bs cf1) s"
    using assms(5) [OF o1(2)] by blast
  ultimately show ?thesis using o1 unfolding e by (simp add: Let_def flip: c_def)
qed

end

lemma file_Truncate_keeps:
  assumes "co = file_chunk_ops env names" "fcs_has env names i bp s r"
  shows "\<exists>i' s'. co_Truncate co sz (i, s) = ((i', s'), Some (Fmt ''FIXME: implement ChunkIO.Truncate!'')) \<and>
    fcs_has env names i' bp s' r \<and> keeps (fcs_known names) (fcs_stored env) bp s s'"
proof -
  have "ChunkIO_Truncate sz (snd i) = (snd i, Some (Fmt ''FIXME: implement ChunkIO.Truncate!''))" by (simp add: ChunkIO_Truncate_def)
  note h = on_file_has [where f = "ChunkIO_Truncate sz", OF assms(2) this]
  have "chunk_state env fh_content (\<lambda>h. fh_readable h \<and> fh_writable h) r (snd i)" using assms(2) by (simp add: fcs_has_def)
  with h show ?thesis by (auto simp: assms(1) file_chunk_ops_def)
qed

text \<open>
  C34. \<open>Truncate\<close> of a file in chunks without holes: to a multiple of the chunk size it cuts the file
  there and saves the shorter array; to any other size inside the file it fails, because \<open>ChunkIO\<close>
  does not implement \<open>Truncate\<close>, and the file keeps all its bytes and the saved array its chunks.
\<close>

theorem Truncate_at_chunk_borders_only:
  fixes cf :: file_in_chunks
  assumes "co = file_chunk_ops env names" "chunk_env_ok FileBlobHandle_ops env" "names_ok names"
    and "file_rep (fcs_inv names) (fcs_stored env) (fcs_has env names) q cf" "k * split_size + j < length q" "j < split_size"
  shows "case ChunkedFileIO_Truncate co SimpleDBChunksArrayIO_ops (int (k * split_size + j)) cf of (cf', err) \<Rightarrow>
    if j = 0 then err = None \<and> file_rep (fcs_inv names) (fcs_stored env) (fcs_has env names) (take (k * split_size) q) cf' \<and> Cs (cf_caio cf') = cf_cs cf'
    else err \<noteq> None \<and> file_rep (fcs_inv names) (fcs_stored env) (fcs_has env names) q cf' \<and> cf_cs cf' = cf_cs cf \<and> cf_caio cf' = cf_caio cf"
proof -
  note st = file_chunk_store [OF assms(2,3), folded assms(1)]
  have rw: "IsReadWriteAllowed (co_Flags co (cf_bs cf))"
    using chunk_store.flags_rw [OF st] file_repD(1) [OF assms(4)] by blast
  show ?thesis
  proof (cases "j = 0")
    case True
    from chunk_store.Truncate_rep [OF st assms(4), of k] assms(5) True obtain cf1 where
      "truncate_chunks co (int (k * split_size + j)) (length (cf_cs cf)) cf = (cf1, None)"
      "file_rep (fcs_inv names) (fcs_stored env) (fcs_has env names) (take (k * split_size) q) cf1" by auto
    with True rw show ?thesis
      by (auto simp: ChunkedFileIO_Truncate_def SimpleDBChunksArrayIO_ops_def file_rep_def cached_ok_def chunk_at_def split: if_splits)
  next
    case False
    with chunk_store.Truncate_inside [OF st assms(4) _ assms(6,5) file_Truncate_keeps [OF assms(1)]] rw show ?thesis
      by (auto simp: ChunkedFileIO_Truncate_def)
  qed
qed

theorem Truncate_at_chunk_borders_only_witness:
  "\<exists>cf cf1. NewChunkedFileIO toy_store SimpleDBChunksArrayIO_ops NewSimpleDBChunksArrayIO = Some (cf :: file_in_chunks) \<and>
    cf_writes (file_chunk_ops (toy_env FileBlobHandle_ops) toy_names) SimpleDBChunksArrayIO_ops [([1, 2], 0)] cf = Some (cf1, None) \<and>
    snd (ChunkedFileIO_Truncate (file_chunk_ops (toy_env FileBlobHandle_ops) toy_names) SimpleDBChunksArrayIO_ops 1 cf1) \<noteq> None"
proof -
  let ?co = "file_chunk_ops (toy_env FileBlobHandle_ops) toy_names"
  let ?rep = "file_rep (fcs_inv toy_names) (fcs_stored (toy_env FileBlobHandle_ops)) (fcs_has (toy_env FileBlobHandle_ops) toy_names)"
  obtain cf where cf: "NewChunkedFileIO toy_store SimpleDBChunksArrayIO_ops NewSimpleDBChunksArrayIO = Some (cf :: file_in_chunks)"
    using toy_file_exists by blast
  have "starts_fit [([1, 2 :: byte], 0)] []" by (simp add: ChunkSplitSize_def MaxInt64_def)
  then obtain cf1 where c1: "cf_writes ?co SimpleDBChunksArrayIO_ops [([1, 2], 0)] cf = Some (cf1, None)" "?rep (ideal_file [([1, 2], 0)] []) cf1"
    using toy_file.cf_writes_rep toy_file.new_file_rep [OF toy_store_inv cf] by blast
  have h: "0 * split_size + 1 < length (ideal_file [([1, 2 :: byte], 0)] [])" "1 < split_size"
    by (simp_all add: ideal_file_def fwrite_def split_size_def ChunkSplitSize_def)
  from Truncate_at_chunk_borders_only [OF refl toy_env_ok toy_names_ok c1(2) h]
  have "snd (ChunkedFileIO_Truncate ?co SimpleDBChunksArrayIO_ops 1 cf1) \<noteq> None" by (auto split: prod.splits)
  with cf c1(1) show ?thesis by blast
qed

end
