(* ===== verification/File_System.thy ===== *)
theory File_System
  imports File_In_Chunks Inode_Recovery
begin

text \<open>
  The file system (\<open>filesystem/filesystem.go\<close>, \<open>filesystem/fsutil.go\<close>,
  \<open>filesystem/inodedbchunksarrayio.go\<close>): paths, nodes and open files over an inode database and a blob store.

  \<^item> \<open>OpenFile\<close> and \<open>FileHandle\<close> objects live on a heap (\<open>fs_ofs\<close>, \<open>fs_fhs\<close>); pointers are numbers.
  \<^item> The database and the blob store are shared: \<open>on_cfio\<close> lends them to the \<open>ChunkedFileIO\<close> of an open
    file for one call and takes them back.
  \<^item> The mutexes make the operations on one open file sequential; the two steps of \<open>CloseHandle\<close> that
    are not under one lock are separate definitions (\<open>CloseHandle_locked\<close>, \<open>closeOpenFile\<close>).
\<close>

section \<open>State\<close>

text \<open>The interface \<open>DBHandler\<close>, and \<open>Sync\<close> of a database that is a \<open>Syncer\<close>.\<close>

record 'd DBHandler =
  dh_ApplyTransaction :: "DBTransaction \<Rightarrow> 'd \<Rightarrow> TxID result \<times> 'd"
  dh_QueryNode :: "ID \<Rightarrow> bool \<Rightarrow> 'd \<Rightarrow> (NodeView \<times> NodeLock) result \<times> 'd"
  dh_LockNode :: "ID \<Rightarrow> 'd \<Rightarrow> NodeLock result \<times> 'd"
  dh_UnlockNode :: "NodeLock \<Rightarrow> 'd \<Rightarrow> error option \<times> 'd"
  dh_Sync :: "('d \<Rightarrow> error option \<times> 'd) option"

text \<open>The chunk array of a file in the database.\<close>

type_synonym 'd INodeDBChunksArrayIO = "'d \<times> NodeLock"

definition NewINodeDBChunksArrayIO :: "'d \<Rightarrow> NodeLock \<Rightarrow> 'd INodeDBChunksArrayIO" where
  "NewINodeDBChunksArrayIO db nlock = (db, nlock)"

definition INodeDBChunksArrayIO_Read :: "'d DBHandler \<Rightarrow> 'd INodeDBChunksArrayIO \<Rightarrow> (FileChunk list) result" where
  "INodeDBChunksArrayIO_Read dh caio =
     (case fst (dh_QueryNode dh (nl_ID (snd caio)) False (fst caio)) of
        Inl e \<Rightarrow> Inl e
      | Inr (FileNode c sz cs, _) \<Rightarrow> Inr cs
      | Inr (DirNode c p es, _) \<Rightarrow> Inl (Fmt ''Target node view is not a file.''))"

definition INodeDBChunksArrayIO_Write ::
    "'d DBHandler \<Rightarrow> FileChunk list \<Rightarrow> 'd INodeDBChunksArrayIO \<Rightarrow> error option \<times> 'd INodeDBChunksArrayIO" where
  "INodeDBChunksArrayIO_Write dh cs caio =
     (if \<not> HasTicket (snd caio) then (Some (Fmt ''No ticket lock is acquired.''), caio)
      else case dh_ApplyTransaction dh \<lparr>tx_TxID = AnyVersion, tx_Ops = [UpdateChunksOp (snd caio) cs]\<rparr> (fst caio) of
          (Inl e, d) \<Rightarrow> (Some (errorf ''Failed to apply tx for updating cs'' e), (d, snd caio))
        | (Inr _, d) \<Rightarrow> (None, (d, snd caio)))"

definition INodeDBChunksArrayIO_ops :: "'d DBHandler \<Rightarrow> 'd INodeDBChunksArrayIO ChunksArrayIO" where
  "INodeDBChunksArrayIO_ops dh = \<lparr>ca_Read = INodeDBChunksArrayIO_Read dh, ca_Write = INodeDBChunksArrayIO_Write dh\<rparr>"

type_synonym ('s, 'h, 'i, 'd) cfio = "('s, 'h, 'i, 'd INodeDBChunksArrayIO) ChunkedFileIO"

record FileHandle =
  fh_of :: "nat option"
  fh_flags :: flags

record ('s, 'h, 'i, 'd) OpenFile =
  of_nlock :: NodeLock
  of_wc :: FileWriteCache
  of_cfio :: "('s, 'h, 'i, 'd) cfio option"
  of_handles :: "nat list"

record ('s, 'h, 'i, 'd) FileSystem =
  fs_idb :: 'd
  fs_bs :: 's
  fs_openFiles :: "(ID, nat) fmap"
  fs_origpath :: "(ID, string) fmap"
  fs_ofs :: "(nat, ('s, 'h, 'i, 'd) OpenFile) fmap"
  fs_fhs :: "(nat, FileHandle) fmap"
  fs_next :: nat
  fs_pool :: pool

text \<open>
  What the file system calls: the database, the store and the chunks, the fuel of a write to a file
  in chunks, the total size of the store if it offers one, the clock, and the order in which Go
  ranges over a directory and over the open files.
\<close>

record ('s, 'h, 'i, 'd) fs_env =
  fe_db :: "'d DBHandler"
  fe_co :: "('s, 'h, 'i) chunk_ops"
  fe_fuel :: nat
  fe_TotalSize :: "('s \<Rightarrow> int result) option"
  fe_now :: time
  fe_entries :: "(string, ID) fmap \<Rightarrow> (string \<times> ID) list"
  fe_files :: "(ID, nat) fmap \<Rightarrow> nat list"

type_synonym ('s, 'h, 'i, 'd, 'a) fsop = "(('s, 'h, 'i, 'd) FileSystem, 'a) action"

section \<open>Original paths\<close>

definition tryGetOrigPath :: "ID \<Rightarrow> ('s, 'h, 'i, 'd) FileSystem \<Rightarrow> string" where
  "tryGetOrigPath nid fs = (case fmlookup (fs_origpath fs) nid of None \<Rightarrow> ''<unknown>'' | Some p \<Rightarrow> p)"

text \<open>An empty path is deleted and then stored all the same.\<close>

definition setOrigPathForId :: "ID \<Rightarrow> string \<Rightarrow> ('s, 'h, 'i, 'd) FileSystem \<Rightarrow> ('s, 'h, 'i, 'd) FileSystem" where
  "setOrigPathForId nid p fs =
     (let fs1 = (if length p = 0 then fs\<lparr>fs_origpath := fmdrop nid (fs_origpath fs)\<rparr> else fs)
      in fs1\<lparr>fs_origpath := fmupd nid p (fs_origpath fs1)\<rparr>)"

definition NewFileSystem :: "'d \<Rightarrow> 's \<Rightarrow> pool \<Rightarrow> ('s, 'h, 'i, 'd) FileSystem" where
  "NewFileSystem idb bs pl =
     setOrigPathForId RootDirID ''/''
       \<lparr>fs_idb = idb, fs_bs = bs, fs_openFiles = fmempty, fs_origpath = fmempty, fs_ofs = fmempty,
        fs_fhs = fmempty, fs_next = 0, fs_pool = pl\<rparr>"

record FileSystemStats =
  NumOpenFiles :: nat
  NumOrigPath :: nat

definition FileSystem_GetStats :: "('s, 'h, 'i, 'd) FileSystem \<Rightarrow> FileSystemStats" where
  "FileSystem_GetStats fs = \<lparr>NumOpenFiles = fcard (fmdom (fs_openFiles fs)), NumOrigPath = fcard (fmdom (fs_origpath fs))\<rparr>"

section \<open>Nodes\<close>

definition fs_apply :: "('s, 'h, 'i, 'd) fs_env \<Rightarrow> DBOperation list \<Rightarrow> ('s, 'h, 'i, 'd, TxID) fsop" where
  "fs_apply env ops fs =
     (case dh_ApplyTransaction (fe_db env) \<lparr>tx_TxID = AnyVersion, tx_Ops = ops\<rparr> (fs_idb fs) of
        (r, d) \<Rightarrow> (fs\<lparr>fs_idb := d\<rparr>, r))"

definition fs_query :: "('s, 'h, 'i, 'd) fs_env \<Rightarrow> ID \<Rightarrow> bool \<Rightarrow> ('s, 'h, 'i, 'd, NodeView \<times> NodeLock) fsop" where
  "fs_query env nid tryLock fs =
     (case dh_QueryNode (fe_db env) nid tryLock (fs_idb fs) of (r, d) \<Rightarrow> (fs\<lparr>fs_idb := d\<rparr>, r))"

definition fs_lock :: "('s, 'h, 'i, 'd) fs_env \<Rightarrow> ID \<Rightarrow> ('s, 'h, 'i, 'd, NodeLock) fsop" where
  "fs_lock env nid fs = (case dh_LockNode (fe_db env) nid (fs_idb fs) of (r, d) \<Rightarrow> (fs\<lparr>fs_idb := d\<rparr>, r))"

definition fs_unlock :: "('s, 'h, 'i, 'd) fs_env \<Rightarrow> NodeLock \<Rightarrow> ('s, 'h, 'i, 'd, unit) fsop" where
  "fs_unlock env nlock fs =
     (case dh_UnlockNode (fe_db env) nlock (fs_idb fs) of
        (None, d) \<Rightarrow> (fs\<lparr>fs_idb := d\<rparr>, Inr ())
      | (Some e, d) \<Rightarrow> (fs\<lparr>fs_idb := d\<rparr>, Inl e))"

definition FileSystem_TotalSize :: "('s, 'h, 'i, 'd) fs_env \<Rightarrow> ('s, 'h, 'i, 'd) FileSystem \<Rightarrow> int result" where
  "FileSystem_TotalSize env fs =
     (case fe_TotalSize env of
        None \<Rightarrow> Inl (Fmt ''Backend blobstore doesn't support TotalSize()'')
      | Some tsizer \<Rightarrow> tsizer (fs_bs fs))"

definition FileSystem_ParentID :: "('s, 'h, 'i, 'd) fs_env \<Rightarrow> ID \<Rightarrow> ('s, 'h, 'i, 'd, ID) fsop" where
  "FileSystem_ParentID env nid =
     and_then (fs_query env nid False) (\<lambda>(v, _).
       case v of FileNode _ _ _ \<Rightarrow> fail (Errno ENOTDIR) | DirNode _ p _ \<Rightarrow> ret p)"

definition FileSystem_DirEntries :: "('s, 'h, 'i, 'd) fs_env \<Rightarrow> ID \<Rightarrow> ('s, 'h, 'i, 'd, (string, ID) fmap) fsop" where
  "FileSystem_DirEntries env nid =
     and_then (fs_query env nid False) (\<lambda>(v, _).
       case v of
         FileNode _ _ _ \<Rightarrow> fail (Errno ENOTDIR)
       | DirNode _ _ es \<Rightarrow> (\<lambda>fs.
           let dirorigpath = tryGetOrigPath nid fs
           in (fold (\<lambda>(name, i). setOrigPathForId i (dirorigpath @ ''/'' @ name)) (fe_entries env es) fs, Inr es)))"

definition FileSystem_Rename :: "('s, 'h, 'i, 'd) fs_env \<Rightarrow> ID \<Rightarrow> string \<Rightarrow> ID \<Rightarrow> string \<Rightarrow> ('s, 'h, 'i, 'd, unit) fsop" where
  "FileSystem_Rename env srcDirID srcName dstDirID dstName =
     and_then (fs_apply env [RenameOp srcDirID srcName dstDirID dstName]) (\<lambda>_. ret ())"

definition FileSystem_Remove :: "('s, 'h, 'i, 'd) fs_env \<Rightarrow> ID \<Rightarrow> string \<Rightarrow> ('s, 'h, 'i, 'd, unit) fsop" where
  "FileSystem_Remove env dirID name =
     and_then (fs_apply env [RemoveOp \<lparr>nl_ID = dirID, nl_Ticket = NoTicket\<rparr> name]) (\<lambda>_. ret ())"

definition createNode ::
    "('s, 'h, 'i, 'd) fs_env \<Rightarrow> ID \<Rightarrow> string \<Rightarrow> int \<Rightarrow> 16 word \<Rightarrow> 32 word \<Rightarrow> 32 word \<Rightarrow> time \<Rightarrow> ('s, 'h, 'i, 'd, ID) fsop" where
  "createNode env dirID name typ permmode uid gid modifiedT =
     and_then (fs_lock env AllocateNewNodeID) (\<lambda>nlock.
       deferring
         (\<lambda>fs. let origpath = tryGetOrigPath dirID fs @ ''/'' @ name in
            and_then
              (fs_apply env
                 [CreateNodeOp nlock origpath typ dirID uid gid permmode modifiedT,
                  HardLinkOp \<lparr>nl_ID = dirID, nl_Ticket = NoTicket\<rparr> name (nl_ID nlock)])
              (\<lambda>_ fs'. (setOrigPathForId (nl_ID nlock) origpath fs', Inr (nl_ID nlock))) fs)
         (ignoring (fs_unlock env nlock)))"

definition FileSystem_CreateFile ::
    "('s, 'h, 'i, 'd) fs_env \<Rightarrow> ID \<Rightarrow> string \<Rightarrow> 16 word \<Rightarrow> 32 word \<Rightarrow> 32 word \<Rightarrow> time \<Rightarrow> ('s, 'h, 'i, 'd, ID) fsop" where
  "FileSystem_CreateFile env dirID name = createNode env dirID name FileNodeT"

definition FileSystem_CreateDir ::
    "('s, 'h, 'i, 'd) fs_env \<Rightarrow> ID \<Rightarrow> string \<Rightarrow> 16 word \<Rightarrow> 32 word \<Rightarrow> 32 word \<Rightarrow> time \<Rightarrow> ('s, 'h, 'i, 'd, ID) fsop" where
  "FileSystem_CreateDir env dirID name = createNode env dirID name DirNodeT"

record Attr =
  at_ID :: ID
  at_Type :: int
  at_Size :: int
  at_OrigPath :: string
  at_Uid :: "32 word"
  at_Gid :: "32 word"
  at_PermMode :: "16 word"
  at_ModifiedT :: time

definition FileSystem_Attr :: "('s, 'h, 'i, 'd) fs_env \<Rightarrow> ID \<Rightarrow> ('s, 'h, 'i, 'd, Attr) fsop" where
  "FileSystem_Attr env nid =
     and_then (fs_query env nid False) (\<lambda>(v, _) fs.
       (fs, Inr \<lparr>at_ID = GetID v, at_Type = GetType v,
                 at_Size = (case v of FileNode _ sz _ \<Rightarrow> sz | DirNode _ _ _ \<Rightarrow> 0),
                 at_OrigPath = nc_OrigPath (common v), at_Uid = nc_Uid (common v), at_Gid = nc_Gid (common v),
                 at_PermMode = MaskPermMode (nc_PermMode (common v)) (co_Flags (fe_co env) (fs_bs fs)),
                 at_ModifiedT = nc_ModifiedT (common v)\<rparr>))"

type_synonym ValidAttrFields = "32 word"

definition UidValid :: ValidAttrFields where "UidValid = 1"
definition GidValid :: ValidAttrFields where "GidValid = 2"
definition PermModeValid :: ValidAttrFields where "PermModeValid = 4"
definition ModifiedTValid :: ValidAttrFields where "ModifiedTValid = 8"

unbundle bit_operations_syntax

definition ValidAttrFields_String :: "ValidAttrFields \<Rightarrow> string" where
  "ValidAttrFields_String valid =
     butlast
       ((if valid AND UidValid \<noteq> 0 then ''UidValid|'' else []) @
        (if valid AND GidValid \<noteq> 0 then ''GidValid|'' else []) @
        (if valid AND PermModeValid \<noteq> 0 then ''PermModeValid|'' else []) @
        (if valid AND ModifiedTValid \<noteq> 0 then ''ModifiedTValid|'' else []))"

definition FileSystem_SetAttr :: "('s, 'h, 'i, 'd) fs_env \<Rightarrow> ID \<Rightarrow> Attr \<Rightarrow> ValidAttrFields \<Rightarrow> ('s, 'h, 'i, 'd, unit) fsop" where
  "FileSystem_SetAttr env nid a valid =
     and_then
       (fs_apply env
          ((if valid AND UidValid \<noteq> 0 then [UpdateUidOp nid (at_Uid a)] else []) @
           (if valid AND GidValid \<noteq> 0 then [UpdateGidOp nid (at_Gid a)] else []) @
           (if valid AND PermModeValid \<noteq> 0 then [UpdatePermModeOp nid (at_PermMode a)] else []) @
           (if valid AND ModifiedTValid \<noteq> 0 then [UpdateModifiedTOp nid (at_ModifiedT a)] else [])))
       (\<lambda>_. ret ())"

definition FileSystem_IsDir :: "('s, 'h, 'i, 'd) fs_env \<Rightarrow> ID \<Rightarrow> ('s, 'h, 'i, 'd, bool) fsop" where
  "FileSystem_IsDir env nid = and_then (fs_query env nid False) (\<lambda>(v, _). ret (GetType v = DirNodeT))"

section \<open>Open files\<close>

text \<open>Reading and changing the open file at a pointer; a nil pointer panics.\<close>

definition with_of :: "nat \<Rightarrow> (('s, 'h, 'i, 'd) OpenFile \<Rightarrow> ('s, 'h, 'i, 'd, 'a) fsop) \<Rightarrow> ('s, 'h, 'i, 'd, 'a) fsop" where
  "with_of p f fs =
     (case fmlookup (fs_ofs fs) p of
        None \<Rightarrow> (fs, Inl (Panic ''nil pointer dereference''))
      | Some x \<Rightarrow> f x fs)"

definition upd_of ::
    "nat \<Rightarrow> (('s, 'h, 'i, 'd) OpenFile \<Rightarrow> ('s, 'h, 'i, 'd) OpenFile) \<Rightarrow> ('s, 'h, 'i, 'd) FileSystem \<Rightarrow> ('s, 'h, 'i, 'd) FileSystem" where
  "upd_of p f fs =
     (case fmlookup (fs_ofs fs) p of None \<Rightarrow> fs | Some x \<Rightarrow> fs\<lparr>fs_ofs := fmupd p (f x) (fs_ofs fs)\<rparr>)"

text \<open>One call on the \<open>ChunkedFileIO\<close> of an open file, which works on the shared store and database.\<close>

definition on_cfio ::
    "nat \<Rightarrow> (('s, 'h, 'i, 'd) cfio \<Rightarrow> ('s, 'h, 'i, 'd) cfio \<times> 'a result) \<Rightarrow> ('s, 'h, 'i, 'd, 'a) fsop" where
  "on_cfio p f =
     with_of p (\<lambda>x fs.
       case of_cfio x of
         None \<Rightarrow> (fs, Inl (Panic ''nil pointer dereference''))
       | Some cf \<Rightarrow>
           (case f (cf\<lparr>cf_bs := fs_bs fs, cf_caio := (fs_idb fs, snd (cf_caio cf))\<rparr>) of
              (cf', r) \<Rightarrow>
                (upd_of p (\<lambda>x. x\<lparr>of_cfio := Some cf'\<rparr>) (fs\<lparr>fs_bs := cf_bs cf', fs_idb := fst (cf_caio cf')\<rparr>), r)))"

text \<open>A new \<open>ChunkedFileIO\<close> for the node lock of the open file, nil if the chunk array cannot be read.\<close>

definition new_cfio :: "('s, 'h, 'i, 'd) fs_env \<Rightarrow> NodeLock \<Rightarrow> ('s, 'h, 'i, 'd) FileSystem \<Rightarrow> ('s, 'h, 'i, 'd) cfio option" where
  "new_cfio env nlock fs =
     NewChunkedFileIO (fs_bs fs) (INodeDBChunksArrayIO_ops (fe_db env)) (NewINodeDBChunksArrayIO (fs_idb fs) nlock)"

definition getOrCreateOpenFile :: "ID \<Rightarrow> ('s, 'h, 'i, 'd, nat) fsop" where
  "getOrCreateOpenFile nid fs =
     (case fmlookup (fs_openFiles fs) nid of
        Some p \<Rightarrow> (fs, Inr p)
      | None \<Rightarrow>
          (let p = fs_next fs in
           (fs\<lparr>fs_next := Suc p,
               fs_ofs := fmupd p \<lparr>of_nlock = \<lparr>nl_ID = 0, nl_Ticket = NoTicket\<rparr>, of_wc = FileWriteCache_New, of_cfio = None, of_handles = []\<rparr>
                           (fs_ofs fs),
               fs_openFiles := fmupd nid p (fs_openFiles fs)\<rparr>, Inr p)))"

definition OpenHandleWithoutLock :: "nat \<Rightarrow> flags \<Rightarrow> ('s, 'h, 'i, 'd, nat) fsop" where
  "OpenHandleWithoutLock p flags fs =
     (let h = fs_next fs in
      (upd_of p (\<lambda>x. x\<lparr>of_handles := of_handles x @ [h]\<rparr>)
         (fs\<lparr>fs_next := Suc h, fs_fhs := fmupd h \<lparr>fh_of = Some p, fh_flags = flags\<rparr> (fs_fhs fs)\<rparr>), Inr h))"

definition sizeMayFailWithoutLock :: "('s, 'h, 'i, 'd) fs_env \<Rightarrow> nat \<Rightarrow> ('s, 'h, 'i, 'd, int) fsop" where
  "sizeMayFailWithoutLock env p =
     with_of p (\<lambda>x.
       and_then (wrapping ''Failed to QueryNode inodedb'' (fs_query env (nl_ID (of_nlock x)) False)) (\<lambda>(v, _).
         case v of
           FileNode _ sz _ \<Rightarrow> ret sz
         | DirNode _ _ _ \<Rightarrow> fail (Fmt ''Non-FileNodeView returned from QueryNode.'')))"

definition updateSizeWithoutLock :: "('s, 'h, 'i, 'd) fs_env \<Rightarrow> nat \<Rightarrow> int \<Rightarrow> ('s, 'h, 'i, 'd, unit) fsop" where
  "updateSizeWithoutLock env p newsize =
     with_of p (\<lambda>x.
       and_then (wrapping ''Failed to update FileNode size'' (fs_apply env [UpdateSizeOp (of_nlock x) newsize])) (\<lambda>_. ret ()))"

definition updateModifiedTWithoutLock :: "('s, 'h, 'i, 'd) fs_env \<Rightarrow> nat \<Rightarrow> ('s, 'h, 'i, 'd, unit) fsop" where
  "updateModifiedTWithoutLock env p =
     with_of p (\<lambda>x.
       and_then
         (wrapping ''Failed to update ModifiedT size'' (fs_apply env [UpdateModifiedTOp (nl_ID (of_nlock x)) (fe_now env)]))
         (\<lambda>_. ret ()))"

text \<open>The operations on the write cache of an open file.\<close>

definition wc_write :: "nat option \<Rightarrow> nat \<Rightarrow> byte list \<Rightarrow> int \<Rightarrow> ('s, 'h, 'i, 'd, unit) fsop" where
  "wc_write pick p bs off =
     with_of p (\<lambda>x fs.
       case FileWriteCache_PWrite pick bs off (of_wc x) (fs_pool fs) of
         Inl e \<Rightarrow> (fs, Inl e)
       | Inr (wc', pl) \<Rightarrow> (upd_of p (\<lambda>x. x\<lparr>of_wc := wc'\<rparr>) (fs\<lparr>fs_pool := pl\<rparr>), Inr ()))"

definition wc_sync :: "('s, 'h, 'i, 'd) fs_env \<Rightarrow> nat \<Rightarrow> ('s, 'h, 'i, 'd, unit) fsop" where
  "wc_sync env p =
     with_of p (\<lambda>x fs.
       case on_cfio p (\<lambda>cf.
              case FileWriteCache_Sync (cfio_write (fe_co env) (INodeDBChunksArrayIO_ops (fe_db env)) (fe_fuel env)) (of_wc x) (fs_pool fs) cf of
                ((wc', pl, cf'), e) \<Rightarrow> (cf', Inr (wc', pl, e))) fs of
         (fs', Inl e) \<Rightarrow> (fs', Inl e)
       | (fs', Inr (wc', pl, e)) \<Rightarrow>
           (upd_of p (\<lambda>x. x\<lparr>of_wc := wc'\<rparr>) (fs'\<lparr>fs_pool := pl\<rparr>), case e of None \<Rightarrow> Inr () | Some e \<Rightarrow> Inl e))"

definition wc_sync_if_needed :: "('s, 'h, 'i, 'd) fs_env \<Rightarrow> nat \<Rightarrow> ('s, 'h, 'i, 'd, unit) fsop" where
  "wc_sync_if_needed env p = with_of p (\<lambda>x. if NeedsSync (of_wc x) then wc_sync env p else ret ())"

definition OpenFile_PWrite :: "('s, 'h, 'i, 'd) fs_env \<Rightarrow> nat option \<Rightarrow> nat \<Rightarrow> byte list \<Rightarrow> int \<Rightarrow> ('s, 'h, 'i, 'd, unit) fsop" where
  "OpenFile_PWrite env pick p bs off =
     and_then (sizeMayFailWithoutLock env p) (\<lambda>currentSize.
     and_then (wc_write pick p bs off) (\<lambda>_.
     and_then (wc_sync_if_needed env p) (\<lambda>_.
       let right = wrap64 (off + int (length bs)) in
       if right > currentSize then updateSizeWithoutLock env p right
       else updateModifiedTWithoutLock env p)))"

definition OpenFile_Append :: "('s, 'h, 'i, 'd) fs_env \<Rightarrow> nat option \<Rightarrow> nat \<Rightarrow> byte list \<Rightarrow> ('s, 'h, 'i, 'd, unit) fsop" where
  "OpenFile_Append env pick p bs =
     and_then (sizeMayFailWithoutLock env p) (\<lambda>currentSize.
     and_then (wc_write pick p bs currentSize) (\<lambda>_.
     and_then (wc_sync_if_needed env p) (\<lambda>_.
       updateSizeWithoutLock env p (wrap64 (currentSize + int (length bs))))))"

text \<open>The bytes read and the error; the bytes are delivered with an error, too.\<close>

definition OpenFile_ReadAt :: "('s, 'h, 'i, 'd) fs_env \<Rightarrow> nat \<Rightarrow> nat \<Rightarrow> int \<Rightarrow> ('s, 'h, 'i, 'd, byte list \<times> error option) fsop" where
  "OpenFile_ReadAt env p n off =
     with_of p (\<lambda>x.
       on_cfio p (\<lambda>cf. case ReadAtThrough n off (cfio_read (fe_co env)) (of_wc x) cf of (cf', bs, e) \<Rightarrow> (cf', Inr (bs, e))))"

definition OpenFile_Sync :: "('s, 'h, 'i, 'd) fs_env \<Rightarrow> nat \<Rightarrow> ('s, 'h, 'i, 'd, unit) fsop" where
  "OpenFile_Sync env p = wrapping ''FileWriteCache sync failed'' (wc_sync env p)"

definition OpenFile_Size :: "('s, 'h, 'i, 'd) fs_env \<Rightarrow> nat \<Rightarrow> ('s, 'h, 'i, 'd, int) fsop" where
  "OpenFile_Size env p fs =
     (case sizeMayFailWithoutLock env p fs of
        (fs', Inl e) \<Rightarrow> (fs', if is_panic e then Inl e else Inr 0)
      | (fs', Inr sz) \<Rightarrow> (fs', Inr sz))"

text \<open>The error of \<open>cfio.Truncate\<close> is dropped.\<close>

definition truncateWithLock :: "('s, 'h, 'i, 'd) fs_env \<Rightarrow> nat \<Rightarrow> int \<Rightarrow> ('s, 'h, 'i, 'd, unit) fsop" where
  "truncateWithLock env p newsize =
     and_then (sizeMayFailWithoutLock env p) (\<lambda>oldsize.
       if newsize > oldsize then updateSizeWithoutLock env p newsize
       else if newsize < oldsize then
         and_then
           (with_of p (\<lambda>x fs.
              case FileWriteCache_Truncate newsize (of_wc x) (fs_pool fs) of
                (wc', pl) \<Rightarrow> (upd_of p (\<lambda>x. x\<lparr>of_wc := wc'\<rparr>) (fs\<lparr>fs_pool := pl\<rparr>), Inr ()))) (\<lambda>_.
         and_then
           (ignoring (on_cfio p (\<lambda>cf.
              case ChunkedFileIO_Truncate (fe_co env) (INodeDBChunksArrayIO_ops (fe_db env)) newsize cf of
                (cf', None) \<Rightarrow> (cf', Inr ())
              | (cf', Some e) \<Rightarrow> (cf', Inl e)))) (\<lambda>_.
           updateSizeWithoutLock env p newsize))
       else ret ())"

definition OpenFile_Truncate :: "('s, 'h, 'i, 'd) fs_env \<Rightarrow> nat \<Rightarrow> int \<Rightarrow> ('s, 'h, 'i, 'd, unit) fsop" where
  "OpenFile_Truncate env p newsize = truncateWithLock env p newsize"

text \<open>
  \<open>OpenFile\<close>: the open file of the node is reused when its lock is strong enough; otherwise the node
  is queried again, with a lock if the handle may write. The branch that reuses the open file looks at
  no other flag.
\<close>

definition FileSystem_OpenFile :: "('s, 'h, 'i, 'd) fs_env \<Rightarrow> ID \<Rightarrow> flags \<Rightarrow> ('s, 'h, 'i, 'd, nat) fsop" where
  "FileSystem_OpenFile env nid flags fs0 =
     (let tryLock = IsWriteAllowed flags in
      if tryLock \<and> \<not> IsWriteAllowed (co_Flags (fe_co env) (fs_bs fs0)) then (fs0, Inl (Errno EACCES))
      else
        and_then (getOrCreateOpenFile nid) (\<lambda>p.
        with_of p (\<lambda>x.
          if nl_ID (of_nlock x) \<noteq> 0 \<and> (HasTicket (of_nlock x) \<or> \<not> tryLock) then OpenHandleWithoutLock p flags
          else
            and_then (fs_query env nid tryLock) (\<lambda>(v, nlock).
              if GetType v \<noteq> FileNodeT then
                and_then (ignoring (fs_unlock env nlock)) (\<lambda>_.
                  if GetType v = DirNodeT then fail (Errno EISDIR) else fail (Fmt ''Specified node not file''))
              else
                and_then
                  (\<lambda>fs. case new_cfio env nlock fs of
                     None \<Rightarrow> (upd_of p (\<lambda>x. x\<lparr>of_nlock := nlock, of_cfio := None\<rparr>) fs, Inl (Panic ''nil pointer dereference''))
                   | Some cf \<Rightarrow>
                       (upd_of p (\<lambda>x. x\<lparr>of_nlock := nlock, of_cfio := Some (SetOrigFilename (tryGetOrigPath (nl_ID nlock) fs) cf)\<rparr>) fs,
                        Inr ())) (\<lambda>_.
                and_then
                  (if IsWriteTruncate flags then wrapping ''Failed to truncate file'' (truncateWithLock env p 0) else ret ()) (\<lambda>_.
                  OpenHandleWithoutLock p flags))))) fs0)"

definition closeOpenFile :: "ID \<Rightarrow> ('s, 'h, 'i, 'd) FileSystem \<Rightarrow> ('s, 'h, 'i, 'd) FileSystem" where
  "closeOpenFile nid fs = fs\<lparr>fs_openFiles := fmdrop nid (fs_openFiles fs)\<rparr>"

definition cfio_close :: "('s, 'h, 'i, 'd) fs_env \<Rightarrow> nat \<Rightarrow> ('s, 'h, 'i, 'd, unit) fsop" where
  "cfio_close env p =
     on_cfio p (\<lambda>cf. case ChunkedFileIO_Close (fe_co env) cf of (cf', None) \<Rightarrow> (cf', Inr ()) | (cf', Some e) \<Rightarrow> (cf', Inl e))"

definition downgradeToReadLock :: "('s, 'h, 'i, 'd) fs_env \<Rightarrow> nat \<Rightarrow> ('s, 'h, 'i, 'd, unit) fsop" where
  "downgradeToReadLock env p =
     with_of p (\<lambda>x.
       if \<not> HasTicket (of_nlock x) then ret ()
       else
         and_then (ignoring (fs_unlock env (of_nlock x))) (\<lambda>_.
         and_then (\<lambda>fs. (upd_of p (\<lambda>x. x\<lparr>of_nlock := (of_nlock x)\<lparr>nl_Ticket := NoTicket\<rparr>\<rparr>) fs, Inr ())) (\<lambda>_.
         and_then (ignoring (cfio_close env p)) (\<lambda>_ fs.
           (upd_of p (\<lambda>x. x\<lparr>of_cfio := new_cfio env (of_nlock x) fs\<rparr>) fs, Inr ())))))"

text \<open>
  \<open>CloseHandle\<close> up to the release of the mutex of the open file; the result is the node to drop from
  the map of open files, if any.
\<close>

definition CloseHandle_locked :: "('s, 'h, 'i, 'd) fs_env \<Rightarrow> nat \<Rightarrow> nat \<Rightarrow> ('s, 'h, 'i, 'd, ID option) fsop" where
  "CloseHandle_locked env p tgt fs0 =
     (case fmlookup (fs_fhs fs0) tgt of
        None \<Rightarrow> (fs0, Inl (Panic ''nil pointer dereference''))
      | Some fh \<Rightarrow>
          if fh_of fh = None then (fs0, Inr None)
          else if fh_of fh \<noteq> Some p then (fs0, Inr None)
          else
            (let fs1 = fs0\<lparr>fs_fhs := fmupd tgt (fh\<lparr>fh_of := None\<rparr>) (fs_fhs fs0)\<rparr>
             in with_of p (\<lambda>x.
               let newHandles = filter (\<lambda>h. h \<noteq> tgt) (of_handles x);
                   ofHasOtherWriteHandle =
                     (\<exists>h \<in> set newHandles. case fmlookup (fs_fhs fs1) h of None \<Rightarrow> False | Some g \<Rightarrow> IsWriteAllowed (fh_flags g))
               in
               and_then (\<lambda>fs. (upd_of p (\<lambda>x. x\<lparr>of_handles := newHandles\<rparr>) fs, Inr ())) (\<lambda>_.
               and_then
                 (if IsWriteAllowed (fh_flags fh) \<and> \<not> ofHasOtherWriteHandle
                  then and_then (ignoring (wc_sync env p)) (\<lambda>_. downgradeToReadLock env p)
                  else ret ()) (\<lambda>_.
                 if newHandles = [] then
                   and_then (ignoring (cfio_close env p)) (\<lambda>_. with_of p (\<lambda>x. ret (Some (nl_ID (of_nlock x)))))
                 else ret None))) fs1))"

definition OpenFile_CloseHandle :: "('s, 'h, 'i, 'd) fs_env \<Rightarrow> nat \<Rightarrow> nat \<Rightarrow> ('s, 'h, 'i, 'd, unit) fsop" where
  "OpenFile_CloseHandle env p tgt =
     and_then (CloseHandle_locked env p tgt) (\<lambda>r fs.
       case r of None \<Rightarrow> (fs, Inr ()) | Some nid \<Rightarrow> (closeOpenFile nid fs, Inr ()))"

section \<open>File handles\<close>

text \<open>A closed handle has no open file; every method but the flag checks then dereferences nil.\<close>

definition with_fh :: "nat \<Rightarrow> (FileHandle \<Rightarrow> ('s, 'h, 'i, 'd, 'a) fsop) \<Rightarrow> ('s, 'h, 'i, 'd, 'a) fsop" where
  "with_fh h f fs =
     (case fmlookup (fs_fhs fs) h of
        None \<Rightarrow> (fs, Inl (Panic ''nil pointer dereference''))
      | Some fh \<Rightarrow> f fh fs)"

definition fh_call :: "FileHandle \<Rightarrow> (nat \<Rightarrow> ('s, 'h, 'i, 'd, 'a) fsop) \<Rightarrow> ('s, 'h, 'i, 'd, 'a) fsop" where
  "fh_call fh f = (case fh_of fh of None \<Rightarrow> fail (Panic ''nil pointer dereference'') | Some p \<Rightarrow> f p)"

definition FileHandle_ID :: "nat \<Rightarrow> ('s, 'h, 'i, 'd, ID) fsop" where
  "FileHandle_ID h = with_fh h (\<lambda>fh. fh_call fh (\<lambda>p. with_of p (\<lambda>x. ret (nl_ID (of_nlock x)))))"

definition FileHandle_PWrite :: "('s, 'h, 'i, 'd) fs_env \<Rightarrow> nat option \<Rightarrow> nat \<Rightarrow> byte list \<Rightarrow> int \<Rightarrow> ('s, 'h, 'i, 'd, unit) fsop" where
  "FileHandle_PWrite env pick h bs off =
     with_fh h (\<lambda>fh.
       if \<not> IsWriteAllowed (fh_flags fh) then fail (Errno EBADF)
       else if IsWriteAppend (fh_flags fh) then fh_call fh (\<lambda>p. OpenFile_Append env pick p bs)
       else fh_call fh (\<lambda>p. OpenFile_PWrite env pick p bs off))"

definition FileHandle_ReadAt :: "('s, 'h, 'i, 'd) fs_env \<Rightarrow> nat \<Rightarrow> nat \<Rightarrow> int \<Rightarrow> ('s, 'h, 'i, 'd, byte list \<times> error option) fsop" where
  "FileHandle_ReadAt env h n off =
     with_fh h (\<lambda>fh.
       if \<not> IsReadAllowed (fh_flags fh) then fail (Errno EBADF)
       else fh_call fh (\<lambda>p. OpenFile_ReadAt env p n off))"

definition FileHandle_Sync :: "('s, 'h, 'i, 'd) fs_env \<Rightarrow> nat \<Rightarrow> ('s, 'h, 'i, 'd, unit) fsop" where
  "FileHandle_Sync env h =
     with_fh h (\<lambda>fh. if \<not> IsWriteAllowed (fh_flags fh) then ret () else fh_call fh (\<lambda>p. OpenFile_Sync env p))"

definition FileHandle_Size :: "('s, 'h, 'i, 'd) fs_env \<Rightarrow> nat \<Rightarrow> ('s, 'h, 'i, 'd, int) fsop" where
  "FileHandle_Size env h = with_fh h (\<lambda>fh. fh_call fh (\<lambda>p. OpenFile_Size env p))"

definition FileHandle_Truncate :: "('s, 'h, 'i, 'd) fs_env \<Rightarrow> nat \<Rightarrow> int \<Rightarrow> ('s, 'h, 'i, 'd, unit) fsop" where
  "FileHandle_Truncate env h newsize =
     with_fh h (\<lambda>fh.
       if \<not> IsWriteAllowed (fh_flags fh) then fail (Errno EBADF) else fh_call fh (\<lambda>p. OpenFile_Truncate env p newsize))"

definition FileHandle_Close :: "('s, 'h, 'i, 'd) fs_env \<Rightarrow> nat \<Rightarrow> ('s, 'h, 'i, 'd, unit) fsop" where
  "FileHandle_Close env h = with_fh h (\<lambda>fh. fh_call fh (\<lambda>p. OpenFile_CloseHandle env p h))"

definition FileHandle_Attr :: "('s, 'h, 'i, 'd) fs_env \<Rightarrow> nat \<Rightarrow> ('s, 'h, 'i, 'd, Attr) fsop" where
  "FileHandle_Attr env h = and_then (FileHandle_ID h) (FileSystem_Attr env)"

definition FileSystem_TruncateFile :: "('s, 'h, 'i, 'd) fs_env \<Rightarrow> ID \<Rightarrow> int \<Rightarrow> ('s, 'h, 'i, 'd, unit) fsop" where
  "FileSystem_TruncateFile env nid newsize =
     and_then (wrapping ''Failed to OpenFile'' (FileSystem_OpenFile env nid O_WRONLY)) (\<lambda>h.
       deferring (FileHandle_Truncate env h newsize) (FileHandle_Close env h))"

definition FileSystem_SyncFile :: "('s, 'h, 'i, 'd) fs_env \<Rightarrow> ID \<Rightarrow> ('s, 'h, 'i, 'd, unit) fsop" where
  "FileSystem_SyncFile env nid fs =
     (if \<not> IsWriteAllowed (co_Flags (fe_co env) (fs_bs fs)) then (fs, Inr ())
      else
        and_then (wrapping ''Failed to OpenFile'' (FileSystem_OpenFile env nid O_WRONLY)) (\<lambda>h.
          deferring (FileHandle_Sync env h) (FileHandle_Close env h)) fs)"

definition snapshotOpenFiles :: "('s, 'h, 'i, 'd) fs_env \<Rightarrow> ('s, 'h, 'i, 'd) FileSystem \<Rightarrow> nat list" where
  "snapshotOpenFiles env fs = fe_files env (fs_openFiles fs)"

primrec sync_files :: "('s, 'h, 'i, 'd) fs_env \<Rightarrow> nat list \<Rightarrow> ('s, 'h, 'i, 'd, unit) fsop" where
  "sync_files env [] = ret ()"
| "sync_files env (p # ps) = and_then (ignoring (OpenFile_Sync env p)) (\<lambda>_. sync_files env ps)"

definition FileSystem_Sync :: "('s, 'h, 'i, 'd) fs_env \<Rightarrow> ('s, 'h, 'i, 'd, unit) fsop" where
  "FileSystem_Sync env fs =
     (let (fs1, me) =
        (case dh_Sync (fe_db env) of
           None \<Rightarrow> (fs, None)
         | Some sync \<Rightarrow> (case sync (fs_idb fs) of (e, d) \<Rightarrow> (fs\<lparr>fs_idb := d\<rparr>, map_option (errorf ''Failed to sync INodeDB'') e)))
      in if (case me of None \<Rightarrow> False | Some e \<Rightarrow> is_panic e) then (fs1, Inl (the me))
         else and_then (sync_files env (snapshotOpenFiles env fs1)) (\<lambda>_. case me of None \<Rightarrow> ret () | Some e \<Rightarrow> fail e) fs1)"

section \<open>Paths\<close>

text \<open>\<open>filepath.Clean\<close> and \<open>filepath.Dir\<close> of the Go library on Unix, element by element.\<close>

fun path_elems :: "string \<Rightarrow> string list" where
  "path_elems [] = [[]]"
| "path_elems (c # cs) =
     (if c = CHR ''/'' then [] # path_elems cs
      else (case path_elems cs of [] \<Rightarrow> [[c]] | e # es \<Rightarrow> (c # e) # es))"

definition clean_elem :: "bool \<Rightarrow> string \<Rightarrow> string list \<Rightarrow> string list" where
  "clean_elem rooted e out =
     (if e = '''' \<or> e = ''.'' then out
      else if e = ''..'' then
        (if out \<noteq> [] \<and> last out \<noteq> ''..'' then butlast out else if rooted then out else out @ [e])
      else out @ [e])"

definition join_elems :: "string list \<Rightarrow> string" where
  "join_elems es = (case es of [] \<Rightarrow> [] | e # es \<Rightarrow> e @ concat (map (\<lambda>x. CHR ''/'' # x) es))"

definition filepath_Clean :: "string \<Rightarrow> string" where
  "filepath_Clean path =
     (let rooted = (path \<noteq> [] \<and> hd path = CHR ''/'');
          out = fold (clean_elem rooted) (path_elems path) []
      in if rooted then CHR ''/'' # join_elems out else if out = [] then ''.'' else join_elems out)"

definition filepath_Dir :: "string \<Rightarrow> string" where
  "filepath_Dir path = filepath_Clean (rev (dropWhile (\<lambda>c. c \<noteq> CHR ''/'') (rev path)))"

text \<open>
  \<open>FindNodeFullPath\<close> calls itself on the parent path; fuel bounds the depth. The error of \<open>DirEntries\<close>
  is overwritten, so that a parent that is a file has no entries.
\<close>

primrec FindNodeFullPath :: "nat \<Rightarrow> ('s, 'h, 'i, 'd) fs_env \<Rightarrow> string \<Rightarrow> ('s, 'h, 'i, 'd, ID) fsop" where
  "FindNodeFullPath 0 env fullpath = fail Hang"
| "FindNodeFullPath (Suc fuel) env fullpath =
     (let fullpath = filepath_Clean fullpath in
      if length fullpath < 1 \<or> hd fullpath \<noteq> CHR ''/'' then fail (Fmt ''Path must start with /'')
      else if fullpath = ''/'' then ret 1
      else
        and_then (FindNodeFullPath fuel env (filepath_Dir fullpath)) (\<lambda>parentId fs.
          case FileSystem_DirEntries env parentId fs of
            (fs', r) \<Rightarrow>
              (case r of
                 Inl e \<Rightarrow> (fs', if is_panic e then Inl e else Inl (Errno ENOENT))
               | Inr entries \<Rightarrow>
                   (case fmlookup entries (filepath_Base fullpath) of
                      None \<Rightarrow> (fs', Inl (Errno ENOENT))
                    | Some nid \<Rightarrow> (fs', Inr nid)))))"

text \<open>Every parent path is shorter, so that the length of the path is fuel enough.\<close>

definition FindNode :: "('s, 'h, 'i, 'd) fs_env \<Rightarrow> string \<Rightarrow> ('s, 'h, 'i, 'd, ID) fsop" where
  "FindNode env fullpath = FindNodeFullPath (Suc (length fullpath)) env fullpath"

definition CreateFileFullPath ::
    "('s, 'h, 'i, 'd) fs_env \<Rightarrow> string \<Rightarrow> 16 word \<Rightarrow> 32 word \<Rightarrow> 32 word \<Rightarrow> time \<Rightarrow> ('s, 'h, 'i, 'd, ID) fsop" where
  "CreateFileFullPath env fullpath perm uid gid modifiedT =
     (if length fullpath < 1 \<or> hd fullpath \<noteq> CHR ''/'' then fail (Fmt ''Path must start with /'')
      else
        and_then (FindNode env (filepath_Dir fullpath)) (\<lambda>dirID.
          FileSystem_CreateFile env dirID (filepath_Base fullpath) (perm AND 0x1FF) uid gid modifiedT))"

definition OpenFileFullPath :: "('s, 'h, 'i, 'd) fs_env \<Rightarrow> string \<Rightarrow> flags \<Rightarrow> 16 word \<Rightarrow> ('s, 'h, 'i, 'd, nat) fsop" where
  "OpenFileFullPath env fullpath flags perm =
     (if length fullpath < 1 \<or> hd fullpath \<noteq> CHR ''/'' then fail (Fmt ''Path must start with /'')
      else
        and_then (FindNode env (filepath_Dir fullpath)) (\<lambda>dirID.
        and_then (FileSystem_DirEntries env dirID) (\<lambda>entries.
        and_then
          (case fmlookup entries (filepath_Base fullpath) of
             Some nid \<Rightarrow> ret nid
           | None \<Rightarrow>
               if flags OR O_CREATE \<noteq> 0
               then FileSystem_CreateFile env dirID (filepath_Base fullpath) (perm AND 0x1FF) 0 0 (fe_now env)
               else fail (Errno ENOENT)) (\<lambda>nid.
          if nid = 0 then fail (Panic ''inode id must != 0 here'')
          else FileSystem_OpenFile env nid flags))))"

definition FileSystem_WriteFile :: "('s, 'h, 'i, 'd) fs_env \<Rightarrow> nat option \<Rightarrow> string \<Rightarrow> byte list \<Rightarrow> 16 word \<Rightarrow> ('s, 'h, 'i, 'd, unit) fsop" where
  "FileSystem_WriteFile env pick fullpath content perm =
     and_then (OpenFileFullPath env fullpath O_RDWRCREATE perm) (\<lambda>h.
       deferring (FileHandle_PWrite env pick h content 0) (FileHandle_Close env h))"

definition CreateDirFullPath ::
    "('s, 'h, 'i, 'd) fs_env \<Rightarrow> string \<Rightarrow> 16 word \<Rightarrow> 32 word \<Rightarrow> 32 word \<Rightarrow> time \<Rightarrow> ('s, 'h, 'i, 'd, ID) fsop" where
  "CreateDirFullPath env fullpath perm uid gid modifiedT =
     and_then (wrapping ''Failed to find parent'' (FindNode env (filepath_Dir fullpath))) (\<lambda>nid.
       FileSystem_CreateDir env nid (filepath_Base fullpath) perm uid gid modifiedT)"

end
