(* ===== verification/Open_File.thy ===== *)
theory Open_File
  imports File_System "HOL-Library.List_Lexorder" "HOL-Library.Char_ord"
begin

text \<open>
  Open files of the file system (\<open>filesystem.go\<close>) refine ideal files. The locale \<open>node_db\<close> is what the file
  system relies on of the database, and is interpreted by \<open>DB\<close>; \<open>fs_storage\<close> puts it beside the contract of the
  chunks. \<open>open_rep\<close> relates an open file, with its write cache, its chunks, its lock and its node, to a list of
  bytes; \<open>disk_rep\<close> a node nobody has open. Opening, reading, writing, truncating and closing are shown to
  keep the relation, and the properties at the end instantiate this with chunks in files below a
  directory and a database with its log in memory.
\<close>

section \<open>A cache that leaves no holes\<close>

text \<open>
  Behind the end of a file of the length \<open>l\<close> the patches leave no position uncovered. Patches from writes that
  start at the end of the file or before it are of this kind.
\<close>

definition gap_free :: "Patches \<Rightarrow> nat \<Rightarrow> bool" where
  "gap_free ps l \<longleftrightarrow> (\<forall>i. l \<le> i \<and> (\<exists>p \<in> set ps. Patch_P p \<noteq> [] \<and> int i < patch_end p) \<longrightarrow> overlay ps i \<noteq> None)"

definition cache_ok :: "Patches \<Rightarrow> nat \<Rightarrow> bool" where
  "cache_ok ps l \<longleftrightarrow> wf_patches ps \<and> gap_free ps l \<and> (\<forall>p \<in> set ps. int (length (Patch_P p)) \<le> MaxInt32)"

lemma gap_freeD:
  assumes "wf_patches ps" "gap_free ps (length q)" "length q \<le> i" "i < length (apply_patches ps q)"
  shows "overlay ps i \<noteq> None"
  using assms less_length_apply_patches [OF wf_patches_pos [OF assms(1)], of i q] by (auto simp: gap_free_def)

lemma gap_freeI:
  assumes "wf_patches ps" "\<And>i. length q \<le> i \<Longrightarrow> i < length (apply_patches ps q) \<Longrightarrow> overlay ps i \<noteq> None"
  shows "gap_free ps (length q)"
  using assms less_length_apply_patches [OF wf_patches_pos [OF assms(1)], of _ q] by (auto simp: gap_free_def)

lemma nth_apply_long:
  assumes "wf_patches ps"
  shows "apply_patches ps (replicate (Suc i) b) ! i = (case overlay ps i of Some v \<Rightarrow> v | None \<Rightarrow> b)"
proof -
  have "i < length (apply_patches ps (replicate (Suc i) b))"
    using less_length_apply_patches [OF wf_patches_pos [OF assms]] by simp
  from nth_apply_patches [OF wf_patches_sorted [OF assms] wf_patches_pos [OF assms] this] show ?thesis
    by (auto simp del: replicate_Suc split: option.splits)
qed

lemma gap_free_write:
  assumes wf: "wf_patches ps" "wf_patches ps'" and eq: "\<And>c. apply_patches ps' c = fwrite (apply_patches ps c) off p"
    and gf: "gap_free ps (length q)" and off: "off \<le> length (apply_patches ps q)" and p: "p \<noteq> []"
  shows "gap_free ps' (length q)"
proof (rule gap_freeI [OF wf(2)])
  fix i assume i: "length q \<le> i" "i < length (apply_patches ps' q)"
  show "overlay ps' i \<noteq> None"
  proof
    assume none: "overlay ps' i = None"
    have "b = (if off \<le> i \<and> i < off + length p then p ! (i - off) else case overlay ps i of Some v \<Rightarrow> v | None \<Rightarrow> b)" for b
    proof -
      have l: "i < length (apply_patches ps (replicate (Suc i) b))"
        using less_length_apply_patches [OF wf_patches_pos [OF wf(1)]] by simp
      then have "i < length (fwrite (apply_patches ps (replicate (Suc i) b)) off p)" by (simp add: length_fwrite less_max_iff_disj del: replicate_Suc)
      from nth_fwrite [OF this] nth_apply_long [OF wf(1), of i b] nth_apply_long [OF wf(2), of i b] l none eq show ?thesis
        by (auto simp del: replicate_Suc split: if_splits)
    qed
    from this [of 0] this [of 1] have "\<not> (off \<le> i \<and> i < off + length p)" "overlay ps i = None"
      by (auto split: option.splits if_splits)
    with i gap_freeD [OF wf(1) gf i(1)] off p show False by (auto simp: eq length_fwrite less_max_iff_disj split: if_splits)
  qed
qed

lemma gap_free_runs_fit:
  assumes "sorted_wrt (\<lambda>a b. patch_end a \<le> Patch_Offset b) ps" "\<forall>p \<in> set ps. IsSentinel p \<or> patch_ok p" "gap_free ps l"
  shows "runs_fit (\<lambda>l off. off div split_size \<le> l div split_size) ps l e"
  using assms
proof (induction ps arbitrary: l e)
  case (Cons p ps)
  show ?case
  proof (cases "IsSentinel p")
    case False
    with Cons.prems(2) have ok: "patch_ok p" by simp
    then have pos: "0 \<le> Patch_Offset p" "Patch_Offset p < patch_end p" "Patch_P p \<noteq> []"
      by (auto simp: patch_ok_def patch_end_def)
    have "nat (Patch_Offset p) \<le> l"
    proof (rule ccontr)
      assume "\<not> nat (Patch_Offset p) \<le> l"
      then have l: "int l < Patch_Offset p" by simp
      with Cons.prems(3) pos have "overlay (p # ps) l \<noteq> None" by (auto simp: gap_free_def)
      then obtain q where "q \<in> set (p # ps)" "covers q l" unfolding overlay_None_iff by blast
      with l Cons.prems(1) pos show False by (force simp: covers_def)
    qed
    moreover have "gap_free ps (max l (nat (patch_end p)))"
      unfolding gap_free_def
    proof (intro allI impI, elim conjE)
      fix i assume i: "max l (nat (patch_end p)) \<le> i" "\<exists>q \<in> set ps. Patch_P q \<noteq> [] \<and> int i < patch_end q"
      with Cons.prems(3) have "overlay (p # ps) i \<noteq> None" by (auto simp: gap_free_def)
      moreover have "\<not> covers p i" using i(1) by (auto simp: covers_def)
      ultimately show "overlay ps i \<noteq> None" by simp
    qed
    ultimately show ?thesis using False Cons.IH Cons.prems by (simp add: div_le_mono)
  qed simp
qed simp

text \<open>Merging makes no patch longer than the longest one.\<close>

lemma Merge_lengths:
  assumes wf: "wf_patches ps" and new: "patch_ok newp" and m: "Merge ps newp = Inr ps'"
    and len: "\<forall>p \<in> set (newp # ps). int (length (Patch_P p)) \<le> N"
  shows "\<forall>p \<in> set ps'. int (length (Patch_P p)) \<le> N"
proof -
  from wf new obtain A M B where ps: "ps = A @ M @ B"
    and res: "Merge ps newp = Inr (A @ left_rest M newp @ [newp] @ right_rest M newp @ B)"
    by (blast elim: Merge_split)
  have "int (length (Patch_P p)) \<le> N" if "p \<in> set (left_rest M newp)" for p
    using that len ps by (cases M) (auto simp: left_rest_def trim_left_def split: if_splits)
  moreover have "int (length (Patch_P p)) \<le> N" if "p \<in> set (right_rest M newp)" for p
  proof -
    from that have "p = trim_right (last M) newp" "last M \<in> set ps" using ps by (auto simp: right_rest_def split: if_splits)
    moreover from this(2) len have "int (length (Patch_P (last M))) \<le> N" by simp
    ultimately show ?thesis by (simp add: trim_right_def)
  qed
  ultimately show ?thesis using m res len ps by auto
qed

section \<open>What the file system relies on of the database\<close>

text \<open>
  \<open>view d i\<close> is the node \<open>i\<close>, \<open>locked d l\<close>: the lock \<open>l\<close> is held, \<open>free d i\<close>: a lock on \<open>i\<close> can be
  had. A transaction that updates one file changes that node only.
\<close>

locale node_db =
  fixes dh :: "'d DBHandler" and dinv :: "'d \<Rightarrow> bool" and view :: "'d \<Rightarrow> ID \<Rightarrow> INode option"
    and locked :: "'d \<Rightarrow> NodeLock \<Rightarrow> bool" and free :: "'d \<Rightarrow> ID \<Rightarrow> bool"
  assumes locked_ticket: "locked d l \<Longrightarrow> HasTicket l"
    and query: "dinv d \<Longrightarrow> view d i = Some n \<Longrightarrow> dh_QueryNode dh i False d = (Inr (n, \<lparr>nl_ID = i, nl_Ticket = NoTicket\<rparr>), d)"
    and query_lock: "dinv d \<Longrightarrow> view d i = Some n \<Longrightarrow> free d i \<Longrightarrow>
      \<exists>l d'. dh_QueryNode dh i True d = (Inr (n, l), d') \<and> dinv d' \<and> nl_ID l = i \<and> locked d' l \<and> view d' = view d"
    and unlock: "dinv d \<Longrightarrow> locked d l \<Longrightarrow> \<exists>d'. dh_UnlockNode dh l d = (None, d') \<and> dinv d' \<and> view d' = view d"
    and update_size: "dinv d \<Longrightarrow> locked d l \<Longrightarrow> view d (nl_ID l) = Some (FileNode c sz cs) \<Longrightarrow>
      \<exists>v d' c'. dh_ApplyTransaction dh \<lparr>tx_TxID = AnyVersion, tx_Ops = [UpdateSizeOp l sz']\<rparr> d = (Inr v, d') \<and> dinv d' \<and>
        locked d' l \<and> view d' = (view d)(nl_ID l \<mapsto> FileNode c' sz' cs)"
    and update_chunks: "dinv d \<Longrightarrow> locked d l \<Longrightarrow> view d (nl_ID l) = Some (FileNode c sz cs) \<Longrightarrow>
      \<exists>v d' c'. dh_ApplyTransaction dh \<lparr>tx_TxID = AnyVersion, tx_Ops = [UpdateChunksOp l cs']\<rparr> d = (Inr v, d') \<and> dinv d' \<and>
        locked d' l \<and> view d' = (view d)(nl_ID l \<mapsto> FileNode c' sz cs')"
    and update_time: "dinv d \<Longrightarrow> view d i = Some (FileNode c sz cs) \<Longrightarrow>
      \<exists>v d' c'. dh_ApplyTransaction dh \<lparr>tx_TxID = AnyVersion, tx_Ops = [UpdateModifiedTOp i t]\<rparr> d = (Inr v, d') \<and> dinv d' \<and>
        (\<forall>l. locked d l \<longrightarrow> locked d' l) \<and> view d' = (view d)(i \<mapsto> FileNode c' sz cs)"

text \<open>The database of \<open>Inode_Tx\<close> behind the interface.\<close>

definition db_handler ::
    "nat \<Rightarrow> 'n DBStateSnapshotIO \<Rightarrow> 'l DBTransactionLogIO \<Rightarrow> clock \<Rightarrow> ('n, 'l) DB DBHandler" where
  "db_handler k sops lops clk =
     \<lparr>dh_ApplyTransaction = (\<lambda>tx db. case ApplyTransaction k sops lops clk tx db of None \<Rightarrow> (Inl Hang, db) | Some r \<Rightarrow> r),
      dh_QueryNode = QueryNode, dh_LockNode = LockNode, dh_UnlockNode = UnlockNode, dh_Sync = Some (Sync sops clk)\<rparr>"

definition simple_dinv :: "('n, SimpleDBTransactionLogIO) DB \<Rightarrow> bool" where
  "simple_dinv db \<longleftrightarrow> \<not> db_readOnly db \<and> \<not> sl_readOnly (db_txLogIO db)"

definition db_view :: "('n, 'l) DB \<Rightarrow> ID \<Rightarrow> INode option" where
  "db_view db = fmlookup (nodes (db_state db))"

definition db_locked :: "('n, 'l) DB \<Rightarrow> NodeLock \<Rightarrow> bool" where
  "db_locked db l \<longleftrightarrow> fmlookup (nodeLocks (db_state db)) (nl_ID l) = Some l \<and> HasTicket l"

definition db_free :: "('n, 'l) DB \<Rightarrow> ID \<Rightarrow> bool" where
  "db_free db i \<longleftrightarrow> i \<noteq> AllocateNewNodeID \<and> fmlookup (nodeLocks (db_state db)) i = None \<and>
     wrapu64 (lastTicket (db_state db) + 1) \<noteq> NoTicket"

lemma checkLock_locked: "db_locked db l \<Longrightarrow> checkLock l True (db_state db) = None"
  by (auto simp: db_locked_def checkLock_def HasTicket_def)

lemma simple_apply:
  assumes "simple_dinv db" "Apply (clk (db_tick db)) op (db_state db) = Inr s"
  shows "\<exists>v db'. dh_ApplyTransaction (db_handler k sops Simple_log_ops clk) \<lparr>tx_TxID = AnyVersion, tx_Ops = [op]\<rparr> db = (Inr v, db') \<and>
    simple_dinv db' \<and> nodes (db_state db') = nodes s \<and> nodeLocks (db_state db') = nodeLocks s"
  using assms
  by (simp add: db_handler_def ApplyTransaction_def applyTransactionInternal_def apply_tx_def Let_def Simple_log_ops_def
      Simple_AppendTransaction_def simple_dinv_def)

interpretation simple_db: node_db "db_handler k sops Simple_log_ops clk" simple_dinv db_view db_locked db_free
proof
  fix db :: "('a, SimpleDBTransactionLogIO) DB" and l i n c sz cs sz' cs' t
  show "db_locked db l \<Longrightarrow> HasTicket l" by (simp add: db_locked_def)
  have view: "View n = n" for n by (cases n) (simp_all add: View_def)
  show "simple_dinv db \<Longrightarrow> db_view db i = Some n \<Longrightarrow>
      dh_QueryNode (db_handler k sops Simple_log_ops clk) i False db = (Inr (n, \<lparr>nl_ID = i, nl_Ticket = NoTicket\<rparr>), db)"
    by (simp add: db_handler_def QueryNode_def db_view_def view)
  show "simple_dinv db \<Longrightarrow> db_view db i = Some n \<Longrightarrow> db_free db i \<Longrightarrow>
      \<exists>l d'. dh_QueryNode (db_handler k sops Simple_log_ops clk) i True db = (Inr (n, l), d') \<and> simple_dinv d' \<and>
        nl_ID l = i \<and> db_locked d' l \<and> db_view d' = db_view db"
    by (simp add: db_handler_def QueryNode_def LockNode_def db_view_def db_free_def db_locked_def simple_dinv_def HasTicket_def view Let_def)
  show "simple_dinv db \<Longrightarrow> db_locked db l \<Longrightarrow>
      \<exists>d'. dh_UnlockNode (db_handler k sops Simple_log_ops clk) l db = (None, d') \<and> simple_dinv d' \<and> db_view d' = db_view db"
    by (simp add: db_handler_def UnlockNode_def checkLock_locked simple_dinv_def db_view_def)
  assume d: "simple_dinv db"
  show "\<exists>v d' c'. dh_ApplyTransaction (db_handler k sops Simple_log_ops clk) \<lparr>tx_TxID = AnyVersion, tx_Ops = [UpdateSizeOp l sz']\<rparr> db = (Inr v, d') \<and>
      simple_dinv d' \<and> db_locked d' l \<and> db_view d' = (db_view db)(nl_ID l \<mapsto> FileNode c' sz' cs)"
    if "db_locked db l" "db_view db (nl_ID l) = Some (FileNode c sz cs)"
    using simple_apply [OF d, of clk "UpdateSizeOp l sz'"] that checkLock_locked [OF that(1)]
    by (fastforce simp: UpdateSizeOp_Apply_def db_view_def db_locked_def set_node_def touch_def)
  show "\<exists>v d' c'. dh_ApplyTransaction (db_handler k sops Simple_log_ops clk) \<lparr>tx_TxID = AnyVersion, tx_Ops = [UpdateChunksOp l cs']\<rparr> db = (Inr v, d') \<and>
      simple_dinv d' \<and> db_locked d' l \<and> db_view d' = (db_view db)(nl_ID l \<mapsto> FileNode c' sz cs')"
    if "db_locked db l" "db_view db (nl_ID l) = Some (FileNode c sz cs)"
    using simple_apply [OF d, of clk "UpdateChunksOp l cs'"] that checkLock_locked [OF that(1)]
    by (fastforce simp: UpdateChunksOp_Apply_def db_view_def db_locked_def set_node_def)
  show "\<exists>v d' c'. dh_ApplyTransaction (db_handler k sops Simple_log_ops clk) \<lparr>tx_TxID = AnyVersion, tx_Ops = [UpdateModifiedTOp i t]\<rparr> db = (Inr v, d') \<and>
      simple_dinv d' \<and> (\<forall>l. db_locked db l \<longrightarrow> db_locked d' l) \<and> db_view d' = (db_view db)(i \<mapsto> FileNode c' sz cs)"
    if "db_view db i = Some (FileNode c sz cs)"
    using simple_apply [OF d, of clk "UpdateModifiedTOp i t"] that
    by (fastforce simp: UpdateModifiedTOp_Apply_def update_common_def db_view_def db_locked_def set_node_def)
qed

section \<open>Open files refine ideal files\<close>

text \<open>
  \<open>open_rep\<close>: the open file at the pointer \<open>p\<close> has the content \<open>q\<close>, part of it in the write cache, and its
  node the size \<open>sz\<close>; with a ticket it may be written. \<open>disk_rep\<close>: the node \<open>i\<close> has the content \<open>q\<close>, all of it durable.
\<close>

definition open_rep ::
    "('s \<Rightarrow> bool) \<Rightarrow> ('s \<Rightarrow> string \<Rightarrow> byte list \<Rightarrow> bool) \<Rightarrow> ('i \<Rightarrow> string \<Rightarrow> 's \<Rightarrow> byte list \<Rightarrow> bool) \<Rightarrow>
     ('d \<Rightarrow> bool) \<Rightarrow> ('d \<Rightarrow> ID \<Rightarrow> INode option) \<Rightarrow> ('d \<Rightarrow> NodeLock \<Rightarrow> bool) \<Rightarrow>
     NodeLock \<Rightarrow> int \<Rightarrow> byte list \<Rightarrow> nat \<Rightarrow> ('s, 'h, 'i, 'd) FileSystem \<Rightarrow> bool" where
  "open_rep sinv stored has dinv view locked l sz q p fs \<longleftrightarrow>
     (\<exists>x cf q0 c. fmlookup (fs_ofs fs) p = Some x \<and> of_nlock x = l \<and> of_cfio x = Some cf \<and> snd (cf_caio cf) = l \<and>
        dinv (fs_idb fs) \<and> (HasTicket l \<longrightarrow> locked (fs_idb fs) l) \<and>
        view (fs_idb fs) (nl_ID l) = Some (FileNode c sz (cf_cs cf)) \<and>
        file_rep sinv stored has q0 (cf\<lparr>cf_bs := fs_bs fs\<rparr>) \<and> cache_ok (wc_ps (of_wc x)) (length q0) \<and>
        (HasTicket l \<or> of_wc x = FileWriteCache_New) \<and>
        q = apply_patches (wc_ps (of_wc x)) q0 \<and> int (length q) + ChunkSplitSize \<le> MaxInt64)"

definition disk_rep ::
    "('s \<Rightarrow> bool) \<Rightarrow> ('s \<Rightarrow> string \<Rightarrow> byte list \<Rightarrow> bool) \<Rightarrow> ('d \<Rightarrow> bool) \<Rightarrow> ('d \<Rightarrow> ID \<Rightarrow> INode option) \<Rightarrow>
     ID \<Rightarrow> byte list \<Rightarrow> ('s, 'h, 'i, 'd) FileSystem \<Rightarrow> bool" where
  "disk_rep sinv stored dinv view i q fs \<longleftrightarrow>
     (\<exists>c cs. dinv (fs_idb fs) \<and> view (fs_idb fs) i = Some (FileNode c (int (length q)) cs) \<and> sinv (fs_bs fs) \<and> layout cs q \<and>
        (\<forall>k < length cs. stored (fs_bs fs) (fc_BlobPath (cs ! k)) (piece split_size k q)))"

lemma rep_caio [simp]:
  "file_rep sinv stored has q (cf\<lparr>cf_caio := a\<rparr>) = file_rep sinv stored has q cf"
  "file_rep sinv stored has q (cf\<lparr>cf_bs := s, cf_caio := a\<rparr>) = file_rep sinv stored has q (cf\<lparr>cf_bs := s\<rparr>)"
  "file_rep sinv stored has q (SetOrigFilename name cf) = file_rep sinv stored has q cf"
  by (auto simp: file_rep_def cached_ok_def chunk_at_def SetOrigFilename_def)

lemma sync_loop_inv:
  assumes "\<And>p off s s'. P s \<Longrightarrow> w p off s = (s', None) \<Longrightarrow> P s'" "P s" "sync_loop w ps c off s = (s', None)"
  shows "P s'"
  using assms(2,3)
proof (induction ps arbitrary: c off s)
  case (Cons p ps)
  then show ?case by (auto simp: Let_def split: if_splits prod.splits dest: assms(1))
qed simp

lemma read_through_inv:
  assumes "\<And>n off s. P s \<Longrightarrow> P (fst (r n off s))" "P s" "read_through r ps st s = (s', res)"
  shows "P s'"
proof -
  have "P s \<longrightarrow> P (fst (read_through r ps st s))"
  proof (induction ps arbitrary: st s)
    case Nil
    obtain remo n acc where "st = (remo, n, acc)" by (cases st)
    then show ?case using assms(1) [of s n remo] by (auto simp: read_last_def split: prod.splits option.splits)
  next
    case (Cons p ps)
    obtain remo n acc where st: "st = (remo, n, acc)" by (cases st)
    have g: "P s \<longrightarrow> P (fst (read_gap r p st s))"
      using assms(1) [of s _ remo] by (auto simp: read_gap_def st Let_def split: prod.splits option.splits) (metis fst_conv)+
    show ?case
      using Cons.IH g assms(1) [of s n remo] unfolding st
      by (auto simp: read_last_def split: prod.splits option.splits sum.splits)
  qed
  with assms(2,3) show ?thesis by simp
qed

lemma readFromChunk_frame: "readFromChunk co c len off cf = (cf', r) \<Longrightarrow> cf_cs cf' = cf_cs cf \<and> cf_caio cf' = cf_caio cf"
  by (auto simp: readFromChunk_def Let_def split: prod.splits sum.splits if_splits dest!: openChunkIO_frame)

lemma read_chunks_frame: "read_chunks co cs remo pos buf cf = (cf', r) \<Longrightarrow> cf_cs cf' = cf_cs cf \<and> cf_caio cf' = cf_caio cf"
proof (induction cs arbitrary: remo pos buf cf)
  case (Cons c cs)
  then show ?case
    by (auto simp: Let_def split: prod.splits sum.splits if_splits dest!: readFromChunk_frame Cons.IH)
qed simp

lemma cfio_read_frame: "cfio_read co n off cf = (cf', r) \<Longrightarrow> cf_cs cf' = cf_cs cf \<and> cf_caio cf' = cf_caio cf"
  by (auto simp: cfio_read_def ChunkedFileIO_ReadAt_def split: prod.splits if_splits dest!: read_chunks_frame)

locale fs_storage = chunk_store co sinv known stored has + node_db dh dinv view locked free
  for co :: "('s, 'h, 'i) chunk_ops" and sinv and known and stored and has
    and dh :: "'d DBHandler" and dinv and view and locked and free +
  fixes env :: "('s, 'h, 'i, 'd) fs_env"
  assumes env: "fe_db env = dh" "fe_co env = co" "enough_fuel (fe_fuel env)"

sublocale fs_storage \<subseteq> chunk_file co sinv known stored has "INodeDBChunksArrayIO_ops dh" "fe_fuel env"
  by unfold_locales (rule env)

context fs_storage
begin

abbreviation orep :: "NodeLock \<Rightarrow> int \<Rightarrow> byte list \<Rightarrow> nat \<Rightarrow> ('s, 'h, 'i, 'd) FileSystem \<Rightarrow> bool" where
  "orep \<equiv> open_rep sinv stored has dinv view locked"

abbreviation drep :: "ID \<Rightarrow> byte list \<Rightarrow> ('s, 'h, 'i, 'd) FileSystem \<Rightarrow> bool" where
  "drep \<equiv> disk_rep sinv stored dinv view"

text \<open>What is saved of the chunk array while the lock is held.\<close>

abbreviation saved :: "NodeLock \<Rightarrow> int \<Rightarrow> 'd INodeDBChunksArrayIO \<Rightarrow> FileChunk list \<Rightarrow> bool" where
  "saved l sz a cs \<equiv> snd a = l \<and> dinv (fst a) \<and> locked (fst a) l \<and> (\<exists>c. view (fst a) (nl_ID l) = Some (FileNode c sz cs))"

lemma saved_write: "saved l sz a cs0 \<Longrightarrow> saved l sz (snd (ca_Write (INodeDBChunksArrayIO_ops dh) cs a)) cs"
  using locked_ticket [of "fst a" l] update_chunks [of "fst a" l _ sz cs0 cs]
  by (cases a) (auto simp: INodeDBChunksArrayIO_ops_def INodeDBChunksArrayIO_Write_def)

lemma sync_saved:
  assumes "sync_loop (cfio_write co (INodeDBChunksArrayIO_ops dh) (fe_fuel env)) ps None (- 1) cf = (cf', None)"
    and "saved l sz (cf_caio cf) (cf_cs cf)"
  shows "saved l sz (cf_caio cf') (cf_cs cf')"
proof (rule sync_loop_inv [where P = "\<lambda>s. saved l sz (cf_caio s) (cf_cs s)", OF _ assms(2,1)])
  fix p off s s' assume a: "saved l sz (cf_caio s) (cf_cs s)" "cfio_write co (INodeDBChunksArrayIO_ops dh) (fe_fuel env) p off s = (s', None)"
  then have "ChunkedFileIO_PWrite co (INodeDBChunksArrayIO_ops dh) (fe_fuel env) p off s = Some (s', None)"
    by (simp add: cfio_write_def split: option.splits)
  from PWrite_saves_any [where A = "saved l sz", OF this a(1) saved_write] show "saved l sz (cf_caio s') (cf_cs s')" .
qed

lemma size_rep: "orep l sz q p fs \<Longrightarrow> sizeMayFailWithoutLock env p fs = (fs, Inr sz)"
  by (auto simp: open_rep_def sizeMayFailWithoutLock_def with_of_def fs_query_def env query action_defs)

abbreviation same :: "nat \<Rightarrow> ('s, 'h, 'i, 'd) FileSystem \<Rightarrow> ('s, 'h, 'i, 'd) FileSystem \<Rightarrow> bool" where
  "same p fs fs' \<equiv> fs_fhs fs' = fs_fhs fs \<and> fs_openFiles fs' = fs_openFiles fs \<and> fs_next fs' = fs_next fs \<and>
     map_option of_handles (fmlookup (fs_ofs fs') p) = map_option of_handles (fmlookup (fs_ofs fs) p)"

lemma cache_write:
  assumes "cache_ok ps (length q0)" "q = apply_patches ps q0" "off \<le> length q" "bs \<noteq> []" "int (length bs) \<le> MaxInt32"
    and "int (off + length bs) \<le> MaxInt64" "wc_ps wc = ps"
  shows "\<exists>wc' pl'. FileWriteCache_PWrite None bs (int off) wc pl = Inr (wc', pl') \<and> cache_ok (wc_ps wc') (length q0) \<and>
    apply_patches (wc_ps wc') q0 = fwrite q off bs"
proof -
  have wf: "wf_patches ps" and gf: "gap_free ps (length q0)" and len: "\<forall>p \<in> set ps. int (length (Patch_P p)) \<le> MaxInt32"
    using assms(1) by (auto simp: cache_ok_def)
  obtain cap where np: "NewPatch None (int off) bs pl = Inr (\<lparr>Patch_Offset = int off, Patch_P = bs, Patch_Cap = Some cap\<rparr>, pl)"
    by (cases "length bs \<le> MaxPatchContentLen") (auto simp: NewPatch_def)
  let ?n = "\<lparr>Patch_Offset = int off, Patch_P = bs, Patch_Cap = Some cap\<rparr>"
  have ok: "patch_ok ?n" using assms(4,6) by (simp add: patch_ok_def patch_end_def)
  obtain ps' where m: "Merge ps ?n = Inr ps'" using Merge_total [OF wf ok] by blast
  have ap: "apply_patches ps' c = fwrite (apply_patches ps c) off bs" for c
    using Merge_apply [OF wf ok m, of c] by simp
  have "gap_free ps' (length q0)"
    using gap_free_write [OF wf Merge_wf [OF wf ok m] ap gf _ assms(4)] assms(2,3) by simp
  moreover have "\<forall>p \<in> set ps'. int (length (Patch_P p)) \<le> MaxInt32"
    using Merge_lengths [OF wf ok m] len assms(5) by simp
  ultimately show ?thesis
    using assms(2,4,7) np m ap [of q0] Merge_wf [OF wf ok m] by (simp add: FileWriteCache_PWrite_def cache_ok_def)
qed

lemma wc_write_rep:
  assumes "orep l sz q p fs" "HasTicket l" "off \<le> length q" "int (length bs) \<le> MaxInt32" "int (off + length bs) + ChunkSplitSize \<le> MaxInt64"
  shows "\<exists>fs'. wc_write None p bs (int off) fs = (fs', Inr ()) \<and> orep l sz (fwrite q off bs) p fs' \<and> same p fs fs'"
proof -
  obtain x cf q0 c where r: "fmlookup (fs_ofs fs) p = Some x" "of_nlock x = l" "of_cfio x = Some cf" "snd (cf_caio cf) = l"
      "dinv (fs_idb fs)" "locked (fs_idb fs) l" "view (fs_idb fs) (nl_ID l) = Some (FileNode c sz (cf_cs cf))"
      "file_rep sinv stored has q0 (cf\<lparr>cf_bs := fs_bs fs\<rparr>)" "cache_ok (wc_ps (of_wc x)) (length q0)"
      "q = apply_patches (wc_ps (of_wc x)) q0" "int (length q) + ChunkSplitSize \<le> MaxInt64"
    using assms(1,2) unfolding open_rep_def by blast
  show ?thesis
  proof (cases "bs = []")
    case True
    with r(1) assms(1) show ?thesis
      by (auto simp: wc_write_def with_of_def FileWriteCache_PWrite_def upd_of_def fmupd_idem open_rep_def)
  next
    case False
    have b: "int (off + length bs) \<le> MaxInt64" using assms(5) split_pos by linarith
    obtain wc' pl' where w: "FileWriteCache_PWrite None bs (int off) (of_wc x) (fs_pool fs) = Inr (wc', pl')"
        "cache_ok (wc_ps wc') (length q0)" "apply_patches (wc_ps wc') q0 = fwrite q off bs"
      using cache_write [OF r(9,10) assms(3) False assms(4) b refl] by blast
    have "int (length (fwrite q off bs)) + ChunkSplitSize \<le> MaxInt64" using r(11) assms(5) False by (simp add: length_fwrite)
    then have "orep l sz (fwrite q off bs) p (fs\<lparr>fs_pool := pl', fs_ofs := fmupd p (x\<lparr>of_wc := wc'\<rparr>) (fs_ofs fs)\<rparr>)"
      unfolding open_rep_def using r assms(2) w(2,3) by auto
    with r(1) w(1) show ?thesis by (simp add: wc_write_def with_of_def upd_of_def)
  qed
qed

lemma orepE:
  assumes "orep l sz q p fs"
  obtains x cf q0 c where "fmlookup (fs_ofs fs) p = Some x" "of_nlock x = l" "of_cfio x = Some cf" "snd (cf_caio cf) = l"
    "dinv (fs_idb fs)" "HasTicket l \<Longrightarrow> locked (fs_idb fs) l" "view (fs_idb fs) (nl_ID l) = Some (FileNode c sz (cf_cs cf))"
    "file_rep sinv stored has q0 (cf\<lparr>cf_bs := fs_bs fs\<rparr>)" "cache_ok (wc_ps (of_wc x)) (length q0)"
    "HasTicket l \<or> of_wc x = FileWriteCache_New"
    "q = apply_patches (wc_ps (of_wc x)) q0" "int (length q) + ChunkSplitSize \<le> MaxInt64"
  using assms unfolding open_rep_def by blast

lemma cache_New [simp]: "cache_ok (wc_ps FileWriteCache_New) n" "apply_patches (wc_ps FileWriteCache_New) q = q"
  by (simp_all add: cache_ok_def FileWriteCache_New_def NewPatches_def wf_patches_def gap_free_def MaxInt32_def)

lemma patch_end_content:
  assumes "wf_patches ps" "p \<in> set ps" "\<not> IsSentinel p"
  shows "patch_end p \<le> int (length (apply_patches ps q0))"
proof -
  from assms obtain qs where qs: "ps = qs @ [PatchSentinel]" "\<And>q. q \<in> set qs \<Longrightarrow> patch_ok q" by (blast elim: wf_patchesE)
  with assms(2,3) have ok: "patch_ok p" by auto
  then have pos: "0 \<le> Patch_Offset p" "Patch_P p \<noteq> []" by (auto simp: patch_ok_def)
  then have "0 < patch_end p" by (auto simp: patch_end_def intro: add_nonneg_pos)
  then have "nat (patch_end p) - 1 < length (apply_patches ps q0)"
    unfolding less_length_apply_patches [OF wf_patches_pos [OF assms(1)]] using assms(2) pos(2) by auto
  then show ?thesis by linarith
qed

lemma wf_patches_ok: "wf_patches ps \<Longrightarrow> \<forall>p \<in> set ps. IsSentinel p \<or> patch_ok p"
  by (auto elim!: wf_patchesE)

lemma wc_sync_rep:
  assumes "orep l sz q p fs" "HasTicket l"
  shows "\<exists>fs' x. wc_sync env p fs = (fs', Inr ()) \<and> orep l sz q p fs' \<and> same p fs fs' \<and> fmlookup (fs_ofs fs') p = Some x \<and>
    of_wc x = FileWriteCache_New"
  using assms(1)
proof (rule orepE)
  fix x cf q0 c
  assume r: "fmlookup (fs_ofs fs) p = Some x" "of_nlock x = l" "of_cfio x = Some cf" "snd (cf_caio cf) = l"
    "dinv (fs_idb fs)" "HasTicket l \<Longrightarrow> locked (fs_idb fs) l" "view (fs_idb fs) (nl_ID l) = Some (FileNode c sz (cf_cs cf))"
    "file_rep sinv stored has q0 (cf\<lparr>cf_bs := fs_bs fs\<rparr>)" "cache_ok (wc_ps (of_wc x)) (length q0)"
    "q = apply_patches (wc_ps (of_wc x)) q0" "int (length q) + ChunkSplitSize \<le> MaxInt64"
  define cf1 where "cf1 = cf\<lparr>cf_bs := fs_bs fs, cf_caio := (fs_idb fs, snd (cf_caio cf))\<rparr>"
  have wf: "wf_patches (wc_ps (of_wc x))" "gap_free (wc_ps (of_wc x)) (length q0)" using r(9) by (auto simp: cache_ok_def)
  have "\<forall>p \<in> set (wc_ps (of_wc x)). \<not> IsSentinel p \<longrightarrow> patch_end p + ChunkSplitSize \<le> MaxInt64"
    using patch_end_content [OF wf(1), of _ q0] r(10,11) by force
  moreover have "rep q0 cf1" using r(8) by (simp add: cf1_def)
  moreover note gap_free_runs_fit [OF wf_patches_sorted [OF wf(1)] wf_patches_ok [OF wf(1)] wf(2)]
  ultimately obtain cf2 where s: "sync_loop (cfio_write co (INodeDBChunksArrayIO_ops dh) (fe_fuel env)) (wc_ps (of_wc x)) None (- 1) cf1 = (cf2, None)"
      "rep q cf2"
    using sync_rep [OF _ wf(1)] r(10) by blast
  have sv: "saved l sz (cf_caio cf2) (cf_cs cf2)"
    using sync_saved [OF s(1)] r(4-7) assms(2) by (simp add: cf1_def)
  define fs' where "fs' = fs\<lparr>fs_bs := cf_bs cf2, fs_idb := fst (cf_caio cf2), fs_pool := reset_pool (wc_ps (of_wc x)) (fs_pool fs),
    fs_ofs := fmupd p (x\<lparr>of_cfio := Some cf2, of_wc := FileWriteCache_New\<rparr>) (fs_ofs fs)\<rparr>"
  have "FileWriteCache_Sync (cfio_write co (INodeDBChunksArrayIO_ops dh) (fe_fuel env)) (of_wc x) (fs_pool fs) cf1 =
      ((FileWriteCache_New, reset_pool (wc_ps (of_wc x)) (fs_pool fs), cf2), None)"
    using s(1) by (simp add: FileWriteCache_Sync_def Patches_Reset_def FileWriteCache_New_def NewPatches_def)
  then have "wc_sync env p fs = (fs', Inr ())"
    using r(1,3) by (simp add: wc_sync_def with_of_def on_cfio_def upd_of_def env fs'_def cf1_def)
  moreover have "orep l sz q p fs'"
    unfolding open_rep_def using r(1,2,11) sv s(2) assms(2) by (auto simp: fs'_def)
  ultimately show ?thesis using r(1) by (auto simp: fs'_def)
qed

lemma update_size_rep:
  assumes "orep l sz q p fs" "HasTicket l"
  shows "\<exists>fs'. updateSizeWithoutLock env p sz' fs = (fs', Inr ()) \<and> orep l sz' q p fs' \<and> same p fs fs'"
  using assms(1)
proof (rule orepE)
  fix x cf q0 c
  assume r: "fmlookup (fs_ofs fs) p = Some x" "of_nlock x = l" "of_cfio x = Some cf" "snd (cf_caio cf) = l"
    "dinv (fs_idb fs)" "HasTicket l \<Longrightarrow> locked (fs_idb fs) l" "view (fs_idb fs) (nl_ID l) = Some (FileNode c sz (cf_cs cf))"
    "file_rep sinv stored has q0 (cf\<lparr>cf_bs := fs_bs fs\<rparr>)" "cache_ok (wc_ps (of_wc x)) (length q0)"
    "q = apply_patches (wc_ps (of_wc x)) q0" "int (length q) + ChunkSplitSize \<le> MaxInt64"
  obtain v d' c' where d: "dh_ApplyTransaction dh \<lparr>tx_TxID = AnyVersion, tx_Ops = [UpdateSizeOp l sz']\<rparr> (fs_idb fs) = (Inr v, d')"
      "dinv d'" "locked d' l" "view d' = (view (fs_idb fs))(nl_ID l \<mapsto> FileNode c' sz' (cf_cs cf))"
    using update_size [OF r(5) r(6) [OF assms(2)] r(7)] by blast
  then have "updateSizeWithoutLock env p sz' fs = (fs\<lparr>fs_idb := d'\<rparr>, Inr ())"
    using r(1,2) by (simp add: updateSizeWithoutLock_def with_of_def fs_apply_def env action_defs)
  moreover have "orep l sz' q p (fs\<lparr>fs_idb := d'\<rparr>)"
    unfolding open_rep_def using r d assms(2) by auto
  ultimately show ?thesis by auto
qed

lemma update_time_rep:
  assumes "orep l sz q p fs"
  shows "\<exists>fs'. updateModifiedTWithoutLock env p fs = (fs', Inr ()) \<and> orep l sz q p fs' \<and> same p fs fs'"
  using assms
proof (rule orepE)
  fix x cf q0 c
  assume r: "fmlookup (fs_ofs fs) p = Some x" "of_nlock x = l" "of_cfio x = Some cf" "snd (cf_caio cf) = l"
    "dinv (fs_idb fs)" "HasTicket l \<Longrightarrow> locked (fs_idb fs) l" "view (fs_idb fs) (nl_ID l) = Some (FileNode c sz (cf_cs cf))"
    "file_rep sinv stored has q0 (cf\<lparr>cf_bs := fs_bs fs\<rparr>)" "cache_ok (wc_ps (of_wc x)) (length q0)"
    "HasTicket l \<or> of_wc x = FileWriteCache_New"
    "q = apply_patches (wc_ps (of_wc x)) q0" "int (length q) + ChunkSplitSize \<le> MaxInt64"
  obtain v d' c' where d: "dh_ApplyTransaction dh \<lparr>tx_TxID = AnyVersion, tx_Ops = [UpdateModifiedTOp (nl_ID l) (fe_now env)]\<rparr> (fs_idb fs) = (Inr v, d')"
      "dinv d'" "\<forall>l. locked (fs_idb fs) l \<longrightarrow> locked d' l" "view d' = (view (fs_idb fs))(nl_ID l \<mapsto> FileNode c' sz (cf_cs cf))"
    using update_time [OF r(5,7)] by blast
  then have "updateModifiedTWithoutLock env p fs = (fs\<lparr>fs_idb := d'\<rparr>, Inr ())"
    using r(1,2) by (simp add: updateModifiedTWithoutLock_def with_of_def fs_apply_def env action_defs)
  moreover have "orep l sz q p (fs\<lparr>fs_idb := d'\<rparr>)"
    unfolding open_rep_def using r d by auto
  ultimately show ?thesis by auto
qed

lemma sync_if_needed_rep:
  assumes "orep l sz q p fs" "HasTicket l"
  shows "\<exists>fs'. wc_sync_if_needed env p fs = (fs', Inr ()) \<and> orep l sz q p fs' \<and> same p fs fs'"
proof -
  obtain x where x: "fmlookup (fs_ofs fs) p = Some x" using assms(1) by (auto simp: open_rep_def)
  show ?thesis
  proof (cases "NeedsSync (of_wc x)")
    case True
    with x have "wc_sync_if_needed env p fs = wc_sync env p fs" by (simp add: wc_sync_if_needed_def with_of_def)
    with wc_sync_rep [OF assms] show ?thesis by auto
  next
    case False
    with x assms(1) show ?thesis by (simp add: wc_sync_if_needed_def with_of_def ret_def)
  qed
qed

text \<open>A write through an open file that starts at its end or before is the positioned write.\<close>

lemma OpenFile_PWrite_rep:
  assumes "orep l (int (length q)) q p fs" "HasTicket l" "off \<le> length q" "int (length bs) \<le> MaxInt32"
    and "int (off + length bs) + ChunkSplitSize \<le> MaxInt64"
  shows "\<exists>fs'. OpenFile_PWrite env None p bs (int off) fs = (fs', Inr ()) \<and>
    orep l (int (length (fwrite q off bs))) (fwrite q off bs) p fs' \<and> same p fs fs'"
proof -
  let ?q = "fwrite q off bs"
  obtain fs1 where w: "wc_write None p bs (int off) fs = (fs1, Inr ())" "orep l (int (length q)) ?q p fs1" "same p fs fs1"
    using wc_write_rep [OF assms] by blast
  obtain fs2 where s: "wc_sync_if_needed env p fs1 = (fs2, Inr ())" "orep l (int (length q)) ?q p fs2" "same p fs1 fs2"
    using sync_if_needed_rep [OF w(2) assms(2)] by blast
  have right: "wrap64 (int off + int (length bs)) = int (off + length bs)" using assms(5) split_pos by (simp add: wrap64_id)
  have eq: "OpenFile_PWrite env None p bs (int off) fs =
      (if int (off + length bs) > int (length q) then updateSizeWithoutLock env p (int (off + length bs)) else updateModifiedTWithoutLock env p) fs2"
    using size_rep [OF assms(1)] w(1) s(1) by (simp add: OpenFile_PWrite_def and_then_def right Let_def)
  show ?thesis
  proof (cases "off + length bs > length q")
    case True
    with assms(3) have "length ?q = off + length bs" by (cases "bs = []") (simp_all add: length_fwrite)
    with True update_size_rep [OF s(2) assms(2), of "int (off + length bs)"] w(3) s(3) show ?thesis unfolding eq by auto
  next
    case False
    then have "length ?q = length q" by (simp add: length_fwrite)
    with False update_time_rep [OF s(2)] w(3) s(3) show ?thesis unfolding eq by auto
  qed
qed

text \<open>A read through an open file delivers its bytes.\<close>

lemma OpenFile_ReadAt_rep:
  assumes "orep l sz q p fs" "int n \<le> MaxInt32" "int (off + n) + ChunkSplitSize \<le> MaxInt64"
  shows "\<exists>fs'. OpenFile_ReadAt env p n (int off) fs = (fs', Inr (fread q off n, None)) \<and> orep l sz q p fs' \<and> same p fs fs'"
  using assms(1)
proof (rule orepE)
  fix x cf q0 c
  assume r: "fmlookup (fs_ofs fs) p = Some x" "of_nlock x = l" "of_cfio x = Some cf" "snd (cf_caio cf) = l"
    "dinv (fs_idb fs)" "HasTicket l \<Longrightarrow> locked (fs_idb fs) l" "view (fs_idb fs) (nl_ID l) = Some (FileNode c sz (cf_cs cf))"
    "file_rep sinv stored has q0 (cf\<lparr>cf_bs := fs_bs fs\<rparr>)" "cache_ok (wc_ps (of_wc x)) (length q0)"
    "HasTicket l \<or> of_wc x = FileWriteCache_New"
    "q = apply_patches (wc_ps (of_wc x)) q0" "int (length q) + ChunkSplitSize \<le> MaxInt64"
  define cf1 where "cf1 = cf\<lparr>cf_bs := fs_bs fs, cf_caio := (fs_idb fs, snd (cf_caio cf))\<rparr>"
  have "rep q0 cf1" using r(8) by (simp add: cf1_def)
  with read_through_rep [of q0 cf1 "of_wc x" "int off" n] r(9,11) assms(2,3) obtain cf2 where
    rd: "ReadAtThrough n (int off) (cfio_read co) (of_wc x) cf1 = (cf2, fread q off n, None)" "rep q0 cf2"
    by (auto simp: cache_ok_def)
  have "cf_cs cf2 = cf_cs cf1 \<and> cf_caio cf2 = cf_caio cf1"
    using read_through_inv [where P = "\<lambda>s. cf_cs s = cf_cs cf1 \<and> cf_caio s = cf_caio cf1", OF _ _ rd(1) [unfolded ReadAtThrough_def]]
      cfio_read_frame by (metis prod.collapse)
  then have fr: "cf_cs cf2 = cf_cs cf" "fst (cf_caio cf2) = fs_idb fs" "snd (cf_caio cf2) = l" using r(4) by (simp_all add: cf1_def)
  define fs' where "fs' = fs\<lparr>fs_bs := cf_bs cf2, fs_idb := fs_idb fs, fs_ofs := fmupd p (x\<lparr>of_cfio := Some cf2\<rparr>) (fs_ofs fs)\<rparr>"
  have "OpenFile_ReadAt env p n (int off) fs = (fs', Inr (fread q off n, None))"
    using r(1,3) rd(1) fr(2) by (simp add: OpenFile_ReadAt_def with_of_def on_cfio_def upd_of_def env fs'_def cf1_def)
  moreover have "orep l sz q p fs'"
    unfolding open_rep_def using r fr rd(2) by (auto simp: fs'_def)
  ultimately show ?thesis using r(1) by (auto simp: fs'_def)
qed

text \<open>Closing.\<close>

lemma cfio_close_rep:
  assumes "fmlookup (fs_ofs fs) p = Some x" "of_cfio x = Some cf" "rep q (cf\<lparr>cf_bs := fs_bs fs\<rparr>)"
  shows "\<exists>cf'. cfio_close env p fs = (fs\<lparr>fs_bs := cf_bs cf', fs_ofs := fmupd p (x\<lparr>of_cfio := Some cf'\<rparr>) (fs_ofs fs)\<rparr>, Inr ()) \<and>
    rep q cf' \<and> cf_cs cf' = cf_cs cf \<and> cf_cachedCioBlobpath cf' = '''' \<and> snd (cf_caio cf') = snd (cf_caio cf)"
proof -
  define cf1 where "cf1 = cf\<lparr>cf_bs := fs_bs fs, cf_caio := (fs_idb fs, snd (cf_caio cf))\<rparr>"
  have "rep q cf1" using assms(3) by (simp add: cf1_def)
  from Close_rep [OF this] obtain cf' where c: "ChunkedFileIO_Close co cf1 = (cf', None)" "rep q cf'" "cf_cs cf' = cf_cs cf1"
      "cf_cachedCioBlobpath cf' = ''''" by blast
  have ca: "cf_caio cf' = (fs_idb fs, snd (cf_caio cf))"
    using closeCachedChunkIO_frame [of co cf1 cf' None] c(1) by (simp add: ChunkedFileIO_Close_def cf1_def)
  have "cfio_close env p fs = (fs\<lparr>fs_bs := cf_bs cf', fs_idb := fs_idb fs, fs_ofs := fmupd p (x\<lparr>of_cfio := Some cf'\<rparr>) (fs_ofs fs)\<rparr>, Inr ())"
    using assms(1,2) c(1) ca by (simp add: cfio_close_def on_cfio_def with_of_def upd_of_def env cf1_def)
  with c(2-4) ca show ?thesis by (auto simp: cf1_def)
qed

lemma closed_disk:
  assumes "rep q cf" "cf_cachedCioBlobpath cf = ''''" "cf_bs cf = fs_bs fs" "dinv (fs_idb fs)"
    and "view (fs_idb fs) i = Some (FileNode c (int (length q)) (cf_cs cf))"
  shows "drep i q fs"
proof -
  note r = file_repD [OF assms(1)]
  have "stored (fs_bs fs) (fc_BlobPath (cf_cs cf ! k)) (piece split_size k q)" if "k < length (cf_cs cf)" for k
    using r(4) [OF that] layoutD(3) [OF r(2) that] assms(2,3) by (simp add: chunk_at_def)
  with r(1,2) assms(3-5) show ?thesis by (auto simp: disk_rep_def)
qed

text \<open>A new \<open>ChunkedFileIO\<close> on a durable file.\<close>

lemma new_cfio_rep:
  assumes "drep (nl_ID l) q fs"
  shows "\<exists>cf c. new_cfio env l fs = Some cf \<and> rep q cf \<and> cf_bs cf = fs_bs fs \<and> snd (cf_caio cf) = l \<and>
    view (fs_idb fs) (nl_ID l) = Some (FileNode c (int (length q)) (cf_cs cf)) \<and> int (length q) + ChunkSplitSize \<le> MaxInt64"
proof -
  obtain c cs where d: "dinv (fs_idb fs)" "view (fs_idb fs) (nl_ID l) = Some (FileNode c (int (length q)) cs)" "sinv (fs_bs fs)" "layout cs q"
      "\<forall>k < length cs. stored (fs_bs fs) (fc_BlobPath (cs ! k)) (piece split_size k q)"
    using assms unfolding disk_rep_def by blast
  have "ca_Read (INodeDBChunksArrayIO_ops dh) (fs_idb fs, l) = Inr cs"
    using query [OF d(1,2)] by (simp add: INodeDBChunksArrayIO_ops_def INodeDBChunksArrayIO_Read_def)
  then show ?thesis using d layoutD(3) [OF d(4)] layout_bound [OF d(4), of "length q"]
    by (auto simp: new_cfio_def NewChunkedFileIO_def NewINodeDBChunksArrayIO_def env file_rep_def cached_ok_def chunk_at_def)
qed

lemma downgrade_rep:
  assumes "orep l (int (length q)) q p fs" "HasTicket l" "fmlookup (fs_ofs fs) p = Some x" "of_wc x = FileWriteCache_New"
  shows "\<exists>fs'. downgradeToReadLock env p fs = (fs', Inr ()) \<and> orep (l\<lparr>nl_Ticket := NoTicket\<rparr>) (int (length q)) q p fs' \<and> same p fs fs'"
  using assms(1)
proof (rule orepE)
  fix x' cf q0 c
  assume r': "fmlookup (fs_ofs fs) p = Some x'" "of_nlock x' = l" "of_cfio x' = Some cf" "snd (cf_caio cf) = l"
    "dinv (fs_idb fs)" "HasTicket l \<Longrightarrow> locked (fs_idb fs) l" "view (fs_idb fs) (nl_ID l) = Some (FileNode c (int (length q)) (cf_cs cf))"
    "file_rep sinv stored has q0 (cf\<lparr>cf_bs := fs_bs fs\<rparr>)" "q = apply_patches (wc_ps (of_wc x')) q0" "int (length q) + ChunkSplitSize \<le> MaxInt64"
  then have r: "of_nlock x = l" "of_cfio x = Some cf" "rep q (cf\<lparr>cf_bs := fs_bs fs\<rparr>)" using assms(3,4) by auto
  obtain d where d: "dh_UnlockNode dh l (fs_idb fs) = (None, d)" "dinv d" "view d = view (fs_idb fs)"
    using unlock [OF r'(5) r'(6) [OF assms(2)]] by blast
  let ?l = "l\<lparr>nl_Ticket := NoTicket\<rparr>"
  define x1 where "x1 = x\<lparr>of_nlock := ?l\<rparr>"
  define fs1 where "fs1 = fs\<lparr>fs_idb := d, fs_ofs := fmupd p x1 (fs_ofs fs)\<rparr>"
  have x1: "fmlookup (fs_ofs fs1) p = Some x1" "of_cfio x1 = Some cf" "rep q (cf\<lparr>cf_bs := fs_bs fs1\<rparr>)"
    using r by (simp_all add: x1_def fs1_def)
  obtain cf2 where c: "cfio_close env p fs1 = (fs1\<lparr>fs_bs := cf_bs cf2, fs_ofs := fmupd p (x1\<lparr>of_cfio := Some cf2\<rparr>) (fs_ofs fs1)\<rparr>, Inr ())"
      "rep q cf2" "cf_cs cf2 = cf_cs cf" "cf_cachedCioBlobpath cf2 = ''''"
    using cfio_close_rep [OF x1] by blast
  define fs2 where "fs2 = fs1\<lparr>fs_bs := cf_bs cf2, fs_ofs := fmupd p (x1\<lparr>of_cfio := Some cf2\<rparr>) (fs_ofs fs1)\<rparr>"
  have "drep (nl_ID ?l) q fs2"
    using closed_disk [OF c(2,4), of fs2 "nl_ID l" c] c(3) d(2,3) r'(7) by (simp add: fs2_def fs1_def)
  from new_cfio_rep [OF this] obtain cf3 c3 where n: "new_cfio env ?l fs2 = Some cf3" "rep q cf3" "cf_bs cf3 = fs_bs fs2" "snd (cf_caio cf3) = ?l"
      "view (fs_idb fs2) (nl_ID l) = Some (FileNode c3 (int (length q)) (cf_cs cf3))" by auto
  define fs3 where "fs3 = fs2\<lparr>fs_ofs := fmupd p (x1\<lparr>of_cfio := Some cf3\<rparr>) (fs_ofs fs2)\<rparr>"
  have "downgradeToReadLock env p fs = (fs3, Inr ())"
    using assms(2,3) r(1) d(1) c(1) n(1)
    by (simp add: downgradeToReadLock_def with_of_def fs_unlock_def ignoring_def and_then_def upd_of_def env fs1_def fs2_def fs3_def x1_def)
  moreover have "orep ?l (int (length q)) q p fs3"
  proof -
    have "cf3\<lparr>cf_bs := fs_bs fs3\<rparr> = cf3" using n(3) by (simp add: fs3_def)
    then show ?thesis unfolding open_rep_def
      using n(2,4,5) d(2) assms(4) r'(10) by (auto simp: fs3_def fs2_def fs1_def x1_def HasTicket_def)
  qed
  ultimately show ?thesis using assms(3) by (auto simp: fs3_def fs2_def fs1_def x1_def)
qed

text \<open>\<open>handle_rep\<close>: \<open>h\<close> is the only handle of the open file, which has the content \<open>q\<close>.\<close>

abbreviation hrep :: "NodeLock \<Rightarrow> flags \<Rightarrow> byte list \<Rightarrow> nat \<Rightarrow> nat \<Rightarrow> ('s, 'h, 'i, 'd) FileSystem \<Rightarrow> bool" where
  "hrep l flags q p h fs \<equiv> orep l (int (length q)) q p fs \<and> fmlookup (fs_fhs fs) h = Some \<lparr>fh_of = Some p, fh_flags = flags\<rparr> \<and>
     map_option of_handles (fmlookup (fs_ofs fs) p) = Some [h] \<and> (HasTicket l \<longleftrightarrow> IsWriteAllowed flags)"

lemma orep_fhs [simp]: "orep l sz q p (fs\<lparr>fs_fhs := f\<rparr>) = orep l sz q p fs"
  by (simp add: open_rep_def)

lemma orep_handles:
  "fmlookup (fs_ofs fs) p = Some x \<Longrightarrow> orep l sz q p (fs\<lparr>fs_ofs := fmupd p (x\<lparr>of_handles := hs\<rparr>) (fs_ofs fs)\<rparr>) = orep l sz q p fs"
  by (simp add: open_rep_def)

lemma close_last:
  assumes "orep l (int (length q)) q p fs" "fmlookup (fs_ofs fs) p = Some x" "of_wc x = FileWriteCache_New"
  shows "\<exists>fs'. and_then (ignoring (cfio_close env p)) (\<lambda>_. with_of p (\<lambda>x. ret (Some (nl_ID (of_nlock x))))) fs = (fs', Inr (Some (nl_ID l))) \<and>
    drep (nl_ID l) q fs' \<and> same p fs fs' \<and> map_option of_nlock (fmlookup (fs_ofs fs') p) = Some l"
  using assms(1)
proof (rule orepE)
  fix x' cf q0 c
  assume r': "fmlookup (fs_ofs fs) p = Some x'" "of_nlock x' = l" "of_cfio x' = Some cf" "snd (cf_caio cf) = l"
    "dinv (fs_idb fs)" "view (fs_idb fs) (nl_ID l) = Some (FileNode c (int (length q)) (cf_cs cf))"
    "file_rep sinv stored has q0 (cf\<lparr>cf_bs := fs_bs fs\<rparr>)" "q = apply_patches (wc_ps (of_wc x')) q0"
  then have r: "of_nlock x = l" "of_cfio x = Some cf" "rep q (cf\<lparr>cf_bs := fs_bs fs\<rparr>)" using assms(2,3) by auto
  obtain cf2 where c: "cfio_close env p fs = (fs\<lparr>fs_bs := cf_bs cf2, fs_ofs := fmupd p (x\<lparr>of_cfio := Some cf2\<rparr>) (fs_ofs fs)\<rparr>, Inr ())"
      "rep q cf2" "cf_cs cf2 = cf_cs cf" "cf_cachedCioBlobpath cf2 = ''''"
    using cfio_close_rep [OF assms(2) r(2,3)] by blast
  let ?fs = "fs\<lparr>fs_bs := cf_bs cf2, fs_ofs := fmupd p (x\<lparr>of_cfio := Some cf2\<rparr>) (fs_ofs fs)\<rparr>"
  have "drep (nl_ID l) q ?fs" using closed_disk [OF c(2,4), of ?fs "nl_ID l" c] c(3) r'(5,6) by simp
  with c(1) r(1) assms(2) show ?thesis by (simp add: and_then_def ignoring_def with_of_def ret_def)
qed

lemma CloseHandle_locked_rep:
  assumes "hrep l flags q p h fs"
  shows "\<exists>fs'. CloseHandle_locked env p h fs = (fs', Inr (Some (nl_ID l))) \<and> drep (nl_ID l) q fs' \<and>
    fs_openFiles fs' = fs_openFiles fs \<and> fs_next fs' = fs_next fs \<and> fs_fhs fs' = fmupd h \<lparr>fh_of = None, fh_flags = flags\<rparr> (fs_fhs fs) \<and>
    (\<exists>x. fmlookup (fs_ofs fs') p = Some x \<and> nl_ID (of_nlock x) = nl_ID l)"
proof -
  obtain x where x: "fmlookup (fs_ofs fs) p = Some x" "of_handles x = [h]" using assms by auto
  define fs1 where "fs1 = fs\<lparr>fs_fhs := fmupd h \<lparr>fh_of = None, fh_flags = flags\<rparr> (fs_fhs fs),
      fs_ofs := fmupd p (x\<lparr>of_handles := []\<rparr>) (fs_ofs fs)\<rparr>"
  have r1: "orep l (int (length q)) q p fs1" using assms orep_handles [of "fs\<lparr>fs_fhs := fmupd h \<lparr>fh_of = None, fh_flags = flags\<rparr> (fs_fhs fs)\<rparr>" p x]
      x(1) by (simp add: fs1_def)
  have "\<exists>fs2 x2 l2. (if IsWriteAllowed flags then and_then (ignoring (wc_sync env p)) (\<lambda>_. downgradeToReadLock env p) else ret ()) fs1 = (fs2, Inr ()) \<and>
      orep l2 (int (length q)) q p fs2 \<and> nl_ID l2 = nl_ID l \<and> same p fs1 fs2 \<and> fmlookup (fs_ofs fs2) p = Some x2 \<and>
      of_wc x2 = FileWriteCache_New"
  proof (cases "IsWriteAllowed flags")
    case True
    with assms have t: "HasTicket l" by simp
    obtain fs2 x2 where s: "wc_sync env p fs1 = (fs2, Inr ())" "orep l (int (length q)) q p fs2" "same p fs1 fs2"
        "fmlookup (fs_ofs fs2) p = Some x2" "of_wc x2 = FileWriteCache_New"
      using wc_sync_rep [OF r1 t] by blast
    obtain fs3 where d: "downgradeToReadLock env p fs2 = (fs3, Inr ())" "orep (l\<lparr>nl_Ticket := NoTicket\<rparr>) (int (length q)) q p fs3" "same p fs2 fs3"
      using downgrade_rep [OF s(2) t s(4,5)] by blast
    obtain x3 where "fmlookup (fs_ofs fs3) p = Some x3" "of_wc x3 = FileWriteCache_New"
      using d(2) by (rule orepE) (auto simp: HasTicket_def)
    with True s(1,3) d show ?thesis
      by (intro exI [of _ fs3] exI [of _ x3] exI [of _ "l\<lparr>nl_Ticket := NoTicket\<rparr>"]) (simp add: and_then_def ignoring_def fs1_def)
  next
    case False
    with assms have "\<not> HasTicket l" by simp
    with r1 obtain x2 where "fmlookup (fs_ofs fs1) p = Some x2" "of_wc x2 = FileWriteCache_New" by (auto elim: orepE)
    with False r1 show ?thesis by (intro exI [of _ fs1] exI [of _ x2] exI [of _ l]) (simp add: ret_def fs1_def)
  qed
  then obtain fs2 x2 l2 where s2: "(if IsWriteAllowed flags then and_then (ignoring (wc_sync env p)) (\<lambda>_. downgradeToReadLock env p) else ret ()) fs1 = (fs2, Inr ())"
      "orep l2 (int (length q)) q p fs2" "nl_ID l2 = nl_ID l" "same p fs1 fs2" "fmlookup (fs_ofs fs2) p = Some x2"
      "of_wc x2 = FileWriteCache_New" by blast
  obtain fs3 where f: "and_then (ignoring (cfio_close env p)) (\<lambda>_. with_of p (\<lambda>x. ret (Some (nl_ID (of_nlock x))))) fs2 = (fs3, Inr (Some (nl_ID l)))"
      "drep (nl_ID l) q fs3" "same p fs2 fs3" "map_option of_nlock (fmlookup (fs_ofs fs3) p) = Some l2"
    using close_last [OF s2(2,5,6)] s2(3) by auto
  have "CloseHandle_locked env p h fs = (fs3, Inr (Some (nl_ID l)))"
    using assms x s2(1) f(1)
    by (simp add: CloseHandle_locked_def with_of_def [of p _ "fs\<lparr>fs_fhs := _\<rparr>"] and_then_def [of "\<lambda>fs. (_ fs, Inr ())"] and_then_def [of "If _ _ _"] upd_of_def fs1_def Let_def)
  with f(2-4) s2(3,4) show ?thesis by (auto simp: fs1_def)
qed

lemma Close_handle_rep:
  assumes "hrep l flags q p h fs"
  shows "\<exists>fs'. FileHandle_Close env h fs = (fs', Inr ()) \<and> drep (nl_ID l) q fs' \<and> fs_openFiles fs' = fmdrop (nl_ID l) (fs_openFiles fs) \<and>
    fs_fhs fs' = fmupd h \<lparr>fh_of = None, fh_flags = flags\<rparr> (fs_fhs fs)"
proof -
  obtain fs' where "CloseHandle_locked env p h fs = (fs', Inr (Some (nl_ID l)))" "drep (nl_ID l) q fs'" "fs_openFiles fs' = fs_openFiles fs"
      "fs_fhs fs' = fmupd h \<lparr>fh_of = None, fh_flags = flags\<rparr> (fs_fhs fs)"
    using CloseHandle_locked_rep [OF assms] by blast
  with assms show ?thesis
    by (auto simp: FileHandle_Close_def with_fh_def fh_call_def OpenFile_CloseHandle_def and_then_def closeOpenFile_def disk_rep_def)
qed

text \<open>Opening.\<close>

lemma OpenFile_rep:
  assumes "drep i q fs" "fmlookup (fs_openFiles fs) i = None" "\<not> IsWriteTruncate flags" "IsWriteAllowed flags \<Longrightarrow> free (fs_idb fs) i"
  shows "\<exists>fs' h l p. FileSystem_OpenFile env i flags fs = (fs', Inr h) \<and> hrep l flags q p h fs' \<and> nl_ID l = i \<and>
    p = fs_next fs \<and> fs_next fs' = Suc (Suc p) \<and> h = Suc p \<and> fs_fhs fs' = fmupd h \<lparr>fh_of = Some p, fh_flags = flags\<rparr> (fs_fhs fs) \<and>
    fs_openFiles fs' = fmupd i p (fs_openFiles fs) \<and> map_option of_wc (fmlookup (fs_ofs fs') p) = Some FileWriteCache_New"
proof -
  obtain c cs where d: "dinv (fs_idb fs)" "view (fs_idb fs) i = Some (FileNode c (int (length q)) cs)" "sinv (fs_bs fs)"
    using assms(1) unfolding disk_rep_def by blast
  define p where "p = fs_next fs"
  define x where "x = \<lparr>of_nlock = \<lparr>nl_ID = 0, nl_Ticket = NoTicket\<rparr>, of_wc = FileWriteCache_New, of_cfio = (None :: ('s, 'h, 'i, 'd) cfio option), of_handles = []\<rparr>"
  define fs1 where "fs1 = fs\<lparr>fs_next := Suc p, fs_ofs := fmupd p x (fs_ofs fs), fs_openFiles := fmupd i p (fs_openFiles fs)\<rparr>"
  have "\<exists>l d'. dh_QueryNode dh i (IsWriteAllowed flags) (fs_idb fs) = (Inr (FileNode c (int (length q)) cs, l), d') \<and> dinv d' \<and> nl_ID l = i \<and>
      (HasTicket l \<longleftrightarrow> IsWriteAllowed flags) \<and> (HasTicket l \<longrightarrow> locked d' l) \<and> view d' = view (fs_idb fs)"
  proof (cases "IsWriteAllowed flags")
    case True
    with query_lock [OF d(1,2) assms(4)] locked_ticket show ?thesis by fastforce
  next
    case False
    with query [OF d(1,2)] d(1) show ?thesis by (simp add: HasTicket_def)
  qed
  then obtain l d' where l: "dh_QueryNode dh i (IsWriteAllowed flags) (fs_idb fs) = (Inr (FileNode c (int (length q)) cs, l), d')"
      "dinv d'" "nl_ID l = i" "HasTicket l \<longleftrightarrow> IsWriteAllowed flags" "HasTicket l \<longrightarrow> locked d' l" "view d' = view (fs_idb fs)" by blast
  define fs2 where "fs2 = fs1\<lparr>fs_idb := d'\<rparr>"
  have "drep (nl_ID l) q fs2" using assms(1) l(2,3,6) by (auto simp: disk_rep_def fs2_def fs1_def)
  from new_cfio_rep [OF this] obtain cf c' where n: "new_cfio env l fs2 = Some cf" "rep q cf" "cf_bs cf = fs_bs fs2" "snd (cf_caio cf) = l"
      "view (fs_idb fs2) (nl_ID l) = Some (FileNode c' (int (length q)) (cf_cs cf))" "int (length q) + ChunkSplitSize \<le> MaxInt64" by blast
  define cf' where "cf' = SetOrigFilename (tryGetOrigPath (nl_ID l) fs2) cf"
  have cf'1: "rep q cf'" using n(2) by (simp add: cf'_def)
  have cf': "cf_bs cf' = fs_bs fs2" "snd (cf_caio cf') = l" "cf_cs cf' = cf_cs cf"
    using n(3,4) by (simp_all add: cf'_def SetOrigFilename_def)
  define h where "h = Suc p"
  define fs3 where "fs3 = fs2\<lparr>fs_next := Suc h, fs_fhs := fmupd h \<lparr>fh_of = Some p, fh_flags = flags\<rparr> (fs_fhs fs2),
    fs_ofs := fmupd p (x\<lparr>of_nlock := l, of_cfio := Some cf', of_handles := [h]\<rparr>) (fs_ofs fs2)\<rparr>"
  have w: "IsWriteAllowed (co_Flags co (fs_bs fs))"
    using flags_rw [OF d(3)] by (auto simp: IsReadWriteAllowed_def IsWriteAllowed_def Let_def)
  have "FileSystem_OpenFile env i flags fs = (fs3, Inr h)"
    using assms(2,3) w l(1) n(1)
    by (simp add: FileSystem_OpenFile_def getOrCreateOpenFile_def with_of_def fs_query_def env action_defs upd_of_def OpenHandleWithoutLock_def
        GetType_def FileNodeT_def Let_def fs1_def fs2_def fs3_def x_def p_def h_def cf'_def)
  moreover have "orep l (int (length q)) q p fs3"
  proof -
    have "cf'\<lparr>cf_bs := fs_bs fs\<rparr> = cf'" using cf'(1) by (simp add: fs2_def fs1_def)
    then have "rep q (cf'\<lparr>cf_bs := fs_bs fs\<rparr>)" using cf'1 by simp
    then show ?thesis unfolding open_rep_def
      using cf' n(5,6) l(2,5) by (auto simp: fs3_def fs2_def fs1_def x_def)
  qed
  moreover have "of_wc x = FileWriteCache_New" "p = fs_next fs" "fs_next fs3 = Suc (Suc p)" "h = Suc p"
    by (simp_all add: x_def p_def h_def fs3_def)
  ultimately show ?thesis using l(3,4) by (auto simp: fs3_def fs2_def fs1_def)
qed

text \<open>A sequence of writes through a handle.\<close>

lemma handle_write:
  assumes "hrep l flags q p h fs" "IsWriteAllowed flags" "\<not> IsWriteAppend flags" "off \<le> length q" "int (length bs) \<le> MaxInt32"
    and "int (off + length bs) + ChunkSplitSize \<le> MaxInt64"
  shows "\<exists>fs'. FileHandle_PWrite env None h bs (int off) fs = (fs', Inr ()) \<and> hrep l flags (fwrite q off bs) p h fs' \<and> fs_openFiles fs' = fs_openFiles fs"
  using OpenFile_PWrite_rep [of l q p fs off bs] assms by (fastforce simp: FileHandle_PWrite_def with_fh_def fh_call_def)

lemma handle_read:
  assumes "hrep l flags q p h fs" "IsReadAllowed flags" "int n \<le> MaxInt32" "int (off + n) + ChunkSplitSize \<le> MaxInt64"
  shows "\<exists>fs'. FileHandle_ReadAt env h n (int off) fs = (fs', Inr (fread q off n, None)) \<and> hrep l flags q p h fs'"
  using OpenFile_ReadAt_rep [of l "int (length q)" q p fs n off] assms by (fastforce simp: FileHandle_ReadAt_def with_fh_def fh_call_def)

end

primrec handle_writes :: "('s, 'h, 'i, 'd) fs_env \<Rightarrow> nat \<Rightarrow> (byte list \<times> nat) list \<Rightarrow> ('s, 'h, 'i, 'd, unit) fsop" where
  "handle_writes env h [] = ret ()"
| "handle_writes env h (w # ws) = and_then (FileHandle_PWrite env None h (fst w) (int (snd w))) (\<lambda>_. handle_writes env h ws)"

primrec writes_ok :: "(byte list \<times> nat) list \<Rightarrow> byte list \<Rightarrow> bool" where
  "writes_ok [] q = True"
| "writes_ok (w # ws) q \<longleftrightarrow>
     snd w \<le> length q \<and> int (length (fst w)) \<le> MaxInt32 \<and> int (snd w + length (fst w)) + ChunkSplitSize \<le> MaxInt64 \<and>
     writes_ok ws (fwrite q (snd w) (fst w))"

context fs_storage
begin

lemma handle_writes_rep:
  assumes "hrep l flags q p h fs" "IsWriteAllowed flags" "\<not> IsWriteAppend flags" "writes_ok ws q"
  shows "\<exists>fs'. handle_writes env h ws fs = (fs', Inr ()) \<and> hrep l flags (ideal_file ws q) p h fs' \<and> fs_openFiles fs' = fs_openFiles fs"
  using assms(1,4)
proof (induction ws arbitrary: q fs)
  case (Cons w ws)
  obtain bs off where w: "w = (bs, off)" by (cases w)
  obtain fs1 where "FileHandle_PWrite env None h bs (int off) fs = (fs1, Inr ())" "hrep l flags (fwrite q off bs) p h fs1"
      "fs_openFiles fs1 = fs_openFiles fs"
    using handle_write [OF Cons.prems(1) assms(2,3), of off bs] Cons.prems(2) w by fastforce
  with Cons.IH [OF this(2)] Cons.prems(2) w show ?case by (simp add: and_then_def ideal_file_def)
qed (simp add: ret_def ideal_file_def)

text \<open>
  \<open>Truncate\<close> of a freshly opened file with chunks that do not implement it: the size becomes the one asked
  for, the bytes behind it go at chunk borders only.
\<close>

lemma cfio_Truncate_rep:
  assumes "rep q cf" "saved l sz (cf_caio cf) (cf_cs cf)" "k * split_size + j < length q" "j < split_size"
    and "\<And>i bp s r sz. has i bp s r \<Longrightarrow>
      \<exists>i' s'. co_Truncate co sz (i, s) = ((i', s'), Some e) \<and> has i' bp s' r \<and> keeps known stored bp s s'"
    and "q' = (if j = 0 then take (k * split_size) q else q)"
  shows "\<exists>cf' err. ChunkedFileIO_Truncate co (INodeDBChunksArrayIO_ops dh) (int (k * split_size + j)) cf = (cf', err) \<and>
    rep q' cf' \<and> saved l sz (cf_caio cf') (cf_cs cf') \<and> err \<in> {None, Some e}"
proof -
  have rw: "IsReadWriteAllowed (co_Flags co (cf_bs cf))" using flags_rw file_repD(1) [OF assms(1)] by blast
  show ?thesis
  proof (cases "j = 0")
    case True
    then obtain cf1 where t: "truncate_chunks co (int (k * split_size + j)) (length (cf_cs cf)) cf = (cf1, None)"
        "rep (take (k * split_size) q) cf1" "cf_caio cf1 = cf_caio cf"
      using Truncate_rep [OF assms(1), of k] assms(3) by auto
    obtain a where a: "ca_Write (INodeDBChunksArrayIO_ops dh) (cf_cs cf1) (cf_caio cf1) = (None, a)" "saved l sz a (cf_cs cf1)"
      using assms(2) locked_ticket [of "fst (cf_caio cf)" l] update_chunks [of "fst (cf_caio cf)" l _ sz "cf_cs cf" "cf_cs cf1"]
      unfolding t(3)
      by (cases "cf_caio cf") (auto simp: INodeDBChunksArrayIO_ops_def INodeDBChunksArrayIO_Write_def)
    have "ChunkedFileIO_Truncate co (INodeDBChunksArrayIO_ops dh) (int (k * split_size + j)) cf = (cf1\<lparr>cf_caio := a\<rparr>, None)"
      using t(1) a(1) rw by (simp add: ChunkedFileIO_Truncate_def)
    with t(2) a(2) True show ?thesis by (simp add: assms(6))
  next
    case False
    then obtain cf1 where t: "truncate_chunks co (int (k * split_size + j)) (length (cf_cs cf)) cf = (cf1, Some e)"
        "rep q cf1" "cf_cs cf1 = cf_cs cf" "cf_caio cf1 = cf_caio cf"
      using Truncate_inside [OF assms(1) _ assms(4,3,5)] by blast
    then have "ChunkedFileIO_Truncate co (INodeDBChunksArrayIO_ops dh) (int (k * split_size + j)) cf = (cf1, Some e)"
      using rw by (simp add: ChunkedFileIO_Truncate_def)
    with t assms(2) False show ?thesis by (simp add: assms(6))
  qed
qed

lemma truncateWithLock_rep:
  assumes "orep l (int (length q)) q p fs" "HasTicket l" "map_option of_wc (fmlookup (fs_ofs fs) p) = Some FileWriteCache_New"
    and "k * split_size + j < length q" "j < split_size"
    and "\<And>i bp s r sz. has i bp s r \<Longrightarrow>
      \<exists>i' s'. co_Truncate co sz (i, s) = ((i', s'), Some e) \<and> has i' bp s' r \<and> keeps known stored bp s s'"
    and "\<not> is_panic e" "q' = (if j = 0 then take (k * split_size) q else q)"
  shows "\<exists>fs'. truncateWithLock env p (int (k * split_size + j)) fs = (fs', Inr ()) \<and> orep l (int (k * split_size + j)) q' p fs' \<and> same p fs fs'"
  using assms(1)
proof (rule orepE)
  let ?n = "int (k * split_size + j)"
  fix x cf q0 c
  assume r: "fmlookup (fs_ofs fs) p = Some x" "of_nlock x = l" "of_cfio x = Some cf" "snd (cf_caio cf) = l"
    "dinv (fs_idb fs)" "HasTicket l \<Longrightarrow> locked (fs_idb fs) l" "view (fs_idb fs) (nl_ID l) = Some (FileNode c (int (length q)) (cf_cs cf))"
    "file_rep sinv stored has q0 (cf\<lparr>cf_bs := fs_bs fs\<rparr>)"
    "q = apply_patches (wc_ps (of_wc x)) q0" "int (length q) + ChunkSplitSize \<le> MaxInt64"
  have wc: "of_wc x = FileWriteCache_New" "q0 = q" using assms(3) r(1,9) by auto
  define cf1 where "cf1 = cf\<lparr>cf_bs := fs_bs fs, cf_caio := (fs_idb fs, snd (cf_caio cf))\<rparr>"
  have "rep q cf1" "saved l (int (length q)) (cf_caio cf1) (cf_cs cf1)"
    using r(4-8) assms(2) wc(2) by (simp_all add: cf1_def)
  from cfio_Truncate_rep [OF this assms(4-6,8)] obtain cf2 err where
    t: "ChunkedFileIO_Truncate co (INodeDBChunksArrayIO_ops dh) ?n cf1 = (cf2, err)" "rep q' cf2"
      "saved l (int (length q)) (cf_caio cf2) (cf_cs cf2)" "err \<in> {None, Some e}" by blast
  define n where "n = ?n"
  have n: "n \<le> MaxInt64" "n < int (length q)" using assms(4) r(10) split_pos by (auto simp: n_def simp del: of_nat_add of_nat_mult)
  obtain pl where pl: "FileWriteCache_Truncate n FileWriteCache_New (fs_pool fs) = (FileWriteCache_New, pl)"
    using n(1) by (auto simp: FileWriteCache_Truncate_def FileWriteCache_New_def Patches_Truncate_def NewPatches_def PatchSentinel_def Patch_Left_def)
  define fs1 where "fs1 = fs\<lparr>fs_pool := pl, fs_bs := cf_bs cf2, fs_idb := fst (cf_caio cf2),
    fs_ofs := fmupd p (x\<lparr>of_wc := FileWriteCache_New, of_cfio := Some cf2\<rparr>) (fs_ofs fs)\<rparr>"
  have "int (length q') + ChunkSplitSize \<le> MaxInt64" using r(10) assms(8) by auto
  then have o1: "orep l (int (length q)) q' p fs1"
    unfolding open_rep_def using r(1,2) t(2,3) assms(2) by (auto simp: fs1_def)

  have "truncateWithLock env p n fs = updateSizeWithoutLock env p n fs1"
    using size_rep [OF assms(1)] r(1,3) wc(1) pl t(1) n(2) t(4) assms(7) unfolding n_def [symmetric]
    by (cases err) (simp_all add: truncateWithLock_def action_defs with_of_def upd_of_def on_cfio_def env fs1_def cf1_def)
  with update_size_rep [OF o1 assms(2), of n] r(1) show ?thesis unfolding n_def [symmetric] by (fastforce simp: fs1_def)
qed

text \<open>
  Between the release of the mutex in \<open>CloseHandle\<close> and the removal from the map another open finds the
  open file; the removal then leaves it out of the map, and the next open makes a second one.
\<close>

lemma reopened_while_closing:
  assumes "drep i q fs" "fmlookup (fs_openFiles fs) i = None" "i \<noteq> 0"
  shows "\<exists>p fs1 h fs2 fs3 h2 fs4 h3 p'. FileSystem_OpenFile env i O_RDONLY fs = (fs1, Inr h) \<and>
    CloseHandle_locked env p h fs1 = (fs2, Inr (Some i)) \<and> FileSystem_OpenFile env i O_RDONLY fs2 = (fs3, Inr h2) \<and>
    FileSystem_OpenFile env i O_RDONLY (closeOpenFile i fs3) = (fs4, Inr h3) \<and>
    map_option fh_of (fmlookup (fs_fhs fs4) h2) = Some (Some p) \<and> map_option fh_of (fmlookup (fs_fhs fs4) h3) = Some (Some p') \<and> p \<noteq> p'"
proof -
  have ro: "\<not> IsWriteTruncate O_RDONLY" "\<not> IsWriteAllowed O_RDONLY"
    by (simp_all add: IsWriteTruncate_def IsWriteAllowed_def flag_defs Let_def)
  obtain fs1 h l p where o: "FileSystem_OpenFile env i O_RDONLY fs = (fs1, Inr h)" "hrep l O_RDONLY q p h fs1" "nl_ID l = i"
      "p = fs_next fs" "fs_next fs1 = Suc (Suc p)" "fs_openFiles fs1 = fmupd i p (fs_openFiles fs)"
    using OpenFile_rep [OF assms(1,2) ro(1)] ro(2) by blast
  obtain fs2 x where c: "CloseHandle_locked env p h fs1 = (fs2, Inr (Some i))" "drep i q fs2" "fs_openFiles fs2 = fs_openFiles fs1"
      "fs_next fs2 = fs_next fs1" "fmlookup (fs_ofs fs2) p = Some x" "nl_ID (of_nlock x) = i"
    using CloseHandle_locked_rep [OF o(2)] o(3) by auto
  define h2 where "h2 = fs_next fs2"
  define fs3 where "fs3 = fs2\<lparr>fs_next := Suc h2, fs_fhs := fmupd h2 \<lparr>fh_of = Some p, fh_flags = O_RDONLY\<rparr> (fs_fhs fs2),
    fs_ofs := fmupd p (x\<lparr>of_handles := of_handles x @ [h2]\<rparr>) (fs_ofs fs2)\<rparr>"
  have o2: "FileSystem_OpenFile env i O_RDONLY fs2 = (fs3, Inr h2)"
    using ro(2) c(3,5,6) o(6) assms(3)
    by (simp add: FileSystem_OpenFile_def getOrCreateOpenFile_def and_then_def with_of_def OpenHandleWithoutLock_def upd_of_def Let_def fs3_def h2_def)
  have "drep i q (closeOpenFile i fs3)" "fmlookup (fs_openFiles (closeOpenFile i fs3)) i = None"
    using c(2) by (simp_all add: disk_rep_def closeOpenFile_def fs3_def)
  from OpenFile_rep [OF this ro(1)] ro(2) obtain fs4 h3 l3 p' where
    o3: "FileSystem_OpenFile env i O_RDONLY (closeOpenFile i fs3) = (fs4, Inr h3)" "hrep l3 O_RDONLY q p' h3 fs4" "p' = fs_next fs3"
      "h3 = Suc p'" "fs_fhs fs4 = fmupd h3 \<lparr>fh_of = Some p', fh_flags = O_RDONLY\<rparr> (fs_fhs fs3)"
    by (auto simp: closeOpenFile_def)
  have "p \<noteq> p'" using o3(3) o(5) c(4) by (simp add: fs3_def h2_def)
  moreover have "map_option fh_of (fmlookup (fs_fhs fs4) h2) = Some (Some p)" "map_option fh_of (fmlookup (fs_fhs fs4) h3) = Some (Some p')"
    using o3(3-5) by (simp_all add: fs3_def)
  ultimately show ?thesis using o(1) c(1) o2 o3(1) by blast
qed

text \<open>Open, write, close, open again, read.\<close>

lemma write_close_read:
  assumes "drep i q fs" "fmlookup (fs_openFiles fs) i = None" "free (fs_idb fs) i" "writes_ok ws q"
    and "IsWriteAllowed flags" "\<not> IsWriteTruncate flags" "\<not> IsWriteAppend flags"
  shows "\<exists>fs1 h fs2 fs3 fs4 h'. FileSystem_OpenFile env i flags fs = (fs1, Inr h) \<and> handle_writes env h ws fs1 = (fs2, Inr ()) \<and>
    FileHandle_Close env h fs2 = (fs3, Inr ()) \<and> drep i (ideal_file ws q) fs3 \<and> fmlookup (fs_openFiles fs3) i = None \<and>
    FileSystem_OpenFile env i O_RDONLY fs3 = (fs4, Inr h') \<and>
    (\<forall>n off. int n \<le> MaxInt32 \<longrightarrow> int (off + n) + ChunkSplitSize \<le> MaxInt64 \<longrightarrow>
       snd (FileHandle_ReadAt env h' n (int off) fs4) = Inr (fread (ideal_file ws q) off n, None))"
proof -
  obtain fs1 h l p where o: "FileSystem_OpenFile env i flags fs = (fs1, Inr h)" "hrep l flags q p h fs1" "nl_ID l = i"
    using OpenFile_rep [OF assms(1,2,6)] assms(3) by blast
  obtain fs2 where w: "handle_writes env h ws fs1 = (fs2, Inr ())" "hrep l flags (ideal_file ws q) p h fs2"
    using handle_writes_rep [OF o(2) assms(5,7,4)] by blast
  obtain fs3 where c: "FileHandle_Close env h fs2 = (fs3, Inr ())" "drep i (ideal_file ws q) fs3" "fmlookup (fs_openFiles fs3) i = None"
    using Close_handle_rep [OF w(2)] o(3) by auto
  have ro: "\<not> IsWriteTruncate O_RDONLY" "\<not> IsWriteAllowed O_RDONLY" "IsReadAllowed O_RDONLY"
    by (simp_all add: IsWriteTruncate_def IsWriteAllowed_def IsReadAllowed_def flag_defs Let_def)
  obtain fs4 h' l' p' where o': "FileSystem_OpenFile env i O_RDONLY fs3 = (fs4, Inr h')" "hrep l' O_RDONLY (ideal_file ws q) p' h' fs4"
    using OpenFile_rep [OF c(2,3) ro(1)] ro(2) by blast
  with o(1) w(1) c handle_read [OF o'(2) ro(3)] show ?thesis by (metis snd_conv)
qed

end

section \<open>The file system over files and the database in memory\<close>

type_synonym 'n file_fs =
  "(file_chunks, string \<times> FileBlobHandle, string \<times> FileBlobHandle ChunkIO, ('n, SimpleDBTransactionLogIO) DB) FileSystem"

type_synonym 'n file_fs_env =
  "(file_chunks, string \<times> FileBlobHandle, string \<times> FileBlobHandle ChunkIO, ('n, SimpleDBTransactionLogIO) DB) fs_env"

text \<open>The environment: chunks in a \<open>FileBlobStore\<close>, nodes in a \<open>DB\<close> with a \<open>SimpleDBTransactionLogIO\<close>.\<close>

definition file_env_ok ::
    "FileBlobHandle chunk_env \<Rightarrow> (nat \<Rightarrow> string list) \<Rightarrow> nat \<Rightarrow> 'n DBStateSnapshotIO \<Rightarrow> clock \<Rightarrow> 'n file_fs_env \<Rightarrow> bool" where
  "file_env_ok cenv names k sops clk env \<longleftrightarrow>
     chunk_env_ok FileBlobHandle_ops cenv \<and> names_ok names \<and> fe_co env = file_chunk_ops cenv names \<and>
     fe_db env = db_handler k sops Simple_log_ops clk \<and> enough_fuel (fe_fuel env)"

abbreviation file_disk :: "FileBlobHandle chunk_env \<Rightarrow> (nat \<Rightarrow> string list) \<Rightarrow> ID \<Rightarrow> byte list \<Rightarrow> 'n file_fs \<Rightarrow> bool" where
  "file_disk cenv names \<equiv> disk_rep (fcs_inv names) (fcs_stored cenv) simple_dinv db_view"

lemma file_fs_storage:
  "file_env_ok cenv names k sops clk env \<Longrightarrow>
   fs_storage (file_chunk_ops cenv names) (fcs_inv names) (fcs_known names) (fcs_stored cenv) (fcs_has cenv names)
     (db_handler k sops Simple_log_ops clk) simple_dinv db_view db_locked db_free env"
  unfolding file_env_ok_def
  by (intro fs_storage.intro fs_storage_axioms.intro file_chunk_store simple_db.node_db_axioms) auto

definition toy_sops :: "SimpleDBStateSnapshotIO DBStateSnapshotIO" where
  "toy_sops = \<lparr>sn_SaveSnapshot = Simple_SaveSnapshot sorted_list_of_fmap, sn_RestoreSnapshot = Simple_RestoreSnapshot\<rparr>"

definition toy_fs_env :: "SimpleDBStateSnapshotIO file_fs_env" where
  "toy_fs_env =
     \<lparr>fe_db = db_handler 1 toy_sops Simple_log_ops int, fe_co = file_chunk_ops (toy_env FileBlobHandle_ops) toy_names,
      fe_fuel = 2 ^ 64, fe_TotalSize = None, fe_now = 0, fe_entries = sorted_list_of_fmap, fe_files = (\<lambda>m. map snd (sorted_list_of_fmap m))\<rparr>"

lemma toy_fs_env_ok: "file_env_ok (toy_env FileBlobHandle_ops) toy_names 1 toy_sops int toy_fs_env"
  by (simp add: file_env_ok_def toy_fs_env_def toy_env_ok toy_names_ok enough_fuel_def)

interpretation toy_fs: fs_storage "file_chunk_ops (toy_env FileBlobHandle_ops) toy_names" "fcs_inv toy_names" "fcs_known toy_names"
  "fcs_stored (toy_env FileBlobHandle_ops)" "fcs_has (toy_env FileBlobHandle_ops) toy_names"
  "db_handler 1 toy_sops Simple_log_ops int" simple_dinv db_view db_locked db_free toy_fs_env
  by (rule file_fs_storage [OF toy_fs_env_ok])

text \<open>A file system with the empty file 2.\<close>

definition toy_file_node :: INode where
  "toy_file_node = FileNode \<lparr>nc_ID = 2, nc_OrigPath = ''/f'', nc_Uid = 0, nc_Gid = 0, nc_PermMode = 0x1FF, nc_ModifiedT = 0\<rparr> 0 []"

definition toy_fs_state :: "SimpleDBStateSnapshotIO file_fs" where
  "toy_fs_state =
     \<lparr>fs_idb = (newDB NewSimpleDBStateSnapshotIO NewSimpleDBTransactionLogIO False)\<lparr>db_state := NewDBState\<lparr>nodes := fmupd 2 toy_file_node fmempty\<rparr>\<rparr>,
      fs_bs = toy_store, fs_openFiles = fmempty, fs_origpath = fmempty, fs_ofs = fmempty, fs_fhs = fmempty, fs_next = 0, fs_pool = []\<rparr>"

lemma toy_fs_disk: "file_disk (toy_env FileBlobHandle_ops) toy_names 2 [] toy_fs_state"
  by (simp add: disk_rep_def toy_fs_state_def simple_dinv_def newDB_def NewSimpleDBTransactionLogIO_def db_view_def toy_file_node_def
      toy_store_inv layout_def ChunkSplitSize_def MaxInt64_def)

lemma toy_fs_free: "db_free (fs_idb toy_fs_state) 2" "fmlookup (fs_openFiles toy_fs_state) 2 = None"
  by (simp_all add: db_free_def toy_fs_state_def newDB_def NewDBState_def AllocateNewNodeID_def NoTicket_def wrapu64_def)

text \<open>A file system with a file of three bytes: what the writes leave, with all locks released.\<close>

lemma toy_fs_content:
  "\<exists>fs :: SimpleDBStateSnapshotIO file_fs. file_disk (toy_env FileBlobHandle_ops) toy_names 2 [1, 2, 3] fs \<and>
     fmlookup (fs_openFiles fs) 2 = None \<and> db_free (fs_idb fs) 2"
proof -
  have w: "writes_ok [([1, 2, 3], 0)] []" by (simp add: MaxInt32_def MaxInt64_def ChunkSplitSize_def)
  have f: "IsWriteAllowed O_RDWR" "\<not> IsWriteTruncate O_RDWR" "\<not> IsWriteAppend O_RDWR"
    by (simp_all add: IsWriteAllowed_def IsWriteTruncate_def IsWriteAppend_def flag_defs Let_def)
  have "ideal_file [([1, 2, 3], 0)] [] = [1, 2, 3]" by (simp add: ideal_file_def fwrite_def)
  with toy_fs.write_close_read [OF toy_fs_disk toy_fs_free(2,1) w f] obtain fs :: "SimpleDBStateSnapshotIO file_fs" where
    fs: "file_disk (toy_env FileBlobHandle_ops) toy_names 2 [1, 2, 3] fs" "fmlookup (fs_openFiles fs) 2 = None" by metis
  define d where "d = (fs_idb fs)\<lparr>db_state := (db_state (fs_idb fs))\<lparr>nodeLocks := fmempty, lastTicket := 1\<rparr>\<rparr>"
  have "file_disk (toy_env FileBlobHandle_ops) toy_names 2 [1, 2, 3] (fs\<lparr>fs_idb := d\<rparr>)" "db_free d 2"
    using fs(1) by (simp_all add: disk_rep_def d_def simple_dinv_def db_view_def db_free_def AllocateNewNodeID_def NoTicket_def wrapu64_def)
  with fs(2) show ?thesis by (intro exI [of _ "fs\<lparr>fs_idb := d\<rparr>"]) simp
qed

section \<open>Properties\<close>





text \<open>
  C36. A race of \<open>CloseHandle\<close> and \<open>OpenFile\<close>: the last handle of a file gives up the lock of the open file, the file is
  opened again and finds the open file still in the map, then \<open>CloseHandle\<close> removes it from there. The next
  \<open>OpenFile\<close> makes a second open file of the same node, and two handles of one file no longer share their state.
\<close>

theorem close_open_race:
  fixes fs :: "'n file_fs"
  assumes "file_env_ok cenv names m sops clk env" "file_disk cenv names i q fs" "fmlookup (fs_openFiles fs) i = None" "i \<noteq> 0"
  shows "\<exists>p fs1 h fs2 fs3 h2 fs4 h3 p'. FileSystem_OpenFile env i O_RDONLY fs = (fs1, Inr h) \<and>
    CloseHandle_locked env p h fs1 = (fs2, Inr (Some i)) \<and> FileSystem_OpenFile env i O_RDONLY fs2 = (fs3, Inr h2) \<and>
    FileSystem_OpenFile env i O_RDONLY (closeOpenFile i fs3) = (fs4, Inr h3) \<and>
    map_option fh_of (fmlookup (fs_fhs fs4) h2) = Some (Some p) \<and> map_option fh_of (fmlookup (fs_fhs fs4) h3) = Some (Some p') \<and> p \<noteq> p'"
  by (rule fs_storage.reopened_while_closing [OF file_fs_storage [OF assms(1)] assms(2-)])

theorem close_open_race_witness:
  "\<exists>p fs1 h fs2 fs3 h2 fs4 h3 p'. FileSystem_OpenFile toy_fs_env 2 O_RDONLY toy_fs_state = (fs1, Inr h) \<and>
    CloseHandle_locked toy_fs_env p h fs1 = (fs2, Inr (Some 2)) \<and> FileSystem_OpenFile toy_fs_env 2 O_RDONLY fs2 = (fs3, Inr h2) \<and>
    FileSystem_OpenFile toy_fs_env 2 O_RDONLY (closeOpenFile 2 fs3) = (fs4, Inr h3) \<and>
    map_option fh_of (fmlookup (fs_fhs fs4) h2) = Some (Some p) \<and> map_option fh_of (fmlookup (fs_fhs fs4) h3) = Some (Some p') \<and> p \<noteq> p'"
proof -
  have "(2 :: ID) \<noteq> 0" by simp
  from close_open_race [OF toy_fs_env_ok toy_fs_disk toy_fs_free(2) this] show ?thesis .
qed

text \<open>A handle that is closed panics when it is closed again: the logger is read before the check for nil.\<close>

lemma closed_handle_panics:
  "fmlookup (fs_fhs fs) h = Some \<lparr>fh_of = None, fh_flags = f\<rparr> \<Longrightarrow> FileHandle_Close env h fs = (fs, Inl (Panic ''nil pointer dereference''))"
  by (simp add: FileHandle_Close_def with_fh_def fh_call_def fail_def)

text \<open>Opening a file that is open with a lock adds a handle and does nothing else, whatever the flags: \<open>O_TRUNC\<close> is ignored.\<close>

lemma open_file_reused:
  assumes "fmlookup (fs_openFiles fs) i = Some p" "fmlookup (fs_ofs fs) p = Some x" "nl_ID (of_nlock x) \<noteq> 0" "HasTicket (of_nlock x)"
    and "IsWriteAllowed (co_Flags (fe_co env) (fs_bs fs))"
  shows "FileSystem_OpenFile env i flags fs = OpenHandleWithoutLock p flags fs"
  using assms by (simp add: FileSystem_OpenFile_def getOrCreateOpenFile_def and_then_def with_of_def)

end
