(* ===== verification/Path_Lookup.thy ===== *)
theory Path_Lookup
  imports File_System
begin

text \<open>
  Paths of the file system (\<open>fsutil.go\<close>). \<open>FindNodeFullPath\<close> cleans a path, calls itself on the parent and
  looks the last name up there. Here it is shown to be the walk from the root along the names of the
  cleaned path, for every path, and never to run out of fuel.
\<close>

section \<open>Names\<close>

definition is_name :: "string \<Rightarrow> bool" where
  "is_name e \<longleftrightarrow> e \<noteq> '''' \<and> e \<noteq> ''.'' \<and> e \<noteq> ''..'' \<and> CHR ''/'' \<notin> set e"

definition path_names :: "string \<Rightarrow> string list" where
  "path_names path = fold (clean_elem True) (path_elems path) []"

definition abs_path :: "string list \<Rightarrow> string" where
  "abs_path es = CHR ''/'' # join_elems es"

lemma path_elems_no_slash: "e \<in> set (path_elems p) \<Longrightarrow> CHR ''/'' \<notin> set e"
  by (induction p arbitrary: e) (auto split: if_splits list.splits)

lemma length_path_elems: "length (path_elems p) \<le> Suc (length p)"
  by (induction p) (auto split: list.splits)

lemma path_elems_ne [simp]: "path_elems p \<noteq> []"
  by (cases p) (auto split: list.splits)

lemma path_elems_elem: "CHR ''/'' \<notin> set e \<Longrightarrow> path_elems e = [e]"
  by (induction e) auto

lemma path_elems_cons: "CHR ''/'' \<notin> set e \<Longrightarrow> path_elems (e @ CHR ''/'' # p) = e # path_elems p"
  by (induction e) auto

lemma join_elems_Cons: "es \<noteq> [] \<Longrightarrow> join_elems (e # es) = e @ CHR ''/'' # join_elems es"
  by (cases es) (simp_all add: join_elems_def)

lemma join_elems_single [simp]: "join_elems [e] = e" "join_elems [] = ''''"
  by (simp_all add: join_elems_def)

lemma join_elems_snoc: "es \<noteq> [] \<Longrightarrow> join_elems (es @ [e]) = join_elems es @ CHR ''/'' # e"
  by (cases es) (simp_all add: join_elems_def)

lemma path_elems_join:
  assumes "\<forall>e \<in> set es. CHR ''/'' \<notin> set e" "es \<noteq> []"
  shows "path_elems (join_elems es) = es" "path_elems (join_elems es @ ''/'') = es @ ['''']"
proof -
  have "path_elems (join_elems es) = es \<and> path_elems (join_elems es @ ''/'') = es @ ['''']"
    using assms
  proof (induction es)
    case (Cons e es)
    then show ?case
      by (cases "es = []") (simp_all add: path_elems_elem path_elems_cons path_elems_cons [of _ "[]", simplified] join_elems_Cons)
  qed simp
  then show "path_elems (join_elems es) = es" "path_elems (join_elems es @ ''/'') = es @ ['''']" by auto
qed

section \<open>Cleaning\<close>

lemma fold_clean_names: "\<forall>e \<in> set es. is_name e \<Longrightarrow> fold (clean_elem r) es out = out @ es"
  by (induction es arbitrary: out) (auto simp: clean_elem_def is_name_def)

lemma fold_clean_rooted:
  "\<forall>e \<in> set es. CHR ''/'' \<notin> set e \<Longrightarrow> \<forall>e \<in> set out. is_name e \<Longrightarrow> \<forall>e \<in> set (fold (clean_elem True) es out). is_name e"
proof (induction es arbitrary: out)
  case (Cons e es)
  have "\<forall>x \<in> set (clean_elem True e out). is_name x"
    using Cons.prems by (auto simp: clean_elem_def is_name_def dest: in_set_butlastD)
  with Cons show ?case by simp
qed simp

definition is_elem :: "string \<Rightarrow> bool" where
  "is_elem e \<longleftrightarrow> e \<noteq> '''' \<and> CHR ''/'' \<notin> set e"

lemma fold_clean_relative:
  "\<forall>e \<in> set es. CHR ''/'' \<notin> set e \<Longrightarrow> \<forall>e \<in> set out. is_elem e \<Longrightarrow> \<forall>e \<in> set (fold (clean_elem False) es out). is_elem e"
proof (induction es arbitrary: out)
  case (Cons e es)
  have "is_elem e \<or> e = ''''" using Cons.prems(1) by (simp add: is_elem_def)
  then have "\<forall>x \<in> set (clean_elem False e out). is_elem x"
    using Cons.prems(2) by (auto simp: clean_elem_def dest: in_set_butlastD)
  with Cons show ?case by simp
qed simp

lemma length_fold_clean: "length (fold (clean_elem r) es out) \<le> length out + length es"
proof (induction es arbitrary: out)
  case (Cons e es)
  have "length (clean_elem r e out) \<le> Suc (length out)" by (auto simp: clean_elem_def)
  with Cons.IH [of "clean_elem r e out"] show ?case by simp
qed simp

lemma path_names: "e \<in> set (path_names p) \<Longrightarrow> is_name e"
  using fold_clean_rooted [of "path_elems p" "[]"] path_elems_no_slash unfolding path_names_def by auto

lemma length_path_names: "hd p = CHR ''/'' \<Longrightarrow> p \<noteq> '''' \<Longrightarrow> length (path_names p) \<le> length p"
proof -
  assume "hd p = CHR ''/''" "p \<noteq> ''''"
  then obtain p' where p: "p = CHR ''/'' # p'" by (cases p) auto
  have "path_names p = fold (clean_elem True) (path_elems p') []" by (simp add: path_names_def p clean_elem_def)
  with length_fold_clean [of True "path_elems p'" "[]"] length_path_elems [of p'] show ?thesis by (simp add: p)
qed

lemma Clean_rooted: "p \<noteq> '''' \<Longrightarrow> hd p = CHR ''/'' \<Longrightarrow> filepath_Clean p = abs_path (path_names p)"
  by (simp add: filepath_Clean_def abs_path_def path_names_def)

lemma Clean_relative: "p = '''' \<or> hd p \<noteq> CHR ''/'' \<Longrightarrow> filepath_Clean p \<noteq> '''' \<and> hd (filepath_Clean p) \<noteq> CHR ''/''"
proof -
  define out where "out = fold (clean_elem False) (path_elems p) []"
  assume "p = '''' \<or> hd p \<noteq> CHR ''/''"
  then have c: "filepath_Clean p = (if out = [] then ''.'' else join_elems out)" by (auto simp: filepath_Clean_def out_def)
  have o: "\<forall>e \<in> set out. is_elem e"
    unfolding out_def by (rule fold_clean_relative) (auto dest: path_elems_no_slash)
  show ?thesis
  proof (cases out)
    case (Cons e es)
    then obtain x xs where "e = x # xs" "x \<noteq> CHR ''/''" using o by (cases e) (auto simp: is_elem_def)
    with c Cons show ?thesis by (simp add: join_elems_def)
  qed (use c in simp)
qed

text \<open>The path of a list of names: cleaning keeps it, its parent is the path of the list without the last name.\<close>

lemma abs_path_elems:
  assumes "\<forall>e \<in> set es. is_name e"
  shows "path_names (abs_path es) = es" "path_names (abs_path es @ ''/'') = es"
proof -
  have s: "\<forall>e \<in> set es. CHR ''/'' \<notin> set e" using assms by (simp add: is_name_def)
  have e: "clean_elem True '''' out = out" for out by (simp add: clean_elem_def)
  show "path_names (abs_path es) = es"
    by (cases "es = []") (simp_all add: abs_path_def path_names_def path_elems_join(1) [OF s] fold_clean_names [OF assms] e)
  show "path_names (abs_path es @ ''/'') = es"
    by (cases "es = []") (simp_all add: abs_path_def path_names_def path_elems_join(2) [OF s] fold_clean_names [OF assms] e)
qed

lemma abs_path_snoc: "abs_path (es @ [e]) = (if es = [] then '''' else abs_path es) @ CHR ''/'' # e"
  by (simp add: abs_path_def join_elems_snoc)

lemma Clean_abs: "\<forall>e \<in> set es. is_name e \<Longrightarrow> filepath_Clean (abs_path es) = abs_path es"
  using Clean_rooted [of "abs_path es"] abs_path_elems by (simp add: abs_path_def)

lemma Dir_abs:
  assumes "\<forall>e \<in> set (es @ [e]). is_name e"
  shows "filepath_Dir (abs_path (es @ [e])) = abs_path es"
proof -
  have n: "CHR ''/'' \<notin> set e" using assms by (simp add: is_name_def)
  then have "dropWhile (\<lambda>c. c \<noteq> CHR ''/'') (rev e @ CHR ''/'' # r) = CHR ''/'' # r" for r by (subst dropWhile_append2) auto
  then have "rev (dropWhile (\<lambda>c. c \<noteq> CHR ''/'') (rev (abs_path (es @ [e])))) = (if es = [] then '''' else abs_path es) @ ''/''"
    by (simp add: abs_path_snoc)
  moreover have "filepath_Clean ((if es = [] then '''' else abs_path es) @ ''/'') = abs_path es"
  proof (cases "es = []")
    case True
    then show ?thesis by (simp add: Clean_rooted abs_path_def path_names_def clean_elem_def)
  next
    case False
    have "abs_path es @ ''/'' \<noteq> ''''" "hd (abs_path es @ ''/'') = CHR ''/''" by (simp_all add: abs_path_def)
    with False assms abs_path_elems(2) [of es] show ?thesis by (simp add: Clean_rooted)
  qed
  ultimately show ?thesis by (simp add: filepath_Dir_def)
qed

lemma Base_abs:
  assumes "is_name e"
  shows "filepath_Base (abs_path (es @ [e])) = e"
proof -
  have n: "CHR ''/'' \<notin> set e" "e \<noteq> ''''" using assms by (auto simp: is_name_def)
  then obtain x xs where e: "rev e = x # xs" "x \<noteq> CHR ''/''" by (cases "rev e") auto
  have "takeWhile (\<lambda>c. c \<noteq> CHR ''/'') (rev e @ CHR ''/'' # r) = rev e" for r using n(1) by (subst takeWhile_append2) auto
  with e show ?thesis
    by (simp add: filepath_Base_def abs_path_snoc Let_def del: takeWhile.simps)
qed

section \<open>The walk\<close>

definition lookup_in :: "('s, 'h, 'i, 'd) fs_env \<Rightarrow> ID \<Rightarrow> string \<Rightarrow> ('s, 'h, 'i, 'd, ID) fsop" where
  "lookup_in env dir name fs =
     (case FileSystem_DirEntries env dir fs of
        (fs', Inl e) \<Rightarrow> (fs', if is_panic e then Inl e else Inl (Errno ENOENT))
      | (fs', Inr entries) \<Rightarrow> (fs', case fmlookup entries name of None \<Rightarrow> Inl (Errno ENOENT) | Some i \<Rightarrow> Inr i))"

primrec walk :: "('s, 'h, 'i, 'd) fs_env \<Rightarrow> string list \<Rightarrow> ID \<Rightarrow> ('s, 'h, 'i, 'd, ID) fsop" where
  "walk env [] dir = ret dir"
| "walk env (e # es) dir = and_then (lookup_in env dir e) (walk env es)"

lemma walk_snoc: "walk env (es @ [e]) d = and_then (walk env es d) (\<lambda>d. lookup_in env d e)"
  by (induction es arbitrary: d) (auto simp: and_then_def ret_def fun_eq_iff split: prod.splits sum.splits)

lemma FindNodeFullPath_names:
  "\<forall>e \<in> set es. is_name e \<Longrightarrow> length es < fuel \<Longrightarrow> FindNodeFullPath fuel env (abs_path es) = walk env es 1"
proof (induction es arbitrary: fuel rule: rev_induct)
  case Nil
  then obtain n where "fuel = Suc n" by (cases fuel) auto
  then show ?case using Clean_abs [of "[]"] by (simp add: abs_path_def Let_def)
next
  case (snoc e es)
  then obtain n where n: "fuel = Suc n" "length es < n" by (cases fuel) auto
  have c: "filepath_Clean (abs_path (es @ [e])) = abs_path (es @ [e])" using snoc.prems(1) by (rule Clean_abs)
  have a: "\<not> (length (abs_path (es @ [e])) < 1 \<or> hd (abs_path (es @ [e])) \<noteq> CHR ''/'')" "abs_path (es @ [e]) \<noteq> ''/''"
    using snoc.prems(1) by (simp add: abs_path_def) (use snoc.prems(1) in \<open>cases "es = []"; simp add: join_elems_snoc is_name_def abs_path_def\<close>)
  have name: "is_name e" using snoc.prems(1) by simp
  have "FindNodeFullPath n env (abs_path es) = walk env es 1" using snoc.IH [of n] snoc.prems(1) n(2) by simp
  then show ?case
    unfolding n(1) walk_snoc FindNodeFullPath.simps c Let_def Dir_abs [OF snoc.prems(1)] Base_abs [OF name] if_not_P [OF a(1)] if_not_P [OF a(2)]
    by (intro arg_cong2 [where f = and_then] ext) (simp_all add: lookup_in_def split: prod.split sum.split option.split)
qed

text \<open>
  C20. \<open>FindNodeFullPath\<close> of any path and any fuel above its length: a path that does not start with a
  slash is refused, any other is walked from the root node 1 along the names of the cleaned path, one directory
  after the other. In particular the recursion on the parent path ends.
\<close>

theorem FindNodeFullPath_walks:
  "FindNodeFullPath (Suc (length path + extra)) env path =
     (if path \<noteq> '''' \<and> hd path = CHR ''/'' then walk env (path_names path) 1 else fail (Fmt ''Path must start with /''))"
proof (cases "path \<noteq> '''' \<and> hd path = CHR ''/''")
  case True
  have c: "filepath_Clean path = abs_path (path_names path)" using True Clean_rooted by blast
  have n: "\<forall>e \<in> set (path_names path). is_name e" by (simp add: path_names)
  have "FindNodeFullPath (Suc (length path + extra)) env path = FindNodeFullPath (Suc (length path + extra)) env (abs_path (path_names path))"
    by (simp add: c Clean_abs [OF n])
  with FindNodeFullPath_names [OF n, of "Suc (length path + extra)" env] length_path_names [of path] True show ?thesis by simp
next
  case False
  with Clean_relative [of path] show ?thesis by (auto simp: Let_def)
qed

end
