(* ===== verification/Cache_Entry.thy ===== *)
theory Cache_Entry
  imports File_Blobstore
begin

text \<open>
  Entries of the cached blob store (\<open>blobstore/cachedblobstore/cachedblobentry.go\<close>,
  \<open>cachedblobhandle.go\<close>, \<open>cachedbackendversion.go\<close>): one blob of the backend with its copy in the cache.

  \<^item> An entry is a state machine (\<open>CacheEntryState\<close>, \<open>next_states\<close>); a transition outside the table panics.
  \<^item> Entries live on a heap (\<open>cbs_bes\<close>). A method is split where it gives up the mutex of its entry: each definition
    between is one critical section or one call on a store outside of any, and the method is their sequence. A wait on
    the condition variable is the result \<open>Waits\<close>; the section is tried again later.
  \<^item> Goroutines and scheduler jobs that a method starts are appended to \<open>cbs_spawned\<close>.
  \<^item> Both stores and the version query on their readers are operations of an environment record.
\<close>

section \<open>State\<close>

datatype CacheEntryState =
    CacheEntryUninitialized
  | CacheEntryInvalidating
  | CacheEntryErrored
  | CacheEntryErroredClosed
  | CacheEntryClean
  | CacheEntryWriteInProgress
  | CacheEntryWritebackInProgress
  | CacheEntryStaleWritebackInProgress
  | CacheEntryDirty
  | CacheEntryDirtyClosing
  | CacheEntryClosing
  | CacheEntryClosed

definition CacheEntryState_ShouldBeListed :: "CacheEntryState \<Rightarrow> bool" where
  "CacheEntryState_ShouldBeListed s \<longleftrightarrow>
     s \<in> {CacheEntryInvalidating, CacheEntryClean, CacheEntryWriteInProgress, CacheEntryWritebackInProgress,
          CacheEntryStaleWritebackInProgress, CacheEntryDirty}"

definition CacheEntryState_NeedsSync :: "CacheEntryState \<Rightarrow> bool" where
  "CacheEntryState_NeedsSync s \<longleftrightarrow> s = CacheEntryDirty \<or> s = CacheEntryWriteInProgress"

fun CacheEntryState_String :: "CacheEntryState \<Rightarrow> string" where
  "CacheEntryState_String CacheEntryUninitialized = ''Uninitialized''"
| "CacheEntryState_String CacheEntryInvalidating = ''Invalidating''"
| "CacheEntryState_String CacheEntryErrored = ''Errored''"
| "CacheEntryState_String CacheEntryErroredClosed = ''ErroredClosed''"
| "CacheEntryState_String CacheEntryClean = ''Clean''"
| "CacheEntryState_String CacheEntryWriteInProgress = ''WriteInProgress''"
| "CacheEntryState_String CacheEntryWritebackInProgress = ''WritebackInProgress''"
| "CacheEntryState_String CacheEntryStaleWritebackInProgress = ''StaleWritebackInProgress''"
| "CacheEntryState_String CacheEntryDirty = ''Dirty''"
| "CacheEntryState_String CacheEntryDirtyClosing = ''DirtyClosing''"
| "CacheEntryState_String CacheEntryClosing = ''Closing''"
| "CacheEntryState_String CacheEntryClosed = ''Closed''"

text \<open>The transitions \<open>updateState\<close> lets pass.\<close>

fun next_states :: "CacheEntryState \<Rightarrow> CacheEntryState list" where
  "next_states CacheEntryUninitialized = [CacheEntryInvalidating, CacheEntryClean, CacheEntryErrored]"
| "next_states CacheEntryInvalidating = [CacheEntryClean, CacheEntryErrored]"
| "next_states CacheEntryErrored = [CacheEntryErroredClosed]"
| "next_states CacheEntryErroredClosed = []"
| "next_states CacheEntryClean = [CacheEntryWriteInProgress, CacheEntryClosing]"
| "next_states CacheEntryWriteInProgress = [CacheEntryDirty]"
| "next_states CacheEntryWritebackInProgress = [CacheEntryClean, CacheEntryStaleWritebackInProgress, CacheEntryErrored]"
| "next_states CacheEntryStaleWritebackInProgress = [CacheEntryDirty, CacheEntryStaleWritebackInProgress]"
| "next_states CacheEntryDirty = [CacheEntryWriteInProgress, CacheEntryWritebackInProgress, CacheEntryDirtyClosing]"
| "next_states CacheEntryDirtyClosing = [CacheEntryClosed]"
| "next_states CacheEntryClosing = [CacheEntryClosed]"
| "next_states CacheEntryClosed = [CacheEntryClean, CacheEntryErrored]"

type_synonym Version = int

text \<open>
  \<open>be_cachebh\<close>: the entry has a handle of its cache blob; the zero time is 0; \<open>be_cancelInvalidate\<close>: the function to
  cancel an invalidation is set.
\<close>

record CachedBlobEntry =
  be_blobpath :: string
  be_cachebh :: bool
  be_state :: CacheEntryState
  be_bloblen :: int
  be_validlen :: int
  be_lastUsed :: time
  be_lastWrite :: time
  be_lastSync :: time
  be_syncCount :: int
  be_handles :: "(nat, flags) fmap"
  be_cancelInvalidate :: bool

datatype spawned = InvalidateCacheTask nat | CloseAbandoned nat

record ('c, 'b) CBS =
  cbs_cachebs :: 'c
  cbs_backendbs :: 'b
  cbs_bever :: "(string, Version) fmap"
  cbs_bes :: "(nat, CachedBlobEntry) fmap"
  cbs_next :: nat
  cbs_spawned :: "spawned list"

type_synonym ('c, 'b, 'a) cbsop = "(('c, 'b) CBS, 'a) action"

text \<open>
  The stores. The cache: blobs addressed by path, open handles included, and a stream writer if it is a
  \<open>BlobStore\<close>; the backend: stream readers and writers. What is written to a backend writer need not be
  in the blob before the writer is closed. Readers and writers are references; where they stand in their
  stream is part of the store.
\<close>

record ('c, 'cw, 'b, 'r, 'w) cbs_env =
  ce_queryVersion :: "string \<Rightarrow> 'c \<Rightarrow> Version result"
  ce_Open :: "string \<Rightarrow> flags \<Rightarrow> 'c \<Rightarrow> 'c \<times> unit result"
  ce_PRead :: "string \<Rightarrow> nat \<Rightarrow> int \<Rightarrow> 'c \<Rightarrow> 'c \<times> (byte list) result"
  ce_PWrite :: "string \<Rightarrow> byte list \<Rightarrow> int \<Rightarrow> 'c \<Rightarrow> 'c \<times> unit result"
  ce_Size :: "string \<Rightarrow> 'c \<Rightarrow> int"
  ce_Truncate :: "string \<Rightarrow> int \<Rightarrow> 'c \<Rightarrow> 'c \<times> unit result"
  ce_Sync :: "(string \<Rightarrow> 'c \<Rightarrow> 'c \<times> unit result) option"
  ce_Close :: "string \<Rightarrow> 'c \<Rightarrow> 'c \<times> unit result"
  ce_RemoveBlob :: "string \<Rightarrow> 'c \<Rightarrow> 'c \<times> unit result"
  ce_OpenWriter :: "(string \<Rightarrow> 'c \<Rightarrow> 'c \<times> 'cw result) option"
  ce_Write :: "byte list \<Rightarrow> 'cw \<Rightarrow> 'c \<Rightarrow> 'c \<times> nat \<times> error option"
  ce_CloseWriter :: "'cw \<Rightarrow> 'c \<Rightarrow> 'c \<times> unit result"
  bk_OpenReader :: "string \<Rightarrow> 'b \<Rightarrow> 'b \<times> 'r result"
  bk_Read :: "nat \<Rightarrow> 'r \<Rightarrow> 'b \<Rightarrow> 'b \<times> byte list \<times> error option"
  bk_queryVersion :: "'r \<Rightarrow> 'b \<Rightarrow> 'b \<times> Version result"
  bk_CloseReader :: "'r \<Rightarrow> 'b \<Rightarrow> 'b \<times> unit result"
  bk_BlobSize :: "string \<Rightarrow> 'b \<Rightarrow> int \<times> error option"
  bk_OpenWriter :: "string \<Rightarrow> 'b \<Rightarrow> 'b \<times> 'w result"
  bk_Write :: "byte list \<Rightarrow> 'w \<Rightarrow> 'b \<Rightarrow> 'b \<times> unit result"
  bk_CloseWriter :: "'w \<Rightarrow> 'b \<Rightarrow> 'b \<times> unit result"
  bk_RemoveBlob :: "(string \<Rightarrow> 'b \<Rightarrow> 'b \<times> unit result) option"

definition on_cache :: "('c \<Rightarrow> 'c \<times> 'a result) \<Rightarrow> ('c, 'b, 'a) cbsop" where
  "on_cache f s = (case f (cbs_cachebs s) of (c, r) \<Rightarrow> (s\<lparr>cbs_cachebs := c\<rparr>, r))"

definition on_backend :: "('b \<Rightarrow> 'b \<times> 'a result) \<Rightarrow> ('c, 'b, 'a) cbsop" where
  "on_backend f s = (case f (cbs_backendbs s) of (b, r) \<Rightarrow> (s\<lparr>cbs_backendbs := b\<rparr>, r))"

definition with_be :: "nat \<Rightarrow> (CachedBlobEntry \<Rightarrow> ('c, 'b, 'a) cbsop) \<Rightarrow> ('c, 'b, 'a) cbsop" where
  "with_be p f s =
     (case fmlookup (cbs_bes s) p of None \<Rightarrow> (s, Inl (Panic ''nil pointer dereference'')) | Some be \<Rightarrow> f be s)"

definition upd_be :: "nat \<Rightarrow> (CachedBlobEntry \<Rightarrow> CachedBlobEntry) \<Rightarrow> ('c, 'b, unit) cbsop" where
  "upd_be p f = with_be p (\<lambda>be s. (s\<lparr>cbs_bes := fmupd p (f be) (cbs_bes s)\<rparr>, Inr ()))"

definition spawn :: "spawned \<Rightarrow> ('c, 'b, unit) cbsop" where
  "spawn t s = (s\<lparr>cbs_spawned := cbs_spawned s @ [t]\<rparr>, Inr ())"

definition NewCachedBlobEntry :: "string \<Rightarrow> CachedBlobEntry" where
  "NewCachedBlobEntry blobpath =
     \<lparr>be_blobpath = blobpath, be_cachebh = False, be_state = CacheEntryUninitialized, be_bloblen = - 1, be_validlen = 0,
      be_lastUsed = 0, be_lastWrite = 0, be_lastSync = 0, be_syncCount = 0, be_handles = fmempty, be_cancelInvalidate = False\<rparr>"

definition updateState :: "nat \<Rightarrow> CacheEntryState \<Rightarrow> ('c, 'b, unit) cbsop" where
  "updateState p newState =
     with_be p (\<lambda>be.
       if newState \<in> set (next_states (be_state be)) then upd_be p (\<lambda>be. be\<lparr>be_state := newState\<rparr>)
       else fail (Panic ''Unexpected cache state''))"

section \<open>Versions of the backend\<close>

definition CachedBackendVersion_Set :: "string \<Rightarrow> Version \<Rightarrow> ('c, 'b, unit) cbsop" where
  "CachedBackendVersion_Set blobpath ver s = (s\<lparr>cbs_bever := fmupd blobpath ver (cbs_bever s)\<rparr>, Inr ())"

definition CachedBackendVersion_Query :: "('c, 'cw, 'b, 'r, 'w) cbs_env \<Rightarrow> string \<Rightarrow> ('c, 'b, Version) cbsop" where
  "CachedBackendVersion_Query env blobpath s0 =
     (case fmlookup (cbs_bever s0) blobpath of
        Some ver \<Rightarrow> (s0, Inr ver)
      | None \<Rightarrow>
          (case on_backend (bk_OpenReader env blobpath) s0 of
             (s1, Inl e) \<Rightarrow>
               if IsNotExist e then and_then (CachedBackendVersion_Set blobpath 0) (\<lambda>_. ret 0) s1
               else fail (errorf ''Failed to open backend blob for ver query'' e) s1
           | (s1, Inr r) \<Rightarrow>
               deferring
                 (and_then (wrapping ''Failed to query backend blob ver'' (on_backend (bk_queryVersion env r))) (\<lambda>ver.
                  and_then (CachedBackendVersion_Set blobpath ver) (\<lambda>_. ret ver)))
                 (ignoring (on_backend (bk_CloseReader env r))) s1))"

definition CachedBackendVersion_Delete :: "string \<Rightarrow> ('c, 'b, unit) cbsop" where
  "CachedBackendVersion_Delete blobpath s = (s\<lparr>cbs_bever := fmdrop blobpath (cbs_bever s)\<rparr>, Inr ())"

section \<open>Opening\<close>

definition errored :: "nat \<Rightarrow> error \<Rightarrow> ('c, 'b, 'a) cbsop" where
  "errored p e =
     and_then (updateState p CacheEntryErrored) (\<lambda>_. and_then (spawn (CloseAbandoned p)) (\<lambda>_. fail e))"

text \<open>The state an entry starts in, by the versions of the cache and the backend.\<close>

definition choose_state ::
    "('c, 'cw, 'b, 'r, 'w) cbs_env \<Rightarrow> nat \<Rightarrow> string \<Rightarrow> Version \<Rightarrow> Version \<Rightarrow> ('c, 'b, unit) cbsop" where
  "choose_state env p bp cachever backendver =
     and_then (upd_be p (\<lambda>be. be\<lparr>be_cachebh := True, be_handles := fmempty\<rparr>)) (\<lambda>_.
       if cachever > backendver then
         and_then (updateState p CacheEntryClean) (\<lambda>_.
         and_then (updateState p CacheEntryWriteInProgress) (\<lambda>_.
         and_then (updateState p CacheEntryDirty) (\<lambda>_ s.
           let n = ce_Size env bp (cbs_cachebs s) in upd_be p (\<lambda>be. be\<lparr>be_bloblen := n, be_validlen := n\<rparr>) s)))
       else if cachever = backendver then
         and_then (updateState p CacheEntryClean) (\<lambda>_ s.
           let n = ce_Size env bp (cbs_cachebs s) in upd_be p (\<lambda>be. be\<lparr>be_bloblen := n, be_validlen := n\<rparr>) s)
       else (\<lambda>s.
         case bk_BlobSize env bp (cbs_backendbs s) of
           (n, err) \<Rightarrow>
             and_then (upd_be p (\<lambda>be. be\<lparr>be_bloblen := n\<rparr>)) (\<lambda>_.
               case err of
                 Some e \<Rightarrow> if is_panic e then fail e else errored p (errorf ''Failed to query backend blobsize'' e)
               | None \<Rightarrow>
                   if n = 0 then updateState p CacheEntryClean
                   else
                     and_then (updateState p CacheEntryInvalidating) (\<lambda>_.
                     and_then (upd_be p (\<lambda>be. be\<lparr>be_validlen := 0\<rparr>)) (\<lambda>_.
                       spawn (InvalidateCacheTask p)))) s))"

definition initializeWithLock :: "('c, 'cw, 'b, 'r, 'w) cbs_env \<Rightarrow> nat \<Rightarrow> ('c, 'b, unit) cbsop" where
  "initializeWithLock env p =
     with_be p (\<lambda>be.
       if be_state be \<noteq> CacheEntryUninitialized \<and> be_state be \<noteq> CacheEntryClosed
       then fail (Panic ''initializeWithLock called from unexpected state'')
       else
         let bp = be_blobpath be in
         and_then
           (rescue (on_cache (ce_Open env bp O_RDWRCREATE)) (\<lambda>e. errored p (errorf ''Failed to open cache blob'' e))) (\<lambda>_.
         and_then
           (rescue (\<lambda>s. (s, ce_queryVersion env bp (cbs_cachebs s))) (\<lambda>e. errored p (errorf ''Failed to query cached blob ver'' e))) (\<lambda>cachever.
         and_then
           (rescue (CachedBackendVersion_Query env bp) (\<lambda>e. errored p e)) (\<lambda>backendver.
           choose_state env p bp cachever backendver))))"

text \<open>
  \<open>OpenHandle\<close>. The loop has no case for \<open>DirtyClosing\<close>: it spins with the mutex held.
\<close>

definition OpenHandle_loop :: "('c, 'cw, 'b, 'r, 'w) cbs_env \<Rightarrow> nat \<Rightarrow> ('c, 'b, unit) cbsop" where
  "OpenHandle_loop env p =
     with_be p (\<lambda>be.
       case be_state be of
         CacheEntryClosed \<Rightarrow> initializeWithLock env p
       | CacheEntryUninitialized \<Rightarrow> initializeWithLock env p
       | CacheEntryErrored \<Rightarrow> fail (Fmt ''Cache entry is in errored state.'')
       | CacheEntryErroredClosed \<Rightarrow> fail (Fmt ''Previous attempt to open the entry has failed. Declining to OpenHandle.'')
       | CacheEntryClosing \<Rightarrow> fail Waits
       | CacheEntryDirtyClosing \<Rightarrow> fail Hang
       | _ \<Rightarrow> ret ())"

definition OpenHandle :: "('c, 'cw, 'b, 'r, 'w) cbs_env \<Rightarrow> time \<Rightarrow> nat \<Rightarrow> flags \<Rightarrow> ('c, 'b, nat) cbsop" where
  "OpenHandle env now p flags =
     and_then (OpenHandle_loop env p) (\<lambda>_ s.
       let h = cbs_next s in
       and_then (upd_be p (\<lambda>be. be\<lparr>be_lastUsed := now, be_handles := fmupd h flags (be_handles be)\<rparr>)) (\<lambda>_. ret h)
         (s\<lparr>cbs_next := Suc h\<rparr>))"

definition CloseHandle :: "nat \<Rightarrow> nat \<Rightarrow> ('c, 'b, unit) cbsop" where
  "CloseHandle p h = upd_be p (\<lambda>be. be\<lparr>be_handles := fmdrop h (be_handles be)\<rparr>)"

section \<open>Filling the cache\<close>

definition waitUntilInvalidateAtLeast :: "nat \<Rightarrow> int \<Rightarrow> ('c, 'b, unit) cbsop" where
  "waitUntilInvalidateAtLeast p requiredLen =
     with_be p (\<lambda>be.
       case be_state be of
         CacheEntryInvalidating \<Rightarrow> if be_validlen be \<ge> requiredLen then ret () else fail Waits
       | CacheEntryErrored \<Rightarrow> fail (Fmt ''InvalidationFailed for blob'')
       | CacheEntryClosing \<Rightarrow> fail (Fmt ''InvalidationFailed for blob'')
       | CacheEntryErroredClosed \<Rightarrow> fail (Fmt ''InvalidationFailed for blob'')
       | CacheEntryUninitialized \<Rightarrow> fail (Panic ''Invalid state while in waitUntilInvalidateAtLeast!'')
       | CacheEntryDirtyClosing \<Rightarrow> fail (Panic ''Invalid state while in waitUntilInvalidateAtLeast!'')
       | CacheEntryClosed \<Rightarrow> fail (Panic ''Invalid state while in waitUntilInvalidateAtLeast!'')
       | _ \<Rightarrow> ret ())"

definition waitUntilInvalidateDone :: "nat \<Rightarrow> ('c, 'b, unit) cbsop" where
  "waitUntilInvalidateDone p = with_be p (\<lambda>be. waitUntilInvalidateAtLeast p (be_bloblen be))"

definition invalidateBlockSize :: nat where
  "invalidateBlockSize = 32 * 1024"

text \<open>\<open>invalidateInternal\<close> up to the first release of the mutex: whether there is anything to fetch.\<close>

definition invalidate_begin :: "nat \<Rightarrow> ('c, 'b, bool) cbsop" where
  "invalidate_begin p =
     with_be p (\<lambda>be.
       if be_state be \<noteq> CacheEntryInvalidating then fail (Fmt ''invalidate: blobentry in invalid state'')
       else if be_validlen be \<ge> be_bloblen be then and_then (updateState p CacheEntryClean) (\<lambda>_. ret False)
       else and_then (upd_be p (\<lambda>be. be\<lparr>be_cancelInvalidate := True\<rparr>)) (\<lambda>_. ret True))"

text \<open>The reader and the writer; the error of \<open>OpenWriter\<close> is not looked at, and the nil writer panics.\<close>

definition invalidate_reader :: "('c, 'cw, 'b, 'r, 'w) cbs_env \<Rightarrow> string \<Rightarrow> ('c, 'b, 'r) cbsop" where
  "invalidate_reader env bp =
     wrapping ''Failed to open backend blob for cache invalidation'' (on_backend (bk_OpenReader env bp))"

definition invalidate_writer :: "('c, 'cw, 'b, 'r, 'w) cbs_env \<Rightarrow> string \<Rightarrow> ('c, 'b, 'cw) cbsop" where
  "invalidate_writer env bp =
     (case ce_OpenWriter env of
        None \<Rightarrow> fail (Fmt ''FIXME: only cachebs supporting OpenWriter is currently supported'')
      | Some ow \<Rightarrow> rescue (on_cache (ow bp)) (\<lambda>e. fail (Panic ''nil pointer dereference'')))"

text \<open>The bytes written to the cache become valid, in one critical section; the result says whether they were the last.\<close>

definition invalidate_progress :: "nat \<Rightarrow> nat \<Rightarrow> ('c, 'b, bool) cbsop" where
  "invalidate_progress p nw =
     and_then (upd_be p (\<lambda>be. be\<lparr>be_validlen := be_validlen be + int nw\<rparr>)) (\<lambda>_.
       with_be p (\<lambda>be.
         if be_validlen be = be_bloblen be then
           and_then (updateState p CacheEntryClean) (\<lambda>_.
           and_then (upd_be p (\<lambda>be. be\<lparr>be_cancelInvalidate := False\<rparr>)) (\<lambda>_. ret True))
         else if be_validlen be > be_bloblen be then fail (Panic ''wrote more than bloblen'')
         else ret False))"

text \<open>
  One round of the loop, with the error of the context if it was cancelled. The result says whether there is
  another round; at an early end of the blob there is none.
\<close>

definition invalidate_round ::
    "('c, 'cw, 'b, 'r, 'w) cbs_env \<Rightarrow> error option \<Rightarrow> nat \<Rightarrow> 'r \<Rightarrow> 'cw \<Rightarrow> ('c, 'b, bool) cbsop" where
  "invalidate_round env cancelled p r cw s0 =
     (case (case cancelled of
              Some e \<Rightarrow> (cbs_backendbs s0, [], Some e)
            | None \<Rightarrow> bk_Read env invalidateBlockSize r (cbs_backendbs s0)) of
        (b, bs, er) \<Rightarrow>
          and_then
            (if bs = [] then ret False
             else (\<lambda>s.
               case ce_Write env bs cw (cbs_cachebs s) of
                 (c, nw, ew) \<Rightarrow>
                   and_then (if nw > 0 then invalidate_progress p nw else ret False) (\<lambda>done.
                     case ew of
                       Some e \<Rightarrow> fail (errorf ''Failed to write backend blob content to cache'' e)
                     | None \<Rightarrow>
                         if nw \<noteq> length bs then fail (Fmt ''Failed to write backend blob content to cache'')
                         else ret done) (s\<lparr>cbs_cachebs := c\<rparr>))) (\<lambda>done.
            case er of
              Some e \<Rightarrow> if e = EOF then ret False else fail e
            | None \<Rightarrow> ret (\<not> done)) (s0\<lparr>cbs_backendbs := b\<rparr>))"

text \<open>What \<open>invalidate\<close> does with an error.\<close>

definition invalidate_failed :: "nat \<Rightarrow> error \<Rightarrow> ('c, 'b, unit) cbsop" where
  "invalidate_failed p e =
     and_then (upd_be p (\<lambda>be. be\<lparr>be_validlen := 0\<rparr>)) (\<lambda>_. errored p e)"

primrec invalidate_loop ::
    "nat \<Rightarrow> ('c, 'cw, 'b, 'r, 'w) cbs_env \<Rightarrow> nat \<Rightarrow> 'r \<Rightarrow> 'cw \<Rightarrow> ('c, 'b, unit) cbsop" where
  "invalidate_loop 0 env p r cw = fail Hang"
| "invalidate_loop (Suc fuel) env p r cw =
     and_then (invalidate_round env None p r cw) (\<lambda>more. if more then invalidate_loop fuel env p r cw else ret ())"

definition invalidateInternal :: "('c, 'cw, 'b, 'r, 'w) cbs_env \<Rightarrow> nat \<Rightarrow> nat \<Rightarrow> ('c, 'b, unit) cbsop" where
  "invalidateInternal env fuel p =
     with_be p (\<lambda>be.
       and_then (invalidate_begin p) (\<lambda>more.
         if \<not> more then ret ()
         else
           and_then (invalidate_reader env (be_blobpath be)) (\<lambda>r.
             deferring
               (and_then (invalidate_writer env (be_blobpath be)) (\<lambda>cw.
                  deferring (invalidate_loop fuel env p r cw) (ignoring (on_cache (ce_CloseWriter env cw)))))
               (ignoring (on_backend (bk_CloseReader env r))))))"

definition invalidate :: "('c, 'cw, 'b, 'r, 'w) cbs_env \<Rightarrow> nat \<Rightarrow> nat \<Rightarrow> ('c, 'b, unit) cbsop" where
  "invalidate env fuel p = rescue (invalidateInternal env fuel p) (invalidate_failed p)"

section \<open>Reading and writing\<close>

text \<open>\<open>PRead\<close>: the length needed is fixed before the wait.\<close>

definition PRead_begin :: "time \<Rightarrow> nat \<Rightarrow> nat \<Rightarrow> int \<Rightarrow> ('c, 'b, int) cbsop" where
  "PRead_begin now p n offset =
     and_then (upd_be p (\<lambda>be. be\<lparr>be_lastUsed := now\<rparr>)) (\<lambda>_.
       with_be p (\<lambda>be. ret (min (wrap64 (offset + int n)) (be_bloblen be))))"

definition cache_PRead :: "('c, 'cw, 'b, 'r, 'w) cbs_env \<Rightarrow> nat \<Rightarrow> nat \<Rightarrow> int \<Rightarrow> ('c, 'b, byte list) cbsop" where
  "cache_PRead env p n offset = with_be p (\<lambda>be. on_cache (ce_PRead env (be_blobpath be) n offset))"

definition CachedBlobEntry_PRead ::
    "('c, 'cw, 'b, 'r, 'w) cbs_env \<Rightarrow> time \<Rightarrow> nat \<Rightarrow> nat \<Rightarrow> int \<Rightarrow> ('c, 'b, byte list) cbsop" where
  "CachedBlobEntry_PRead env now p n offset =
     and_then (PRead_begin now p n offset) (\<lambda>requiredLen.
     and_then (waitUntilInvalidateAtLeast p requiredLen) (\<lambda>_. cache_PRead env p n offset))"

definition markWriteInProgressWithLock :: "time \<Rightarrow> nat \<Rightarrow> ('c, 'b, unit) cbsop" where
  "markWriteInProgressWithLock now p =
     and_then (upd_be p (\<lambda>be. be\<lparr>be_lastUsed := now, be_lastWrite := now\<rparr>)) (\<lambda>_.
     and_then
       (with_be p (\<lambda>be.
          case be_state be of
            CacheEntryClean \<Rightarrow> updateState p CacheEntryWriteInProgress
          | CacheEntryDirty \<Rightarrow> updateState p CacheEntryWriteInProgress
          | CacheEntryWritebackInProgress \<Rightarrow> updateState p CacheEntryStaleWritebackInProgress
          | CacheEntryStaleWritebackInProgress \<Rightarrow> updateState p CacheEntryStaleWritebackInProgress
          | _ \<Rightarrow> fail (Panic ''markWriteInProgressWithLock called from unexpected state''))) (\<lambda>_.
       upd_be p (\<lambda>be. if be_lastSync be = 0 then be\<lparr>be_lastSync := now\<rparr> else be)))"

definition markWriteEndWithLock :: "nat \<Rightarrow> ('c, 'b, unit) cbsop" where
  "markWriteEndWithLock p =
     with_be p (\<lambda>be.
       case be_state be of
         CacheEntryWriteInProgress \<Rightarrow> updateState p CacheEntryDirty
       | CacheEntryStaleWritebackInProgress \<Rightarrow> ret ()
       | _ \<Rightarrow> fail (Panic ''markWriteEndWithLock called from unexpected state''))"

text \<open>The first critical section of \<open>PWrite\<close>; the result says whether there is anything to write.\<close>

definition PWrite_begin :: "time \<Rightarrow> nat \<Rightarrow> byte list \<Rightarrow> int \<Rightarrow> ('c, 'b, bool) cbsop" where
  "PWrite_begin now p bs offset =
     and_then (waitUntilInvalidateDone p) (\<lambda>_.
       if bs = [] then ret False
       else
         let right = wrap64 (offset + int (length bs)) in
         and_then (upd_be p (\<lambda>be. if right > be_bloblen be then be\<lparr>be_bloblen := right, be_validlen := right\<rparr> else be)) (\<lambda>_.
         and_then (markWriteInProgressWithLock now p) (\<lambda>_. ret True)))"

definition cache_PWrite :: "('c, 'cw, 'b, 'r, 'w) cbs_env \<Rightarrow> nat \<Rightarrow> byte list \<Rightarrow> int \<Rightarrow> ('c, 'b, unit) cbsop" where
  "cache_PWrite env p bs offset = with_be p (\<lambda>be. on_cache (ce_PWrite env (be_blobpath be) bs offset))"

text \<open>A write to the cache, whatever its result, is followed by the second critical section.\<close>

definition ending_write :: "nat \<Rightarrow> ('c, 'b, unit) cbsop \<Rightarrow> ('c, 'b, unit) cbsop" where
  "ending_write p write s =
     (case write s of
        (s', Inl e) \<Rightarrow> if is_panic e then (s', Inl e) else and_then (markWriteEndWithLock p) (\<lambda>_. fail e) s'
      | (s', Inr _) \<Rightarrow> markWriteEndWithLock p s')"

definition CachedBlobEntry_PWrite ::
    "('c, 'cw, 'b, 'r, 'w) cbs_env \<Rightarrow> time \<Rightarrow> nat \<Rightarrow> byte list \<Rightarrow> int \<Rightarrow> ('c, 'b, unit) cbsop" where
  "CachedBlobEntry_PWrite env now p bs offset =
     and_then (PWrite_begin now p bs offset) (\<lambda>go. if go then ending_write p (cache_PWrite env p bs offset) else ret ())"

definition CachedBlobEntry_Size :: "nat \<Rightarrow> ('c, 'b, int) cbsop" where
  "CachedBlobEntry_Size p = with_be p (\<lambda>be. ret (be_bloblen be))"

text \<open>\<open>Truncate\<close> goes on after a failed invalidation.\<close>

definition Truncate_begin :: "time \<Rightarrow> nat \<Rightarrow> int \<Rightarrow> ('c, 'b, bool) cbsop" where
  "Truncate_begin now p newsize =
     and_then (ignoring (waitUntilInvalidateDone p)) (\<lambda>_.
       with_be p (\<lambda>be.
         if be_bloblen be = newsize then ret False
         else
           and_then (upd_be p (\<lambda>be. be\<lparr>be_bloblen := newsize, be_validlen := newsize\<rparr>)) (\<lambda>_.
           and_then (markWriteInProgressWithLock now p) (\<lambda>_. ret True))))"

definition cache_Truncate :: "('c, 'cw, 'b, 'r, 'w) cbs_env \<Rightarrow> nat \<Rightarrow> int \<Rightarrow> ('c, 'b, unit) cbsop" where
  "cache_Truncate env p newsize = with_be p (\<lambda>be. on_cache (ce_Truncate env (be_blobpath be) newsize))"

definition CachedBlobEntry_Truncate ::
    "('c, 'cw, 'b, 'r, 'w) cbs_env \<Rightarrow> time \<Rightarrow> nat \<Rightarrow> int \<Rightarrow> ('c, 'b, unit) cbsop" where
  "CachedBlobEntry_Truncate env now p newsize =
     and_then (Truncate_begin now p newsize) (\<lambda>go. if go then ending_write p (cache_Truncate env p newsize) else ret ())"

section \<open>Writing back\<close>

text \<open>
  \<open>writeBackWithLock\<close> up to the release of the mutex: the version that is written back, if anything is.
\<close>

definition writeBack_begin :: "('c, 'cw, 'b, 'r, 'w) cbs_env \<Rightarrow> nat \<Rightarrow> ('c, 'b, Version option) cbsop" where
  "writeBack_begin env p =
     with_be p (\<lambda>be.
       if be_state be = CacheEntryClean \<or> be_state be = CacheEntryClosing then ret None
       else if be_state be \<noteq> CacheEntryDirty \<and> be_state be \<noteq> CacheEntryDirtyClosing
       then fail (Panic ''writeBackWithLock called in state'')
       else
         and_then (wrapping ''Failed to query cached blob ver'' (\<lambda>s. (s, ce_queryVersion env (be_blobpath be) (cbs_cachebs s)))) (\<lambda>cachever.
         and_then (wrapping ''Failed to query backend blob ver'' (CachedBackendVersion_Query env (be_blobpath be))) (\<lambda>bever.
           if bever = cachever then
             and_then (updateState p CacheEntryWritebackInProgress) (\<lambda>_.
             and_then (updateState p CacheEntryClean) (\<lambda>_. ret None))
           else if bever > cachever then fail (Fmt ''backend version is newer than cached version when writeBack'')
           else
             and_then
               (if be_state be = CacheEntryDirty then updateState p CacheEntryWritebackInProgress else ret ()) (\<lambda>_.
               ret (Some cachever)))))"

text \<open>An error after that: the mutex is taken again for the transition.\<close>

definition writeBack_failed :: "nat \<Rightarrow> error \<Rightarrow> ('c, 'b, 'a) cbsop" where
  "writeBack_failed p e = and_then (updateState p CacheEntryErrored) (\<lambda>_. fail e)"

definition writeBack_open :: "('c, 'cw, 'b, 'r, 'w) cbs_env \<Rightarrow> nat \<Rightarrow> ('c, 'b, 'w) cbsop" where
  "writeBack_open env p =
     with_be p (\<lambda>be.
       rescue (on_backend (bk_OpenWriter env (be_blobpath be)))
         (\<lambda>e. writeBack_failed p (errorf ''Failed to open backend blob writer'' e)))"

text \<open>One block of \<open>io.Copy\<close>: the next bytes of the cache blob, of which \<open>n\<close> are left.\<close>

definition copyBlockSize :: nat where
  "copyBlockSize = 32 * 1024"

definition writeBack_block ::
    "('c, 'cw, 'b, 'r, 'w) cbs_env \<Rightarrow> nat \<Rightarrow> 'w \<Rightarrow> nat \<Rightarrow> nat \<Rightarrow> ('c, 'b, nat) cbsop" where
  "writeBack_block env p w off n =
     and_then (cache_PRead env p (min copyBlockSize n) (int off)) (\<lambda>bs.
     and_then (on_backend (bk_Write env bs w)) (\<lambda>_. ret (min copyBlockSize n)))"

function copy_blocks :: "('c, 'cw, 'b, 'r, 'w) cbs_env \<Rightarrow> nat \<Rightarrow> 'w \<Rightarrow> nat \<Rightarrow> nat \<Rightarrow> ('c, 'b, unit) cbsop" where
  "copy_blocks env p w off n s =
     (if n = 0 then ret () s
      else
        case writeBack_block env p w off n s of
          (s', Inl e) \<Rightarrow> (s', Inl e)
        | (s', Inr _) \<Rightarrow> copy_blocks env p w (off + min copyBlockSize n) (n - min copyBlockSize n) s')"
  by pat_completeness auto
termination by (relation "measure (\<lambda>(env, p, w, off, n, s). n)") (auto simp: copyBlockSize_def)

text \<open>The second critical section; the writer is closed at its end, and an error of \<open>Close\<close> is printed.\<close>

definition writeBack_end :: "('c, 'cw, 'b, 'r, 'w) cbs_env \<Rightarrow> nat \<Rightarrow> 'w \<Rightarrow> Version \<Rightarrow> ('c, 'b, unit) cbsop" where
  "writeBack_end env p w cachever =
     deferring
       (with_be p (\<lambda>be.
          and_then (CachedBackendVersion_Set (be_blobpath be) cachever) (\<lambda>_.
            case be_state be of
              CacheEntryWritebackInProgress \<Rightarrow> (\<lambda>s.
                case ce_queryVersion env (be_blobpath be) (cbs_cachebs s) of
                  Inl e \<Rightarrow>
                    if is_panic e then (s, Inl e) else writeBack_failed p (errorf ''Failed to query cached blob ver'' e) s
                | Inr after \<Rightarrow> updateState p (if after = cachever then CacheEntryClean else CacheEntryDirty) s)
            | CacheEntryStaleWritebackInProgress \<Rightarrow> updateState p CacheEntryDirty
            | _ \<Rightarrow> ret ())))
       (ignoring (on_backend (bk_CloseWriter env w)))"

definition writeBackWithLock :: "('c, 'cw, 'b, 'r, 'w) cbs_env \<Rightarrow> nat \<Rightarrow> ('c, 'b, unit) cbsop" where
  "writeBackWithLock env p =
     and_then (writeBack_begin env p) (\<lambda>v.
       case v of
         None \<Rightarrow> ret ()
       | Some cachever \<Rightarrow>
           and_then (writeBack_open env p) (\<lambda>w s.
             case fmlookup (cbs_bes s) p of
               None \<Rightarrow> (s, Inl (Panic ''nil pointer dereference''))
             | Some be \<Rightarrow>
                 (case copy_blocks env p w 0 (nat (ce_Size env (be_blobpath be) (cbs_cachebs s))) s of
                    (s', Inl e) \<Rightarrow>
                      if is_panic e then (s', Inl e)
                      else
                        deferring (writeBack_failed p (errorf ''Failed to copy dirty data to backend blob writer'' e))
                          (ignoring (on_backend (bk_CloseWriter env w))) s'
                  | (s', Inr _) \<Rightarrow> writeBack_end env p w cachever s')))"

section \<open>Sync\<close>

text \<open>The loop of \<open>Sync\<close>: whether there is anything to write back.\<close>

definition Sync_loop :: "nat \<Rightarrow> ('c, 'b, bool) cbsop" where
  "Sync_loop p =
     with_be p (\<lambda>be.
       case be_state be of
         CacheEntryUninitialized \<Rightarrow> fail (Panic ''Sync shouldn't get into this state'')
       | CacheEntryInvalidating \<Rightarrow> and_then (waitUntilInvalidateDone p) (\<lambda>_. fail Hang)
       | CacheEntryWriteInProgress \<Rightarrow> fail Waits
       | CacheEntryWritebackInProgress \<Rightarrow> fail Waits
       | CacheEntryStaleWritebackInProgress \<Rightarrow> fail Waits
       | CacheEntryDirty \<Rightarrow> ret True
       | _ \<Rightarrow> ret False)"

definition cache_Sync :: "('c, 'cw, 'b, 'r, 'w) cbs_env \<Rightarrow> nat \<Rightarrow> ('c, 'b, unit) cbsop" where
  "cache_Sync env p =
     with_be p (\<lambda>be. case ce_Sync env of None \<Rightarrow> ret () | Some sync \<Rightarrow> on_cache (sync (be_blobpath be)))"

definition count_sync :: "time \<Rightarrow> nat \<Rightarrow> ('c, 'b, unit) cbsop" where
  "count_sync now p = upd_be p (\<lambda>be. be\<lparr>be_syncCount := be_syncCount be + 1, be_lastSync := now\<rparr>)"

text \<open>The cache blob is synced beside the write back; both run to their end, and their errors are collected.\<close>

definition CachedBlobEntry_Sync :: "('c, 'cw, 'b, 'r, 'w) cbs_env \<Rightarrow> time \<Rightarrow> nat \<Rightarrow> ('c, 'b, unit) cbsop" where
  "CachedBlobEntry_Sync env now p =
     and_then (Sync_loop p) (\<lambda>dirty.
       if \<not> dirty then ret ()
       else (\<lambda>s.
         case wrapping ''Failed to writeback dirty'' (writeBackWithLock env p) s of
           (s1, r1) \<Rightarrow>
             if (case r1 of Inl e \<Rightarrow> is_panic e | Inr _ \<Rightarrow> False) then (s1, r1)
             else
               (case wrapping ''Failed to sync cache blob'' (cache_Sync env p) s1 of
                  (s2, r2) \<Rightarrow>
                    if (case r2 of Inl e \<Rightarrow> is_panic e | Inr _ \<Rightarrow> False) then (s2, r2)
                    else and_then (count_sync now p) (\<lambda>_ s. (s, case r1 of Inl e \<Rightarrow> Inl e | Inr _ \<Rightarrow> r2)) s2)))"

section \<open>Close\<close>

datatype CloseMode = abandonAndClose | writebackAndClose | writebackIfNeededAndClose

text \<open>
  Up to the loop: open handles are an error, and \<open>writebackIfNeededAndClose\<close> is resolved. Only an entry
  that is closed after an error gets \<open>writebackAndClose\<close>.
\<close>

definition Close_begin :: "CloseMode \<Rightarrow> nat \<Rightarrow> ('c, 'b, CloseMode) cbsop" where
  "Close_begin mode p =
     with_be p (\<lambda>be.
       if be_state be \<noteq> CacheEntryErrored \<and> be_handles be \<noteq> fmempty then fail (Fmt ''Entry has handles'')
       else
         ret (if mode = writebackIfNeededAndClose
              then (if be_state be = CacheEntryErroredClosed then writebackAndClose else abandonAndClose)
              else mode))"

text \<open>The loop: nothing to do, or the mode and whether the entry was in the state \<open>Errored\<close>.\<close>

definition Close_step :: "CloseMode \<Rightarrow> nat \<Rightarrow> ('c, 'b, (CloseMode \<times> bool) option) cbsop" where
  "Close_step mode p =
     with_be p (\<lambda>be.
       case be_state be of
         CacheEntryUninitialized \<Rightarrow> fail Hang
       | CacheEntryWriteInProgress \<Rightarrow> fail (Fmt ''logicerr: cacheBlobEntry shouldn't be Close()-d'')
       | CacheEntryErroredClosed \<Rightarrow> ret None
       | CacheEntryClosed \<Rightarrow> ret None
       | CacheEntryInvalidating \<Rightarrow>
           if mode \<noteq> abandonAndClose then
             and_then (ignoring (waitUntilInvalidateDone p)) (\<lambda>_.
               fail (Fmt ''invalidating entry can be only closed if going to be abandoned''))
           else and_then (updateState p CacheEntryClosing) (\<lambda>_. ret (Some (mode, False)))
       | CacheEntryErrored \<Rightarrow> ret (Some (abandonAndClose, True))
       | CacheEntryClean \<Rightarrow> and_then (updateState p CacheEntryClosing) (\<lambda>_. ret (Some (mode, False)))
       | CacheEntryDirty \<Rightarrow> and_then (updateState p CacheEntryDirtyClosing) (\<lambda>_. ret (Some (mode, False)))
       | _ \<Rightarrow> fail Waits)"

definition Close_loop :: "('c, 'cw, 'b, 'r, 'w) cbs_env \<Rightarrow> CloseMode \<Rightarrow> nat \<Rightarrow> ('c, 'b, (CloseMode \<times> bool) option) cbsop" where
  "Close_loop env mode p =
     with_be p (\<lambda>be.
       if be_state be = CacheEntryUninitialized then and_then (initializeWithLock env p) (\<lambda>_. Close_step mode p)
       else Close_step mode p)"

definition Close_end :: "('c, 'cw, 'b, 'r, 'w) cbs_env \<Rightarrow> bool \<Rightarrow> nat \<Rightarrow> ('c, 'b, unit) cbsop" where
  "Close_end env wasErrored p =
     with_be p (\<lambda>be.
       and_then
         (if be_cachebh be then wrapping ''Failed to close cache bh'' (on_cache (ce_Close env (be_blobpath be))) else ret ()) (\<lambda>_.
         if wasErrored then
           and_then (ignoring (on_cache (ce_RemoveBlob env (be_blobpath be)))) (\<lambda>_. updateState p CacheEntryErroredClosed)
         else updateState p CacheEntryClosed))"

definition CachedBlobEntry_Close ::
    "('c, 'cw, 'b, 'r, 'w) cbs_env \<Rightarrow> time \<Rightarrow> CloseMode \<Rightarrow> nat \<Rightarrow> ('c, 'b, unit) cbsop" where
  "CachedBlobEntry_Close env now mode0 p =
     and_then (Close_begin mode0 p) (\<lambda>mode1.
     and_then (Close_loop env mode1 p) (\<lambda>r.
       case r of
         None \<Rightarrow> ret ()
       | Some (mode, wasErrored) \<Rightarrow>
           and_then
             (if mode = writebackAndClose
              then and_then (wrapping ''Failed to writeback dirty'' (writeBackWithLock env p)) (\<lambda>_. count_sync now p)
              else ret ()) (\<lambda>_.
             Close_end env wasErrored p)))"

definition CloseWithLogErr :: "('c, 'cw, 'b, 'r, 'w) cbs_env \<Rightarrow> time \<Rightarrow> CloseMode \<Rightarrow> nat \<Rightarrow> ('c, 'b, unit) cbsop" where
  "CloseWithLogErr env now mode p = ignoring (CachedBlobEntry_Close env now mode p)"

definition InitializeForTesting :: "CacheEntryState \<Rightarrow> time \<Rightarrow> time \<Rightarrow> nat \<Rightarrow> ('c, 'b, unit) cbsop" where
  "InitializeForTesting st lastWrite lastSync p =
     upd_be p (\<lambda>be. be\<lparr>be_state := st, be_lastWrite := lastWrite, be_lastSync := lastSync\<rparr>)"

text \<open>The scheduler runs the task an entry started.\<close>

definition InvalidateCacheTask_Run :: "('c, 'cw, 'b, 'r, 'w) cbs_env \<Rightarrow> nat \<Rightarrow> nat \<Rightarrow> ('c, 'b, unit) cbsop" where
  "InvalidateCacheTask_Run env fuel p = invalidate env fuel p"

section \<open>Handles\<close>

record CachedBlobHandle =
  cbh_be :: nat
  cbh_flags :: flags
  cbh_id :: nat

definition CachedBlobHandle_PRead ::
    "('c, 'cw, 'b, 'r, 'w) cbs_env \<Rightarrow> time \<Rightarrow> CachedBlobHandle \<Rightarrow> nat \<Rightarrow> int \<Rightarrow> ('c, 'b, byte list) cbsop" where
  "CachedBlobHandle_PRead env now bh n offset =
     (if \<not> IsReadAllowed (cbh_flags bh) then fail (Errno EACCES) else CachedBlobEntry_PRead env now (cbh_be bh) n offset)"

definition CachedBlobHandle_PWrite ::
    "('c, 'cw, 'b, 'r, 'w) cbs_env \<Rightarrow> time \<Rightarrow> CachedBlobHandle \<Rightarrow> byte list \<Rightarrow> int \<Rightarrow> ('c, 'b, unit) cbsop" where
  "CachedBlobHandle_PWrite env now bh bs offset =
     (if \<not> IsWriteAllowed (cbh_flags bh) then fail (Errno EACCES) else CachedBlobEntry_PWrite env now (cbh_be bh) bs offset)"

definition CachedBlobHandle_Size :: "CachedBlobHandle \<Rightarrow> ('c, 'b, int) cbsop" where
  "CachedBlobHandle_Size bh = CachedBlobEntry_Size (cbh_be bh)"

definition CachedBlobHandle_Truncate ::
    "('c, 'cw, 'b, 'r, 'w) cbs_env \<Rightarrow> time \<Rightarrow> CachedBlobHandle \<Rightarrow> int \<Rightarrow> ('c, 'b, unit) cbsop" where
  "CachedBlobHandle_Truncate env now bh newsize =
     (if \<not> IsWriteAllowed (cbh_flags bh) then fail (Errno EACCES) else CachedBlobEntry_Truncate env now (cbh_be bh) newsize)"

definition CachedBlobHandle_Sync ::
    "('c, 'cw, 'b, 'r, 'w) cbs_env \<Rightarrow> time \<Rightarrow> CachedBlobHandle \<Rightarrow> ('c, 'b, unit) cbsop" where
  "CachedBlobHandle_Sync env now bh =
     (if \<not> IsWriteAllowed (cbh_flags bh) then ret () else CachedBlobEntry_Sync env now (cbh_be bh))"

definition CachedBlobHandle_Close :: "CachedBlobHandle \<Rightarrow> ('c, 'b, unit) cbsop" where
  "CachedBlobHandle_Close bh = CloseHandle (cbh_be bh) (cbh_id bh)"

section \<open>Info\<close>

record CachedBlobEntryInfo =
  ei_BlobPath :: string
  ei_State :: string
  ei_BlobLen :: int
  ei_ValidLen :: int
  ei_SyncCount :: int
  ei_LastUsed :: time
  ei_LastWrite :: time
  ei_LastSync :: time
  ei_NumberOfWriterHandles :: nat
  ei_NumberOfHandles :: nat

definition infoWithLock :: "CachedBlobEntry \<Rightarrow> CachedBlobEntryInfo" where
  "infoWithLock be =
     \<lparr>ei_BlobPath = be_blobpath be, ei_State = CacheEntryState_String (be_state be), ei_BlobLen = be_bloblen be,
      ei_ValidLen = be_validlen be, ei_SyncCount = be_syncCount be, ei_LastUsed = be_lastUsed be,
      ei_LastWrite = be_lastWrite be, ei_LastSync = be_lastSync be,
      ei_NumberOfWriterHandles = fcard (fmdom (fmfilter (\<lambda>h. \<exists>f. fmlookup (be_handles be) h = Some f \<and> IsWriteAllowed f) (be_handles be))),
      ei_NumberOfHandles = fcard (fmdom (be_handles be))\<rparr>"

end
