(* ===== verification/Cache_Steps.thy ===== *)
theory Cache_Steps
  imports Cache_Entry
begin

text \<open>
  Goroutines on one entry of the cached blob store. A configuration is the store and the calls in progress
  (\<open>activity\<close>): a call is where it stands between two of its critical sections. A step is one section or one call on a
  store, by any of them; the sections are those of \<open>Cache_Entry\<close>.
\<close>

section \<open>Entries on the heap\<close>

lemma with_be_Some [simp]: "fmlookup (cbs_bes s) p = Some be \<Longrightarrow> with_be p f s = f be s"
  by (simp add: with_be_def)

lemma upd_be_Some [simp]:
  "fmlookup (cbs_bes s) p = Some be \<Longrightarrow> upd_be p f s = (s\<lparr>cbs_bes := fmupd p (f be) (cbs_bes s)\<rparr>, Inr ())"
  by (simp add: upd_be_def)

lemma updateState_Some:
  "fmlookup (cbs_bes s) p = Some be \<Longrightarrow>
   updateState p st s =
     (if st \<in> set (next_states (be_state be)) then (s\<lparr>cbs_bes := fmupd p (be\<lparr>be_state := st\<rparr>) (cbs_bes s)\<rparr>, Inr ())
      else (s, Inl (Panic ''Unexpected cache state'')))"
  by (simp add: updateState_def fail_def)

text \<open>A deferred call whose error is only logged.\<close>

lemma deferring_ignoring:
  "deferring m (ignoring d) s =
     (case m s of
        (s', r) \<Rightarrow>
          if r = Inl Hang \<or> r = Inl Waits then (s', r)
          else (case d s' of (s'', Inl e) \<Rightarrow> (s'', if is_panic e then Inl e else r) | (s'', Inr _) \<Rightarrow> (s'', r)))"
  by (auto simp: deferring_def ignoring_def split: prod.splits sum.splits error.splits)

section \<open>Steps\<close>

datatype ('cw, 'r, 'w) activity =
    Writing "byte list" int
  | Truncating int
  | Written
  | FillOpening
  | Filling 'r 'cw
  | BackOpening bool Version
  | BackCopying bool Version 'w nat nat

fun is_writer :: "('cw, 'r, 'w) activity \<Rightarrow> bool" where
  "is_writer (Writing _ _) = True"
| "is_writer (Truncating _) = True"
| "is_writer Written = True"
| "is_writer _ = False"

fun is_fill :: "('cw, 'r, 'w) activity \<Rightarrow> bool" where
  "is_fill FillOpening = True"
| "is_fill (Filling _ _) = True"
| "is_fill _ = False"

fun is_back :: "('cw, 'r, 'w) activity \<Rightarrow> bool" where
  "is_back (BackOpening _ _) = True"
| "is_back (BackCopying _ _ _ _ _) = True"
| "is_back _ = False"

text \<open>
  \<open>go f s s' r\<close>: the section \<open>f\<close> runs from \<open>s\<close> to \<open>s'\<close> with the result \<open>r\<close>; \<open>fails f s s'\<close>: it returns an error.
  A section that waits, hangs or panics is no step.
\<close>

definition go :: "('x, 'a) action \<Rightarrow> 'x \<Rightarrow> 'x \<Rightarrow> 'a \<Rightarrow> bool" where
  "go f s s' r \<longleftrightarrow> f s = (s', Inr r)"

definition fails :: "('x, 'a) action \<Rightarrow> 'x \<Rightarrow> 'x \<Rightarrow> bool" where
  "fails f s s' \<longleftrightarrow> (\<exists>e. f s = (s', Inl e) \<and> \<not> is_panic e)"

definition sync_begin :: "('c, 'cw, 'b, 'r, 'w) cbs_env \<Rightarrow> nat \<Rightarrow> ('c, 'b, Version option) cbsop" where
  "sync_begin env p = and_then (Sync_loop p) (\<lambda>dirty. if dirty then writeBack_begin env p else ret None)"

definition close_begin ::
    "('c, 'cw, 'b, 'r, 'w) cbs_env \<Rightarrow> CloseMode \<Rightarrow> nat \<Rightarrow> ('c, 'b, (CloseMode \<times> bool) option) cbsop" where
  "close_begin env mode0 p = and_then (Close_begin mode0 p) (\<lambda>mode. Close_loop env mode p)"

definition close_rest :: "('c, 'cw, 'b, 'r, 'w) cbs_env \<Rightarrow> time \<Rightarrow> nat \<Rightarrow> ('c, 'b, unit) cbsop" where
  "close_rest env now p = and_then (count_sync now p) (\<lambda>_. Close_end env False p)"

definition back_end :: "('c, 'cw, 'b, 'r, 'w) cbs_env \<Rightarrow> time \<Rightarrow> nat \<Rightarrow> bool \<Rightarrow> 'w \<Rightarrow> Version \<Rightarrow> ('c, 'b, unit) cbsop" where
  "back_end env now p closing w v =
     and_then (writeBack_end env p w v) (\<lambda>_. if closing then close_rest env now p else count_sync now p)"

definition back_copy_failed :: "('c, 'cw, 'b, 'r, 'w) cbs_env \<Rightarrow> nat \<Rightarrow> 'w \<Rightarrow> error \<Rightarrow> ('c, 'b, unit) cbsop" where
  "back_copy_failed env p w e =
     deferring (writeBack_failed p (errorf ''Failed to copy dirty data to backend blob writer'' e))
       (ignoring (on_backend (bk_CloseWriter env w)))"

inductive cache_step ::
    "('c, 'cw, 'b, 'r, 'w) cbs_env \<Rightarrow> nat \<Rightarrow> ('c, 'b) CBS \<times> ('cw, 'r, 'w) activity list \<Rightarrow>
     ('c, 'b) CBS \<times> ('cw, 'r, 'w) activity list \<Rightarrow> bool" for env p where
  open_handle: "fmlookup (cbs_bes s) p = Some be \<Longrightarrow> be_state be \<noteq> CacheEntryClosed \<Longrightarrow> go (OpenHandle env now p f) s s' h \<Longrightarrow>
    cache_step env p (s, ts) (s', ts)"
| open_fails: "fmlookup (cbs_bes s) p = Some be \<Longrightarrow> be_state be \<noteq> CacheEntryClosed \<Longrightarrow> fails (OpenHandle env now p f) s s' \<Longrightarrow>
    cache_step env p (s, ts) (s', ts)"
| close_handle: "go (CloseHandle p h) s s' r \<Longrightarrow> cache_step env p (s, ts) (s', ts)"
| read: "go (CachedBlobEntry_PRead env now p n off) s s' bs \<Longrightarrow> cache_step env p (s, ts) (s', ts)"
| read_fails: "fails (CachedBlobEntry_PRead env now p n off) s s' \<Longrightarrow> cache_step env p (s, ts) (s', ts)"
| write_begin: "go (PWrite_begin now p bs off) s s' True \<Longrightarrow> cache_step env p (s, ts) (s', Writing bs off # ts)"
| write_cache: "cache_PWrite env p bs off s = (s', r) \<Longrightarrow> cache_step env p (s, us @ Writing bs off # ts) (s', us @ Written # ts)"
| truncate_begin: "go (Truncate_begin now p n) s s' True \<Longrightarrow> cache_step env p (s, ts) (s', Truncating n # ts)"
| truncate_cache: "cache_Truncate env p n s = (s', r) \<Longrightarrow> cache_step env p (s, us @ Truncating n # ts) (s', us @ Written # ts)"
| write_end: "go (markWriteEndWithLock p) s s' r \<Longrightarrow> cache_step env p (s, us @ Written # ts) (s', us @ ts)"
| fill_begin: "cbs_spawned s = us' @ InvalidateCacheTask p # vs' \<Longrightarrow> go (invalidate_begin p) (s\<lparr>cbs_spawned := us' @ vs'\<rparr>) s' True \<Longrightarrow>
    cache_step env p (s, ts) (s', FillOpening # ts)"
| fill_open: "fmlookup (cbs_bes s) p = Some be \<Longrightarrow> go (invalidate_reader env (be_blobpath be)) s s1 r \<Longrightarrow>
    go (invalidate_writer env (be_blobpath be)) s1 s' cw \<Longrightarrow> cache_step env p (s, us @ FillOpening # ts) (s', us @ Filling r cw # ts)"
| fill_round: "go (invalidate_round env None p r cw) s s' True \<Longrightarrow> cache_step env p (s, us @ Filling r cw # ts) (s', us @ Filling r cw # ts)"
| fill_last: "go (invalidate_round env None p r cw) s s' False \<Longrightarrow> cache_step env p (s, us @ Filling r cw # ts) (s', us @ ts)"
| fill_fails: "fails (invalidate_round env cancelled p r cw) s s1 \<Longrightarrow> fails (invalidate_failed p e) s1 s' \<Longrightarrow>
    cache_step env p (s, us @ Filling r cw # ts) (s', us @ ts)"
| fill_open_fails: "fails (invalidate_failed p e) s s' \<Longrightarrow> cache_step env p (s, us @ FillOpening # ts) (s', us @ ts)"
| sync_nothing: "go (sync_begin env p) s s' None \<Longrightarrow> cache_step env p (s, ts) (s', ts)"
| sync_fails: "fails (sync_begin env p) s s' \<Longrightarrow> cache_step env p (s, ts) (s', ts)"
| back_sync: "go (sync_begin env p) s s' (Some v) \<Longrightarrow> cache_step env p (s, ts) (s', BackOpening False v # ts)"
| back_close: "go (close_begin env mode p) s s1 (Some (writebackAndClose, x)) \<Longrightarrow> go (writeBack_begin env p) s1 s' (Some v) \<Longrightarrow>
    cache_step env p (s, ts) (s', BackOpening True v # ts)"
| close_unchanged: "go (close_begin env mode p) s s1 (Some (writebackAndClose, x)) \<Longrightarrow> go (writeBack_begin env p) s1 s2 None \<Longrightarrow>
    go (close_rest env now p) s2 s' r \<Longrightarrow> cache_step env p (s, ts) (s', ts)"
| close_query_fails: "go (close_begin env mode p) s s1 (Some (writebackAndClose, x)) \<Longrightarrow> fails (writeBack_begin env p) s1 s' \<Longrightarrow>
    cache_step env p (s, ts) (s', ts)"
| close_abandon: "go (close_begin env mode p) s s1 (Some (abandonAndClose, x)) \<Longrightarrow> go (Close_end env x p) s1 s' r \<Longrightarrow>
    cache_step env p (s, ts) (s', ts)"
| close_end_fails: "go (close_begin env mode p) s s1 (Some (abandonAndClose, x)) \<Longrightarrow> fails (Close_end env x p) s1 s' \<Longrightarrow>
    cache_step env p (s, ts) (s', ts)"
| sync_cache: "cache_Sync env p s = (s', r) \<Longrightarrow> cache_step env p (s, ts) (s', ts)"
| close_nothing: "go (close_begin env mode p) s s' None \<Longrightarrow> cache_step env p (s, ts) (s', ts)"
| close_fails: "fails (close_begin env mode p) s s' \<Longrightarrow> cache_step env p (s, ts) (s', ts)"
| back_open: "fmlookup (cbs_bes s) p = Some be \<Longrightarrow> go (writeBack_open env p) s s' w \<Longrightarrow>
    cache_step env p (s, us @ BackOpening c v # ts)
      (s', us @ BackCopying c v w 0 (nat (ce_Size env (be_blobpath be) (cbs_cachebs s'))) # ts)"
| back_open_fails: "fails (writeBack_open env p) s s' \<Longrightarrow> cache_step env p (s, us @ BackOpening c v # ts) (s', us @ ts)"
| back_block: "0 < n \<Longrightarrow> go (writeBack_block env p w off n) s s' k \<Longrightarrow>
    cache_step env p (s, us @ BackCopying c v w off n # ts) (s', us @ BackCopying c v w (off + k) (n - k) # ts)"
| back_block_fails: "writeBack_block env p w off n s = (s1, Inl e) \<Longrightarrow> fails (back_copy_failed env p w e) s1 s' \<Longrightarrow>
    cache_step env p (s, us @ BackCopying c v w off n # ts) (s', us @ ts)"
| back_last: "go (back_end env now p c w v) s s' r \<Longrightarrow> cache_step env p (s, us @ BackCopying c v w off 0 # ts) (s', us @ ts)"
| back_last_fails: "fails (back_end env now p c w v) s s' \<Longrightarrow> cache_step env p (s, us @ BackCopying c v w off 0 # ts) (s', us @ ts)"

text \<open>What an entry that was just made comes to.\<close>

inductive cache_reachable ::
    "('c, 'cw, 'b, 'r, 'w) cbs_env \<Rightarrow> nat \<Rightarrow> ('c, 'b) CBS \<Rightarrow> ('c, 'b) CBS \<times> ('cw, 'r, 'w) activity list \<Rightarrow> bool" for env p s0 where
  start: "cache_reachable env p s0 (s0, [])"
| further: "cache_reachable env p s0 x \<Longrightarrow> cache_step env p x y \<Longrightarrow> cache_reachable env p s0 y"

section \<open>What the entry relies on of its stores\<close>

text \<open>
  For one blob: \<open>cfile\<close> is what the cache has of it, \<open>bfile\<close> what the backend has; \<open>filling c cw\<close>: the writer \<open>cw\<close> stands at
  the end of the cache blob; \<open>reading b r q\<close>: the reader \<open>r\<close> has \<open>q\<close> left; \<open>ver\<close> is the version that is
  read from a content. Nothing is said of writes to the cache and to the backend.
\<close>

locale cache_stores =
  fixes env :: "('c, 'cw, 'b, 'r, 'w) cbs_env" and bp :: string
    and cfile :: "'c \<Rightarrow> byte list" and bfile :: "'b \<Rightarrow> byte list option"
    and filling :: "'c \<Rightarrow> 'cw \<Rightarrow> bool" and reading :: "'b \<Rightarrow> 'r \<Rightarrow> byte list \<Rightarrow> bool"
    and ver :: "byte list \<Rightarrow> Version result"
  assumes ver_nil: "ver [] = Inr 0"
    and ver_nonneg: "ver q = Inr v \<Longrightarrow> 0 \<le> v"
    and c_query: "ce_queryVersion env bp c = ver (cfile c)"
    and c_open: "ce_Open env bp f c = (c', ru) \<Longrightarrow> cfile c' = cfile c"
    and c_size: "ce_Size env bp c = int (length (cfile c))"
    and c_pread: "ce_PRead env bp n off c = (c', rb) \<Longrightarrow>
      cfile c' = cfile c \<and> (filling c cw \<longrightarrow> filling c' cw) \<and> (\<forall>bs. rb = Inr bs \<longrightarrow> bs = fread (cfile c) (nat off) n)"
    and c_sync: "ce_Sync env = Some sync \<Longrightarrow> sync bp c = (c', ru) \<Longrightarrow> cfile c' = cfile c \<and> (filling c cw \<longrightarrow> filling c' cw)"
    and c_close: "ce_Close env bp c = (c', ru) \<Longrightarrow> cfile c' = cfile c \<and> (filling c cw \<longrightarrow> filling c' cw)"
    and c_open_writer: "ce_OpenWriter env = Some ow \<Longrightarrow> ow bp c = (c', Inr cw) \<Longrightarrow> cfile c' = [] \<and> filling c' cw"
    and c_write: "filling c cw \<Longrightarrow> ce_Write env bs cw c = (c', nw, e) \<Longrightarrow>
      nw \<le> length bs \<and> cfile c' = cfile c @ take nw bs \<and> filling c' cw"
    and b_open_reader: "bk_OpenReader env bp b = (b', x) \<Longrightarrow>
      bfile b' = bfile b \<and> (\<forall>r. x = Inr r \<longrightarrow> (\<exists>q. bfile b = Some q \<and> reading b' r q)) \<and> (x = Inl (Errno ENOENT) \<longrightarrow> bfile b = None)"
    and b_query: "reading b r q \<Longrightarrow> bk_queryVersion env r b = (b', rv) \<Longrightarrow> bfile b' = bfile b \<and> rv = ver q"
    and b_close_reader: "bk_CloseReader env r b = (b', ru) \<Longrightarrow> bfile b' = bfile b"
    and b_read: "reading b r q \<Longrightarrow> bk_Read env n r b = (b', bs, e) \<Longrightarrow> bfile b' = bfile b \<and> (\<exists>q'. q = bs @ q' \<and> reading b' r q')"
    and b_size: "bk_BlobSize env bp b = (sz, None) \<Longrightarrow> \<exists>q. bfile b = Some q \<and> sz = int (length q)"

end
