(* ===== verification/Cache_Invariant.thy ===== *)
theory Cache_Invariant
  imports Cache_Steps
begin

text \<open>
  The invariant of a cache entry and that every step of \<open>Cache_Steps\<close> keeps it: one lemma per critical section.
\<close>

section \<open>The invariant\<close>

text \<open>
  In the states that stand for an entry whose blob is in the backend (\<open>Clean\<close>, \<open>Closing\<close>), unless a write is under way,
  the version of the cached content is the one recorded for the backend. While the cache is being filled, its
  first \<open>validlen\<close> bytes are those of the backend.
\<close>

definition tasks :: "nat \<Rightarrow> ('c, 'b) CBS \<Rightarrow> nat" where
  "tasks p s = length (filter (\<lambda>t. t = InvalidateCacheTask p) (cbs_spawned s))"

definition no_writer :: "('cw, 'r, 'w) activity list \<Rightarrow> bool" where
  "no_writer ts \<longleftrightarrow> filter is_writer ts = []"

definition backs :: "('cw, 'r, 'w) activity list \<Rightarrow> nat" where
  "backs ts = length (filter is_back ts)"

definition fills :: "('cw, 'r, 'w) activity list \<Rightarrow> nat" where
  "fills ts = length (filter is_fill ts)"

lemma activity_counts [simp]:
  "no_writer []" "no_writer (t # ts) \<longleftrightarrow> \<not> is_writer t \<and> no_writer ts" "no_writer (ts @ us) \<longleftrightarrow> no_writer ts \<and> no_writer us"
  "backs [] = 0" "backs (t # ts) = (if is_back t then 1 else 0) + backs ts" "backs (ts @ us) = backs ts + backs us"
  "fills [] = 0" "fills (t # ts) = (if is_fill t then 1 else 0) + fills ts" "fills (ts @ us) = fills ts + fills us"
  by (simp_all add: no_writer_def backs_def fills_def)

lemma activity_kind: "is_writer t \<or> is_fill t \<or> is_back t"
  by (cases t) auto

lemma no_activity: "no_writer ts \<Longrightarrow> backs ts = 0 \<Longrightarrow> fills ts = 0 \<Longrightarrow> ts = []"
  using activity_kind by (cases ts) (auto split: if_splits)

context cache_stores
begin

definition coherent :: "('c, 'b) CBS \<Rightarrow> bool" where
  "coherent s \<longleftrightarrow>
     (\<forall>v. fmlookup (cbs_bever s) bp = Some v \<longrightarrow> (case bfile (cbs_backendbs s) of None \<Rightarrow> v = 0 | Some q \<Rightarrow> ver q = Inr v))"

definition agree :: "('c, 'b) CBS \<Rightarrow> bool" where
  "agree s \<longleftrightarrow> (\<exists>v. fmlookup (cbs_bever s) bp = Some v \<and> ver (cfile (cbs_cachebs s)) = Inr v)"

definition fill_inv :: "nat \<Rightarrow> CachedBlobEntry \<Rightarrow> ('c, 'b) CBS \<Rightarrow> ('cw, 'r, 'w) activity list \<Rightarrow> bool" where
  "fill_inv p be s ts \<longleftrightarrow>
     (\<exists>q v k. bfile (cbs_backendbs s) = Some q \<and> fmlookup (cbs_bever s) bp = Some v \<and> ver q = Inr v \<and>
        be_bloblen be = int (length q) \<and> be_validlen be = int k \<and> k \<le> length q \<and>
        take k (cfile (cbs_cachebs s)) = take k q \<and> k \<le> length (cfile (cbs_cachebs s)) \<and>
        (FillOpening \<in> set ts \<or> tasks p s \<noteq> 0 \<longrightarrow> k = 0) \<and>
        (\<forall>r cw. Filling r cw \<in> set ts \<longrightarrow>
           filling (cbs_cachebs s) cw \<and> cfile (cbs_cachebs s) = take k q \<and> reading (cbs_backendbs s) r (drop k q)))"

definition cache_inv :: "nat \<Rightarrow> ('c, 'b) CBS \<times> ('cw, 'r, 'w) activity list \<Rightarrow> bool" where
  "cache_inv p x \<longleftrightarrow>
     (case x of (s, ts) \<Rightarrow>
        \<exists>be. fmlookup (cbs_bes s) p = Some be \<and> be_blobpath be = bp \<and>
          (be_state be = CacheEntryUninitialized \<longrightarrow> no_writer ts \<and> coherent s) \<and>
          (be_state be = CacheEntryInvalidating \<longrightarrow> no_writer ts \<and> fills ts + tasks p s \<le> 1 \<and> fill_inv p be s ts) \<and>
          (be_state be \<noteq> CacheEntryInvalidating \<longrightarrow> fills ts + tasks p s = 0) \<and>
          (be_state be = CacheEntryClean \<or> be_state be = CacheEntryClosing \<longrightarrow> no_writer ts \<longrightarrow> agree s) \<and>
          (if be_state be = CacheEntryWritebackInProgress \<or> be_state be = CacheEntryStaleWritebackInProgress then backs ts = 1
           else if be_state be = CacheEntryDirtyClosing then backs ts \<le> 1 else backs ts = 0))"

text \<open>Changes the invariant does not see.\<close>

lemma cache_inv_frame:
  assumes "cache_inv p (s, ts)" "fmlookup (cbs_bes s) p = Some be" "fmlookup (cbs_bes s') p = Some be'"
    and "be_blobpath be' = be_blobpath be" "be_state be' = be_state be" "be_bloblen be' = be_bloblen be" "be_validlen be' = be_validlen be"
    and "cbs_backendbs s' = cbs_backendbs s" "cbs_bever s' = cbs_bever s" "cbs_spawned s' = cbs_spawned s"
    and "cfile (cbs_cachebs s') = cfile (cbs_cachebs s)" "\<And>cw. filling (cbs_cachebs s) cw \<Longrightarrow> filling (cbs_cachebs s') cw"
  shows "cache_inv p (s', ts)"
proof -
  have e: "coherent s' = coherent s" "agree s' = agree s" "tasks p s' = tasks p s"
    using assms(8-11) by (simp_all add: coherent_def agree_def tasks_def)
  have "fill_inv p be s ts \<Longrightarrow> fill_inv p be' s' ts"
    unfolding fill_inv_def using assms(6-12) e(3) by metis
  with assms(1-5) e show ?thesis by (auto simp: cache_inv_def)
qed

lemma query_coherent:
  assumes "coherent s" "CachedBackendVersion_Query env bp s = (s', r)"
  shows "coherent s' \<and> bfile (cbs_backendbs s') = bfile (cbs_backendbs s) \<and> cbs_cachebs s' = cbs_cachebs s \<and> cbs_bes s' = cbs_bes s \<and>
    cbs_spawned s' = cbs_spawned s \<and> (\<forall>v. r = Inr v \<longrightarrow> fmlookup (cbs_bever s') bp = Some v)"
proof (cases "fmlookup (cbs_bever s) bp")
  case None
  obtain b1 x where o: "bk_OpenReader env bp (cbs_backendbs s) = (b1, x)" by fastforce
  note o' = b_open_reader [OF o]
  show ?thesis
  proof (cases x)
    case (Inl e)
    with None o o' assms show ?thesis
      by (auto simp: CachedBackendVersion_Query_def on_backend_def IsNotExist_def action_defs CachedBackendVersion_Set_def coherent_def
          split: if_splits option.splits)
  next
    case (Inr y)
    with o' obtain q where q: "bfile (cbs_backendbs s) = Some q" "reading b1 y q" by blast
    obtain b2 v where v: "bk_queryVersion env y b1 = (b2, v)" by fastforce
    note v' = b_query [OF q(2) v]
    obtain b3 z where z: "bk_CloseReader env y b2 = (b3, z)" by fastforce
    show ?thesis
      using None o o' Inr v v' z b_close_reader [OF z] q(1) assms
      by (auto simp: CachedBackendVersion_Query_def on_backend_def deferring_ignoring and_then_def wrapping_def ret_def CachedBackendVersion_Set_def coherent_def
          split: if_splits sum.splits)
  qed
qed (use assms in \<open>auto simp: CachedBackendVersion_Query_def\<close>)

lemma choose_state_inv:
  assumes "no_writer ts" "backs ts = 0" "fills ts = 0" "tasks p s = 0" "coherent s"
    and "fmlookup (cbs_bes s) p = Some be \<and> be_blobpath be = bp \<and> be_state be = CacheEntryUninitialized \<and>
      fmlookup (cbs_bever s) bp = Some bv \<and> ver (cfile (cbs_cachebs s)) = Inr cv"
    and "choose_state env p bp cv bv s = (s', r)" "\<forall>e. r = Inl e \<longrightarrow> \<not> is_panic e"
  shows "cache_inv p (s', ts)"
proof (cases "cv \<ge> bv")
  case True
  with assms show ?thesis
    by (auto simp: choose_state_def Let_def updateState_Some action_defs cache_inv_def tasks_def agree_def split: if_splits)
next
  case False
  obtain n err where n: "bk_BlobSize env bp (cbs_backendbs s) = (n, err)" by fastforce
  show ?thesis
  proof (cases err)
    case None
    with n b_size obtain q where q: "bfile (cbs_backendbs s) = Some q" "n = int (length q)" by blast
    with assms(5,6) have bv: "ver q = Inr bv" by (simp add: coherent_def)
    have "q \<noteq> []" using bv False assms(6) ver_nonneg [of "cfile (cbs_cachebs s)" cv] ver_nil by auto
    moreover from this have "ts = []" using no_activity assms(1-3) by blast
    ultimately show ?thesis using False n None q bv assms
      by (auto simp: choose_state_def updateState_Some action_defs spawn_def cache_inv_def tasks_def fill_inv_def split: if_splits)
  next
    case (Some e)
    with False n assms show ?thesis
      by (auto simp: choose_state_def errored_def updateState_Some action_defs spawn_def cache_inv_def tasks_def split: if_splits)
  qed
qed

lemma init_inv:
  assumes "cache_inv p (s, ts)" "fmlookup (cbs_bes s) p = Some be" "be_state be = CacheEntryUninitialized"
    and "initializeWithLock env p s = (s', r)" "\<forall>e. r = Inl e \<longrightarrow> \<not> is_panic e"
  shows "cache_inv p (s', ts)"
proof -
  have i: "be_blobpath be = bp" "no_writer ts" "backs ts = 0" "fills ts = 0" "tasks p s = 0" "coherent s"
    using assms(1-3) by (auto simp: cache_inv_def)
  obtain c1 ro where o: "ce_Open env bp O_RDWRCREATE (cbs_cachebs s) = (c1, ro)" by fastforce
  have c1: "cfile c1 = cfile (cbs_cachebs s)" by (rule c_open [OF o])
  define s1 where "s1 = s\<lparr>cbs_cachebs := c1\<rparr>"
  have s1: "coherent s1" "cbs_bes s1 = cbs_bes s" "tasks p s1 = 0" using i by (auto simp: s1_def coherent_def tasks_def)
  obtain s2 rv where q: "CachedBackendVersion_Query env bp s1 = (s2, rv)" by fastforce
  note q' = query_coherent [OF s1(1) q]
  have t2: "tasks p s2 = 0" "cbs_bes s2 = cbs_bes s" using q' s1 by (auto simp: tasks_def)
  show ?thesis
  proof (cases ro)
    case (Inl e)
    with assms(2-5) i o t2 s1 show ?thesis
      by (auto simp: initializeWithLock_def Let_def on_cache_def errored_def updateState_Some action_defs spawn_def cache_inv_def tasks_def s1_def
          split: if_splits)
  next
    case (Inr u)
    show ?thesis
    proof (cases "ver (cfile c1)")
      case (Inl e)
      with assms(2-5) i o Inr t2 s1 show ?thesis
        by (auto simp: initializeWithLock_def Let_def on_cache_def errored_def updateState_Some action_defs spawn_def cache_inv_def tasks_def s1_def
            c_query split: if_splits)
    next
      case cv: (Inr cv)
      have eq: "initializeWithLock env p s = and_then (rescue (\<lambda>_. (s2, rv)) (\<lambda>e. errored p e)) (\<lambda>backendver. choose_state env p bp cv backendver) s1"
        using assms(2,3) i(1) o Inr cv q by (simp add: initializeWithLock_def Let_def on_cache_def and_then_def [of "rescue _ _"] rescue_def c_query s1_def)
      show ?thesis
      proof (cases rv)
        case (Inl e)
        with assms(2-5) i t2 show ?thesis unfolding eq
          by (auto simp: errored_def updateState_Some action_defs spawn_def cache_inv_def tasks_def split: if_splits)
      next
        case bv: (Inr bv)
        have "choose_state env p bp cv bv s2 = (s', r)" using assms(4) bv unfolding eq by (simp add: and_then_def rescue_def)
        from choose_state_inv [OF _ _ _ _ _ _ this assms(5)] show ?thesis using i t2 q' s1 assms(2,3) cv c1 bv by (simp add: s1_def)
      qed
    qed
  qed
qed

lemma inv_entry: "cache_inv p (s, ts) \<Longrightarrow> \<exists>be. fmlookup (cbs_bes s) p = Some be \<and> be_blobpath be = bp"
  by (auto simp: cache_inv_def)

lemma open_inv:
  assumes "cache_inv p (s, ts)" "fmlookup (cbs_bes s) p = Some be" "be_state be \<noteq> CacheEntryClosed"
    and "OpenHandle env now p f s = (s', r)" "\<forall>e. r = Inl e \<longrightarrow> \<not> is_panic e"
  shows "cache_inv p (s', ts)"
proof -
  obtain s1 r1 where l: "OpenHandle_loop env p s = (s1, r1)" by fastforce
  have r1: "\<forall>e. r1 = Inl e \<longrightarrow> \<not> is_panic e" using assms(4,5) l by (auto simp: OpenHandle_def and_then_def split: sum.splits)
  have i: "cache_inv p (s1, ts)"
  proof (cases "be_state be = CacheEntryUninitialized")
    case True
    with init_inv [OF assms(1,2) True _ r1] l assms(2) show ?thesis by (simp add: OpenHandle_loop_def)
  next
    case False
    with l assms(1-3) have "s1 = s" by (auto simp: OpenHandle_loop_def fail_def ret_def split: CacheEntryState.splits)
    with assms(1) show ?thesis by simp
  qed
  from inv_entry [OF this] obtain be1 where be1: "fmlookup (cbs_bes s1) p = Some be1" by blast
  show ?thesis
  proof (cases r1)
    case (Inl e)
    with i l assms(4) show ?thesis by (simp add: OpenHandle_def and_then_def)
  next
    case (Inr u)
    with l assms(4) be1 have "s' = s1\<lparr>cbs_next := Suc (cbs_next s1),
        cbs_bes := fmupd p (be1\<lparr>be_lastUsed := now, be_handles := fmupd (cbs_next s1) f (be_handles be1)\<rparr>) (cbs_bes s1)\<rparr>"
      by (auto simp: OpenHandle_def and_then_def Let_def ret_def)
    with cache_inv_frame [OF i be1, of s'] show ?thesis by simp
  qed
qed

lemma close_handle_inv: "cache_inv p (s, ts) \<Longrightarrow> CloseHandle p h s = (s', r) \<Longrightarrow> cache_inv p (s', ts)"
  using inv_entry [of p s ts] cache_inv_frame [of p s ts _ s'] by (auto simp: CloseHandle_def)

lemma cache_PRead_inv:
  assumes "cache_inv p (s, ts)" "cache_PRead env p n off s = (s', r)"
  shows "cache_inv p (s', ts)"
proof -
  obtain be where be: "fmlookup (cbs_bes s) p = Some be" "be_blobpath be = bp" using inv_entry [OF assms(1)] by blast
  obtain c x where c: "ce_PRead env bp n off (cbs_cachebs s) = (c, x)" by fastforce
  have "s' = s\<lparr>cbs_cachebs := c\<rparr>" using assms(2) be c by (simp add: cache_PRead_def on_cache_def)
  with cache_inv_frame [OF assms(1) be(1), of s' be] be(1) c_pread [OF c] show ?thesis by simp
qed

lemma wait_same: "waitUntilInvalidateAtLeast p n s = (s', r) \<Longrightarrow> s' = s"
  by (auto simp: waitUntilInvalidateAtLeast_def with_be_def fail_def ret_def split: option.splits CacheEntryState.splits if_splits)

lemma wait_done_same: "waitUntilInvalidateDone p s = (s', r) \<Longrightarrow> s' = s"
  by (auto simp: waitUntilInvalidateDone_def with_be_def dest: wait_same split: option.splits)

lemma read_inv:
  assumes "cache_inv p (s, ts)" "CachedBlobEntry_PRead env now p n off s = (s', r)"
  shows "cache_inv p (s', ts)"
proof -
  obtain be where be: "fmlookup (cbs_bes s) p = Some be" "be_blobpath be = bp" using inv_entry [OF assms(1)] by blast
  define s1 where "s1 = s\<lparr>cbs_bes := fmupd p (be\<lparr>be_lastUsed := now\<rparr>) (cbs_bes s)\<rparr>"
  have i: "cache_inv p (s1, ts)" using cache_inv_frame [OF assms(1) be(1), of s1] by (simp add: s1_def)
  obtain m where m: "PRead_begin now p n off s = (s1, Inr m)" using be by (simp add: PRead_begin_def and_then_def ret_def s1_def)
  obtain x where w: "waitUntilInvalidateAtLeast p m s1 = (s1, x)" using wait_same by (metis prod.collapse)
  show ?thesis
  proof (cases x)
    case (Inl e)
    with m w assms(2) i show ?thesis by (simp add: CachedBlobEntry_PRead_def and_then_def)
  next
    case (Inr u)
    with m w assms(2) have "cache_PRead env p n off s1 = (s', r)" by (simp add: CachedBlobEntry_PRead_def and_then_def)
    with i show ?thesis by (rule cache_PRead_inv)
  qed
qed

text \<open>Writes.\<close>

lemma mark_begin:
  assumes "fmlookup (cbs_bes s) p = Some be" "markWriteInProgressWithLock now p s = (s', Inr u)"
  shows "\<exists>be'. fmlookup (cbs_bes s') p = Some be' \<and> be_blobpath be' = be_blobpath be \<and>
    (be_state be \<in> {CacheEntryClean, CacheEntryDirty} \<and> be_state be' = CacheEntryWriteInProgress \<or>
     be_state be \<in> {CacheEntryWritebackInProgress, CacheEntryStaleWritebackInProgress} \<and> be_state be' = CacheEntryStaleWritebackInProgress) \<and>
    cbs_spawned s' = cbs_spawned s"
  using assms by (cases "be_state be") (auto simp: markWriteInProgressWithLock_def and_then_def updateState_Some fail_def split: if_splits)

lemma mark_inv:
  assumes "cache_inv p (s, ts)" "fmlookup (cbs_bes s) p = Some be" "fmlookup (cbs_bes s1) p = Some be1" "be_state be1 = be_state be"
    and "be_blobpath be1 = be_blobpath be" "cbs_spawned s1 = cbs_spawned s"
    and "markWriteInProgressWithLock now p s1 = (s', Inr u)" "is_writer t"
  shows "cache_inv p (s', t # ts)"
proof -
  have "\<not> is_fill t" "\<not> is_back t" using assms(8) by (cases t; simp)+
  with mark_begin [OF assms(3,7)] assms(1,2,4-6,8) show ?thesis by (auto simp: cache_inv_def tasks_def)
qed

lemma write_begin_inv:
  assumes "cache_inv p (s, ts)" "PWrite_begin now p bs off s = (s', Inr True)"
  shows "cache_inv p (s', Writing bs off # ts)"
proof -
  obtain be where be: "fmlookup (cbs_bes s) p = Some be" "be_blobpath be = bp" using inv_entry [OF assms(1)] by blast
  obtain x where w: "waitUntilInvalidateDone p s = (s, x)" using wait_done_same by (metis prod.collapse)
  define right where "right = wrap64 (off + int (length bs))"
  define be1 where "be1 = (if right > be_bloblen be then be\<lparr>be_bloblen := right, be_validlen := right\<rparr> else be)"
  define s1 where "s1 = s\<lparr>cbs_bes := fmupd p be1 (cbs_bes s)\<rparr>"
  obtain y where "markWriteInProgressWithLock now p s1 = (s', Inr y)"
    using assms(2) w be(1) by (auto simp: PWrite_begin_def and_then_def ret_def Let_def s1_def be1_def right_def split: sum.splits if_splits prod.splits)
  then show ?thesis by (intro mark_inv [OF assms(1) be(1), of s1 be1]) (auto simp: s1_def be1_def)
qed

lemma truncate_begin_inv:
  assumes "cache_inv p (s, ts)" "Truncate_begin now p n s = (s', Inr True)"
  shows "cache_inv p (s', Truncating n # ts)"
proof -
  obtain be where be: "fmlookup (cbs_bes s) p = Some be" "be_blobpath be = bp" using inv_entry [OF assms(1)] by blast
  obtain x where w: "waitUntilInvalidateDone p s = (s, x)" using wait_done_same by (metis prod.collapse)
  define be1 where "be1 = be\<lparr>be_bloblen := n, be_validlen := n\<rparr>"
  define s1 where "s1 = s\<lparr>cbs_bes := fmupd p be1 (cbs_bes s)\<rparr>"
  obtain y where "markWriteInProgressWithLock now p s1 = (s', Inr y)"
    using assms(2) w be(1)
    by (auto simp: Truncate_begin_def ignoring_def and_then_def ret_def s1_def be1_def split: sum.splits if_splits prod.splits)
  then show ?thesis by (intro mark_inv [OF assms(1) be(1), of s1 be1]) (auto simp: s1_def be1_def)
qed

text \<open>A write changes the content of the cache in any way.\<close>

lemma write_cache_inv:
  assumes "cache_inv p (s, us @ t # ts)" "is_writer t" "s' = s\<lparr>cbs_cachebs := c\<rparr>"
  shows "cache_inv p (s', us @ Written # ts)"
proof -
  have "\<not> is_fill t" "\<not> is_back t" using assms(2) by (cases t; simp)+
  with assms show ?thesis by (auto simp: cache_inv_def tasks_def)
qed

lemma write_end_inv:
  assumes "cache_inv p (s, us @ Written # ts)" "markWriteEndWithLock p s = (s', Inr u)"
  shows "cache_inv p (s', us @ ts)"
proof -
  obtain be where be: "fmlookup (cbs_bes s) p = Some be" "be_blobpath be = bp" using inv_entry [OF assms(1)] by blast
  with assms(2) have "be_state be = CacheEntryWriteInProgress \<and> s' = s\<lparr>cbs_bes := fmupd p (be\<lparr>be_state := CacheEntryDirty\<rparr>) (cbs_bes s)\<rparr> \<or>
      be_state be = CacheEntryStaleWritebackInProgress \<and> s' = s"
    by (auto simp: markWriteEndWithLock_def updateState_Some fail_def ret_def split: CacheEntryState.splits)
  with be assms(1) show ?thesis by (auto simp: cache_inv_def tasks_def)
qed

text \<open>Filling the cache.\<close>

lemma fill_state:
  assumes "cache_inv p (s, ts)" "fills ts \<noteq> 0 \<or> tasks p s \<noteq> 0"
  shows "\<exists>be. fmlookup (cbs_bes s) p = Some be \<and> be_blobpath be = bp \<and> be_state be = CacheEntryInvalidating \<and> no_writer ts \<and>
    fills ts + tasks p s = 1 \<and> backs ts = 0 \<and> fill_inv p be s ts"
  using assms by (auto simp: cache_inv_def)

lemma fill_only: "fills (us @ t # ts) + n = 1 \<Longrightarrow> is_fill t \<Longrightarrow> n = 0 \<and> fills us = 0 \<and> fills ts = 0"
  by auto

lemma no_fill: "fills ts = 0 \<Longrightarrow> FillOpening \<notin> set ts \<and> Filling r cw \<notin> set ts"
  by (auto simp: fills_def filter_empty_conv)

lemma fill_drop:
  assumes "cache_inv p (s, us @ t # ts)" "is_fill t"
  shows "cache_inv p (s, us @ ts)"
proof -
  from fill_state [OF assms(1)] assms(2) obtain be where
    be: "fmlookup (cbs_bes s) p = Some be" "be_blobpath be = bp" "be_state be = CacheEntryInvalidating" "no_writer (us @ t # ts)"
      "fills (us @ t # ts) + tasks p s = 1" "backs (us @ t # ts) = 0" "fill_inv p be s (us @ t # ts)" by auto
  have "fill_inv p be s (us @ ts)" using be(7) unfolding fill_inv_def by (auto; metis)
  with be(1-6) assms(2) show ?thesis by (auto simp: cache_inv_def)
qed

lemma fill_begin_inv:
  assumes "cache_inv p (s, ts)" "cbs_spawned s = us' @ InvalidateCacheTask p # vs'"
    and "invalidate_begin p (s\<lparr>cbs_spawned := us' @ vs'\<rparr>) = (s', Inr True)"
  shows "cache_inv p (s', FillOpening # ts)"
proof -
  have t: "tasks p s = Suc (length (filter (\<lambda>t. t = InvalidateCacheTask p) (us' @ vs')))" using assms(2) by (simp add: tasks_def)
  then obtain be where be: "fmlookup (cbs_bes s) p = Some be" "be_blobpath be = bp" "be_state be = CacheEntryInvalidating" "no_writer ts"
      "fills ts + tasks p s = 1" "backs ts = 0" "fill_inv p be s ts"
    using fill_state [OF assms(1)] by auto
  with assms(3) have s': "s' = s\<lparr>cbs_spawned := us' @ vs', cbs_bes := fmupd p (be\<lparr>be_cancelInvalidate := True\<rparr>) (cbs_bes s)\<rparr>"
    by (auto simp: invalidate_begin_def and_then_def ret_def fail_def updateState_Some split: if_splits)
  have t': "tasks p s' = 0" "fills ts = 0" "tasks p s = 1" using t be(5) by (auto simp: tasks_def s')
  have "fill_inv p (be\<lparr>be_cancelInvalidate := True\<rparr>) s' (FillOpening # ts)"
    using be(7) t' no_fill [OF t'(2)] unfolding fill_inv_def by (auto simp: s')
  with be t' show ?thesis by (auto simp: cache_inv_def s')
qed

lemma fill_open_inv:
  assumes "cache_inv p (s, us @ FillOpening # ts)" "invalidate_reader env bp s = (s1, Inr r)" "invalidate_writer env bp s1 = (s', Inr cw)"
  shows "cache_inv p (s', us @ Filling r cw # ts)"
proof -
  obtain be where be: "fmlookup (cbs_bes s) p = Some be" "be_blobpath be = bp" "be_state be = CacheEntryInvalidating" "no_writer (us @ FillOpening # ts)"
      "fills (us @ FillOpening # ts) + tasks p s = 1" "backs (us @ FillOpening # ts) = 0" "fill_inv p be s (us @ FillOpening # ts)"
    using fill_state [OF assms(1)] by auto
  obtain b where b: "bk_OpenReader env bp (cbs_backendbs s) = (b, Inr r)" "s1 = s\<lparr>cbs_backendbs := b\<rparr>"
    using assms(2) by (auto simp: invalidate_reader_def on_backend_def wrapping_def split: prod.splits sum.splits)
  obtain ow c where c: "ce_OpenWriter env = Some ow" "ow bp (cbs_cachebs s) = (c, Inr cw)" "s' = s1\<lparr>cbs_cachebs := c\<rparr>"
    using assms(3) b(2) by (auto simp: invalidate_writer_def on_cache_def rescue_def fail_def split: option.splits prod.splits sum.splits if_splits)
  obtain q where q: "bfile (cbs_backendbs s) = Some q" "reading b r q" "bfile b = Some q" using b_open_reader [OF b(1)] by auto
  note c' = c_open_writer [OF c(1,2)]
  have f: "tasks p s = 0" "fills us = 0" "fills ts = 0" using be(5) by auto
  have "fill_inv p be s' (us @ Filling r cw # ts)"
    using be(7) q c' c(3) b(2) f no_fill [OF f(2)] no_fill [OF f(3)] by (auto simp: fill_inv_def tasks_def)
  with be f c(3) b(2) show ?thesis by (auto simp: cache_inv_def tasks_def)
qed

lemma fill_progress:
  assumes "cache_inv p (s, us @ Filling r cw # ts)" "bk_Read env n r (cbs_backendbs s) = (b, bs, er)"
    and "ce_Write env bs cw (cbs_cachebs s) = (c, nw, ew)"
    and "invalidate_progress p nw (s\<lparr>cbs_backendbs := b, cbs_cachebs := c\<rparr>) = (s2, x)"
  shows "\<exists>d. x = Inr d \<and> cache_inv p (s2, us @ ts) \<and> (\<not> d \<longrightarrow> nw = length bs \<longrightarrow> cache_inv p (s2, us @ Filling r cw # ts))"
proof -
  let ?s1 = "s\<lparr>cbs_backendbs := b, cbs_cachebs := c\<rparr>" and ?ts = "us @ Filling r cw # ts"
  obtain be where be: "fmlookup (cbs_bes s) p = Some be" "be_blobpath be = bp" "be_state be = CacheEntryInvalidating" "no_writer ?ts"
      "fills ?ts + tasks p s = 1" "backs ?ts = 0" "fill_inv p be s ?ts"
    using fill_state [OF assms(1)] by auto
  then obtain q v k where f: "bfile (cbs_backendbs s) = Some q" "fmlookup (cbs_bever s) bp = Some v" "ver q = Inr v"
      "be_bloblen be = int (length q)" "be_validlen be = int k" "k \<le> length q"
      "filling (cbs_cachebs s) cw" "cfile (cbs_cachebs s) = take k q" "reading (cbs_backendbs s) r (drop k q)"
    unfolding fill_inv_def by auto
  obtain q' where q': "drop k q = bs @ q'" "reading b r q'" "bfile b = Some q" using b_read [OF f(9) assms(2)] f(1) by auto
  have c: "nw \<le> length bs" "cfile c = take k q @ take nw bs" "filling c cw" using c_write [OF f(7) assms(3)] f(8) by auto
  have len: "length q = k + length bs + length q'" using arg_cong [OF q'(1), of length] f(6) by simp
  have q: "q = take k q @ bs @ q'" using q'(1) by (metis append_take_drop_id)
  have cf: "cfile c = take (k + nw) q" using c(1,2) f(6) by (simp add: take_add q'(1))
  have rq: "nw = length bs \<Longrightarrow> drop (k + nw) q = q'" using q'(1) by (metis add.commute append_eq_conv_conj drop_drop)
  have t: "tasks p s = 0" "fills us = 0" "fills ts = 0" "tasks p ?s1 = 0" using be(5) by (auto simp: tasks_def)
  let ?be = "be\<lparr>be_validlen := int (k + nw)\<rparr>"
  show ?thesis
  proof (cases "k + nw = length q")
    case True
    let ?be' = "?be\<lparr>be_state := CacheEntryClean, be_cancelInvalidate := False\<rparr>"
    have bl: "be_bloblen be = int k + int nw" using f(4) by (simp add: True [symmetric])
    have x: "x = Inr True \<and> s2 = ?s1\<lparr>cbs_bes := fmupd p ?be' (cbs_bes s)\<rparr>"
      using assms(4) be(1,3) bl f(5) unfolding invalidate_progress_def and_then_def ret_def
      by (auto simp: updateState_Some)
    have "agree s2" using f(2,3) cf True x by (auto simp: agree_def)
    with x be t show ?thesis by (auto simp: cache_inv_def tasks_def)
  next
    case False
    then have less: "k + nw < length q" using c(1) len by linarith
    have x: "x = Inr False \<and> s2 = ?s1\<lparr>cbs_bes := fmupd p ?be (cbs_bes s)\<rparr>"
      using assms(4) be(1,3) f(4,5) less by (auto simp: invalidate_progress_def and_then_def ret_def updateState_Some)
    have g: "fill_inv p ?be s2 (us @ ts)" "nw = length bs \<Longrightarrow> fill_inv p ?be s2 ?ts"
      using x f(2-4) q'(2,3) c(3) cf rq less t no_fill [OF t(2)] no_fill [OF t(3)]
      by (auto simp: fill_inv_def tasks_def intro: exI [of _ "k + nw"] exI [of _ "k + length bs"])
    from x be t g show ?thesis by (auto simp: cache_inv_def tasks_def)
  qed
qed

lemma fill_still:
  assumes "cache_inv p (s, us @ Filling r cw # ts)" "bfile b = bfile (cbs_backendbs s)" "cfile c = cfile (cbs_cachebs s)"
  shows "cache_inv p (s\<lparr>cbs_backendbs := b, cbs_cachebs := c\<rparr>, us @ ts)"
proof -
  let ?s = "s\<lparr>cbs_backendbs := b, cbs_cachebs := c\<rparr>"
  obtain be where be: "fmlookup (cbs_bes s) p = Some be" "be_blobpath be = bp" "be_state be = CacheEntryInvalidating"
      "no_writer (us @ Filling r cw # ts)" "fills (us @ Filling r cw # ts) + tasks p s = 1" "backs (us @ Filling r cw # ts) = 0"
      "fill_inv p be s (us @ Filling r cw # ts)"
    using fill_state [OF assms(1)] by auto
  have t: "tasks p ?s = 0" "fills us = 0" "fills ts = 0" using be(5) by (auto simp: tasks_def)
  have "fill_inv p be ?s (us @ ts)"
    using be(7) t no_fill [OF t(2)] no_fill [OF t(3)] assms(2,3) unfolding fill_inv_def by auto
  with be t show ?thesis by (auto simp: cache_inv_def)
qed

lemma fill_empty_read:
  assumes "cache_inv p (s, us @ Filling r cw # ts)" "bk_Read env n r (cbs_backendbs s) = (b, [], er)"
  shows "cache_inv p (s\<lparr>cbs_backendbs := b\<rparr>, us @ Filling r cw # ts)"
proof -
  let ?ts = "us @ Filling r cw # ts" and ?s = "s\<lparr>cbs_backendbs := b\<rparr>"
  obtain be where be: "fmlookup (cbs_bes s) p = Some be" "be_blobpath be = bp" "be_state be = CacheEntryInvalidating" "no_writer ?ts"
      "fills ?ts + tasks p s = 1" "backs ?ts = 0" "fill_inv p be s ?ts"
    using fill_state [OF assms(1)] by auto
  have t: "tasks p ?s = 0" "fills us = 0" "fills ts = 0" using be(5) by (auto simp: tasks_def)
  have "fill_inv p be ?s ?ts"
    using be(7) t no_fill [OF t(2)] no_fill [OF t(3)] b_read [OF _ assms(2)] unfolding fill_inv_def by fastforce
  with be t show ?thesis by (auto simp: cache_inv_def)
qed

lemma fill_round_inv:
  assumes "cache_inv p (s, us @ Filling r cw # ts)" "invalidate_round env cancelled p r cw s = (s', x)"
  shows "cache_inv p (s', us @ ts) \<and> (x = Inr True \<longrightarrow> cache_inv p (s', us @ Filling r cw # ts))"
proof (cases cancelled)
  case (Some e)
  then have "s' = s \<and> x \<noteq> Inr True" using assms(2) by (auto simp: invalidate_round_def and_then_def ret_def fail_def split: if_splits)
  then show ?thesis using fill_drop [OF assms(1)] by simp
next
  case None
  obtain b bs er where rd: "bk_Read env invalidateBlockSize r (cbs_backendbs s) = (b, bs, er)" by (cases "bk_Read env invalidateBlockSize r (cbs_backendbs s)")
  show ?thesis
  proof (cases "bs = []")
    case True
    then have "s' = s\<lparr>cbs_backendbs := b\<rparr>" using assms(2) None rd
      by (auto simp: invalidate_round_def and_then_def ret_def fail_def split: if_splits option.splits)
    then show ?thesis using fill_empty_read [OF assms(1)] rd True fill_drop by fastforce
  next
    case False
    obtain c nw ew where wr: "ce_Write env bs cw (cbs_cachebs s) = (c, nw, ew)" by (cases "ce_Write env bs cw (cbs_cachebs s)")
    let ?s1 = "s\<lparr>cbs_backendbs := b, cbs_cachebs := c\<rparr>"
    obtain s2 y where y: "(if nw > 0 then invalidate_progress p nw else ret False) ?s1 = (s2, y)" by force
    have s': "s' = s2" "x = Inr True \<longrightarrow> y = Inr False \<and> nw = length bs"
      using assms(2) None rd wr y False
      by (auto simp: invalidate_round_def and_then_def ret_def fail_def split: if_splits option.splits sum.splits)
    from fill_state [OF assms(1)] have f: "filling (cbs_cachebs s) cw" "\<exists>q. reading (cbs_backendbs s) r q" unfolding fill_inv_def by auto
    have same: "bfile b = bfile (cbs_backendbs s)" using f(2) b_read rd by blast
    show ?thesis
    proof (cases "nw > 0")
      case True
      then show ?thesis using fill_progress [OF assms(1) rd wr] y s' by fastforce
    next
      case z: False
      then have "cfile c = cfile (cbs_cachebs s)" "s2 = ?s1" using c_write [OF f(1) wr] y by (auto simp: ret_def)
      then show ?thesis using fill_still [OF assms(1) same] s' z False by auto
    qed
  qed
qed

lemma fill_failed_inv:
  assumes "cache_inv p (s, ts)" "fmlookup (cbs_bes s) p = Some be" "be_state be = CacheEntryInvalidating \<or> be_state be = CacheEntryClean"
    and "fills ts = 0" "tasks p s = 0" "fails (invalidate_failed p e) s s'"
  shows "cache_inv p (s', ts)"
proof -
  have s': "be_state be = CacheEntryInvalidating"
      "s' = s\<lparr>cbs_bes := fmupd p (be\<lparr>be_validlen := 0, be_state := CacheEntryErrored\<rparr>) (cbs_bes s), cbs_spawned := cbs_spawned s @ [CloseAbandoned p]\<rparr>"
    using assms(2,3,6)
    by (auto simp: fails_def invalidate_failed_def errored_def spawn_def and_then_def fail_def updateState_Some split: if_splits)
  then show ?thesis using assms(1,2,4,5) by (auto simp: cache_inv_def tasks_def)
qed

lemma round_state:
  assumes "fmlookup (cbs_bes s) p = Some be" "be_state be = CacheEntryInvalidating" "invalidate_round env cancelled p r cw s = (s', x)"
  shows "\<exists>be'. fmlookup (cbs_bes s') p = Some be' \<and> (be_state be' = CacheEntryInvalidating \<or> be_state be' = CacheEntryClean) \<and>
    cbs_spawned s' = cbs_spawned s"
proof -
  have pr: "\<exists>be'. fmlookup (cbs_bes t') p = Some be' \<and> (be_state be' = CacheEntryInvalidating \<or> be_state be' = CacheEntryClean) \<and>
      cbs_spawned t' = cbs_spawned s"
    if "(if n > 0 then invalidate_progress p n else ret False) (s\<lparr>cbs_backendbs := b, cbs_cachebs := c\<rparr>) = (t', y)" for t' y b c n
    using that assms(1,2)
    by (auto simp: invalidate_progress_def and_then_def ret_def fail_def updateState_Some split: if_splits)
  obtain b bs er where rd: "(case cancelled of Some e \<Rightarrow> (cbs_backendbs s, [], Some e)
      | None \<Rightarrow> bk_Read env invalidateBlockSize r (cbs_backendbs s)) = (b, bs, er)"
    by (cases "case cancelled of Some e \<Rightarrow> (cbs_backendbs s, [], Some e)
      | None \<Rightarrow> bk_Read env invalidateBlockSize r (cbs_backendbs s)")
  obtain c nw ew where wr: "ce_Write env bs cw (cbs_cachebs s) = (c, nw, ew)" by (cases "ce_Write env bs cw (cbs_cachebs s)")
  obtain t y where y: "(if nw > 0 then invalidate_progress p nw else ret False) (s\<lparr>cbs_backendbs := b, cbs_cachebs := c\<rparr>) = (t, y)" by force
  have "s' = (if bs = [] then s\<lparr>cbs_backendbs := b\<rparr> else t)"
    using assms(3) wr y unfolding invalidate_round_def rd
    by (auto simp: and_then_def ret_def fail_def split: if_splits option.splits sum.splits)
  then show ?thesis using pr [OF y] assms(1,2) by auto
qed

lemma fill_fails_inv:
  assumes "cache_inv p (s, us @ Filling r cw # ts)" "fails (invalidate_round env cancelled p r cw) s s1" "fails (invalidate_failed p e) s1 s'"
  shows "cache_inv p (s', us @ ts)"
proof -
  obtain x where x: "invalidate_round env cancelled p r cw s = (s1, x)" using assms(2) by (auto simp: fails_def)
  from fill_state [OF assms(1)] obtain be where be: "fmlookup (cbs_bes s) p = Some be" "be_state be = CacheEntryInvalidating"
      "fills (us @ Filling r cw # ts) + tasks p s = 1" by auto
  with round_state [OF be(1,2) x] fill_round_inv [OF assms(1) x] assms(3) show ?thesis
    using fill_failed_inv [of p s1 "us @ ts"] by (auto simp: tasks_def)
qed

lemma fill_open_fails_inv:
  assumes "cache_inv p (s, us @ FillOpening # ts)" "fails (invalidate_failed p e) s s'"
  shows "cache_inv p (s', us @ ts)"
proof -
  from fill_state [OF assms(1)] obtain be where "fmlookup (cbs_bes s) p = Some be" "be_state be = CacheEntryInvalidating"
      "fills (us @ FillOpening # ts) + tasks p s = 1" by auto
  with fill_drop [OF assms(1)] assms(2) show ?thesis
    using fill_failed_inv [of p s "us @ ts"] by auto
qed

text \<open>Writing back.\<close>

lemma cache_inv_plain:
  assumes "fmlookup (cbs_bes s) p = Some be" "be_blobpath be = bp"
    and "be_state be \<notin> {CacheEntryUninitialized, CacheEntryInvalidating, CacheEntryClean, CacheEntryClosing}"
  shows "cache_inv p (s, ts) \<longleftrightarrow> fills ts = 0 \<and> tasks p s = 0 \<and>
    (if be_state be = CacheEntryWritebackInProgress \<or> be_state be = CacheEntryStaleWritebackInProgress then backs ts = 1
     else if be_state be = CacheEntryDirtyClosing then backs ts \<le> 1 else backs ts = 0)"
  using assms by (auto simp: cache_inv_def)

lemma inv_back:
  assumes "cache_inv p (s, us @ t # ts)" "is_back t"
  shows "\<exists>be. fmlookup (cbs_bes s) p = Some be \<and> be_blobpath be = bp \<and> fills us = 0 \<and> fills ts = 0 \<and> tasks p s = 0 \<and> backs us = 0 \<and> backs ts = 0 \<and>
    (be_state be = CacheEntryWritebackInProgress \<or> be_state be = CacheEntryStaleWritebackInProgress \<or> be_state be = CacheEntryDirtyClosing)"
  using assms by (auto simp: cache_inv_def split: if_splits)

lemma query_frame:
  assumes "CachedBackendVersion_Query env bp s = (s', r)"
  shows "cbs_cachebs s' = cbs_cachebs s \<and> cbs_bes s' = cbs_bes s \<and> cbs_spawned s' = cbs_spawned s \<and>
    (\<forall>v. r = Inr v \<longrightarrow> fmlookup (cbs_bever s') bp = Some v)"
  using assms
  by (auto simp: CachedBackendVersion_Query_def on_backend_def deferring_ignoring and_then_def wrapping_def ret_def fail_def CachedBackendVersion_Set_def
      split: if_splits sum.splits option.splits prod.splits)

lemma writeBack_begin_inv:
  assumes "cache_inv p (s, ts)" "backs ts = 0" "writeBack_begin env p s = (s', x)" "\<forall>e. x = Inl e \<longrightarrow> \<not> is_panic e"
  shows "case x of Inr (Some v) \<Rightarrow> cache_inv p (s', BackOpening c v # ts) | _ \<Rightarrow> cache_inv p (s', ts)"
proof -
  obtain be where be: "fmlookup (cbs_bes s) p = Some be" "be_blobpath be = bp" using inv_entry [OF assms(1)] by blast
  obtain s1 r where q: "CachedBackendVersion_Query env bp s = (s1, r)" by force
  note q' = query_frame [OF q]
  consider "be_state be = CacheEntryClean \<or> be_state be = CacheEntryClosing" | "be_state be = CacheEntryDirty \<or> be_state be = CacheEntryDirtyClosing"
    using assms(3,4) be by (auto simp: writeBack_begin_def fail_def split: if_splits)
  then show ?thesis
  proof cases
    case 1
    then show ?thesis using assms(1,3) be by (simp add: writeBack_begin_def ret_def; fastforce)
  next
    case 2
    then have i: "fills ts = 0" "tasks p s = 0" using assms(1) be by (auto simp: cache_inv_def)
    have t: "tasks p s1 = 0" "fmlookup (cbs_bes s1) p = Some be" using q' i(2) be(1) by (auto simp: tasks_def)
    have s1: "cache_inv p (s1, ts)" using 2 i t assms(2) by (auto simp: cache_inv_plain [OF t(2) be(2)])
    have eq: "writeBack_begin env p s =
        and_then (wrapping ''Failed to query cached blob ver'' (\<lambda>s. (s, ver (cfile (cbs_cachebs s))))) (\<lambda>cachever.
        and_then (wrapping ''Failed to query backend blob ver'' (CachedBackendVersion_Query env bp)) (\<lambda>bever.
          if bever = cachever then
            and_then (updateState p CacheEntryWritebackInProgress) (\<lambda>_.
            and_then (updateState p CacheEntryClean) (\<lambda>_. ret None))
          else if bever > cachever then fail (Fmt ''backend version is newer than cached version when writeBack'')
          else
            and_then
              (if be_state be = CacheEntryDirty then updateState p CacheEntryWritebackInProgress else ret ()) (\<lambda>_.
              ret (Some cachever)))) s"
      using 2 be unfolding writeBack_begin_def c_query [symmetric] by auto
    consider (query) e where "x = Inl e" "s' = s" | (backend) e where "x = Inl e" "s' = s1"
      | (same) v where "r = Inr v" "ver (cfile (cbs_cachebs s)) = Inr v" "x = Inr None" "be_state be = CacheEntryDirty"
          "s' = s1\<lparr>cbs_bes := fmupd p (be\<lparr>be_state := CacheEntryClean\<rparr>) (cbs_bes s1)\<rparr>"
      | (dirty) v where "x = Inr (Some v)" "s' = (if be_state be = CacheEntryDirty
          then s1\<lparr>cbs_bes := fmupd p (be\<lparr>be_state := CacheEntryWritebackInProgress\<rparr>) (cbs_bes s1)\<rparr> else s1)"
    proof (cases "ver (cfile (cbs_cachebs s))")
      case (Inl e)
      then show ?thesis using assms(3) that(1) unfolding eq by (auto simp: and_then_def wrapping_def)
    next
      case cv: (Inr cv)
      show ?thesis
      proof (cases r)
        case (Inl e)
        then show ?thesis using assms(3) cv q that(2) unfolding eq by (auto simp: and_then_def wrapping_def)
      next
        case (Inr bv)
        then show ?thesis using assms(3,4) cv q 2 t(2) that unfolding eq
          by (auto simp: and_then_def wrapping_def fail_def ret_def updateState_Some split: if_splits)
      qed
    qed
    then show ?thesis
    proof cases
      case same
      then show ?thesis using be i t assms(2) q' by (auto simp: cache_inv_def agree_def tasks_def)
    next
      case dirty
      then show ?thesis using 2 be i t assms(2) by (auto simp: cache_inv_def tasks_def)
    qed (use assms(1) s1 in simp_all)
  qed
qed

lemma sync_begin_inv:
  assumes "cache_inv p (s, ts)" "sync_begin env p s = (s', x)" "\<forall>e. x = Inl e \<longrightarrow> \<not> is_panic e"
  shows "case x of Inr (Some v) \<Rightarrow> cache_inv p (s', BackOpening c v # ts) | _ \<Rightarrow> cache_inv p (s', ts)"
proof -
  obtain be where be: "fmlookup (cbs_bes s) p = Some be" "be_blobpath be = bp" using inv_entry [OF assms(1)] by blast
  obtain s1 d where d: "Sync_loop p s = (s1, d)" by force
  have s1: "s1 = s" "d = Inr True \<Longrightarrow> be_state be = CacheEntryDirty"
    using d be wait_done_same [of p s]
    by (auto simp: Sync_loop_def and_then_def fail_def ret_def split: CacheEntryState.splits prod.splits sum.splits)
  show ?thesis
  proof (cases "d = Inr True")
    case True
    then have "writeBack_begin env p s = (s', x)" "backs ts = 0"
      using assms(1,2) d s1 be by (auto simp: sync_begin_def and_then_def cache_inv_def)
    then show ?thesis using writeBack_begin_inv [OF assms(1)] assms(3) by blast
  next
    case False
    then have "s' = s" "\<forall>v. x \<noteq> Inr (Some v)" using assms(2) d s1 by (auto simp: sync_begin_def and_then_def ret_def split: sum.splits)
    then show ?thesis using assms(1) by (auto split: sum.splits option.splits)
  qed
qed

lemma inv_back_frame:
  assumes "cache_inv p (s, us @ t # ts)" "is_back t" "is_back t'" "cbs_bes s' = cbs_bes s" "cbs_spawned s' = cbs_spawned s"
  shows "cache_inv p (s', us @ t' # ts)"
proof -
  have "\<not> is_writer t" "\<not> is_writer t'" "\<not> is_fill t" "\<not> is_fill t'" using assms(2,3) by (cases t; cases t'; simp)+
  with inv_back [OF assms(1,2)] assms show ?thesis by (auto simp: cache_inv_def tasks_def)
qed

lemma back_failed_inv:
  assumes "cache_inv p (s, us @ t # ts)" "is_back t" "writeBack_failed p e s = (s1, x)" "\<forall>e. x = Inl e \<longrightarrow> \<not> is_panic e"
    and "cbs_bes s' = cbs_bes s1" "cbs_spawned s' = cbs_spawned s1"
  shows "cache_inv p (s', us @ ts)"
proof -
  from inv_back [OF assms(1,2)] obtain be where be: "fmlookup (cbs_bes s) p = Some be" "be_blobpath be = bp"
      "fills us = 0" "fills ts = 0" "tasks p s = 0" "backs us = 0" "backs ts = 0" by blast
  then have "s1 = s\<lparr>cbs_bes := fmupd p (be\<lparr>be_state := CacheEntryErrored\<rparr>) (cbs_bes s)\<rparr>"
    using assms(3,4) by (auto simp: writeBack_failed_def and_then_def fail_def updateState_Some split: if_splits)
  with be assms(5,6) show ?thesis by (auto simp: cache_inv_def tasks_def)
qed

lemma back_open_inv:
  assumes "cache_inv p (s, us @ t # ts)" "is_back t" "is_back t'" "writeBack_open env p s = (s', x)" "\<forall>e. x = Inl e \<longrightarrow> \<not> is_panic e"
  shows "case x of Inr w \<Rightarrow> cache_inv p (s', us @ t' # ts) | Inl e \<Rightarrow> cache_inv p (s', us @ ts)"
proof -
  obtain be where be: "fmlookup (cbs_bes s) p = Some be" "be_blobpath be = bp" using inv_entry [OF assms(1)] by blast
  obtain b y where b: "bk_OpenWriter env bp (cbs_backendbs s) = (b, y)" by force
  let ?s = "s\<lparr>cbs_backendbs := b\<rparr>"
  note fr = inv_back_frame [OF assms(1,2,3), of ?s] inv_back_frame [OF assms(1,2,2), of ?s]
  show ?thesis
  proof (cases y)
    case (Inl e)
    then have "writeBack_failed p (errorf ''Failed to open backend blob writer'' e) ?s = (s', x)"
      using assms(4,5) be b by (auto simp: writeBack_open_def on_backend_def rescue_def split: if_splits)
    moreover from this have "\<exists>e. x = Inl e" by (auto simp: writeBack_failed_def and_then_def fail_def split: prod.splits sum.splits)
    ultimately show ?thesis using back_failed_inv [OF fr(2) assms(2) _ assms(5)] by auto
  next
    case (Inr w)
    then show ?thesis using assms(4) be b fr(1) by (auto simp: writeBack_open_def on_backend_def rescue_def)
  qed
qed

lemma back_block_frame:
  assumes "writeBack_block env p w off n s = (s', x)" "fmlookup (cbs_bes s) p = Some be"
  shows "cbs_bes s' = cbs_bes s \<and> cbs_spawned s' = cbs_spawned s"
  using assms
  by (auto simp: writeBack_block_def and_then_def cache_PRead_def on_cache_def on_backend_def ret_def wrapping_def split: prod.splits sum.splits if_splits)

lemma back_block_fails_inv:
  assumes "cache_inv p (s, us @ t # ts)" "is_back t" "writeBack_block env p w off n s = (s1, Inl e)" "fails (back_copy_failed env p w e) s1 s'"
  shows "cache_inv p (s', us @ ts)"
proof -
  obtain be where be: "fmlookup (cbs_bes s) p = Some be" using inv_entry [OF assms(1)] by blast
  have i: "cache_inv p (s1, us @ t # ts)" using inv_back_frame [OF assms(1,2,2)] back_block_frame [OF assms(3) be] by blast
  obtain s2 and x :: "unit result" where x: "writeBack_failed p (errorf ''Failed to copy dirty data to backend blob writer'' e) s1 = (s2, x)"
    by (meson surj_pair)
  then have "cbs_bes s' = cbs_bes s2 \<and> cbs_spawned s' = cbs_spawned s2 \<and> (\<forall>e. x = Inl e \<longrightarrow> \<not> is_panic e)"
    using assms(4) by (auto simp: fails_def back_copy_failed_def deferring_ignoring on_backend_def split: prod.splits if_splits sum.splits)
  then show ?thesis using back_failed_inv [OF i assms(2) x] by blast
qed

lemma writeBack_end_inv:
  assumes "cache_inv p (s, us @ t # ts)" "is_back t" "writeBack_end env p w v s = (s', x)" "\<forall>e. x = Inl e \<longrightarrow> \<not> is_panic e"
  shows "cache_inv p (s', us @ ts)"
proof -
  from inv_back [OF assms(1,2)] obtain be where be: "fmlookup (cbs_bes s) p = Some be" "be_blobpath be = bp"
      "fills us = 0" "fills ts = 0" "tasks p s = 0" "backs us = 0" "backs ts = 0"
      and st: "be_state be = CacheEntryWritebackInProgress \<or> be_state be = CacheEntryStaleWritebackInProgress \<or> be_state be = CacheEntryDirtyClosing"
    by blast
  let ?m = "with_be p (\<lambda>be.
          and_then (CachedBackendVersion_Set (be_blobpath be) v) (\<lambda>_.
            case be_state be of
              CacheEntryWritebackInProgress \<Rightarrow> (\<lambda>s.
                case ce_queryVersion env (be_blobpath be) (cbs_cachebs s) of
                  Inl e \<Rightarrow>
                    if is_panic e then (s, Inl e) else writeBack_failed p (errorf ''Failed to query cached blob ver'' e) s
                | Inr after \<Rightarrow> updateState p (if after = v then CacheEntryClean else CacheEntryDirty) s)
            | CacheEntryStaleWritebackInProgress \<Rightarrow> updateState p CacheEntryDirty
            | _ \<Rightarrow> ret ()))"
  obtain s1 r where m: "?m s = (s1, r)" by force
  let ?s = "s\<lparr>cbs_bever := fmupd bp v (cbs_bever s)\<rparr>"
  have r: "\<forall>e. r = Inl e \<longrightarrow> \<not> is_panic e" "cbs_bes s' = cbs_bes s1" "cbs_spawned s' = cbs_spawned s1" "cbs_bever s' = cbs_bever s1" "cbs_cachebs s' = cbs_cachebs s1"
    using assms(3,4) m unfolding writeBack_end_def by (auto simp: deferring_ignoring on_backend_def split: prod.splits if_splits sum.splits)
  have s1: "s1 = ?s \<and> be_state be = CacheEntryDirtyClosing \<or> s1 = ?s\<lparr>cbs_bes := fmupd p (be\<lparr>be_state := CacheEntryErrored\<rparr>) (cbs_bes s)\<rparr> \<or>
      s1 = ?s\<lparr>cbs_bes := fmupd p (be\<lparr>be_state := CacheEntryDirty\<rparr>) (cbs_bes s)\<rparr> \<or>
      s1 = ?s\<lparr>cbs_bes := fmupd p (be\<lparr>be_state := CacheEntryClean\<rparr>) (cbs_bes s)\<rparr> \<and> ver (cfile (cbs_cachebs s)) = Inr v"
    using m st be(1,2) r(1) unfolding CachedBackendVersion_Set_def and_then_def
    by (auto simp: c_query [symmetric] ret_def fail_def writeBack_failed_def and_then_def updateState_Some split: sum.splits if_splits)
  from s1 be r(2-) show ?thesis by (auto simp: cache_inv_def tasks_def agree_def)
qed

lemma count_sync_inv: "cache_inv p (s, ts) \<Longrightarrow> count_sync now p s = (s', x) \<Longrightarrow> cache_inv p (s', ts)"
  using inv_entry [of p s ts] cache_inv_frame [of p s ts _ s'] by (auto simp: count_sync_def)

lemma cache_inv_cache:
  assumes "cache_inv p (s, ts)" "cfile c = cfile (cbs_cachebs s)" "\<And>cw. filling (cbs_cachebs s) cw \<Longrightarrow> filling c cw"
  shows "cache_inv p (s\<lparr>cbs_cachebs := c\<rparr>, ts)"
  using inv_entry [OF assms(1)] cache_inv_frame [OF assms(1), of _ "s\<lparr>cbs_cachebs := c\<rparr>"] assms(2,3) by auto

lemma closed_inv:
  assumes "cache_inv p (s, ts)" "fmlookup (cbs_bes s) p = Some be" "backs ts = 0" "updateState p st s = (s', x)" "\<forall>e. x = Inl e \<longrightarrow> \<not> is_panic e"
    and "st = CacheEntryClosed \<or> st = CacheEntryErroredClosed"
  shows "cache_inv p (s', ts)"
proof -
  have "s' = s\<lparr>cbs_bes := fmupd p (be\<lparr>be_state := st\<rparr>) (cbs_bes s)\<rparr>" "be_state be \<noteq> CacheEntryInvalidating"
    using assms(2,4-6) by (auto simp: updateState_Some split: if_splits)
  then show ?thesis using assms(1-3,6) by (auto simp: cache_inv_def tasks_def)
qed

lemma close_end_inv:
  assumes "cache_inv p (s, ts)" "backs ts = 0" "Close_end env x p s = (s', r)" "\<forall>e. r = Inl e \<longrightarrow> \<not> is_panic e"
  shows "cache_inv p (s', ts)"
proof -
  obtain be where be: "fmlookup (cbs_bes s) p = Some be" "be_blobpath be = bp" using inv_entry [OF assms(1)] by blast
  let ?m = "if be_cachebh be then wrapping ''Failed to close cache bh'' (on_cache (ce_Close env (be_blobpath be))) else ret ()"
  obtain s1 y where m: "?m s = (s1, y)" by force
  obtain c where s1: "s1 = s\<lparr>cbs_cachebs := c\<rparr>" "cfile c = cfile (cbs_cachebs s)" "\<And>cw. filling (cbs_cachebs s) cw \<Longrightarrow> filling c cw"
  proof (cases "be_cachebh be")
    case True
    obtain c z where c: "ce_Close env bp (cbs_cachebs s) = (c, z)" by force
    then have "s1 = s\<lparr>cbs_cachebs := c\<rparr>" using True m be by (auto simp: wrapping_def on_cache_def split: sum.splits if_splits)
    with c_close [OF c] that show ?thesis by blast
  next
    case False
    then show ?thesis using m that [of "cbs_cachebs s"] by (simp add: ret_def)
  qed
  have i: "cache_inv p (s1, ts)" using cache_inv_cache [OF assms(1) s1(2,3)] s1(1) by simp
  have e: "Close_end env x p s = (case y of Inl e \<Rightarrow> (s1, Inl e) | Inr _ \<Rightarrow>
      (if x then and_then (ignoring (on_cache (ce_RemoveBlob env (be_blobpath be)))) (\<lambda>_. updateState p CacheEntryErroredClosed)
         else updateState p CacheEntryClosed) s1)"
    using m be(1) by (simp add: Close_end_def and_then_def [of "?m"] split: sum.splits)
  have be1: "fmlookup (cbs_bes s1) p = Some be" using be s1(1) by simp
  show ?thesis
  proof (cases "x \<and> (\<exists>u. y = Inr u)")
    case True
    obtain c2 z where z: "ce_RemoveBlob env bp (cbs_cachebs s1) = (c2, z)" by force
    let ?s2 = "s1\<lparr>cbs_cachebs := c2\<rparr>"
    have "updateState p CacheEntryErroredClosed ?s2 = (s', r)"
      using assms(3,4) True z be(2) unfolding e by (auto simp: and_then_def ignoring_def on_cache_def split: sum.splits if_splits)
    then have "s' = ?s2\<lparr>cbs_bes := fmupd p (be\<lparr>be_state := CacheEntryErroredClosed\<rparr>) (cbs_bes s1)\<rparr>" "be_state be = CacheEntryErrored"
      using be1 assms(4) by (cases "be_state be"; auto simp: updateState_Some)+
    then show ?thesis using i be1 assms(2) by (auto simp: cache_inv_def tasks_def)
  next
    case False
    then show ?thesis using assms(3,4) i closed_inv [OF i be1 assms(2)] unfolding e by (auto split: sum.splits)
  qed
qed

text \<open>Closing.\<close>

lemma Close_step_results:
  assumes "fmlookup (cbs_bes s) p = Some be" "Close_step mode p s = (s', x)" "\<forall>e. x = Inl e \<longrightarrow> \<not> is_panic e"
    and u: "waitUntilInvalidateDone p s = (s, u)" 
  shows "s' = s \<and> (\<forall>y. x = Inr (Some y) \<longrightarrow> be_state be = CacheEntryErrored) \<or>
      be_state be = CacheEntryClean \<and> s' = s\<lparr>cbs_bes := fmupd p (be\<lparr>be_state := CacheEntryClosing\<rparr>) (cbs_bes s)\<rparr> \<or>
      be_state be = CacheEntryDirty \<and> s' = s\<lparr>cbs_bes := fmupd p (be\<lparr>be_state := CacheEntryDirtyClosing\<rparr>) (cbs_bes s)\<rparr>"
proof (cases "be_state be = CacheEntryInvalidating")
  case True
  show ?thesis
  proof (cases "mode = abandonAndClose")
    case m: True
    then show ?thesis using assms(1-3) True by (auto simp: Close_step_def and_then_def updateState_Some)
  next
    case m: False
    then have "s' = s \<and> (\<exists>e. x = Inl e)" using assms(1,2) u True by (cases u) (auto simp: Close_step_def and_then_def ignoring_def fail_def split: if_splits)
    then show ?thesis by auto
  qed
next
  case False
  then show ?thesis using assms(1,2)
    by (cases "be_state be") (auto simp: Close_step_def fail_def ret_def and_then_def updateState_Some)
qed

lemma close_step_inv:
  assumes "cache_inv p (s, ts)" "Close_step mode p s = (s', x)" "\<forall>e. x = Inl e \<longrightarrow> \<not> is_panic e"
  shows "cache_inv p (s', ts) \<and> (\<forall>y. x = Inr (Some y) \<longrightarrow> backs ts = 0)"
proof -
  obtain be where be: "fmlookup (cbs_bes s) p = Some be" "be_blobpath be = bp" using inv_entry [OF assms(1)] by blast
  obtain u where u: "waitUntilInvalidateDone p s = (s, u)" using wait_done_same by (metis surj_pair)
  from Close_step_results [OF be(1) assms(2,3) u] show ?thesis
  proof (elim disjE conjE)
    assume "s' = s" "\<forall>y. x = Inr (Some y) \<longrightarrow> be_state be = CacheEntryErrored"
    then show ?thesis using assms(1) be by (auto simp: cache_inv_def)
  next
    assume "be_state be = CacheEntryClean" "s' = s\<lparr>cbs_bes := fmupd p (be\<lparr>be_state := CacheEntryClosing\<rparr>) (cbs_bes s)\<rparr>"
    then show ?thesis using assms(1) be by (auto simp: cache_inv_def tasks_def agree_def)
  next
    assume "be_state be = CacheEntryDirty" "s' = s\<lparr>cbs_bes := fmupd p (be\<lparr>be_state := CacheEntryDirtyClosing\<rparr>) (cbs_bes s)\<rparr>"
    then show ?thesis using assms(1) be by (auto simp: cache_inv_def tasks_def)
  qed
qed

lemma close_begin_inv:
  assumes "cache_inv p (s, ts)" "close_begin env mode p s = (s', x)" "\<forall>e. x = Inl e \<longrightarrow> \<not> is_panic e"
  shows "cache_inv p (s', ts) \<and> (\<forall>y. x = Inr (Some y) \<longrightarrow> backs ts = 0)"
proof -
  obtain be where be: "fmlookup (cbs_bes s) p = Some be" "be_blobpath be = bp" using inv_entry [OF assms(1)] by blast
  consider e where "s' = s" "x = Inl e" | m where "Close_loop env m p s = (s', x)"
    using assms(2) be(1) by (auto simp: close_begin_def Close_begin_def and_then_def fail_def ret_def split: if_splits)
  then show ?thesis
  proof cases
    case 2
    show ?thesis
    proof (cases "be_state be = CacheEntryUninitialized")
      case True
      obtain s1 r where r: "initializeWithLock env p s = (s1, r)" by force
      have l: "Close_loop env m p s = (case r of Inl e \<Rightarrow> (s1, Inl e) | Inr _ \<Rightarrow> Close_step m p s1)"
        using True be(1) r by (simp add: Close_loop_def and_then_def split: sum.splits)
      have "\<forall>e. r = Inl e \<longrightarrow> \<not> is_panic e" using 2 assms(3) unfolding l by auto
      note i = init_inv [OF assms(1) be(1) True r this]
      then show ?thesis using 2 close_step_inv [OF i _ assms(3)] unfolding l by (auto split: sum.splits)
    next
      case False
      then show ?thesis using 2 be(1) close_step_inv [OF assms(1) _ assms(3)] by (simp add: Close_loop_def)
    qed
  qed (use assms(1) in auto)
qed

lemma close_rest_inv:
  assumes "cache_inv p (s, ts)" "backs ts = 0" "close_rest env now p s = (s', r)" "\<forall>e. r = Inl e \<longrightarrow> \<not> is_panic e"
  shows "cache_inv p (s', ts)"
proof -
  obtain s1 u where u: "count_sync now p s = (s1, u)" by force
  have i: "cache_inv p (s1, ts)" by (rule count_sync_inv [OF assms(1) u])
  then show ?thesis using assms(2-4) u close_end_inv [OF i assms(2)]
    by (auto simp: close_rest_def and_then_def split: sum.splits)
qed

lemma back_end_inv:
  assumes "cache_inv p (s, us @ t # ts)" "is_back t" "back_end env now p c w v s = (s', x)" "\<forall>e. x = Inl e \<longrightarrow> \<not> is_panic e"
  shows "cache_inv p (s', us @ ts)"
proof -
  obtain s1 r where r: "writeBack_end env p w v s = (s1, r)" by force
  have e: "back_end env now p c w v s = (case r of Inl e \<Rightarrow> (s1, Inl e) | Inr _ \<Rightarrow> if c then close_rest env now p s1 else count_sync now p s1)"
    using r by (simp add: back_end_def and_then_def split: sum.splits)
  have "\<forall>e. r = Inl e \<longrightarrow> \<not> is_panic e" using assms(3,4) unfolding e by auto
  note i = writeBack_end_inv [OF assms(1,2) r this]
  have b: "backs (us @ ts) = 0" using inv_back [OF assms(1,2)] by auto
  show ?thesis using assms(3,4) i close_rest_inv [OF i b] count_sync_inv [OF i] unfolding e by (auto split: sum.splits if_splits)
qed

lemma sync_cache_inv:
  assumes "cache_inv p (s, ts)" "cache_Sync env p s = (s', r)"
  shows "cache_inv p (s', ts)"
proof -
  obtain be where be: "fmlookup (cbs_bes s) p = Some be" "be_blobpath be = bp" using inv_entry [OF assms(1)] by blast
  show ?thesis
  proof (cases "ce_Sync env")
    case None
    then show ?thesis using assms be by (simp add: cache_Sync_def ret_def)
  next
    case (Some sync)
    obtain c z where c: "sync bp (cbs_cachebs s) = (c, z)" by force
    then have "s' = s\<lparr>cbs_cachebs := c\<rparr>" using assms(2) be Some by (auto simp: cache_Sync_def on_cache_def)
    then show ?thesis using cache_inv_cache [OF assms(1)] c_sync [OF Some c] by auto
  qed
qed

lemma close_unchanged_inv:
  assumes "cache_inv p (s, ts)" "go (close_begin env mode p) s s1 (Some y)" "writeBack_begin env p s1 = (s2, x)" "\<forall>e. x = Inl e \<longrightarrow> \<not> is_panic e"
  shows "backs ts = 0 \<and> (case x of Inr (Some v) \<Rightarrow> cache_inv p (s2, BackOpening c v # ts) | _ \<Rightarrow> cache_inv p (s2, ts))"
proof -
  have "cache_inv p (s1, ts)" "backs ts = 0" using close_begin_inv [OF assms(1), of mode s1] assms(2) by (auto simp: go_def)
  then show ?thesis using writeBack_begin_inv assms(3,4) by blast
qed

lemma back_block_inv:
  assumes "cache_inv p (s, us @ BackCopying c v w off n # ts)" "writeBack_block env p w off n s = (s', x)"
  shows "cache_inv p (s', us @ BackCopying c v w off' n' # ts)"
proof -
  obtain be where "fmlookup (cbs_bes s) p = Some be" using inv_entry [OF assms(1)] by blast
  then show ?thesis using inv_back_frame [OF assms(1)] back_block_frame [OF assms(2)] by simp
qed

lemma fill_open_inv':
  assumes "cache_inv p (s, us @ FillOpening # ts)" "fmlookup (cbs_bes s) p = Some be"
    and "invalidate_reader env (be_blobpath be) s = (s1, Inr r)" "invalidate_writer env (be_blobpath be) s1 = (s', Inr cw)"
  shows "cache_inv p (s', us @ Filling r cw # ts)"
  using fill_open_inv [OF assms(1)] inv_entry [OF assms(1)] assms(2-4) by auto

lemma writing_inv:
  assumes "cache_inv p (s, us @ t # ts)" "is_writer t" "(\<exists>bs off. cache_PWrite env p bs off s = (s', r)) \<or> (\<exists>n. cache_Truncate env p n s = (s', r))"
  shows "cache_inv p (s', us @ Written # ts)"
proof -
  obtain be where "fmlookup (cbs_bes s) p = Some be" using inv_entry [OF assms(1)] by blast
  then have "\<exists>f :: 'c \<Rightarrow> 'c \<times> unit result. on_cache f s = (s', r)" using assms(3) by (auto simp: cache_PWrite_def cache_Truncate_def)
  then have "\<exists>c. s' = s\<lparr>cbs_cachebs := c\<rparr>" by (auto simp: on_cache_def split: prod.splits) (metis surj_pair)
  then show ?thesis using write_cache_inv [OF assms(1,2)] by blast
qed

lemma step_inv:
  assumes "cache_step env p x y" "cache_inv p x"
  shows "cache_inv p y"
  using assms
  apply (cases rule: cache_step.cases)
  subgoal using open_inv by (auto simp: go_def)
  subgoal using open_inv by (auto simp: fails_def)
  subgoal using close_handle_inv by (auto simp: go_def)
  subgoal using read_inv by (auto simp: go_def)
  subgoal using read_inv by (auto simp: fails_def)
  subgoal using write_begin_inv by (auto simp: go_def)
  subgoal for bs off s s' r us ts using writing_inv [of p s us "Writing bs off" ts s' r] by auto
  subgoal using truncate_begin_inv by (auto simp: go_def)
  subgoal for n s s' r us ts using writing_inv [of p s us "Truncating n" ts s' r] by auto
  subgoal using write_end_inv by (auto simp: go_def)
  subgoal using fill_begin_inv by (auto simp: go_def)
  subgoal using fill_open_inv' by (auto simp: go_def)
  subgoal for r cw s s' us ts using fill_round_inv [of p s us r cw ts None s' "Inr True"] by (auto simp: go_def)
  subgoal for r cw s s' us ts using fill_round_inv [of p s us r cw ts None s' "Inr False"] by (auto simp: go_def)
  subgoal using fill_fails_inv by auto
  subgoal using fill_open_fails_inv by auto
  subgoal for s s' ts using sync_begin_inv [of p s ts s' "Inr None"] by (auto simp: go_def)
  subgoal for s s' ts using sync_begin_inv [of p s ts s' "Inl _"] by (auto simp: fails_def)
  subgoal for s s' v ts using sync_begin_inv [of p s ts s' "Inr (Some v)"] by (auto simp: go_def)
  subgoal for mode s s1 x s' v ts using close_unchanged_inv [of p s ts mode s1 _ s' "Inr (Some v)"] by (auto simp: go_def)
  subgoal for mode s s1 x s2 now s' r ts using close_unchanged_inv [of p s ts mode s1 _ s2 "Inr None"] close_rest_inv [of p s2 ts now s' "Inr r"] by (auto simp: go_def)
  subgoal for mode s s1 x s' ts using close_unchanged_inv [of p s ts mode s1 _ s' "Inl _"] by (auto simp: fails_def)
  subgoal for mode s s1 x s' r ts using close_begin_inv [of p s ts mode s1] close_end_inv [of p s1 ts x s' "Inr r"] by (auto simp: go_def)
  subgoal for mode s s1 x s' ts using close_begin_inv [of p s ts mode s1] close_end_inv [of p s1 ts x s' "Inl _"] by (auto simp: go_def fails_def)
  subgoal using sync_cache_inv by auto
  subgoal for mode s s' ts using close_begin_inv [of p s ts mode s' "Inr None"] by (auto simp: go_def)
  subgoal for mode s s' ts using close_begin_inv [of p s ts mode s' "Inl _"] by (auto simp: fails_def)
  subgoal for s be s' w us c v ts using back_open_inv [of p s us "BackOpening c v" ts _ s' "Inr w"] by (auto simp: go_def)
  subgoal for s s' us c v ts using back_open_inv [of p s us "BackOpening c v" ts "BackOpening c v" s' "Inl _"] by (auto simp: fails_def)
  subgoal using back_block_inv by (auto simp: go_def)
  subgoal using back_block_fails_inv by auto
  subgoal for now c w v s s' r us off ts using back_end_inv [of p s us "BackCopying c v w off 0" ts now c w v s' "Inr r"] by (auto simp: go_def)
  subgoal for now c w v s s' us off ts using back_end_inv [of p s us "BackCopying c v w off 0" ts now c w v s' "Inl _"] by (auto simp: fails_def)
  done

end

end
