(* ===== verification/Cache_Files.thy ===== *)
theory Cache_Files
  imports Cache_Invariant
begin

text \<open>
  The cached blob store over two file blob stores, as its tests set it up: the streams of a file blob store
  (\<open>OpenReader\<close> and \<open>OpenWriter\<close> of \<open>blobstore/fileblobstore.go\<close>) and the version query of the tests. They satisfy what an
  entry relies on of its stores.

  A descriptor of the operating system is a path and a position. A file is not removed while a stream of it is open.
\<close>

section \<open>Streams\<close>

record Files =
  fl_store :: "(byte list) FileBlobStore"
  fl_fds :: "(nat, string \<times> nat) fmap"
  fl_next :: nat

definition file_of :: "string \<Rightarrow> Files \<Rightarrow> byte list option" where
  "file_of blobpath F = fmlookup (fbs_files (fl_store F)) blobpath"

definition content_of :: "string \<Rightarrow> Files \<Rightarrow> byte list" where
  "content_of blobpath F = (case file_of blobpath F of None \<Rightarrow> [] | Some c \<Rightarrow> c)"

definition put_file :: "string \<Rightarrow> byte list \<Rightarrow> Files \<Rightarrow> Files" where
  "put_file blobpath c F = F\<lparr>fl_store := (fl_store F)\<lparr>fbs_files := fmupd blobpath c (fbs_files (fl_store F))\<rparr>\<rparr>"

definition new_fd :: "string \<Rightarrow> Files \<Rightarrow> Files \<times> nat result" where
  "new_fd blobpath F =
     (F\<lparr>fl_fds := fmupd (fl_next F) (blobpath, 0) (fl_fds F), fl_next := Suc (fl_next F)\<rparr>, Inr (fl_next F))"

definition FileBlobStore_OpenWriter :: "string \<Rightarrow> Files \<Rightarrow> Files \<times> nat result" where
  "FileBlobStore_OpenWriter blobpath F =
     (if \<not> IsWriteAllowed (fbs_flags (fl_store F)) then (F, Inl (Errno EACCES)) else new_fd blobpath (put_file blobpath [] F))"

definition FileBlobStore_OpenReader :: "string \<Rightarrow> Files \<Rightarrow> Files \<times> nat result" where
  "FileBlobStore_OpenReader blobpath F =
     (if \<not> IsReadAllowed (fbs_flags (fl_store F)) then (F, Inl (Errno EACCES))
      else if file_of blobpath F = None then (F, Inl (Errno ENOENT))
      else new_fd blobpath F)"

text \<open>\<open>Read\<close>, \<open>Write\<close> and \<open>Close\<close> of a file.\<close>

definition os_Read :: "nat \<Rightarrow> nat \<Rightarrow> Files \<Rightarrow> Files \<times> byte list \<times> error option" where
  "os_Read n fd F =
     (case fmlookup (fl_fds F) fd of
        None \<Rightarrow> (F, [], Some (Fmt ''file already closed''))
      | Some (path, pos) \<Rightarrow>
          let bs = take n (drop pos (content_of path F)) in
          if bs = [] \<and> n > 0 then (F, [], Some EOF)
          else (F\<lparr>fl_fds := fmupd fd (path, pos + length bs) (fl_fds F)\<rparr>, bs, None))"

definition os_Write :: "byte list \<Rightarrow> nat \<Rightarrow> Files \<Rightarrow> Files \<times> nat \<times> error option" where
  "os_Write bs fd F =
     (case fmlookup (fl_fds F) fd of
        None \<Rightarrow> (F, 0, Some (Fmt ''file already closed''))
      | Some (path, pos) \<Rightarrow>
          ((put_file path (fwrite (content_of path F) pos bs) F)\<lparr>fl_fds := fmupd fd (path, pos + length bs) (fl_fds F)\<rparr>,
           length bs, None))"

definition os_Close :: "nat \<Rightarrow> Files \<Rightarrow> Files \<times> unit result" where
  "os_Close fd F =
     (if fmlookup (fl_fds F) fd = None then (F, Inl (Fmt ''file already closed''))
      else (F\<lparr>fl_fds := fmdrop fd (fl_fds F)\<rparr>, Inr ()))"

text \<open>The version the tests give a blob: its first byte.\<close>

definition TestQueryVersion :: "byte list \<Rightarrow> Version result" where
  "TestQueryVersion q = (case q of [] \<Rightarrow> Inr 0 | b # _ \<Rightarrow> Inr (uint b))"

section \<open>The environment\<close>

definition file_handle_of :: "string \<Rightarrow> Files \<Rightarrow> FileBlobHandle" where
  "file_handle_of blobpath F = \<lparr>fh_content = content_of blobpath F, fh_readable = True, fh_writable = True\<rparr>"

definition on_blob_file ::
    "string \<Rightarrow> (FileBlobHandle \<Rightarrow> FileBlobHandle \<times> error option) \<Rightarrow> Files \<Rightarrow> Files \<times> unit result" where
  "on_blob_file blobpath f F =
     (case f (file_handle_of blobpath F) of
        (h, None) \<Rightarrow> (put_file blobpath (fh_content h) F, Inr ())
      | (h, Some e) \<Rightarrow> (F, Inl e))"

definition Files_Open :: "string \<Rightarrow> flags \<Rightarrow> Files \<Rightarrow> Files \<times> unit result" where
  "Files_Open blobpath f F =
     (case FileBlobStore_Open blobpath f (fl_store F) of
        (Inl e, st) \<Rightarrow> (F\<lparr>fl_store := st\<rparr>, Inl e)
      | (Inr h, st) \<Rightarrow> (F\<lparr>fl_store := st\<rparr>, Inr ()))"

definition Files_RemoveBlob :: "string \<Rightarrow> Files \<Rightarrow> Files \<times> unit result" where
  "Files_RemoveBlob blobpath F =
     (case FileBlobStore_RemoveBlob blobpath (fl_store F) of
        (Some e, st) \<Rightarrow> (F\<lparr>fl_store := st\<rparr>, Inl e)
      | (None, st) \<Rightarrow> (F\<lparr>fl_store := st\<rparr>, Inr ()))"

definition query_stream :: "nat \<Rightarrow> Files \<Rightarrow> Files \<times> Version result" where
  "query_stream fd F =
     (case os_Read 1 fd F of
        (F', bs, None) \<Rightarrow> (F', TestQueryVersion bs)
      | (F', bs, Some e) \<Rightarrow> (F', if e = EOF then Inr 0 else Inl (errorf ''Failed to read 1 byte'' e)))"

definition file_env :: "(Files, nat, Files, nat, nat) cbs_env" where
  "file_env =
     \<lparr>ce_queryVersion = (\<lambda>bp c. TestQueryVersion (content_of bp c)),
      ce_Open = Files_Open,
      ce_PRead = (\<lambda>bp n off c. (c, File_PRead (file_handle_of bp c) n off)),
      ce_PWrite = (\<lambda>bp bs off. on_blob_file bp (File_PWrite bs off)),
      ce_Size = (\<lambda>bp c. int (length (content_of bp c))),
      ce_Truncate = (\<lambda>bp n. on_blob_file bp (File_Truncate n)),
      ce_Sync = None,
      ce_Close = (\<lambda>bp c. (c, Inr ())),
      ce_RemoveBlob = Files_RemoveBlob,
      ce_OpenWriter = Some FileBlobStore_OpenWriter,
      ce_Write = os_Write,
      ce_CloseWriter = os_Close,
      bk_OpenReader = FileBlobStore_OpenReader,
      bk_Read = os_Read,
      bk_queryVersion = query_stream,
      bk_CloseReader = os_Close,
      bk_BlobSize = (\<lambda>bp b. case FileBlobStore_BlobSize bp (fl_store b) of Inl e \<Rightarrow> (- 1, Some e) | Inr n \<Rightarrow> (n, None)),
      bk_OpenWriter = FileBlobStore_OpenWriter,
      bk_Write = (\<lambda>bs w b. case os_Write bs w b of (b', n, None) \<Rightarrow> (b', Inr ()) | (b', n, Some e) \<Rightarrow> (b', Inl e)),
      bk_CloseWriter = os_Close,
      bk_RemoveBlob = Some Files_RemoveBlob\<rparr>"

section \<open>What the entry relies on\<close>

definition at_end :: "string \<Rightarrow> Files \<Rightarrow> nat \<Rightarrow> bool" where
  "at_end bp F fd \<longleftrightarrow> fmlookup (fl_fds F) fd = Some (bp, length (content_of bp F))"

definition to_read :: "string \<Rightarrow> Files \<Rightarrow> nat \<Rightarrow> byte list \<Rightarrow> bool" where
  "to_read bp F fd q \<longleftrightarrow> (\<exists>pos c. fmlookup (fl_fds F) fd = Some (bp, pos) \<and> file_of bp F = Some c \<and> q = drop pos c)"

lemma put_file_simps [simp]:
  "file_of bp (put_file bp c F) = Some c" "content_of bp (put_file bp c F) = c" "fl_fds (put_file bp c F) = fl_fds F"
  "fl_next (put_file bp c F) = fl_next F"
  by (simp_all add: put_file_def file_of_def content_of_def)

lemma fl_fds_simps [simp]:
  "file_of bp (F\<lparr>fl_fds := x\<rparr>) = file_of bp F" "file_of bp (F\<lparr>fl_next := n\<rparr>) = file_of bp F"
  "content_of bp (F\<lparr>fl_fds := x\<rparr>) = content_of bp F" "content_of bp (F\<lparr>fl_next := n\<rparr>) = content_of bp F"
  by (simp_all add: file_of_def content_of_def)

lemma Files_Open_content: "Files_Open bp f F = (F', r) \<Longrightarrow> content_of bp F' = content_of bp F"
  by (auto simp: Files_Open_def FileBlobStore_Open_def Let_def content_of_def file_of_def split: if_splits option.splits)

lemma os_Write_end:
  "at_end bp F fd \<Longrightarrow> os_Write bs fd F = (F', n, e) \<Longrightarrow> n = length bs \<and> content_of bp F' = content_of bp F @ bs \<and> at_end bp F' fd"
  by (auto simp: at_end_def os_Write_def fwrite_def)

lemma os_Read_stream:
  assumes "to_read bp F fd q" "os_Read n fd F = (F', bs, e)"
  shows "file_of bp F' = file_of bp F \<and> bs = take n q \<and> e = (if bs = [] \<and> n > 0 then Some EOF else None) \<and> to_read bp F' fd (drop n q)"
proof -
  obtain pos c where f: "fmlookup (fl_fds F) fd = Some (bp, pos)" "file_of bp F = Some c" "q = drop pos c"
    using assms(1) by (auto simp: to_read_def)
  have d: "drop n (drop pos c) = drop (pos + min (length c - pos) n) c"
    by (cases "n \<le> length c - pos") (auto simp: add.commute min_def)
  show ?thesis using assms(2) f d by (auto simp: os_Read_def Let_def content_of_def to_read_def min.commute split: if_splits)
qed

lemma query_stream_version:
  assumes "to_read bp F fd q" "query_stream fd F = (F', v)"
  shows "file_of bp F' = file_of bp F \<and> v = TestQueryVersion q"
proof -
  obtain F1 bs e where r: "os_Read 1 fd F = (F1, bs, e)" by (cases "os_Read 1 fd F")
  show ?thesis using os_Read_stream [OF assms(1) r] r assms(2)
    by (cases q) (auto simp: query_stream_def TestQueryVersion_def)
qed

lemma OpenReader_stream:
  "FileBlobStore_OpenReader bp F = (F', x) \<Longrightarrow>
   file_of bp F' = file_of bp F \<and> (\<forall>r. x = Inr r \<longrightarrow> (\<exists>q. file_of bp F = Some q \<and> to_read bp F' r q)) \<and>
   (x = Inl (Errno ENOENT) \<longrightarrow> file_of bp F = None)"
  by (auto simp: FileBlobStore_OpenReader_def new_fd_def to_read_def split: if_splits)

interpretation file_stores: cache_stores file_env bp "content_of bp" "file_of bp" "at_end bp" "to_read bp" TestQueryVersion for bp
proof (unfold_locales, goal_cases)
  case (2 q v)
  then show ?case by (cases q) (auto simp: TestQueryVersion_def)
next
  case (6 n off c c' rb cw)
  then show ?case by (auto simp: file_env_def File_PRead_def file_handle_of_def fread_def split: if_splits)
next
  case (11 b b' x)
  then show ?case using OpenReader_stream by (auto simp: file_env_def)
next
  case (12 b r q b' rv)
  then show ?case using query_stream_version by (auto simp: file_env_def)
next
  case (14 b r q n b' bs e)
  then have r: "os_Read n r b = (b', bs, e)" by (simp add: file_env_def)
  then show ?case using os_Read_stream [OF 14(1) r] by (metis append_take_drop_id)
qed (auto simp: file_env_def TestQueryVersion_def Files_Open_content FileBlobStore_OpenWriter_def new_fd_def at_end_def os_Close_def
    FileBlobStore_BlobSize_def file_of_def dest: os_Write_end [unfolded at_end_def] split: if_splits option.splits)

end
