(* ===== verification/Cache_Safety.thy ===== *)
theory Cache_Safety
  imports Cache_Files
begin

text \<open>
  What holds of a cache entry whatever its goroutines do, what breaks, and runs over two file stores that
  show both.
\<close>

context cache_stores
begin

lemma fresh_inv:
  assumes "fmlookup (cbs_bes s) p = Some (NewCachedBlobEntry bp)" "fmlookup (cbs_bever s) bp = None" "InvalidateCacheTask p \<notin> set (cbs_spawned s)"
  shows "cache_inv p (s, [])"
  using assms by (auto simp: cache_inv_def NewCachedBlobEntry_def coherent_def tasks_def filter_empty_conv)

lemma reachable_inv:
  assumes "cache_reachable env p s0 x" "cache_inv p (s0, [])"
  shows "cache_inv p x"
  using assms by (induction rule: cache_reachable.induct) (auto intro: step_inv)

lemma clean_agrees:
  assumes "cache_inv p (s, ts)" "fmlookup (cbs_bes s) p = Some be" "be_state be = CacheEntryClean \<or> be_state be = CacheEntryClosing"
    and "filter is_writer ts = []"
  shows "\<exists>v. fmlookup (cbs_bever s) bp = Some v \<and> ce_queryVersion env bp (cbs_cachebs s) = Inr v"
  using assms by (auto simp: cache_inv_def agree_def no_writer_def c_query)

lemma reads_filled:
  assumes "cache_inv p (s, ts)" "fmlookup (cbs_bes s) p = Some be" "be_state be = CacheEntryInvalidating"
    and "0 \<le> off" "off + int n \<le> be_bloblen be" "off + int n < 2 ^ 63"
    and "CachedBlobEntry_PRead env now p n off s = (s', Inr bs)"
  shows "\<exists>q. bfile (cbs_backendbs s) = Some q \<and> bs = fread q (nat off) n"
proof -
  have bp: "be_blobpath be = bp" using inv_entry [OF assms(1)] assms(2) by auto
  obtain q k where f: "bfile (cbs_backendbs s) = Some q" "be_validlen be = int k" "take k (cfile (cbs_cachebs s)) = take k q" "k \<le> length q"
    using assms(1-3) by (auto simp: cache_inv_def fill_inv_def)
  have w: "wrap64 (off + int n) = off + int n" using assms(4,6) by (intro wrap64_id) (auto simp: MaxInt64_def)
  let ?s = "s\<lparr>cbs_bes := fmupd p (be\<lparr>be_lastUsed := now\<rparr>) (cbs_bes s)\<rparr>"
  have k: "off + int n \<le> int k" and r: "cache_PRead env p n off ?s = (s', Inr bs)"
    using assms(2,3,5,7) f(2) w
    by (auto simp: CachedBlobEntry_PRead_def PRead_begin_def waitUntilInvalidateAtLeast_def and_then_def ret_def fail_def split: if_splits)
  obtain c rb where c: "ce_PRead env bp n off (cbs_cachebs s) = (c, rb)" by force
  have "bs = fread (cfile (cbs_cachebs s)) (nat off) n"
    using r c c_pread [OF c] bp by (auto simp: cache_PRead_def on_cache_def)
  also have "\<dots> = fread (take k (cfile (cbs_cachebs s))) (nat off) n"
    using k assms(4) by (simp add: fread_def drop_take min_absorb1)
  also have "\<dots> = fread q (nat off) n" using k assms(4) f(3) by (simp add: fread_def drop_take min_absorb1)
  finally show ?thesis using f(1) by blast
qed

end

section \<open>Runs over two file stores\<close>

definition files :: "byte list option \<Rightarrow> (nat, string \<times> nat) fmap \<Rightarrow> nat \<Rightarrow> Files" where
  "files c fds n =
     \<lparr>fl_store = NewFileBlobStore (case c of None \<Rightarrow> fmempty | Some q \<Rightarrow> fmupd ''b'' q fmempty) O_RDWRCREATE, fl_fds = fds, fl_next = n\<rparr>"

text \<open>Stores with an entry that was just made, and with one that has an open handle and is not being filled.\<close>

definition fresh :: "Files \<Rightarrow> (Files, Files) CBS" where
  "fresh b =
     \<lparr>cbs_cachebs = files None fmempty 0, cbs_backendbs = b, cbs_bever = fmempty,
      cbs_bes = fmupd 0 (NewCachedBlobEntry ''b'') fmempty, cbs_next = 1, cbs_spawned = []\<rparr>"

definition at_work :: "byte list \<Rightarrow> Files \<Rightarrow> Version \<Rightarrow> CacheEntryState \<Rightarrow> int \<Rightarrow> time \<Rightarrow> int \<Rightarrow> (Files, Files) CBS" where
  "at_work c b v st len lw sc =
     \<lparr>cbs_cachebs = files (Some c) fmempty 0, cbs_backendbs = b, cbs_bever = fmupd ''b'' v fmempty,
      cbs_bes = fmupd 0 \<lparr>be_blobpath = ''b'', be_cachebh = True, be_state = st, be_bloblen = len, be_validlen = len,
        be_lastUsed = 1, be_lastWrite = lw, be_lastSync = lw, be_syncCount = sc, be_handles = fmupd 1 O_RDWR fmempty,
        be_cancelInvalidate = False\<rparr> fmempty,
      cbs_next = 2, cbs_spawned = []\<rparr>"

named_theorems entry_run

lemmas [entry_run] = files_def fresh_def at_work_def NewFileBlobStore_def FileBlobStore_SetFlags_def NewCachedBlobEntry_def go_def
  file_env_def Files_Open_def FileBlobStore_Open_def content_of_def file_of_def FileBlobStore_OpenReader_def TestQueryVersion_def
  OpenHandle_def OpenHandle_loop_def initializeWithLock_def CachedBackendVersion_Query_def on_cache_def on_backend_def action_defs
  choose_state_def Let_def updateState_def with_be_def upd_be_def CachedBackendVersion_Set_def IsNotExist_def
  O_RDWRCREATE_def O_CREATE_def O_RDWR_def O_RDONLY_def O_WRONLY_def O_EXCL_def O_ACCMODE_def IsWriteAllowed_def IsReadAllowed_def
  PWrite_begin_def waitUntilInvalidateDone_def waitUntilInvalidateAtLeast_def markWriteInProgressWithLock_def markWriteEndWithLock_def
  cache_PWrite_def on_blob_file_def File_PWrite_def file_handle_of_def put_file_def fwrite_def wrap64_def sync_begin_def Sync_loop_def
  writeBack_begin_def writeBack_open_def FileBlobStore_OpenWriter_def new_fd_def writeBack_block_def copyBlockSize_def cache_PRead_def
  File_PRead_def os_Write_def back_end_def writeBack_end_def count_sync_def os_Close_def

lemma run_open: "cache_reachable file_env 0 (fresh (files None fmempty 0)) (at_work [] (files None fmempty 0) 0 CacheEntryClean 0 0 0, [])"
  by (rule cache_reachable.further [OF cache_reachable.start], rule cache_step.open_handle [where be = "NewCachedBlobEntry ''b''" and now = 1 and f = O_RDWR and h = 1])
    (simp_all add: entry_run)

lemma run_writing:
  "cache_reachable file_env 0 (fresh (files None fmempty 0))
     (at_work [] (files None fmempty 0) 0 CacheEntryWriteInProgress 1 1 0, [Writing [7] 0])"
  by (rule cache_reachable.further [OF run_open], rule cache_step.write_begin [where now = 1]) (simp add: entry_run)

lemma run_written:
  "cache_reachable file_env 0 (fresh (files None fmempty 0)) (at_work [7] (files None fmempty 0) 0 CacheEntryWriteInProgress 1 1 0, [Written])"
  by (rule cache_reachable.further [OF run_writing], rule cache_step.write_cache [where us = "[]" and ts = "[]" and r = "Inr ()", simplified])
    (simp add: entry_run)

lemma run_dirty:
  "cache_reachable file_env 0 (fresh (files None fmempty 0)) (at_work [7] (files None fmempty 0) 0 CacheEntryDirty 1 1 0, [])"
  by (rule cache_reachable.further [OF run_written], rule cache_step.write_end [where us = "[]" and ts = "[]" and r = "()", simplified])
    (simp add: entry_run)

lemma run_back:
  "cache_reachable file_env 0 (fresh (files None fmempty 0))
     (at_work [7] (files None fmempty 0) 0 CacheEntryWritebackInProgress 1 1 0, [BackOpening False 7])"
  by (rule cache_reachable.further [OF run_dirty], rule cache_step.back_sync) (simp add: entry_run)

text \<open>The byte reaches the backend.\<close>

lemma reach_back_open:
  assumes "cache_reachable env p s0 (s, us @ BackOpening c v # ts)" "fmlookup (cbs_bes s) p \<noteq> None" "writeBack_open env p s = (s', Inr w)"
    and "n = nat (ce_Size env (be_blobpath (the (fmlookup (cbs_bes s) p))) (cbs_cachebs s'))"
  shows "cache_reachable env p s0 (s', us @ BackCopying c v w 0 n # ts)"
  using cache_reachable.further [OF assms(1) cache_step.back_open] assms(2-4) by (auto simp: go_def)

lemma reach_back_block:
  assumes "cache_reachable env p s0 (s, us @ BackCopying c v w off n # ts)" "0 < n" "writeBack_block env p w off n s = (s', Inr k)"
    and "off' = off + k" "n' = n - k"
  shows "cache_reachable env p s0 (s', us @ BackCopying c v w off' n' # ts)"
  using cache_reachable.further [OF assms(1) cache_step.back_block] assms(2-5) by (auto simp: go_def)

lemma reach_back_last:
  assumes "cache_reachable env p s0 (s, us @ BackCopying c v w off 0 # ts)" "back_end env now p c w v s = (s', Inr ())"
  shows "cache_reachable env p s0 (s', us @ ts)"
  using cache_reachable.further [OF assms(1) cache_step.back_last] assms(2) by (auto simp: go_def)

abbreviation (input) stream :: "byte list \<Rightarrow> Files" where
  "stream bs \<equiv> files (Some bs) (fmupd 0 (''b'', length bs) fmempty) 1"

lemma run_clean:
  "cache_reachable file_env 0 (fresh (files None fmempty 0)) (at_work [7] (files (Some [7]) fmempty 1) 7 CacheEntryClean 1 1 1, [])"
proof -
  let ?R = "cache_reachable file_env 0 (fresh (files None fmempty 0))"
  have "?R (at_work [7] (files None fmempty 0) 0 CacheEntryWritebackInProgress 1 1 0, [] @ BackOpening False 7 # [])"
    using run_back by simp
  then have "?R (at_work [7] (stream []) 0 CacheEntryWritebackInProgress 1 1 0, [] @ BackCopying False 7 0 0 1 # [])"
    by (rule reach_back_open) (simp_all add: entry_run)
  then have "?R (at_work [7] (stream [7]) 0 CacheEntryWritebackInProgress 1 1 0, [] @ BackCopying False 7 0 1 0 # [])"
    by (rule reach_back_block [where k = 1]) (simp_all add: entry_run)
  then have "?R (at_work [7] (files (Some [7]) fmempty 1) 7 CacheEntryClean 1 1 1, [] @ [])"
    by (rule reach_back_last [where now = 1]) (simp add: entry_run fmdrop_fmupd_same)
  then show ?thesis by simp
qed

text \<open>A second write begins while the first is being written back, and is at the cache when the write back ends.\<close>

lemma run_stale:
  "cache_reachable file_env 0 (fresh (files None fmempty 0))
     (at_work [8] (files (Some [7]) fmempty 1) 7 CacheEntryDirty 1 1 1, [Written])"
proof -
  let ?R = "cache_reachable file_env 0 (fresh (files None fmempty 0))" and ?st = CacheEntryStaleWritebackInProgress
  have "?R (at_work [7] (files None fmempty 0) 0 ?st 1 1 0, [Writing [8] 0] @ BackOpening False 7 # [])"
    unfolding append_Cons append_Nil
    by (rule cache_reachable.further [OF run_back], rule cache_step.write_begin [where now = 1]) (simp add: entry_run)
  then have "?R (at_work [7] (stream []) 0 ?st 1 1 0, [Writing [8] 0] @ BackCopying False 7 0 0 1 # [])"
    by (rule reach_back_open) (simp_all add: entry_run)
  then have "?R (at_work [7] (stream [7]) 0 ?st 1 1 0, [Writing [8] 0] @ BackCopying False 7 0 1 0 # [])"
    by (rule reach_back_block [where k = 1]) (simp_all add: entry_run)
  then have "?R (at_work [7] (files (Some [7]) fmempty 1) 7 CacheEntryDirty 1 1 1, [Writing [8] 0] @ [])"
    by (rule reach_back_last [where now = 1]) (simp add: entry_run fmdrop_fmupd_same)
  then have "?R (at_work [7] (files (Some [7]) fmempty 1) 7 CacheEntryDirty 1 1 1, [] @ Writing [8] 0 # [])" by simp
  then have "?R (at_work [8] (files (Some [7]) fmempty 1) 7 CacheEntryDirty 1 1 1, [] @ Written # [])"
    by (rule cache_reachable.further, intro cache_step.write_cache [where r = "Inr ()"]) (simp add: entry_run)
  then show ?thesis by simp
qed

text \<open>A backend that delivers one byte at a time, as a stream may: the cache is filled up to its first byte.\<close>

definition slow_env :: "(Files, nat, Files, nat, nat) cbs_env" where
  "slow_env = file_env\<lparr>bk_Read := (\<lambda>n. os_Read (min n 1))\<rparr>"

lemma slow_laws [simp]:
  "ce_queryVersion slow_env = ce_queryVersion file_env" "ce_Open slow_env = ce_Open file_env" "ce_Size slow_env = ce_Size file_env"
  "ce_PRead slow_env = ce_PRead file_env" "ce_Sync slow_env = ce_Sync file_env" "ce_Close slow_env = ce_Close file_env"
  "ce_OpenWriter slow_env = ce_OpenWriter file_env" "ce_Write slow_env = ce_Write file_env" "bk_OpenReader slow_env = bk_OpenReader file_env"
  "bk_queryVersion slow_env = bk_queryVersion file_env" "bk_CloseReader slow_env = bk_CloseReader file_env"
  "bk_BlobSize slow_env = bk_BlobSize file_env"
  by (simp_all add: slow_env_def)

interpretation slow_stores: cache_stores slow_env bp "content_of bp" "file_of bp" "at_end bp" "to_read bp" TestQueryVersion for bp
proof (unfold_locales, unfold slow_laws, goal_cases)
  case (14 b r q n b' bs e)
  then have r: "os_Read (min n 1) r b = (b', bs, e)" by (simp add: slow_env_def)
  then show ?case using os_Read_stream [OF 14(1) r] by (metis append_take_drop_id)
qed (fact file_stores.ver_nil file_stores.ver_nonneg file_stores.c_query file_stores.c_open file_stores.c_size file_stores.c_pread
    file_stores.c_sync file_stores.c_close file_stores.c_open_writer file_stores.c_write file_stores.b_open_reader file_stores.b_query
    file_stores.b_close_reader file_stores.b_size)+

definition filling_be :: "int \<Rightarrow> bool \<Rightarrow> CachedBlobEntry" where
  "filling_be k cancel =
     \<lparr>be_blobpath = ''b'', be_cachebh = True, be_state = CacheEntryInvalidating, be_bloblen = 2, be_validlen = k,
      be_lastUsed = 1, be_lastWrite = 0, be_lastSync = 0, be_syncCount = 0, be_handles = fmupd 1 O_RDWR fmempty,
      be_cancelInvalidate = cancel\<rparr>"

definition being_filled :: "Files \<Rightarrow> Files \<Rightarrow> int \<Rightarrow> bool \<Rightarrow> spawned list \<Rightarrow> (Files, Files) CBS" where
  "being_filled c b k cancel sp =
     \<lparr>cbs_cachebs = c, cbs_backendbs = b, cbs_bever = fmupd ''b'' 3 fmempty, cbs_bes = fmupd 0 (filling_be k cancel) fmempty,
      cbs_next = 2, cbs_spawned = sp\<rparr>"

lemmas [entry_run] = filling_be_def being_filled_def slow_env_def query_stream_def os_Read_def FileBlobStore_BlobSize_def spawn_def invalidate_begin_def
  invalidate_reader_def invalidate_writer_def invalidate_round_def invalidateBlockSize_def invalidate_progress_def

lemma run_filling:
  "cache_reachable slow_env 0 (fresh (files (Some [3, 4]) fmempty 0))
     (being_filled (files (Some [3]) (fmupd 0 (''b'', 1) fmempty) 1) (files (Some [3, 4]) (fmupd 1 (''b'', 1) fmempty) 2) 1 True [],
      [Filling 1 0])"
proof -
  let ?R = "cache_reachable slow_env 0 (fresh (files (Some [3, 4]) fmempty 0))"
  have "?R (being_filled (files (Some []) fmempty 0) (files (Some [3, 4]) fmempty 1) 0 False [InvalidateCacheTask 0], [])"
    by (rule cache_reachable.further [OF cache_reachable.start],
        rule cache_step.open_handle [where be = "NewCachedBlobEntry ''b''" and now = 1 and f = O_RDWR and h = 1])
      (simp_all add: entry_run fmdrop_fmupd_same)
  then have "?R (being_filled (files (Some []) fmempty 0) (files (Some [3, 4]) fmempty 1) 0 True [], [] @ FillOpening # [])"
    unfolding append_Nil by (rule cache_reachable.further, intro cache_step.fill_begin [where us' = "[]" and vs' = "[]"]) (simp_all add: entry_run)
  then have "?R (being_filled (files (Some []) (fmupd 0 (''b'', 0) fmempty) 1) (files (Some [3, 4]) (fmupd 1 (''b'', 0) fmempty) 2) 0 True [],
      [] @ Filling 1 0 # [])"
    by (rule cache_reachable.further, intro cache_step.fill_open [where be = "filling_be 0 True" and ?s1.0 = "being_filled (files (Some []) fmempty 0) (files (Some [3, 4]) (fmupd 1 (''b'', 0) fmempty) 2) 0 True []"])
      (simp_all add: entry_run)
  then have "?R (being_filled (files (Some [3]) (fmupd 0 (''b'', 1) fmempty) 1) (files (Some [3, 4]) (fmupd 1 (''b'', 1) fmempty) 2) 1 True [],
      [] @ Filling 1 0 # [])"
    by (rule cache_reachable.further, intro cache_step.fill_round) (simp add: entry_run)
  then show ?thesis by simp
qed

section \<open>Properties\<close>

text \<open>
  C7. Whatever the goroutines on a cache entry do, in any interleaving of their critical sections, as long as none
  panics: when the entry is clean or being closed and no write is in progress, the version of the cached blob is the
  version recorded for the backend. The steps are those of a fresh entry until it is closed: opening a closed entry again, which the
  source allows, is not among them.
\<close>

theorem clean_entry_recorded:
  assumes "cache_stores env bp cfile bfile filling reading ver"
    and "fmlookup (cbs_bes s0) p = Some (NewCachedBlobEntry bp)" "fmlookup (cbs_bever s0) bp = None"
    and "InvalidateCacheTask p \<notin> set (cbs_spawned s0)"
    and "cache_reachable env p s0 (s, ts)" "fmlookup (cbs_bes s) p = Some be"
    and "be_state be = CacheEntryClean \<or> be_state be = CacheEntryClosing" "filter is_writer ts = []"
  shows "\<exists>v. fmlookup (cbs_bever s) bp = Some v \<and> ce_queryVersion env bp (cbs_cachebs s) = Inr v"
  using cache_stores.clean_agrees [OF assms(1)] cache_stores.reachable_inv [OF assms(1,5)] cache_stores.fresh_inv [OF assms(1-4)] assms(6-8)
  by blast

theorem clean_entry_recorded_witness:
  "\<exists>v. fmlookup (cbs_bever (at_work [7] (files (Some [7]) fmempty 1) 7 CacheEntryClean 1 1 1)) ''b'' = Some v \<and>
       ce_queryVersion file_env ''b'' (files (Some [7]) fmempty 0) = Inr v"
  using clean_entry_recorded [OF file_stores.cache_stores_axioms [of "''b''"] _ _ _ run_clean] by (simp add: fresh_def at_work_def)

text \<open>
  C19. While the cache is being filled from the backend, a read inside the blob that does not have to wait delivers the
  bytes of the backend: what was in the cache before, or is not yet there, is never read. The entry is one that was not closed and opened
  again.
\<close>

theorem reads_while_filling:
  assumes "cache_stores env bp cfile bfile filling reading ver"
    and "fmlookup (cbs_bes s0) p = Some (NewCachedBlobEntry bp)" "fmlookup (cbs_bever s0) bp = None"
    and "InvalidateCacheTask p \<notin> set (cbs_spawned s0)"
    and "cache_reachable env p s0 (s, ts)" "fmlookup (cbs_bes s) p = Some be" "be_state be = CacheEntryInvalidating"
    and "0 \<le> off" "off + int n \<le> be_bloblen be" "off + int n < 2 ^ 63"
    and "CachedBlobEntry_PRead env now p n off s = (s', Inr bs)"
  shows "\<exists>q. bfile (cbs_backendbs s) = Some q \<and> bs = fread q (nat off) n"
  using cache_stores.reads_filled [OF assms(1)] cache_stores.reachable_inv [OF assms(1,5)] cache_stores.fresh_inv [OF assms(1-4)] assms(6-11)
  by blast

theorem reads_while_filling_witness:
  "\<exists>q. file_of ''b'' (files (Some [3, 4]) (fmupd 1 (''b'', 1) fmempty) 2) = Some q \<and> [3] = fread q (nat 0) 1"
  using reads_while_filling [OF slow_stores.cache_stores_axioms [of "''b''"] _ _ _ run_filling, of "filling_be 1 True" 0 1 1 _ "[3]"]
  by (simp add: entry_run CachedBlobEntry_PRead_def PRead_begin_def)


section \<open>A commit that fails\<close>

text \<open>
  A backend whose blob changes when its writer is closed, if at all: opening the writer \<open>w\<close> and writing to it succeed, closing it
  fails, and the blob stays as it was throughout.
\<close>

definition commit_fails :: "('c, 'cw, 'b, 'r, 'w) cbs_env \<Rightarrow> string \<Rightarrow> ('b \<Rightarrow> byte list option) \<Rightarrow> 'w \<Rightarrow> bool" where
  "commit_fails env bp bfile w \<longleftrightarrow>
     (\<forall>b. \<exists>b'. bk_OpenWriter env bp b = (b', Inr w) \<and> bfile b' = bfile b) \<and>
     (\<forall>bs b. \<exists>b'. bk_Write env bs w b = (b', Inr ()) \<and> bfile b' = bfile b) \<and>
     (\<forall>b. \<exists>b' e. bk_CloseWriter env w b = (b', Inl e) \<and> \<not> is_panic e \<and> bfile b' = bfile b)"

definition readable :: "('c, 'cw, 'b, 'r, 'w) cbs_env \<Rightarrow> string \<Rightarrow> 'c \<Rightarrow> bool" where
  "readable env bp c \<longleftrightarrow>
     (\<forall>n off. int (off + n) \<le> ce_Size env bp c \<longrightarrow> (\<exists>bs. ce_PRead env bp n (int off) c = (c, Inr bs)))"

lemma copy_blocks_uncommitted:
  assumes "commit_fails env bp bfile w" "readable env bp (cbs_cachebs s)" "fmlookup (cbs_bes s) p = Some be" "be_blobpath be = bp"
    and "int (off + n) \<le> ce_Size env bp (cbs_cachebs s)"
  shows "\<exists>b. copy_blocks env p w off n s = (s\<lparr>cbs_backendbs := b\<rparr>, Inr ()) \<and> bfile b = bfile (cbs_backendbs s)"
  using assms
proof (induction env p w off n s rule: copy_blocks.induct)
  case (1 env p w off n s)
  show ?case
  proof (cases "n = 0")
    case True
    then show ?thesis by (auto simp: ret_def intro: exI [of _ "cbs_backendbs s"])
  next
    case False
    let ?m = "min copyBlockSize n"
    have "int (off + ?m) \<le> ce_Size env bp (cbs_cachebs s)" using 1(6) by simp
    then obtain bs where bs: "ce_PRead env bp ?m (int off) (cbs_cachebs s) = (cbs_cachebs s, Inr bs)" using 1(3) unfolding readable_def by blast
    obtain b where b: "bk_Write env bs w (cbs_backendbs s) = (b, Inr ())" "bfile b = bfile (cbs_backendbs s)"
      using 1(2) unfolding commit_fails_def by blast
    have wb: "writeBack_block env p w off n s = (s\<lparr>cbs_backendbs := b\<rparr>, Inr ?m)"
      using 1(4,5) bs b(1) by (simp add: writeBack_block_def and_then_def cache_PRead_def on_cache_def on_backend_def ret_def)
    have "\<exists>b'. copy_blocks env p w (off + ?m) (n - ?m) (s\<lparr>cbs_backendbs := b\<rparr>) =
        (s\<lparr>cbs_backendbs := b, cbs_backendbs := b'\<rparr>, Inr ()) \<and> bfile b' = bfile b"
      using 1(1) [OF False wb [symmetric] refl] 1(2-6) by (simp add: min_def split: if_splits)
    then show ?thesis using False wb b(2) by auto
  qed
qed

lemma writeBack_uncommitted:
  assumes c: "commit_fails env bp bfile w" and r: "readable env bp (cbs_cachebs s)" and be: "fmlookup (cbs_bes s) p = Some be" "be_blobpath be = bp"
    and st: "be_state be = CacheEntryDirty" and v: "ce_queryVersion env bp (cbs_cachebs s) = Inr v" "fmlookup (cbs_bever s) bp = Some v0" "v0 < v"
    and sz: "0 \<le> ce_Size env bp (cbs_cachebs s)"
  shows "\<exists>b. writeBackWithLock env p s =
      (s\<lparr>cbs_backendbs := b, cbs_bever := fmupd bp v (cbs_bever s), cbs_bes := fmupd p (be\<lparr>be_state := CacheEntryClean\<rparr>) (cbs_bes s)\<rparr>, Inr ()) \<and>
    bfile b = bfile (cbs_backendbs s)"
proof -
  let ?be = "be\<lparr>be_state := CacheEntryWritebackInProgress\<rparr>"
  let ?s1 = "s\<lparr>cbs_bes := fmupd p ?be (cbs_bes s)\<rparr>"
  have b1: "writeBack_begin env p s = (?s1, Inr (Some v))"
    using be st v by (simp add: writeBack_begin_def CachedBackendVersion_Query_def action_defs updateState_Some)
  obtain b where b: "bk_OpenWriter env bp (cbs_backendbs s) = (b, Inr w)" "bfile b = bfile (cbs_backendbs s)" using c unfolding commit_fails_def by blast
  let ?s2 = "?s1\<lparr>cbs_backendbs := b\<rparr>"
  have b2: "writeBack_open env p ?s1 = (?s2, Inr w)" using b(1) be by (simp add: writeBack_open_def rescue_def on_backend_def)
  obtain b3 where b3: "copy_blocks env p w 0 (nat (ce_Size env bp (cbs_cachebs s))) ?s2 = (?s2\<lparr>cbs_backendbs := b3\<rparr>, Inr ())" "bfile b3 = bfile b"
    using copy_blocks_uncommitted [OF c, of ?s2 p ?be 0 "nat (ce_Size env bp (cbs_cachebs s))"] r be sz by auto
  obtain b4 e where b4: "bk_CloseWriter env w b3 = (b4, Inl e)" "\<not> is_panic e" "bfile b4 = bfile b3" using c unfolding commit_fails_def by blast
  let ?s4 = "s\<lparr>cbs_backendbs := b4, cbs_bever := fmupd bp v (cbs_bever s), cbs_bes := fmupd p (be\<lparr>be_state := CacheEntryClean\<rparr>) (cbs_bes s)\<rparr>"
  have "writeBack_end env p w v (?s2\<lparr>cbs_backendbs := b3\<rparr>) = (?s4, Inr ())"
    using be v b4(1,2) by (simp add: writeBack_end_def deferring_ignoring and_then_def CachedBackendVersion_Set_def updateState_Some on_backend_def)
  then have "writeBackWithLock env p s = (?s4, Inr ())"
    using b1 b2 b3(1) be by (simp add: writeBackWithLock_def and_then_def)
  then show ?thesis using b(2) b3(2) b4(3) by metis
qed

text \<open>
  C38. A commit that fails is not noticed. If the backend takes the writes but cannot close the writer, and the blob stays as
  it was, \<open>Sync\<close> of a dirty entry still returns no error: the entry is clean, the version of the cached blob is recorded for the backend,
  and the backend has the old content.
\<close>

theorem failed_commit_unnoticed:
  assumes "commit_fails env bp bfile w" "readable env bp (cbs_cachebs s)" "0 \<le> ce_Size env bp (cbs_cachebs s)" "ce_Sync env = None"
    and "fmlookup (cbs_bes s) p = Some be" "be_blobpath be = bp" "be_state be = CacheEntryDirty"
    and "ce_queryVersion env bp (cbs_cachebs s) = Inr v" "fmlookup (cbs_bever s) bp = Some v0" "v0 < v"
  shows "\<exists>s' be'. CachedBlobEntry_Sync env now p s = (s', Inr ()) \<and> fmlookup (cbs_bes s') p = Some be' \<and> be_state be' = CacheEntryClean \<and>
    fmlookup (cbs_bever s') bp = Some v \<and> bfile (cbs_backendbs s') = bfile (cbs_backendbs s)"
proof -
  obtain b where b: "writeBackWithLock env p s =
      (s\<lparr>cbs_backendbs := b, cbs_bever := fmupd bp v (cbs_bever s), cbs_bes := fmupd p (be\<lparr>be_state := CacheEntryClean\<rparr>) (cbs_bes s)\<rparr>, Inr ())"
      "bfile b = bfile (cbs_backendbs s)"
    using writeBack_uncommitted [OF assms(1,2,5,6,7,8,9,10,3)] by blast
  show ?thesis using assms(4,5,7) b
    by (simp add: CachedBlobEntry_Sync_def Sync_loop_def and_then_def ret_def wrapping_def cache_Sync_def count_sync_def)
qed

definition uncommitted_env :: "(Files, nat, Files, nat, nat) cbs_env" where
  "uncommitted_env =
     file_env\<lparr>bk_OpenWriter := (\<lambda>bp b. (b, Inr 0)), bk_Write := (\<lambda>bs w b. (b, Inr ())), bk_CloseWriter := (\<lambda>w b. (b, Inl (Fmt ''commit'')))\<rparr>"

theorem failed_commit_unnoticed_witness:
  "\<exists>s' be'. CachedBlobEntry_Sync uncommitted_env 2 0 (at_work [7] (files None fmempty 0) 0 CacheEntryDirty 1 1 0) = (s', Inr ()) \<and>
     fmlookup (cbs_bes s') 0 = Some be' \<and> be_state be' = CacheEntryClean \<and> fmlookup (cbs_bever s') ''b'' = Some 7 \<and>
     file_of ''b'' (cbs_backendbs s') = None"
  using failed_commit_unnoticed [of uncommitted_env "''b''" "file_of ''b''" 0 "at_work [7] (files None fmempty 0) 0 CacheEntryDirty 1 1 0" 0 _ 7 0 2]
  by (simp add: commit_fails_def readable_def uncommitted_env_def file_env_def File_PRead_def file_handle_of_def content_of_def file_of_def
      at_work_def files_def NewFileBlobStore_def FileBlobStore_SetFlags_def TestQueryVersion_def)

end
