(* ===== verification/Cache_Store.thy ===== *)
theory Cache_Store
  imports Cache_Safety
begin

text \<open>
  The cached blob store itself (\<open>blobstore/cachedblobstore/\<close>): the manager of its entries
  (\<open>cachedblobentriesmanager.go\<close>), how often blobs are used (\<open>cacheusagestats.go\<close>), the operations of the store
  (\<open>cachedblobstore.go\<close>) and the tasks that shrink the cache (\<open>reducecachetask.go\<close>).

  The manager runs the requests it gets one after the other, so a request is one operation on its map from paths to
  entries; the entries live on the heap of \<open>Cache_Entry\<close>. Go ranges over a map in any order: the order is an argument,
  a function from the map to the list of its pairs. Times are in nanoseconds.
\<close>

section \<open>State\<close>

record usageStatEntry =
  us_lastUsed :: time
  us_readCount :: int
  us_writeCount :: int

type_synonym CacheUsageStats = "(string, usageStatEntry) fmap"

record ('c, 'b) CachedBlobStore =
  cs_cbs :: "('c, 'b) CBS"
  cs_flags :: flags
  cs_entries :: "(string, nat) fmap"
  cs_usage :: CacheUsageStats
  cs_syncer :: bool

type_synonym ('c, 'b, 'a) storeop = "(('c, 'b) CachedBlobStore, 'a) action"

type_synonym 'v range_order = "(string, 'v) fmap \<Rightarrow> (string \<times> 'v) list"

definition on_cbs :: "('c, 'b, 'a) cbsop \<Rightarrow> ('c, 'b, 'a) storeop" where
  "on_cbs f s = (case f (cs_cbs s) of (c, r) \<Rightarrow> (s\<lparr>cs_cbs := c\<rparr>, r))"

text \<open>The entries in the order of a \<open>range\<close> over the map.\<close>

definition ranged :: "nat range_order \<Rightarrow> ('c, 'b) CachedBlobStore \<Rightarrow> (nat \<times> CachedBlobEntry) list" where
  "ranged ord s =
     List.map_filter (\<lambda>(bp, p). map_option (Pair p) (fmlookup (cbs_bes (cs_cbs s)) p)) (ord (cs_entries s))"

definition num_entries :: "('c, 'b) CachedBlobStore \<Rightarrow> nat" where
  "num_entries s = fcard (fmdom (cs_entries s))"

text \<open>\<open>sort.Sort\<close>: the order of elements of which neither is less is left open, as is the order of the input.\<close>

fun go_insert :: "('a \<Rightarrow> 'a \<Rightarrow> bool) \<Rightarrow> 'a \<Rightarrow> 'a list \<Rightarrow> 'a list" where
  "go_insert lt x [] = [x]"
| "go_insert lt x (y # ys) = (if lt y x then y # go_insert lt x ys else x # y # ys)"

definition go_sort :: "('a \<Rightarrow> 'a \<Rightarrow> bool) \<Rightarrow> 'a list \<Rightarrow> 'a list" where
  "go_sort lt xs = foldr (go_insert lt) xs []"

section \<open>Usage\<close>

definition NewCacheUsageStats :: CacheUsageStats where
  "NewCacheUsageStats = fmempty"

definition ObserveOpen :: "time \<Rightarrow> string \<Rightarrow> flags \<Rightarrow> CacheUsageStats \<Rightarrow> CacheUsageStats" where
  "ObserveOpen now blobpath f st =
     (let e = (case fmlookup st blobpath of None \<Rightarrow> \<lparr>us_lastUsed = 0, us_readCount = 0, us_writeCount = 0\<rparr> | Some e \<Rightarrow> e);
          e1 = (if IsReadAllowed f then e\<lparr>us_readCount := us_readCount e + 1\<rparr> else e);
          e2 = (if IsWriteAllowed f then e1\<lparr>us_writeCount := us_writeCount e1 + 1\<rparr> else e1)
      in fmupd blobpath (e2\<lparr>us_lastUsed := now\<rparr>) st)"

definition ObserveRemoveBlob :: "string \<Rightarrow> CacheUsageStats \<Rightarrow> CacheUsageStats" where
  "ObserveRemoveBlob blobpath st = fmdrop blobpath st"

definition ImportBlobList :: "string list \<Rightarrow> CacheUsageStats \<Rightarrow> CacheUsageStats" where
  "ImportBlobList blobpaths st =
     fold (\<lambda>bp. fmupd bp \<lparr>us_lastUsed = 0, us_readCount = 0, us_writeCount = 0\<rparr>) blobpaths st"

definition lastUsedSorter_Less :: "string \<times> usageStatEntry \<Rightarrow> string \<times> usageStatEntry \<Rightarrow> bool" where
  "lastUsedSorter_Less a b \<longleftrightarrow> us_lastUsed (snd a) < us_lastUsed (snd b)"

definition FindLeastUsed :: "usageStatEntry range_order \<Rightarrow> CacheUsageStats \<Rightarrow> string list" where
  "FindLeastUsed ord st = map fst (go_sort lastUsedSorter_Less (ord st))"

definition UsageStats_View :: "CacheUsageStats \<Rightarrow> nat" where
  "UsageStats_View st = fcard (fmdom st)"

section \<open>The manager\<close>

definition maxEntries :: nat where
  "maxEntries = 128"

definition syncTimeoutDuration :: time where
  "syncTimeoutDuration = 300 * 1000000000"

definition writeTimeoutDuration :: time where
  "writeTimeoutDuration = 3 * 1000000000"

definition inactiveCloseTimeout :: time where
  "inactiveCloseTimeout = 10 * 1000000000"

definition FindAllSyncable :: "nat range_order \<Rightarrow> ('c, 'b) CachedBlobStore \<Rightarrow> nat list" where
  "FindAllSyncable ord s = map fst (filter (\<lambda>(p, be). CacheEntryState_NeedsSync (be_state be)) (ranged ord s))"

definition syncCandidatesSorter_Less :: "time \<Rightarrow> nat \<times> CachedBlobEntry \<Rightarrow> nat \<times> CachedBlobEntry \<Rightarrow> bool" where
  "syncCandidatesSorter_Less syncThreshold a b =
     (if be_lastSync (snd a) < syncThreshold then
        (if be_lastSync (snd b) < syncThreshold then be_lastSync (snd a) < be_lastSync (snd b) else True)
      else
        (if be_lastSync (snd b) < syncThreshold then False else be_lastWrite (snd a) < be_lastWrite (snd b)))"

definition FindSyncCandidates :: "nat range_order \<Rightarrow> time \<Rightarrow> nat \<Rightarrow> ('c, 'b) CachedBlobStore \<Rightarrow> nat list" where
  "FindSyncCandidates ord now n s =
     (let writeThreshold = now - writeTimeoutDuration;
          syncThreshold = now - syncTimeoutDuration;
          cs = filter (\<lambda>(p, be). CacheEntryState_NeedsSync (be_state be) \<and>
                  \<not> (be_lastWrite be > writeThreshold \<and> be_lastSync be > syncThreshold)) (ranged ord s)
      in map fst (take n (go_sort (syncCandidatesSorter_Less syncThreshold) cs)))"

text \<open>The gauge of entries by state.\<close>

definition Collect_states :: "nat range_order \<Rightarrow> CacheEntryState \<Rightarrow> ('c, 'b) CachedBlobStore \<Rightarrow> nat" where
  "Collect_states ord st s = length (filter (\<lambda>(p, be). be_state be = st) (ranged ord s))"

definition Manager_DumpEntriesInfo :: "nat range_order \<Rightarrow> ('c, 'b) CachedBlobStore \<Rightarrow> CachedBlobEntryInfo list" where
  "Manager_DumpEntriesInfo ord s = map (\<lambda>(p, be). infoWithLock be) (ranged ord s)"

definition Manager_ListBlobs :: "nat range_order \<Rightarrow> ('c, 'b) CachedBlobStore \<Rightarrow> string list" where
  "Manager_ListBlobs ord s =
     map (\<lambda>(p, be). be_blobpath be) (filter (\<lambda>(p, be). CacheEntryState_ShouldBeListed (be_state be)) (ranged ord s))"

text \<open>An entry that cannot be closed stays, and the error is returned to nobody: it is assigned to a variable of its own.\<close>

definition Manager_RemoveBlob :: "('c, 'cw, 'b, 'r, 'w) cbs_env \<Rightarrow> time \<Rightarrow> string \<Rightarrow> ('c, 'b, unit) storeop" where
  "Manager_RemoveBlob env now blobpath s =
     (case fmlookup (cs_entries s) blobpath of
        None \<Rightarrow> (s, Inr ())
      | Some p \<Rightarrow>
          (case on_cbs (CachedBlobEntry_Close env now abandonAndClose p) s of
             (s', Inl e) \<Rightarrow> (s', if is_panic e then Inl e else Inr ())
           | (s', Inr _) \<Rightarrow> (s'\<lparr>cs_entries := fmdrop blobpath (cs_entries s')\<rparr>, Inr ())))"

definition tryCloseEntry :: "('c, 'cw, 'b, 'r, 'w) cbs_env \<Rightarrow> time \<Rightarrow> nat \<Rightarrow> ('c, 'b, unit) storeop" where
  "tryCloseEntry env now p s =
     (case fmlookup (cbs_bes (cs_cbs s)) p of
        None \<Rightarrow> (s, Inl (Panic ''nil pointer dereference''))
      | Some be \<Rightarrow>
          (case on_cbs (CachedBlobEntry_Close env now writebackAndClose p) s of
             (s', Inl e) \<Rightarrow> (s', if is_panic e then Inl e else Inr ())
           | (s', Inr _) \<Rightarrow> (s'\<lparr>cs_entries := fmdrop (be_blobpath be) (cs_entries s')\<rparr>, Inr ())))"

primrec close_entries :: "('c, 'cw, 'b, 'r, 'w) cbs_env \<Rightarrow> time \<Rightarrow> nat list \<Rightarrow> ('c, 'b, unit) storeop" where
  "close_entries env now [] = ret ()"
| "close_entries env now (p # ps) = and_then (tryCloseEntry env now p) (\<lambda>_. close_entries env now ps)"

text \<open>Of the entries without handles, the first that was used least recently.\<close>

fun oldest_entry :: "(nat \<times> CachedBlobEntry) option \<Rightarrow> (nat \<times> CachedBlobEntry) list \<Rightarrow> (nat \<times> CachedBlobEntry) option" where
  "oldest_entry best [] = best"
| "oldest_entry best ((p, be) # es) =
     oldest_entry
       (case best of
          None \<Rightarrow> Some (p, be)
        | Some (q, o') \<Rightarrow> if be_lastUsed be < be_lastUsed o' then Some (p, be) else best) es"

definition closeOldCacheEntriesIfNeeded ::
    "('c, 'cw, 'b, 'r, 'w) cbs_env \<Rightarrow> nat range_order \<Rightarrow> time \<Rightarrow> ('c, 'b, unit) storeop" where
  "closeOldCacheEntriesIfNeeded env ord now s =
     (if num_entries s \<le> maxEntries then (s, Inr ())
      else
        let threshold = now - inactiveCloseTimeout;
            idle = filter (\<lambda>(p, be). be_handles be = fmempty) (ranged ord s);
            oldEntries = map fst (filter (\<lambda>(p, be). be_lastUsed be < threshold) idle);
            oldestEntry = oldest_entry None idle
        in and_then (close_entries env now oldEntries) (\<lambda>_.
           and_then (\<lambda>s. if num_entries s > maxEntries
                         then (case oldestEntry of None \<Rightarrow> ret () s | Some (p, _) \<Rightarrow> tryCloseEntry env now p s) else ret () s) (\<lambda>_ s.
             if num_entries s > maxEntries then fail (Errno ENFILE) s else ret () s)) s)"

definition new_entry :: "string \<Rightarrow> ('c, 'b, nat) cbsop" where
  "new_entry blobpath s =
     (s\<lparr>cbs_bes := fmupd (cbs_next s) (NewCachedBlobEntry blobpath) (cbs_bes s), cbs_next := Suc (cbs_next s)\<rparr>, Inr (cbs_next s))"

definition OpenEntry :: "('c, 'cw, 'b, 'r, 'w) cbs_env \<Rightarrow> nat range_order \<Rightarrow> time \<Rightarrow> string \<Rightarrow> ('c, 'b, nat) storeop" where
  "OpenEntry env ord now blobpath s =
     (case fmlookup (cs_entries s) blobpath of
        Some p \<Rightarrow> (s, Inr p)
      | None \<Rightarrow>
          and_then (closeOldCacheEntriesIfNeeded env ord now) (\<lambda>_.
          and_then (on_cbs (new_entry blobpath)) (\<lambda>p s.
            (s\<lparr>cs_entries := fmupd blobpath p (cs_entries s)\<rparr>, Inr p))) s)"

definition CloseEntryForTesting :: "('c, 'cw, 'b, 'r, 'w) cbs_env \<Rightarrow> time \<Rightarrow> string \<Rightarrow> ('c, 'b, unit) storeop" where
  "CloseEntryForTesting env now blobpath s =
     (case fmlookup (cs_entries s) blobpath of None \<Rightarrow> (s, Inr ()) | Some p \<Rightarrow> tryCloseEntry env now p s)"

text \<open>A blob without an entry gets one that is not in the map. Errors get lost here too.\<close>

definition DropCacheEntry :: "('c, 'cw, 'b, 'r, 'w) cbs_env \<Rightarrow> time \<Rightarrow> string \<Rightarrow> ('c, 'b, unit) storeop" where
  "DropCacheEntry env now blobpath =
     and_then (\<lambda>s. case fmlookup (cs_entries s) blobpath of Some p \<Rightarrow> (s, Inr p) | None \<Rightarrow> on_cbs (new_entry blobpath) s) (\<lambda>p s.
       case on_cbs (CachedBlobEntry_Close env now writebackAndClose p) s of
         (s1, Inl e) \<Rightarrow> (s1, if is_panic e then Inl e else Inr ())
       | (s1, Inr _) \<Rightarrow>
           (case on_cbs (on_cache (ce_RemoveBlob env blobpath)) s1 of
              (s2, Inl e) \<Rightarrow> (s2, if is_panic e then Inl e else Inr ())
            | (s2, Inr _) \<Rightarrow> (s2\<lparr>cs_entries := fmdrop blobpath (cs_entries s2)\<rparr>, Inr ())))"

text \<open>What \<open>Run\<close> does when the request channel is closed.\<close>

primrec close_rest_entries :: "('c, 'cw, 'b, 'r, 'w) cbs_env \<Rightarrow> time \<Rightarrow> nat list \<Rightarrow> ('c, 'b, unit) storeop" where
  "close_rest_entries env now [] = ret ()"
| "close_rest_entries env now (p # ps) =
     and_then (ignoring (on_cbs (CachedBlobEntry_Close env now writebackIfNeededAndClose p))) (\<lambda>_. close_rest_entries env now ps)"

definition Manager_Quit :: "('c, 'cw, 'b, 'r, 'w) cbs_env \<Rightarrow> nat range_order \<Rightarrow> time \<Rightarrow> ('c, 'b, unit) storeop" where
  "Manager_Quit env ord now s = close_rest_entries env now (map snd (ord (cs_entries s))) s"

section \<open>The store\<close>

text \<open>
  \<open>New\<close> gets the flags of the backend if it reports any, whether the cache store can remove blobs, and its blobs if it can
  list them.
\<close>

definition CachedBlobStore_New ::
    "flags option \<Rightarrow> flags \<Rightarrow> bool \<Rightarrow> string list result option \<Rightarrow> 'c \<Rightarrow> 'b \<Rightarrow> flags \<Rightarrow> ('c, 'b) CachedBlobStore result" where
  "CachedBlobStore_New beflags cacheflags removable listing c b f =
     (if IsWriteAllowed f \<and> (case beflags of None \<Rightarrow> False | Some g \<Rightarrow> \<not> IsWriteAllowed g)
      then Inl (Fmt ''Writable CachedBlobStore requested, but backendbs doesn't allow writes'')
      else if \<not> IsWriteAllowed cacheflags then Inl (Fmt ''CachedBlobStore requested, but cachebs doesn't allow writes'')
      else if \<not> removable then Inl (Fmt ''cachebs backend must support blob removals for failed-to-invalidate caches'')
      else
        let cbs = \<lparr>cs_cbs = \<lparr>cbs_cachebs = c, cbs_backendbs = b, cbs_bever = fmempty, cbs_bes = fmempty, cbs_next = 0, cbs_spawned = []\<rparr>,
                   cs_flags = f, cs_entries = fmempty, cs_usage = NewCacheUsageStats, cs_syncer = IsWriteAllowed f\<rparr>
        in case listing of
             None \<Rightarrow> Inr cbs
           | Some (Inl e) \<Rightarrow> Inl (errorf ''Failed to list blobs to init CacheUsageStats'' e)
           | Some (Inr bps) \<Rightarrow> Inr (cbs\<lparr>cs_usage := ImportBlobList bps (cs_usage cbs)\<rparr>))"

definition CachedBlobStore_Open ::
    "('c, 'cw, 'b, 'r, 'w) cbs_env \<Rightarrow> nat range_order \<Rightarrow> time \<Rightarrow> string \<Rightarrow> flags \<Rightarrow> ('c, 'b, CachedBlobHandle) storeop" where
  "CachedBlobStore_Open env ord now blobpath f s =
     (if \<not> IsWriteAllowed (cs_flags s) \<and> IsWriteAllowed f then (s, Inl (Errno EACCES))
      else
        and_then (OpenEntry env ord now blobpath) (\<lambda>p.
        and_then (on_cbs (OpenHandle env now p f)) (\<lambda>h.
          ret \<lparr>cbh_be = p, cbh_flags = f, cbh_id = h\<rparr>)) (s\<lparr>cs_usage := ObserveOpen now blobpath f (cs_usage s)\<rparr>))"

text \<open>A stream is a handle and a position; a read fills the buffer or fails.\<close>

definition CachedBlobStore_OpenReader ::
    "('c, 'cw, 'b, 'r, 'w) cbs_env \<Rightarrow> nat range_order \<Rightarrow> time \<Rightarrow> string \<Rightarrow> ('c, 'b, CachedBlobHandle \<times> int) storeop" where
  "CachedBlobStore_OpenReader env ord now blobpath =
     and_then (CachedBlobStore_Open env ord now blobpath O_RDONLY) (\<lambda>bh. ret (bh, 0))"

unbundle bit_operations_syntax

definition CachedBlobStore_OpenWriter ::
    "('c, 'cw, 'b, 'r, 'w) cbs_env \<Rightarrow> nat range_order \<Rightarrow> time \<Rightarrow> string \<Rightarrow> ('c, 'b, CachedBlobHandle \<times> int) storeop" where
  "CachedBlobStore_OpenWriter env ord now blobpath s =
     (if \<not> IsWriteAllowed (cs_flags s) then (s, Inl (Errno EACCES))
      else
        and_then (CachedBlobStore_Open env ord now blobpath (O_WRONLY OR O_CREATE)) (\<lambda>bh.
        and_then (on_cbs (CachedBlobHandle_Truncate env now bh 0)) (\<lambda>_. ret (bh, 0))) s)"

definition CachedBlobStore_Flags :: "('c, 'b) CachedBlobStore \<Rightarrow> flags" where
  "CachedBlobStore_Flags s = cs_flags s"

definition CachedBlobStore_DumpEntriesInfo :: "nat range_order \<Rightarrow> ('c, 'b) CachedBlobStore \<Rightarrow> CachedBlobEntryInfo list" where
  "CachedBlobStore_DumpEntriesInfo ord s = Manager_DumpEntriesInfo ord s"

definition CachedBlobStore_ListBlobs ::
    "nat range_order \<Rightarrow> ('b \<Rightarrow> string list result) option \<Rightarrow> ('c, 'b) CachedBlobStore \<Rightarrow> string list result" where
  "CachedBlobStore_ListBlobs ord belister s =
     (case belister of
        None \<Rightarrow> Inl (Fmt ''Backendbs doesn't support listing blobs.'')
      | Some list \<Rightarrow>
          (case list (cbs_backendbs (cs_cbs s)) of
             Inl e \<Rightarrow> Inl (errorf ''Backendbs failed to ListBlobs'' e)
           | Inr belist \<Rightarrow>
               let cachelist = Manager_ListBlobs ord s
               in Inr (cachelist @ filter (\<lambda>bp. bp \<notin> set cachelist) belist)))"

definition removing :: "string \<Rightarrow> ('c, 'b, unit) cbsop \<Rightarrow> ('c, 'b, unit) cbsop" where
  "removing msg m = rescue m (\<lambda>e. if IsNotExist e then ret () else fail (errorf msg e))"

definition CachedBlobStore_RemoveBlob :: "('c, 'cw, 'b, 'r, 'w) cbs_env \<Rightarrow> time \<Rightarrow> string \<Rightarrow> ('c, 'b, unit) storeop" where
  "CachedBlobStore_RemoveBlob env now blobpath s =
     (case bk_RemoveBlob env of
        None \<Rightarrow> (s, Inl (Fmt ''Backendbs doesn't support removing blobs.''))
      | Some backendrm \<Rightarrow>
          if \<not> IsWriteAllowed (cs_flags s) then (s, Inl (Errno EACCES))
          else
            and_then (Manager_RemoveBlob env now blobpath) (\<lambda>_.
            and_then (on_cbs (CachedBackendVersion_Delete blobpath)) (\<lambda>_.
            and_then (on_cbs (removing ''Backendbs RemoveBlob failed'' (on_backend (backendrm blobpath)))) (\<lambda>_.
            and_then (\<lambda>s. (s\<lparr>cs_usage := ObserveRemoveBlob blobpath (cs_usage s)\<rparr>, Inr ())) (\<lambda>_.
              on_cbs (removing ''Cachebs RemoveBlob failed'' (on_cache (ce_RemoveBlob env blobpath))))))) s)"

text \<open>The loop of \<open>ReduceCache\<close> over the blobs, the least recently used first.\<close>

fun reduce_blobs ::
    "('c, 'cw, 'b, 'r, 'w) cbs_env \<Rightarrow> (string \<Rightarrow> 'c \<Rightarrow> int result) \<Rightarrow> time \<Rightarrow> bool \<Rightarrow> int \<Rightarrow> string list \<Rightarrow> ('c, 'b, unit) storeop" where
  "reduce_blobs env blobsizer now dryrun needsReduce [] s = (s, Inr ())"
| "reduce_blobs env blobsizer now dryrun needsReduce (bp # bps) s =
     (case blobsizer bp (cbs_cachebs (cs_cbs s)) of
        Inl e \<Rightarrow>
          if IsNotExist e then reduce_blobs env blobsizer now dryrun needsReduce bps s
          else (s, Inl (errorf ''Failed to query size for cache blob'' e))
      | Inr sz \<Rightarrow>
          (case (if dryrun then (s, Inr ()) else DropCacheEntry env now bp s) of
             (s', Inl e) \<Rightarrow> (s', Inl (errorf ''Failed to remove cache blob'' e))
           | (s', Inr _) \<Rightarrow>
               let needs = wrap64 (needsReduce - sz)
               in if needs < 0 then (s', Inr ()) else reduce_blobs env blobsizer now dryrun needs bps s'))"

definition ReduceCache ::
    "('c, 'cw, 'b, 'r, 'w) cbs_env \<Rightarrow> usageStatEntry range_order \<Rightarrow> ('c \<Rightarrow> int result) option \<Rightarrow> (string \<Rightarrow> 'c \<Rightarrow> int result) option \<Rightarrow>
     time \<Rightarrow> int \<Rightarrow> bool \<Rightarrow> ('c, 'b, unit) storeop" where
  "ReduceCache env uord tsizer blobsizer now desiredSize dryrun s =
     (case (tsizer, blobsizer) of
        (None, _) \<Rightarrow> (s, Inl (Fmt ''Cache backend doesn't support TotalSize() method, required to ReduceCache().''))
      | (Some _, None) \<Rightarrow> (s, Inl (Fmt ''Cache backend doesn't support BlobSize() method, required to ReduceCache().''))
      | (Some totaler, Some sizer) \<Rightarrow>
          (case totaler (cbs_cachebs (cs_cbs s)) of
             Inl e \<Rightarrow> (s, Inl (errorf ''Failed to query current total cache size'' e))
           | Inr totalSizeBefore \<Rightarrow>
               let needsReduce = wrap64 (totalSizeBefore - desiredSize)
               in if needsReduce < 0 then (s, Inr ())
                  else
                    and_then (reduce_blobs env sizer now dryrun needsReduce (FindLeastUsed uord (cs_usage s))) (\<lambda>_ s.
                      case totaler (cbs_cachebs (cs_cbs s)) of
                        Inl e \<Rightarrow> (s, Inl (errorf ''Failed to query current total cache size'' e))
                      | Inr _ \<Rightarrow> (s, Inr ())) s))"

text \<open>
  \<open>SyncAll\<close> hands the entries to the workers and collects their errors; here the workers take them one after the other, and of the
  collected errors the first stands for all.
\<close>

primrec SyncAll :: "('c, 'cw, 'b, 'r, 'w) cbs_env \<Rightarrow> time \<Rightarrow> nat list \<Rightarrow> ('c, 'b, unit) storeop" where
  "SyncAll env now [] = ret ()"
| "SyncAll env now (p # ps) = (\<lambda>s.
     case on_cbs (CachedBlobEntry_Sync env now p) s of
       (s1, Inl e) \<Rightarrow> if is_panic e then (s1, Inl e) else and_then (SyncAll env now ps) (\<lambda>_. fail e) s1
     | (s1, Inr _) \<Rightarrow> SyncAll env now ps s1)"

definition CachedBlobStore_Sync :: "('c, 'cw, 'b, 'r, 'w) cbs_env \<Rightarrow> nat range_order \<Rightarrow> time \<Rightarrow> ('c, 'b, unit) storeop" where
  "CachedBlobStore_Sync env ord now s =
     (let ss = FindAllSyncable ord s in if \<not> cs_syncer s then (s, Inr ()) else SyncAll env now ss s)"

definition CachedBlobStore_Quit :: "('c, 'cw, 'b, 'r, 'w) cbs_env \<Rightarrow> nat range_order \<Rightarrow> time \<Rightarrow> ('c, 'b, unit) storeop" where
  "CachedBlobStore_Quit env ord now s =
     (case CachedBlobStore_Sync env ord now s of
        (s1, r) \<Rightarrow>
          if (case r of Inl e \<Rightarrow> is_panic e | Inr _ \<Rightarrow> False) then (s1, r)
          else and_then (Manager_Quit env ord now) (\<lambda>_ s. (s, r)) s1)"

section \<open>Tasks\<close>

definition AutoReduceCacheTask_main ::
    "('c, 'cw, 'b, 'r, 'w) cbs_env \<Rightarrow> usageStatEntry range_order \<Rightarrow> ('c \<Rightarrow> int result) option \<Rightarrow> (string \<Rightarrow> 'c \<Rightarrow> int result) option \<Rightarrow>
     time \<Rightarrow> int \<Rightarrow> int \<Rightarrow> ('c, 'b, unit) storeop" where
  "AutoReduceCacheTask_main env uord tsizer blobsizer now HighWatermark LowWatermark s =
     (case tsizer of
        None \<Rightarrow> (s, Inl (Fmt ''Cache backend doesn't support TotalSize() method, required for AutoReduceCacheTask.''))
      | Some totaler \<Rightarrow>
          (case totaler (cbs_cachebs (cs_cbs s)) of
             Inl e \<Rightarrow> (s, Inl (errorf ''Failed to query current total cache size'' e))
           | Inr currentSize \<Rightarrow>
               if currentSize \<le> HighWatermark then (s, Inr ())
               else ReduceCache env uord tsizer blobsizer now LowWatermark False s))"

text \<open>Whether automatic discards are set up.\<close>

definition SetupAutoReduceCache :: "int \<Rightarrow> int \<Rightarrow> bool" where
  "SetupAutoReduceCache highwm lowwm \<longleftrightarrow> \<not> (highwm = MaxInt64 \<or> lowwm = MaxInt64 \<or> lowwm > highwm)"

end
