(* ===== verification/Cache_Manager.thy ===== *)
theory Cache_Manager
  imports Cache_Store
begin

text \<open>
  What the manager of a cached blob store keeps, whatever requests it gets: its map leads from each path to the entry of that
  path, and has at most one entry more than \<open>maxEntries\<close>.
\<close>

section \<open>Operations that keep the entries\<close>

text \<open>
  \<open>keeps m\<close>: the action neither removes an entry nor changes its path, and hands out no address twice. The rules below reduce it to
  the parts of an action.
\<close>

definition paths :: "('c, 'b) CBS \<Rightarrow> (nat, string) fmap" where
  "paths s = fmmap be_blobpath (cbs_bes s)"

definition keeps :: "('c, 'b, 'a) cbsop \<Rightarrow> bool" where
  "keeps m \<longleftrightarrow> (\<forall>s. paths (fst (m s)) = paths s \<and> cbs_next s \<le> cbs_next (fst (m s)))"

named_theorems keeping

lemma keepsI: "(\<And>s. paths (fst (m s)) = paths s \<and> cbs_next s \<le> cbs_next (fst (m s))) \<Longrightarrow> keeps m"
  by (simp add: keeps_def)

lemma keeps_result: "keeps m \<Longrightarrow> m s = (s', r) \<Longrightarrow> paths s' = paths s \<and> cbs_next s \<le> cbs_next s'"
  by (metis fst_conv keeps_def)

lemma keeps_after:
  "keeps m \<Longrightarrow> paths s1 = paths s \<and> cbs_next s \<le> cbs_next s1 \<Longrightarrow> paths (fst (m s1)) = paths s \<and> cbs_next s \<le> cbs_next (fst (m s1))"
  by (metis keeps_def le_trans)

lemma paths_simps [simp]:
  "paths (s\<lparr>cbs_cachebs := c\<rparr>) = paths s" "paths (s\<lparr>cbs_backendbs := b\<rparr>) = paths s" "paths (s\<lparr>cbs_bever := v\<rparr>) = paths s"
  "paths (s\<lparr>cbs_next := n\<rparr>) = paths s" "paths (s\<lparr>cbs_spawned := t\<rparr>) = paths s"
  by (simp_all add: paths_def)

lemma paths_upd: "fmlookup (cbs_bes s) p = Some be \<Longrightarrow> be_blobpath be' = be_blobpath be \<Longrightarrow> paths (s\<lparr>cbs_bes := fmupd p be' (cbs_bes s)\<rparr>) = paths s"
  by (auto simp: paths_def intro!: fmap_ext)

lemma keeps_ret [keeping]: "keeps (ret a)"
  by (simp add: keeps_def ret_def)

lemma keeps_fail [keeping]: "keeps (fail e)"
  by (simp add: keeps_def fail_def)

lemma keeps_and_then [keeping]: "keeps m \<Longrightarrow> (\<And>a. keeps (f a)) \<Longrightarrow> keeps (and_then m f)"
  unfolding keeps_def and_then_def by (auto split: prod.splits sum.splits) (metis fst_conv le_trans)+

lemma keeps_ignoring [keeping]: "keeps m \<Longrightarrow> keeps (ignoring m)"
  unfolding keeps_def ignoring_def by (auto split: prod.splits sum.splits) (metis fst_conv)+

lemma keeps_rescue [keeping]: "keeps m \<Longrightarrow> (\<And>e. keeps (h e)) \<Longrightarrow> keeps (rescue m h)"
  unfolding keeps_def rescue_def by (auto split: prod.splits sum.splits) (metis fst_conv le_trans)+

lemma keeps_wrapping [keeping]: "keeps m \<Longrightarrow> keeps (wrapping msg m)"
  unfolding keeps_def wrapping_def by (auto split: prod.splits sum.splits) (metis fst_conv)+

lemma keeps_deferring [keeping]: "keeps m \<Longrightarrow> keeps d \<Longrightarrow> keeps (deferring m d)"
  unfolding keeps_def deferring_def by (auto split: prod.splits sum.splits error.splits) (metis fst_conv le_trans)+

lemma keeps_with_be [keeping]: "(\<And>be. keeps (f be)) \<Longrightarrow> keeps (with_be p f)"
  unfolding keeps_def with_be_def by (auto split: option.splits)

lemma keeps_upd_be [keeping]: "(\<And>be. be_blobpath (f be) = be_blobpath be) \<Longrightarrow> keeps (upd_be p f)"
  unfolding keeps_def upd_be_def with_be_def by (auto simp: paths_upd split: option.splits)

lemma keeps_on_cache [keeping]: "keeps (on_cache f)"
  unfolding keeps_def on_cache_def by (auto split: prod.splits)

lemma keeps_on_backend [keeping]: "keeps (on_backend f)"
  unfolding keeps_def on_backend_def by (auto split: prod.splits)

lemma keeps_if [keeping]: "keeps m \<Longrightarrow> keeps n \<Longrightarrow> keeps (if b then m else n)"
  by simp

lemma keeps_spawn [keeping]: "keeps (spawn t)"
  by (simp add: keeps_def spawn_def)

lemma keeps_updateState [keeping]: "keeps (updateState p st)"
  unfolding updateState_def by (intro keeping) simp

lemma keeps_Set [keeping]: "keeps (CachedBackendVersion_Set bp v)"
  by (simp add: keeps_def CachedBackendVersion_Set_def)

lemma keeps_read [keeping]: "keeps (\<lambda>s. (s, g s))"
  by (simp add: keeps_def)

lemma keeps_state: "(\<And>x. keeps (m x)) \<Longrightarrow> keeps (\<lambda>s. m (g s) s)"
  by (simp add: keeps_def)

lemma keeps_pair: "(\<And>a b. keeps (m a b)) \<Longrightarrow> keeps (\<lambda>s. case g s of (a, b) \<Rightarrow> m a b s)"
  by (simp add: keeps_def split: prod.splits)

lemma keeps_sum: "(\<And>a. keeps (m a)) \<Longrightarrow> (\<And>a. keeps (n a)) \<Longrightarrow> keeps (\<lambda>s. case g s of Inl a \<Rightarrow> m a s | Inr a \<Rightarrow> n a s)"
  by (simp add: keeps_def split: sum.splits)

lemma keeps_option [keeping]: "keeps m \<Longrightarrow> (\<And>a. keeps (n a)) \<Longrightarrow> keeps (case x of None \<Rightarrow> m | Some a \<Rightarrow> n a)"
  by (cases x) auto

lemma keeps_Query [keeping]:
  fixes env :: "('c, 'cw, 'b, 'r, 'w) cbs_env"
  shows "keeps (CachedBackendVersion_Query env bp)"
proof -
  let ?q = "\<lambda>r. deferring
      (and_then (wrapping ''Failed to query backend blob ver'' (on_backend (bk_queryVersion env r))) (\<lambda>ver.
       and_then (CachedBackendVersion_Set bp ver) (\<lambda>_. ret ver)))
      (ignoring (on_backend (bk_CloseReader env r))) :: ('c, 'b, Version) cbsop"
  have q: "keeps (?q r)" for r by (intro keeping)
  show ?thesis
  proof (rule keepsI)
    fix s :: "('c, 'b) CBS"
    show "paths (fst (CachedBackendVersion_Query env bp s)) = paths s \<and> cbs_next s \<le> cbs_next (fst (CachedBackendVersion_Query env bp s))"
    proof (cases "fmlookup (cbs_bever s) bp")
      case None
      obtain s1 r where r: "on_backend (bk_OpenReader env bp) s = (s1, r)" by force
      have s1: "paths s1 = paths s \<and> cbs_next s \<le> cbs_next s1" by (rule keeps_result [OF keeps_on_backend r])
      show ?thesis
      proof (cases r)
        case (Inl e)
        then show ?thesis using None r s1
          by (simp add: CachedBackendVersion_Query_def and_then_def ret_def fail_def CachedBackendVersion_Set_def)
      next
        case (Inr y)
        have "CachedBackendVersion_Query env bp s = ?q y s1" using None r Inr by (simp add: CachedBackendVersion_Query_def)
        then show ?thesis using keeps_after [OF q s1] by simp
      qed
    qed (simp add: CachedBackendVersion_Query_def)
  qed
qed

lemma keeps_errored [keeping]: "keeps (errored p e)"
  unfolding errored_def by (intro keeping)

lemma keeps_choose_state [keeping]: "keeps (choose_state env p bp cv bv)"
  unfolding choose_state_def Let_def
  by (intro keeping keeps_state [where m = "\<lambda>n. upd_be p (\<lambda>be. be\<lparr>be_bloblen := n, be_validlen := n\<rparr>)"] keeps_pair) simp_all

lemma keeps_initialize [keeping]: "keeps (initializeWithLock env p)"
  unfolding initializeWithLock_def Let_def by (intro keeping)

lemma keeps_OpenHandle_loop [keeping]: "keeps (OpenHandle_loop env p)"
  unfolding OpenHandle_loop_def by (intro keeping) (simp add: keeping split: CacheEntryState.split)

lemma keeps_OpenHandle [keeping]:
  fixes env :: "('c, 'cw, 'b, 'r, 'w) cbs_env"
  shows "keeps (OpenHandle env now p f)"
proof -
  let ?m = "\<lambda>h. and_then (upd_be p (\<lambda>be. be\<lparr>be_lastUsed := now, be_handles := fmupd h f (be_handles be)\<rparr>)) (\<lambda>_. ret h) :: ('c, 'b, nat) cbsop"
  have m: "keeps (?m h)" for h by (intro keeping) simp
  have "keeps (\<lambda>s. ?m (cbs_next s) (s\<lparr>cbs_next := Suc (cbs_next s)\<rparr>))"
  proof (rule keepsI)
    fix s :: "('c, 'b) CBS"
    from m [of "cbs_next s", unfolded keeps_def, rule_format, of "s\<lparr>cbs_next := Suc (cbs_next s)\<rparr>"]
    show "paths (fst (?m (cbs_next s) (s\<lparr>cbs_next := Suc (cbs_next s)\<rparr>))) = paths s \<and>
        cbs_next s \<le> cbs_next (fst (?m (cbs_next s) (s\<lparr>cbs_next := Suc (cbs_next s)\<rparr>)))" by simp
  qed
  then show ?thesis unfolding OpenHandle_def Let_def by (intro keeping)
qed

lemma keeps_wait [keeping]: "keeps (waitUntilInvalidateAtLeast p n)" "keeps (waitUntilInvalidateDone p)"
  unfolding waitUntilInvalidateDone_def waitUntilInvalidateAtLeast_def
  by (intro keeping; simp add: keeping split: CacheEntryState.split)+

lemma keeps_cache_PRead [keeping]: "keeps (cache_PRead env p n off)"
  unfolding cache_PRead_def by (intro keeping)

lemma keeps_writeBack_begin [keeping]: "keeps (writeBack_begin env p)"
  unfolding writeBack_begin_def by (intro keeping)

lemma keeps_writeBack_failed [keeping]: "keeps (writeBack_failed p e)"
  unfolding writeBack_failed_def by (intro keeping)

lemma keeps_writeBack_open [keeping]: "keeps (writeBack_open env p)"
  unfolding writeBack_open_def by (intro keeping)

lemma keeps_writeBack_block [keeping]: "keeps (writeBack_block env p w off n)"
  unfolding writeBack_block_def by (intro keeping)

lemma keeps_copy_blocks [keeping]: "keeps (copy_blocks env p w off n)"
proof (rule keepsI)
  fix s :: "('a, 'b) CBS"
  show "paths (fst (copy_blocks env p w off n s)) = paths s \<and> cbs_next s \<le> cbs_next (fst (copy_blocks env p w off n s))"
  proof (induction env p w off n s rule: copy_blocks.induct)
    case (1 env p w off n s)
    obtain s1 r where r: "writeBack_block env p w off n s = (s1, r)" by force
    show ?case using 1 [OF _ r [symmetric]] keeps_result [OF keeps_writeBack_block r] r
      by (cases r) (auto simp: ret_def intro: le_trans)
  qed
qed

lemma keeps_writeBack_end [keeping]: "keeps (writeBack_end env p w v)"
  unfolding writeBack_end_def
proof (intro keeping)
  fix be
  show "keeps (case be_state be of
              CacheEntryWritebackInProgress \<Rightarrow> (\<lambda>s.
                case ce_queryVersion env (be_blobpath be) (cbs_cachebs s) of
                  Inl e \<Rightarrow>
                    if is_panic e then (s, Inl e) else writeBack_failed p (errorf ''Failed to query cached blob ver'' e) s
                | Inr after \<Rightarrow> updateState p (if after = v then CacheEntryClean else CacheEntryDirty) s)
            | CacheEntryStaleWritebackInProgress \<Rightarrow> updateState p CacheEntryDirty
            | _ \<Rightarrow> ret ())"
  proof (cases "be_state be = CacheEntryWritebackInProgress")
    case True
    have "keeps (\<lambda>s. if is_panic e then (s, Inl e) else writeBack_failed p x s)" for e x
      using keeps_writeBack_failed by (auto simp: keeps_def)
    with True show ?thesis by (simp, intro keeps_sum keeping)
  qed (simp add: keeping split: CacheEntryState.split)
qed

lemma keeps_writeBackWithLock [keeping]: "keeps (writeBackWithLock env p)"
proof -
  let ?m = "\<lambda>w n v s. case copy_blocks env p w 0 n s of (s', Inl e) \<Rightarrow> if is_panic e then (s', Inl e)
         else deferring (writeBack_failed p (errorf ''Failed to copy dirty data to backend blob writer'' e))
           (ignoring (on_backend (bk_CloseWriter env w))) s'
       | (s', Inr _) \<Rightarrow> writeBack_end env p w v s'"
  have "keeps (?m w n v)" for w n v
  proof (rule keepsI)
    fix s
    obtain s1 r where r: "copy_blocks env p w 0 n s = (s1, r)" by force
    have f: "keeps (deferring (writeBack_failed p x) (ignoring (on_backend (bk_CloseWriter env w))))" for x by (intro keeping)
    show "paths (fst (?m w n v s)) = paths s \<and> cbs_next s \<le> cbs_next (fst (?m w n v s))"
      using r keeps_result [OF keeps_copy_blocks r] keeps_after [OF f, of s1 s] keeps_after [OF keeps_writeBack_end, of s1 s env p w v]
      by (cases r) (auto simp del: copy_blocks.simps)
  qed
  then have "keeps (\<lambda>s. case fmlookup (cbs_bes s) p of None \<Rightarrow> (s, Inl (Panic ''nil pointer dereference''))
      | Some be \<Rightarrow> ?m w (nat (ce_Size env (be_blobpath be) (cbs_cachebs s))) v s)" for w v
    by (simp add: keeps_def del: copy_blocks.simps split: option.split)
  then show ?thesis unfolding writeBackWithLock_def by (intro keeping)
qed

lemma keeps_count_sync [keeping]: "keeps (count_sync now p)"
  unfolding count_sync_def by (intro keeping) simp

lemma keeps_Close_begin [keeping]: "keeps (Close_begin mode p)"
  unfolding Close_begin_def by (intro keeping)

lemma keeps_Close_step [keeping]: "keeps (Close_step mode p)"
  unfolding Close_step_def by (intro keeping) (simp add: keeping split: CacheEntryState.split)

lemma keeps_Close_loop [keeping]: "keeps (Close_loop env mode p)"
  unfolding Close_loop_def by (intro keeping)

lemma keeps_Close_end [keeping]: "keeps (Close_end env x p)"
  unfolding Close_end_def by (intro keeping)

lemma keeps_Close [keeping]: "keeps (CachedBlobEntry_Close env now mode p)"
  unfolding CachedBlobEntry_Close_def by (intro keeping) (auto simp: keeping split: option.split prod.split)

lemma keeps_CloseHandle [keeping]: "keeps (CloseHandle p h)"
  unfolding CloseHandle_def by (intro keeping) simp

lemma keeps_PRead [keeping]: "keeps (CachedBlobEntry_PRead env now p n off)"
  unfolding CachedBlobEntry_PRead_def PRead_begin_def by (intro keeping) simp

lemma keeps_mark [keeping]: "keeps (markWriteInProgressWithLock now p)" "keeps (markWriteEndWithLock p)"
  unfolding markWriteInProgressWithLock_def markWriteEndWithLock_def
  by (intro keeping; simp add: keeping split: CacheEntryState.split)+

lemma keeps_ending_write [keeping]: "keeps m \<Longrightarrow> keeps (ending_write p m)"
proof (rule keepsI)
  fix s assume m: "keeps m"
  obtain s1 r where r: "m s = (s1, r)" by force
  have e: "keeps (and_then (markWriteEndWithLock p) (\<lambda>_. fail e))" for e by (intro keeping)
  show "paths (fst (ending_write p m s)) = paths s \<and> cbs_next s \<le> cbs_next (fst (ending_write p m s))"
    using keeps_result [OF m r] r keeps_after [OF e, of s1 s] keeps_after [OF keeps_mark(2), of s1 s p] by (cases r) (auto simp: ending_write_def)
qed

lemma keeps_PWrite [keeping]: "keeps (CachedBlobEntry_PWrite env now p bs off)"
  unfolding CachedBlobEntry_PWrite_def PWrite_begin_def cache_PWrite_def Let_def by (intro keeping) simp

lemma keeps_Truncate [keeping]: "keeps (CachedBlobEntry_Truncate env now p n)"
  unfolding CachedBlobEntry_Truncate_def Truncate_begin_def cache_Truncate_def by (intro keeping) simp

lemma keeps_cache_Sync [keeping]: "keeps (cache_Sync env p)"
  unfolding cache_Sync_def by (intro keeping)

lemma keeps_Sync_loop [keeping]: "keeps (Sync_loop p)"
  unfolding Sync_loop_def by (intro keeping) (auto simp: keeping split: CacheEntryState.split)

lemma keeps_Sync [keeping]: "keeps (CachedBlobEntry_Sync env now p)"
proof -
  have wb: "keeps (wrapping x (writeBackWithLock env p))" and cs: "keeps (wrapping x (cache_Sync env p))" for x by (intro keeping)+
  have ct: "keeps (and_then (count_sync now p) (\<lambda>_ s. (s, y)))" for y by (intro keeping)
  let ?m = "\<lambda>s. case wrapping ''Failed to writeback dirty'' (writeBackWithLock env p) s of
           (s1, r1) \<Rightarrow>
             if (case r1 of Inl e \<Rightarrow> is_panic e | Inr _ \<Rightarrow> False) then (s1, r1)
             else
               (case wrapping ''Failed to sync cache blob'' (cache_Sync env p) s1 of
                  (s2, r2) \<Rightarrow>
                    if (case r2 of Inl e \<Rightarrow> is_panic e | Inr _ \<Rightarrow> False) then (s2, r2)
                    else and_then (count_sync now p) (\<lambda>_ s. (s, case r1 of Inl e \<Rightarrow> Inl e | Inr _ \<Rightarrow> r2)) s2)"
  have m: "keeps ?m"
  proof (rule keepsI)
    fix s
    obtain s1 r1 where r1: "wrapping ''Failed to writeback dirty'' (writeBackWithLock env p) s = (s1, r1)" by force
    obtain s2 r2 where r2: "wrapping ''Failed to sync cache blob'' (cache_Sync env p) s1 = (s2, r2)" by force
    note k1 = keeps_result [OF wb r1] and k2 = keeps_result [OF cs r2]
    then have "paths s2 = paths s \<and> cbs_next s \<le> cbs_next s2" by simp
    from keeps_after [OF ct [of "case r1 of Inl e \<Rightarrow> Inl e | Inr _ \<Rightarrow> r2"] this] k1 k2
    show "paths (fst (?m s)) = paths s \<and> cbs_next s \<le> cbs_next (fst (?m s))" unfolding r1 prod.case r2 by simp
  qed
  show ?thesis unfolding CachedBlobEntry_Sync_def by (intro keeping m)
qed

lemma keeps_invalidate_begin [keeping]: "keeps (invalidate_begin p)"
  unfolding invalidate_begin_def by (intro keeping) simp

lemma keeps_invalidate_streams [keeping]: "keeps (invalidate_reader env bp)" "keeps (invalidate_writer env bp)"
  unfolding invalidate_reader_def invalidate_writer_def by (intro keeping)+

lemma keeps_invalidate_progress [keeping]: "keeps (invalidate_progress p n)"
  unfolding invalidate_progress_def by (intro keeping) simp_all

lemma keeps_cache_triple:
  fixes m :: "'x \<Rightarrow> 'y \<Rightarrow> ('c, 'b, 'a) cbsop"
  assumes "\<And>x y. keeps (m x y)"
  shows "keeps (\<lambda>s. case g (cbs_cachebs s) of (c, x, y) \<Rightarrow> m x y (s\<lparr>cbs_cachebs := c\<rparr>))"
proof (rule keepsI)
  fix s :: "('c, 'b) CBS"
  obtain c x y where "g (cbs_cachebs s) = (c, x, y)" by (cases "g (cbs_cachebs s)")
  then show "paths (fst (case g (cbs_cachebs s) of (c, x, y) \<Rightarrow> m x y (s\<lparr>cbs_cachebs := c\<rparr>))) = paths s \<and>
      cbs_next s \<le> cbs_next (fst (case g (cbs_cachebs s) of (c, x, y) \<Rightarrow> m x y (s\<lparr>cbs_cachebs := c\<rparr>)))"
    using keeps_after [OF assms, of "s\<lparr>cbs_cachebs := c\<rparr>" s x y] by simp
qed

lemma keeps_invalidate_round [keeping]:
  fixes env :: "('c, 'cw, 'b, 'r, 'w) cbs_env"
  shows "keeps (invalidate_round env cancelled p r cw)"
proof (rule keepsI)
  fix s :: "('c, 'b) CBS"
  let ?w = "\<lambda>bs. if bs = [] then ret False
             else (\<lambda>s. case ce_Write env bs cw (cbs_cachebs s) of (c, nw, ew) \<Rightarrow>
                   and_then (if nw > 0 then invalidate_progress p nw else ret False) (\<lambda>done.
                     case ew of
                       Some e \<Rightarrow> fail (errorf ''Failed to write backend blob content to cache'' e)
                     | None \<Rightarrow>
                         if nw \<noteq> length bs then fail (Fmt ''Failed to write backend blob content to cache'')
                         else ret done) (s\<lparr>cbs_cachebs := c\<rparr>))"
  have k: "keeps (and_then (?w bs) (\<lambda>done. case er of Some e \<Rightarrow> if e = EOF then ret False else fail e | None \<Rightarrow> ret (\<not> done)))" for bs er
    by (intro keeping keeps_cache_triple)
  obtain b bs er where rd: "(case cancelled of Some e \<Rightarrow> (cbs_backendbs s, [], Some e)
      | None \<Rightarrow> bk_Read env invalidateBlockSize r (cbs_backendbs s)) = (b, bs, er)"
    by (cases "case cancelled of Some e \<Rightarrow> (cbs_backendbs s, [], Some e) | None \<Rightarrow> bk_Read env invalidateBlockSize r (cbs_backendbs s)")
  from keeps_after [OF k, of "s\<lparr>cbs_backendbs := b\<rparr>" s]
  show "paths (fst (invalidate_round env cancelled p r cw s)) = paths s \<and> cbs_next s \<le> cbs_next (fst (invalidate_round env cancelled p r cw s))"
    unfolding invalidate_round_def rd prod.case by simp
qed

lemma keeps_invalidate_loop [keeping]: "keeps (invalidate_loop fuel env p r cw)"
  by (induction fuel) (auto intro!: keeping)

lemma keeps_invalidate [keeping]: "keeps (invalidate env fuel p)"
  unfolding invalidate_def invalidateInternal_def invalidate_failed_def by (intro keeping) simp

section \<open>The map of the manager\<close>

definition mgr_ok :: "('c, 'b) CachedBlobStore \<Rightarrow> bool" where
  "mgr_ok s \<longleftrightarrow>
     (\<forall>bp p. fmlookup (cs_entries s) bp = Some p \<longrightarrow> fmlookup (paths (cs_cbs s)) p = Some bp) \<and>
     (\<forall>p. fmlookup (paths (cs_cbs s)) p \<noteq> None \<longrightarrow> p < cbs_next (cs_cbs s))"

text \<open>A request leaves the map sound and does not let it grow.\<close>

definition tame :: "('c, 'b, 'a) storeop \<Rightarrow> bool" where
  "tame m \<longleftrightarrow> (\<forall>s. mgr_ok s \<longrightarrow> mgr_ok (fst (m s)) \<and> num_entries (fst (m s)) \<le> num_entries s)"

lemma tameD: "tame m \<Longrightarrow> mgr_ok s \<Longrightarrow> m s = (s', r) \<Longrightarrow> mgr_ok s' \<and> num_entries s' \<le> num_entries s"
  by (metis fst_conv tame_def)

lemma tameI: "(\<And>s s' r. mgr_ok s \<Longrightarrow> m s = (s', r) \<Longrightarrow> mgr_ok s' \<and> num_entries s' \<le> num_entries s) \<Longrightarrow> tame m"
  unfolding tame_def by (metis prod.collapse)

lemma num_entries_simps [simp]:
  "num_entries (s\<lparr>cs_cbs := c\<rparr>) = num_entries s" "num_entries (s\<lparr>cs_usage := u\<rparr>) = num_entries s"
  by (simp_all add: num_entries_def)

lemma num_entries_drop: "num_entries (s\<lparr>cs_entries := fmdrop bp (cs_entries s)\<rparr>) \<le> num_entries s"
  by (simp add: num_entries_def) (metis fcard_fminus1_le fminus_fsubset)

lemma num_entries_add: "num_entries (s\<lparr>cs_entries := fmupd bp p (cs_entries s)\<rparr>) \<le> Suc (num_entries s)"
  by (simp add: num_entries_def fcard_finsert_if)

lemma mgr_ok_drop: "mgr_ok s \<Longrightarrow> mgr_ok (s\<lparr>cs_entries := fmdrop bp (cs_entries s)\<rparr>)"
  by (auto simp: mgr_ok_def)

lemma mgr_ok_usage: "mgr_ok (s\<lparr>cs_usage := u\<rparr>) = mgr_ok s"
  by (simp add: mgr_ok_def)

lemma mgr_ok_on_cbs:
  assumes "keeps m" "mgr_ok s" "on_cbs m s = (s', r)"
  shows "mgr_ok s' \<and> cs_entries s' = cs_entries s"
proof -
  obtain c x where c: "m (cs_cbs s) = (c, x)" by force
  with assms(3) have "s' = s\<lparr>cs_cbs := c\<rparr>" by (simp add: on_cbs_def)
  with keeps_result [OF assms(1) c] assms(2) show ?thesis unfolding mgr_ok_def by (auto intro: less_le_trans)
qed

lemma tame_on_cbs: "keeps m \<Longrightarrow> tame (on_cbs m)"
  by (rule tameI) (drule (2) mgr_ok_on_cbs, simp add: num_entries_def)

lemma tame_and_then: "tame m \<Longrightarrow> (\<And>a. tame (f a)) \<Longrightarrow> tame (and_then m f)"
  unfolding tame_def and_then_def by (auto split: prod.splits sum.splits) (metis fst_conv le_trans)+

lemma tame_ret: "tame (ret a)"
  by (simp add: tame_def ret_def)

lemma tame_fail: "tame (fail e)"
  by (simp add: tame_def fail_def)

lemma tame_tryCloseEntry: "tame (tryCloseEntry env now p)"
proof (rule tameI)
  fix s s' r assume a: "mgr_ok s" "tryCloseEntry env now p s = (s', r)"
  obtain s1 x where c: "on_cbs (CachedBlobEntry_Close env now writebackAndClose p) s = (s1, x)" by force
  note k = mgr_ok_on_cbs [OF keeps_Close a(1) c]
  show "mgr_ok s' \<and> num_entries s' \<le> num_entries s"
    using a c k num_entries_drop [of _ s1] mgr_ok_drop [of s1]
    by (auto simp: tryCloseEntry_def num_entries_def split: option.splits sum.splits)
qed

lemma tame_close_entries: "tame (close_entries env now ps)"
  by (induction ps) (auto intro!: tame_and_then tame_ret tame_tryCloseEntry)

lemma closeOld_cases:
  assumes "mgr_ok s" "closeOldCacheEntriesIfNeeded env ord now s = (s', r)"
  shows "mgr_ok s' \<and> num_entries s' \<le> num_entries s \<and> (r = Inr () \<longrightarrow> num_entries s' \<le> maxEntries)"
proof (cases "num_entries s \<le> maxEntries")
  case False
  define es where "es = filter (\<lambda>(p, be). be_handles be = fmempty) (ranged ord s)"
  define ps where "ps = map fst (filter (\<lambda>(p, be). be_lastUsed be < now - inactiveCloseTimeout) es)"
  define x where "x = oldest_entry None es"
  let ?close = "\<lambda>s. if num_entries s > maxEntries then (case x of None \<Rightarrow> ret () s | Some (p, _) \<Rightarrow> tryCloseEntry env now p s) else ret () s"
  let ?check = "\<lambda>_ s. if num_entries s > maxEntries then fail (Errno ENFILE) s else ret () s"
  have t: "tame ?close"
    by (rule tameI) (use tameD [OF tame_tryCloseEntry] in \<open>fastforce simp: ret_def split: if_splits option.splits\<close>)
  have eq: "closeOldCacheEntriesIfNeeded env ord now s = and_then (close_entries env now ps) (\<lambda>_. and_then ?close ?check) s"
    unfolding closeOldCacheEntriesIfNeeded_def Let_def es_def [symmetric] ps_def [symmetric] x_def [symmetric] using False by simp
  obtain s1 r1 where 1: "close_entries env now ps s = (s1, r1)" by force
  note t1 = tameD [OF tame_close_entries assms(1) 1]
  obtain s2 r2 where 2: "?close s1 = (s2, r2)" by force
  note t2 = tameD [OF t _ 2]
  show ?thesis using assms(2) 1 t1 2 t2 unfolding eq
    by (cases r1; cases r2) (auto simp: and_then_def fail_def ret_def split: if_splits)
qed (use assms in \<open>auto simp: closeOldCacheEntriesIfNeeded_def\<close>)

lemma OpenEntry_cases:
  assumes "mgr_ok s" "num_entries s \<le> Suc maxEntries" "OpenEntry env ord now bp s = (s', r)"
  shows "mgr_ok s' \<and> num_entries s' \<le> Suc maxEntries"
proof (cases "fmlookup (cs_entries s) bp")
  case None
  obtain s1 x where 1: "closeOldCacheEntriesIfNeeded env ord now s = (s1, x)" by force
  note t1 = closeOld_cases [OF assms(1) 1]
  show ?thesis
  proof (cases x)
    case (Inl e)
    then show ?thesis using None 1 t1 assms(2,3) by (auto simp: OpenEntry_def and_then_def)
  next
    case (Inr u)
    let ?n = "cbs_next (cs_cbs s1)"
    let ?c = "(cs_cbs s1)\<lparr>cbs_bes := fmupd ?n (NewCachedBlobEntry bp) (cbs_bes (cs_cbs s1)), cbs_next := Suc ?n\<rparr>"
    have s': "s' = s1\<lparr>cs_cbs := ?c, cs_entries := fmupd bp ?n (cs_entries s1)\<rparr>"
      using None 1 Inr assms(3) by (simp add: OpenEntry_def and_then_def on_cbs_def new_entry_def)
    have p: "paths ((cs_cbs s1)\<lparr>cbs_bes := fmupd ?n (NewCachedBlobEntry bp) (cbs_bes (cs_cbs s1))\<rparr>) = fmupd ?n bp (paths (cs_cbs s1))" by (intro fmap_ext) (auto simp: paths_def NewCachedBlobEntry_def)
    have en: "fmlookup (paths (cs_cbs s1)) q = Some b" if "fmlookup (cs_entries s1) b = Some q" for b q using t1 that unfolding mgr_ok_def by blast
    have lt: "q < ?n" if "fmlookup (paths (cs_cbs s1)) q = Some b" for b q using t1 that unfolding mgr_ok_def by auto
    have "mgr_ok s'" unfolding mgr_ok_def s' by (auto simp: p dest: en lt intro: less_SucI)
    moreover have "num_entries s' \<le> Suc maxEntries"
      using num_entries_add [of bp ?n "s1\<lparr>cs_cbs := ?c\<rparr>"] t1 Inr by (simp add: s' unit_eq)
    ultimately show ?thesis ..
  qed
qed (use assms in \<open>simp add: OpenEntry_def\<close>)

lemma tame_RemoveBlob: "tame (Manager_RemoveBlob env now bp)"
proof (rule tameI)
  fix s s' r assume a: "mgr_ok s" "Manager_RemoveBlob env now bp s = (s', r)"
  show "mgr_ok s' \<and> num_entries s' \<le> num_entries s"
  proof (cases "fmlookup (cs_entries s) bp")
    case (Some p)
    obtain s1 x where c: "on_cbs (CachedBlobEntry_Close env now abandonAndClose p) s = (s1, x)" by force
    note k = mgr_ok_on_cbs [OF keeps_Close a(1) c]
    show ?thesis using a(2) c k Some num_entries_drop [of bp s1] mgr_ok_drop [of s1]
      by (auto simp: Manager_RemoveBlob_def num_entries_def split: sum.splits)
  qed (use a in \<open>auto simp: Manager_RemoveBlob_def\<close>)
qed

lemma tame_CloseEntryForTesting: "tame (CloseEntryForTesting env now bp)"
  by (rule tameI) (use tameD [OF tame_tryCloseEntry [of env now]] in \<open>auto simp: CloseEntryForTesting_def split: option.splits\<close>)

lemma mgr_ok_new_entry:
  assumes "mgr_ok s" "on_cbs (new_entry bp) s = (s', r)"
  shows "mgr_ok s' \<and> cs_entries s' = cs_entries s"
proof -
  let ?n = "cbs_next (cs_cbs s)"
  have s': "s' = s\<lparr>cs_cbs := (cs_cbs s)\<lparr>cbs_bes := fmupd ?n (NewCachedBlobEntry bp) (cbs_bes (cs_cbs s)), cbs_next := Suc ?n\<rparr>\<rparr>"
    using assms(2) by (simp add: on_cbs_def new_entry_def)
  have p: "paths ((cs_cbs s)\<lparr>cbs_bes := fmupd ?n (NewCachedBlobEntry bp) (cbs_bes (cs_cbs s))\<rparr>) = fmupd ?n bp (paths (cs_cbs s))"
    by (intro fmap_ext) (auto simp: paths_def NewCachedBlobEntry_def)
  have lt: "q < ?n" if "fmlookup (paths (cs_cbs s)) q = Some b" for b q using assms(1) that unfolding mgr_ok_def by auto
  have en: "fmlookup (paths (cs_cbs s)) q = Some b" if "fmlookup (cs_entries s) b = Some q" for b q using assms(1) that unfolding mgr_ok_def by blast
  show ?thesis unfolding mgr_ok_def s' by (auto simp: p dest: en lt intro: less_SucI)
qed

lemma tame_DropCacheEntry: "tame (DropCacheEntry env now bp)"
proof -
  let ?e = "\<lambda>s. case fmlookup (cs_entries s) bp of Some p \<Rightarrow> (s, Inr p) | None \<Rightarrow> on_cbs (new_entry bp) s"
  have e: "tame ?e" by (rule tameI) (use mgr_ok_new_entry in \<open>fastforce simp: num_entries_def split: option.splits\<close>)
  let ?d = "\<lambda>p s. case on_cbs (CachedBlobEntry_Close env now writebackAndClose p) s of
         (s1, Inl e) \<Rightarrow> (s1, if is_panic e then Inl e else Inr ())
       | (s1, Inr _) \<Rightarrow>
           (case on_cbs (on_cache (ce_RemoveBlob env bp)) s1 of
              (s2, Inl e) \<Rightarrow> (s2, if is_panic e then Inl e else Inr ())
            | (s2, Inr _) \<Rightarrow> (s2\<lparr>cs_entries := fmdrop bp (cs_entries s2)\<rparr>, Inr ()))"
  have d: "tame (?d p)" for p
  proof (rule tameI)
    fix s s' r assume a: "mgr_ok s" "?d p s = (s', r)"
    obtain s1 x where c: "on_cbs (CachedBlobEntry_Close env now writebackAndClose p) s = (s1, x)" by force
    note k = mgr_ok_on_cbs [OF keeps_Close a(1) c]
    obtain s2 y where c2: "on_cbs (on_cache (ce_RemoveBlob env bp)) s1 = (s2, y)" by force
    have k2: "mgr_ok s2 \<and> cs_entries s2 = cs_entries s1" using mgr_ok_on_cbs [OF keeps_on_cache _ c2] k by blast
    show "mgr_ok s' \<and> num_entries s' \<le> num_entries s"
      using a(2) c k c2 k2 num_entries_drop [of bp s2] mgr_ok_drop [of s2] by (cases x; cases y) (auto simp: num_entries_def)
  qed
  show ?thesis unfolding DropCacheEntry_def by (intro tame_and_then e d)
qed

text \<open>
  What a new store comes to by requests to its manager and by the use of its entries. Requests run one after the
  other; an operation on an entry is a call from open to close of a handle, or the fetch of a blob.
\<close>

inductive manager_reach :: "('c, 'cw, 'b, 'r, 'w) cbs_env \<Rightarrow> ('c, 'b) CachedBlobStore \<Rightarrow> bool" for env where
  created: "CachedBlobStore_New beflags cacheflags removable listing c b f = Inr s \<Longrightarrow> manager_reach env s"
| open_entry: "manager_reach env s \<Longrightarrow> OpenEntry env ord now bp s = (s', r) \<Longrightarrow> manager_reach env s'"
| remove_blob: "manager_reach env s \<Longrightarrow> Manager_RemoveBlob env now bp s = (s', u) \<Longrightarrow> manager_reach env s'"
| drop_entry: "manager_reach env s \<Longrightarrow> DropCacheEntry env now bp s = (s', u) \<Longrightarrow> manager_reach env s'"
| close_entry: "manager_reach env s \<Longrightarrow> CloseEntryForTesting env now bp s = (s', u) \<Longrightarrow> manager_reach env s'"
| open_handle: "manager_reach env s \<Longrightarrow> on_cbs (OpenHandle env now p f) s = (s', h) \<Longrightarrow> manager_reach env s'"
| close_handle: "manager_reach env s \<Longrightarrow> on_cbs (CloseHandle p h) s = (s', u) \<Longrightarrow> manager_reach env s'"
| pread: "manager_reach env s \<Longrightarrow> on_cbs (CachedBlobEntry_PRead env now p n off) s = (s', x) \<Longrightarrow> manager_reach env s'"
| pwrite: "manager_reach env s \<Longrightarrow> on_cbs (CachedBlobEntry_PWrite env now p bs off) s = (s', u) \<Longrightarrow> manager_reach env s'"
| truncate: "manager_reach env s \<Longrightarrow> on_cbs (CachedBlobEntry_Truncate env now p k) s = (s', u) \<Longrightarrow> manager_reach env s'"
| sync: "manager_reach env s \<Longrightarrow> on_cbs (CachedBlobEntry_Sync env now p) s = (s', u) \<Longrightarrow> manager_reach env s'"
| fetch: "manager_reach env s \<Longrightarrow> on_cbs (invalidate env fuel p) s = (s', u) \<Longrightarrow> manager_reach env s'"
| close: "manager_reach env s \<Longrightarrow> on_cbs (CachedBlobEntry_Close env now mode p) s = (s', u) \<Longrightarrow> manager_reach env s'"

lemma new_store_ok:
  "CachedBlobStore_New beflags cacheflags removable listing c b f = Inr s \<Longrightarrow> mgr_ok s \<and> num_entries s = 0"
  by (auto simp: CachedBlobStore_New_def Let_def mgr_ok_def num_entries_def paths_def split: if_splits option.splits sum.splits)

lemma reach_on_cbs:
  assumes "mgr_ok s \<and> num_entries s \<le> n" "keeps m" "on_cbs m s = (s', r)"
  shows "mgr_ok s' \<and> num_entries s' \<le> n"
  using mgr_ok_on_cbs [OF assms(2) _ assms(3)] assms(1) by (simp add: num_entries_def)

lemma reach_tame: "mgr_ok s \<and> num_entries s \<le> n \<Longrightarrow> tame m \<Longrightarrow> m s = (s', r) \<Longrightarrow> mgr_ok s' \<and> num_entries s' \<le> n"
  using tameD le_trans by blast

lemma manager_reach_ok: "manager_reach env s \<Longrightarrow> mgr_ok s \<and> num_entries s \<le> Suc maxEntries"
proof (induction rule: manager_reach.induct)
  case (created beflags cacheflags removable listing c b f s)
  then show ?case using new_store_ok by fastforce
next
  case (open_entry s ord now bp s' r)
  then show ?case using OpenEntry_cases by blast
next
  case (remove_blob s now bp s' u)
  then show ?case using reach_tame tame_RemoveBlob by metis
next
  case (drop_entry s now bp s' u)
  then show ?case using reach_tame tame_DropCacheEntry by metis
next
  case (close_entry s now bp s' u)
  then show ?case using reach_tame tame_CloseEntryForTesting by metis
qed (erule reach_on_cbs [rotated 2], assumption, rule keeping)+

lemma closeOld_few: "num_entries s \<le> maxEntries \<Longrightarrow> closeOldCacheEntriesIfNeeded env ord now s = (s, Inr ())"
  by (simp add: closeOldCacheEntriesIfNeeded_def)

lemma open_new_entry:
  assumes "num_entries s \<le> maxEntries" "fmlookup (cs_entries s) bp = None"
  shows "\<exists>s' p. OpenEntry env ord now bp s = (s', Inr p) \<and> num_entries s' = Suc (num_entries s)"
proof -
  have "bp |\<notin>| fmdom (cs_entries s)" using assms(2) by (simp add: fmdom_notI)
  then show ?thesis using assms by (simp add: OpenEntry_def closeOld_few and_then_def on_cbs_def new_entry_def num_entries_def fcard_finsert_disjoint)
qed

lemma fresh_path: "\<exists>bp :: string. fmlookup (m :: (string, nat) fmap) bp = None"
proof -
  have "infinite (UNIV :: string set)" by (rule infinite_UNIV_listI)
  then obtain bp where "bp |\<notin>| fmdom m" using ex_new_if_finite [of "fset (fmdom m)"] by auto
  then show ?thesis by (auto simp: fmlookup_dom_iff)
qed

lemma reach_any_number: "n \<le> Suc maxEntries \<Longrightarrow> \<exists>s :: ('c, 'b) CachedBlobStore. manager_reach (env :: ('c, 'cw, 'b, 'r, 'w) cbs_env) s \<and> num_entries s = n"
proof (induction n)
  case 0
  have w: "IsWriteAllowed O_RDWR" by (simp add: IsWriteAllowed_modes)
  obtain s :: "('c, 'b) CachedBlobStore" where "CachedBlobStore_New None O_RDWR True None undefined undefined O_RDWR = Inr s"
    by (simp add: CachedBlobStore_New_def w)
  then show ?case using manager_reach.created [of _ _ _ _ _ _ _ s env] new_store_ok [of _ _ _ _ _ _ _ s] by metis
next
  case (Suc n)
  then obtain s :: "('c, 'b) CachedBlobStore" where s: "manager_reach env s" "num_entries s = n" by auto
  obtain bp where "fmlookup (cs_entries s) bp = None" using fresh_path by blast
  then show ?case using open_new_entry [of s bp env] s Suc.prems manager_reach.open_entry [OF s(1)] by (metis Suc_le_mono)
qed

section \<open>Properties\<close>

text \<open>
  C39. Whatever requests the manager of a cached blob store serves and however its entries are used, the map of the
  manager leads from a path to an entry on the heap that is for this path, and from different paths to different
  entries: two files never share an entry.
\<close>

theorem manager_map_sound:
  assumes "manager_reach env s" "fmlookup (cs_entries s) bp = Some p"
  shows "\<exists>be. fmlookup (cbs_bes (cs_cbs s)) p = Some be \<and> be_blobpath be = bp \<and> (\<forall>bp'. fmlookup (cs_entries s) bp' = Some p \<longrightarrow> bp' = bp)"
proof -
  have ok: "fmlookup (paths (cs_cbs s)) q = Some b" if "fmlookup (cs_entries s) b = Some q" for b q
    using manager_reach_ok [OF assms(1)] that unfolding mgr_ok_def by blast
  from ok [OF assms(2)] obtain be where "fmlookup (cbs_bes (cs_cbs s)) p = Some be" "be_blobpath be = bp"
    by (auto simp: paths_def)
  then show ?thesis using ok ok [OF assms(2)] by auto
qed

definition one_entry :: "(Files, Files) CachedBlobStore" where
  "one_entry =
     \<lparr>cs_cbs = fresh (files None fmempty 0),
      cs_flags = O_RDWR, cs_entries = fmupd ''b'' 0 fmempty, cs_usage = fmempty, cs_syncer = True\<rparr>"

lemma one_entry_reached: "manager_reach file_env one_entry"
proof (rule manager_reach.open_entry [where bp = "''b''" and ord = "\<lambda>_. []" and now = 0 and r = "Inr 0"])
  show "manager_reach file_env (one_entry\<lparr>cs_cbs := (cs_cbs one_entry)\<lparr>cbs_bes := fmempty, cbs_next := 0\<rparr>, cs_entries := fmempty\<rparr>)"
    by (rule manager_reach.created [where beflags = None and cacheflags = O_RDWR and removable = True and listing = None and c = "files None fmempty 0"
          and b = "files None fmempty 0" and f = O_RDWR])
      (simp add: CachedBlobStore_New_def IsWriteAllowed_modes one_entry_def fresh_def NewCacheUsageStats_def)
qed (simp add: OpenEntry_def closeOld_few and_then_def on_cbs_def new_entry_def num_entries_def one_entry_def fresh_def fcard_fempty)

theorem manager_map_sound_witness:
  "\<exists>be. fmlookup (cbs_bes (cs_cbs one_entry)) 0 = Some be \<and> be_blobpath be = ''b'' \<and>
     (\<forall>bp'. fmlookup (cs_entries one_entry) bp' = Some 0 \<longrightarrow> bp' = ''b'')"
  by (rule manager_map_sound [OF one_entry_reached]) (simp add: one_entry_def)

text \<open>
  C40. The number of entries a cached blob store has at a time is bounded by one more than \<open>maxEntries\<close>, and the bound is tight:
  old entries are closed only once there are more than \<open>maxEntries\<close>, after which one more is added.
\<close>

theorem entries_bounded:
  "(\<forall>s. manager_reach env s \<longrightarrow> num_entries s \<le> maxEntries + 1) \<and> (\<exists>s. manager_reach env s \<and> num_entries s = maxEntries + 1)"
  using manager_reach_ok [of env] reach_any_number [of "Suc maxEntries" env] by auto

theorem entries_bounded_witness: "num_entries one_entry \<le> 129 \<and> (\<exists>s. manager_reach file_env s \<and> num_entries s = 129)"
  using entries_bounded [of file_env] one_entry_reached by (auto simp: maxEntries_def)

end
