(* ===== verification/Cache_Roundtrip.thy ===== *)
theory Cache_Roundtrip
  imports Cache_Safety
begin

text \<open>
  Stores that work: what is written back reaches the backend, and what the backend has can be fetched again. The locale adds to
  what an entry relies on that the calls on the two stores succeed as long as these are in order (\<open>bok\<close>, \<open>cok\<close>); two writable
  file stores are such stores.
\<close>

section \<open>Stores whose calls succeed\<close>

locale working_stores = cache_stores env bp cfile bfile filling reading ver
  for env :: "('c, 'cw, 'b, 'r, 'w) cbs_env" and bp cfile bfile filling reading ver +
  fixes writing :: "'b \<Rightarrow> 'w \<Rightarrow> bool" and bok :: "'b \<Rightarrow> bool" and cok :: "'c \<Rightarrow> bool"
  assumes w_open: "bok b \<Longrightarrow> \<exists>b' w. bk_OpenWriter env bp b = (b', Inr w) \<and> bok b' \<and> bfile b' = Some [] \<and> writing b' w"
    and w_write: "bok b \<Longrightarrow> writing b w \<Longrightarrow> bfile b = Some q \<Longrightarrow>
      \<exists>b'. bk_Write env bs w b = (b', Inr ()) \<and> bok b' \<and> bfile b' = Some (q @ bs) \<and> writing b' w"
    and w_close: "bok b \<Longrightarrow> writing b w \<Longrightarrow> \<exists>b'. bk_CloseWriter env w b = (b', Inr ()) \<and> bok b' \<and> bfile b' = bfile b"
    and r_open: "bok b \<Longrightarrow> bfile b = Some q \<Longrightarrow> \<exists>b' r. bk_OpenReader env bp b = (b', Inr r) \<and> bok b'"
    and r_query: "bok b \<Longrightarrow> bk_queryVersion env r b = (b', rv) \<Longrightarrow> bok b'"
    and r_read: "bok b \<Longrightarrow> reading b r q \<Longrightarrow> q \<noteq> [] \<Longrightarrow> 0 < n \<Longrightarrow>
      \<exists>b' bs. bk_Read env n r b = (b', bs, None) \<and> bok b' \<and> bs \<noteq> []"
    and r_close: "bok b \<Longrightarrow> \<exists>b' u. bk_CloseReader env r b = (b', u) \<and> bok b' \<and> (\<forall>e. u = Inl e \<longrightarrow> \<not> is_panic e)"
    and r_size: "bok b \<Longrightarrow> bfile b = Some q \<Longrightarrow> bk_BlobSize env bp b = (int (length q), None)"
    and c_opens: "cok c \<Longrightarrow> \<exists>c'. ce_Open env bp O_RDWRCREATE c = (c', Inr ()) \<and> cok c'"
    and c_reads: "cok c \<Longrightarrow> off + n \<le> length (cfile c) \<Longrightarrow> \<exists>c'. ce_PRead env bp n (int off) c = (c', Inr (fread (cfile c) off n)) \<and> cok c'"
    and c_syncs: "cok c \<Longrightarrow> ce_Sync env = Some sync \<Longrightarrow> \<exists>c'. sync bp c = (c', Inr ()) \<and> cok c'"
    and c_writer: "cok c \<Longrightarrow> \<exists>ow c' cw. ce_OpenWriter env = Some ow \<and> ow bp c = (c', Inr cw) \<and> cok c'"
    and c_writes: "cok c \<Longrightarrow> filling c cw \<Longrightarrow> \<exists>c'. ce_Write env bs cw c = (c', length bs, None) \<and> cok c'"
    and c_close_writer: "cok c \<Longrightarrow> filling c cw \<Longrightarrow> \<exists>c'. ce_CloseWriter env cw c = (c', Inr ()) \<and> cok c' \<and> cfile c' = cfile c"

context working_stores
begin

text \<open>Writing back copies the cached blob.\<close>

lemma copy_blocks_copies:
  assumes "fmlookup (cbs_bes s) p = Some be" "be_blobpath be = bp" "cok (cbs_cachebs s)" "bok (cbs_backendbs s)" "writing (cbs_backendbs s) w"
    and "bfile (cbs_backendbs s) = Some (take off (cfile (cbs_cachebs s)))" "off + n \<le> length (cfile (cbs_cachebs s))"
  shows "\<exists>b c. copy_blocks env p w off n s = (s\<lparr>cbs_backendbs := b, cbs_cachebs := c\<rparr>, Inr ()) \<and> cok c \<and> cfile c = cfile (cbs_cachebs s) \<and>
    bok b \<and> writing b w \<and> bfile b = Some (take (off + n) (cfile (cbs_cachebs s)))"
  using assms
proof (induction n arbitrary: off s rule: less_induct)
  case (less n)
  let ?q = "cfile (cbs_cachebs s)"
  show ?case
  proof (cases "n = 0")
    case True
    then show ?thesis using less.prems by (auto simp: ret_def intro!: exI [of _ "cbs_backendbs s"] exI [of _ "cbs_cachebs s"])
  next
    case False
    let ?m = "min copyBlockSize n"
    have m: "0 < ?m" "?m \<le> n" using False by (auto simp: copyBlockSize_def)
    obtain c where c: "ce_PRead env bp ?m (int off) (cbs_cachebs s) = (c, Inr (fread ?q off ?m))" "cok c"
      using c_reads [OF less.prems(3), of off ?m] less.prems(7) m(2) by auto
    have c': "cfile c = ?q" using c_pread [OF c(1)] by simp
    obtain b where b: "bk_Write env (fread ?q off ?m) w (cbs_backendbs s) = (b, Inr ())" "bok b"
        "bfile b = Some (take off ?q @ fread ?q off ?m)" "writing b w"
      using w_write [OF less.prems(4,5,6)] by blast
    have t: "take off ?q @ fread ?q off ?m = take (off + ?m) ?q" by (simp add: fread_def take_add)
    let ?s = "s\<lparr>cbs_backendbs := b, cbs_cachebs := c\<rparr>"
    have wb: "writeBack_block env p w off n s = (?s, Inr ?m)"
      using less.prems(1,2) c(1) b(1) by (simp add: writeBack_block_def and_then_def cache_PRead_def on_cache_def on_backend_def ret_def)
    have lt: "n - ?m < n" using m False by simp
    from less.IH [OF lt, of ?s "off + ?m"] less.prems b c c' t m(2)
    obtain b' c'' where "copy_blocks env p w (off + ?m) (n - ?m) ?s = (?s\<lparr>cbs_backendbs := b', cbs_cachebs := c''\<rparr>, Inr ())" "cok c''" "cfile c'' = ?q"
      "bok b'" "writing b' w" "bfile b' = Some (take (off + n) ?q)"
      by auto
    then show ?thesis using False wb by auto
  qed
qed

lemma writeBack_copies:
  assumes be: "fmlookup (cbs_bes s) p = Some be" "be_blobpath be = bp" "be_state be = CacheEntryDirty"
    and ok: "cok (cbs_cachebs s)" "bok (cbs_backendbs s)"
    and v: "ver (cfile (cbs_cachebs s)) = Inr v" "fmlookup (cbs_bever s) bp = Some v0" "v0 < v"
  shows "\<exists>b c. writeBackWithLock env p s =
      (s\<lparr>cbs_backendbs := b, cbs_cachebs := c, cbs_bever := fmupd bp v (cbs_bever s), cbs_bes := fmupd p (be\<lparr>be_state := CacheEntryClean\<rparr>) (cbs_bes s)\<rparr>, Inr ()) \<and>
    cok c \<and> bok b \<and> cfile c = cfile (cbs_cachebs s) \<and> bfile b = Some (cfile (cbs_cachebs s))"
proof -
  let ?be = "be\<lparr>be_state := CacheEntryWritebackInProgress\<rparr>" and ?q = "cfile (cbs_cachebs s)"
  let ?s1 = "s\<lparr>cbs_bes := fmupd p ?be (cbs_bes s)\<rparr>"
  have b1: "writeBack_begin env p s = (?s1, Inr (Some v))"
    using be v by (simp add: writeBack_begin_def CachedBackendVersion_Query_def action_defs updateState_Some c_query)
  obtain b w where b: "bk_OpenWriter env bp (cbs_backendbs s) = (b, Inr w)" "bok b" "bfile b = Some []" "writing b w" using w_open [OF ok(2)] by blast
  let ?s2 = "?s1\<lparr>cbs_backendbs := b\<rparr>"
  have b2: "writeBack_open env p ?s1 = (?s2, Inr w)" using b(1) be by (simp add: writeBack_open_def rescue_def on_backend_def)
  obtain b3 c where b3: "copy_blocks env p w 0 (length ?q) ?s2 = (?s2\<lparr>cbs_backendbs := b3, cbs_cachebs := c\<rparr>, Inr ())" "cok c" "cfile c = ?q"
      "bok b3" "writing b3 w" "bfile b3 = Some ?q"
    using copy_blocks_copies [of ?s2 p ?be w 0 "length ?q"] be ok b by auto
  obtain b4 where b4: "bk_CloseWriter env w b3 = (b4, Inr ())" "bok b4" "bfile b4 = bfile b3" using w_close [OF b3(4,5)] by blast
  let ?s4 = "s\<lparr>cbs_backendbs := b4, cbs_cachebs := c, cbs_bever := fmupd bp v (cbs_bever s), cbs_bes := fmupd p (be\<lparr>be_state := CacheEntryClean\<rparr>) (cbs_bes s)\<rparr>"
  have "writeBack_end env p w v (?s2\<lparr>cbs_backendbs := b3, cbs_cachebs := c\<rparr>) = (?s4, Inr ())"
    using be v b3(3) b4(1) by (simp add: writeBack_end_def deferring_ignoring and_then_def CachedBackendVersion_Set_def updateState_Some on_backend_def c_query)
  then have "writeBackWithLock env p s = (?s4, Inr ())"
    using b1 b2 b3(1) be by (simp add: writeBackWithLock_def and_then_def c_size)
  then show ?thesis using b3 b4 by metis
qed

lemma sync_copies:
  assumes be: "fmlookup (cbs_bes s) p = Some be" "be_blobpath be = bp" "be_state be = CacheEntryDirty"
    and ok: "cok (cbs_cachebs s)" "bok (cbs_backendbs s)"
    and v: "ver (cfile (cbs_cachebs s)) = Inr v" "fmlookup (cbs_bever s) bp = Some v0" "v0 < v"
  shows "\<exists>s' be'. CachedBlobEntry_Sync env now p s = (s', Inr ()) \<and> fmlookup (cbs_bes s') p = Some be' \<and> be_state be' = CacheEntryClean \<and>
    fmlookup (cbs_bever s') bp = Some v \<and> bok (cbs_backendbs s') \<and> bfile (cbs_backendbs s') = Some (cfile (cbs_cachebs s))"
proof -
  obtain b c where wb: "writeBackWithLock env p s =
      (s\<lparr>cbs_backendbs := b, cbs_cachebs := c, cbs_bever := fmupd bp v (cbs_bever s), cbs_bes := fmupd p (be\<lparr>be_state := CacheEntryClean\<rparr>) (cbs_bes s)\<rparr>, Inr ())"
      "cok c" "bok b" "bfile b = Some (cfile (cbs_cachebs s))"
    using writeBack_copies [OF assms] by blast
  show ?thesis
  proof (cases "ce_Sync env")
    case None
    then show ?thesis using be wb
      by (simp add: CachedBlobEntry_Sync_def Sync_loop_def and_then_def ret_def wrapping_def cache_Sync_def count_sync_def)
  next
    case (Some sync)
    obtain c' where "sync bp c = (c', Inr ())" using c_syncs [OF wb(2) Some] by blast
    then show ?thesis using be wb Some
      by (simp add: CachedBlobEntry_Sync_def Sync_loop_def and_then_def ret_def wrapping_def cache_Sync_def count_sync_def on_cache_def)
  qed
qed

text \<open>A fetch copies the blob of the backend.\<close>

lemma progress_result:
  assumes be: "fmlookup (cbs_bes s) p = Some be" "be_state be = CacheEntryInvalidating" "be_bloblen be = int n" "be_validlen be = int k" "k + m \<le> n"
  shows "invalidate_progress p m s =
    (s\<lparr>cbs_bes := fmupd p (if k + m = n then be\<lparr>be_validlen := int (k + m), be_state := CacheEntryClean, be_cancelInvalidate := False\<rparr>
       else be\<lparr>be_validlen := int (k + m)\<rparr>) (cbs_bes s)\<rparr>, Inr (k + m = n))"
proof (cases "k + m = n")
  case True
  then have "be_bloblen be = int k + int m" using be(3) by simp
  with True be show ?thesis by (simp add: invalidate_progress_def and_then_def ret_def updateState_Some)
next
  case False
  then have "int k + int m < int n" using be(5) by simp
  with False be show ?thesis by (simp add: invalidate_progress_def and_then_def ret_def)
qed

lemma fetch_round:
  assumes be: "fmlookup (cbs_bes s) p = Some be" "be_state be = CacheEntryInvalidating" "be_bloblen be = int (length q)" "be_validlen be = int k" "k < length q"
    and ok: "cok (cbs_cachebs s)" "bok (cbs_backendbs s)"
    and f: "filling (cbs_cachebs s) cw" "cfile (cbs_cachebs s) = take k q" "reading (cbs_backendbs s) r (drop k q)" "bfile (cbs_backendbs s) = Some q"
  shows "\<exists>b c k'. invalidate_round env None p r cw s =
      (s\<lparr>cbs_backendbs := b, cbs_cachebs := c, cbs_bes := fmupd p
         (if k' = length q then be\<lparr>be_validlen := int k', be_state := CacheEntryClean, be_cancelInvalidate := False\<rparr>
          else be\<lparr>be_validlen := int k'\<rparr>) (cbs_bes s)\<rparr>, Inr (k' \<noteq> length q)) \<and>
    k < k' \<and> k' \<le> length q \<and> cok c \<and> bok b \<and> filling c cw \<and> cfile c = take k' q \<and> reading b r (drop k' q) \<and> bfile b = Some q"
proof -
  have ne: "drop k q \<noteq> []" using be(5) by simp
  obtain b bs where b: "bk_Read env invalidateBlockSize r (cbs_backendbs s) = (b, bs, None)" "bok b" "bs \<noteq> []"
    using r_read [OF ok(2) f(3) ne, of invalidateBlockSize] by (auto simp: invalidateBlockSize_def)
  obtain q' where q': "drop k q = bs @ q'" "reading b r q'" "bfile b = Some q" using b_read [OF f(3) b(1)] f(4) by auto
  obtain c where c: "ce_Write env bs cw (cbs_cachebs s) = (c, length bs, None)" "cok c" using c_writes [OF ok(1) f(1)] by blast
  have c': "cfile c = take k q @ bs" "filling c cw" using c_write [OF f(1) c(1)] f(2) by auto
  let ?k = "k + length bs"
  have len: "length q = ?k + length q'" using arg_cong [OF q'(1), of length] be(5) by simp
  have t: "take ?k q = take k q @ bs" "drop ?k q = q'" using q'(1) by (simp_all add: take_add) (metis add.commute append_eq_conv_conj drop_drop)
  have "invalidate_round env None p r cw s =
      (s\<lparr>cbs_backendbs := b, cbs_cachebs := c, cbs_bes := fmupd p
         (if ?k = length q then be\<lparr>be_validlen := int ?k, be_state := CacheEntryClean, be_cancelInvalidate := False\<rparr>
          else be\<lparr>be_validlen := int ?k\<rparr>) (cbs_bes s)\<rparr>, Inr (?k \<noteq> length q))"
    using progress_result [of "s\<lparr>cbs_backendbs := b, cbs_cachebs := c\<rparr>" p be "length q" k "length bs"] be b c len
    by (simp add: invalidate_round_def and_then_def ret_def)
  moreover have "k < ?k" "?k \<le> length q" using b(3) len by auto
  ultimately show ?thesis using b(2) c(2) c' q'(2,3) t by metis
qed

lemma fetch_loop:
  assumes "fmlookup (cbs_bes s) p = Some be" "be_state be = CacheEntryInvalidating" "be_bloblen be = int (length q)" "be_validlen be = int k" "k < length q"
    and "cok (cbs_cachebs s)" "bok (cbs_backendbs s)"
    and "filling (cbs_cachebs s) cw" "cfile (cbs_cachebs s) = take k q" "reading (cbs_backendbs s) r (drop k q)" "bfile (cbs_backendbs s) = Some q"
    and "length q - k \<le> fuel"
  shows "\<exists>b c. invalidate_loop fuel env p r cw s =
      (s\<lparr>cbs_backendbs := b, cbs_cachebs := c, cbs_bes := fmupd p
         (be\<lparr>be_validlen := int (length q), be_state := CacheEntryClean, be_cancelInvalidate := False\<rparr>) (cbs_bes s)\<rparr>, Inr ()) \<and>
    cok c \<and> bok b \<and> filling c cw \<and> cfile c = q \<and> bfile b = Some q"
  using assms
proof (induction fuel arbitrary: s be k)
  case (Suc fuel)
  obtain b c k' where r: "invalidate_round env None p r cw s =
      (s\<lparr>cbs_backendbs := b, cbs_cachebs := c, cbs_bes := fmupd p
         (if k' = length q then be\<lparr>be_validlen := int k', be_state := CacheEntryClean, be_cancelInvalidate := False\<rparr>
          else be\<lparr>be_validlen := int k'\<rparr>) (cbs_bes s)\<rparr>, Inr (k' \<noteq> length q))"
      "k < k'" "k' \<le> length q" "cok c" "bok b" "filling c cw" "cfile c = take k' q" "reading b r (drop k' q)" "bfile b = Some q"
    using fetch_round [OF Suc.prems(1-11)] by blast
  show ?case
  proof (cases "k' = length q")
    case True
    then show ?thesis using r by (auto simp: and_then_def ret_def)
  next
    case False
    let ?s = "s\<lparr>cbs_backendbs := b, cbs_cachebs := c, cbs_bes := fmupd p (be\<lparr>be_validlen := int k'\<rparr>) (cbs_bes s)\<rparr>"
    have "\<exists>b' c'. invalidate_loop fuel env p r cw ?s =
        (?s\<lparr>cbs_backendbs := b', cbs_cachebs := c', cbs_bes := fmupd p
           (be\<lparr>be_validlen := int k', be_validlen := int (length q), be_state := CacheEntryClean, be_cancelInvalidate := False\<rparr>) (cbs_bes ?s)\<rparr>, Inr ()) \<and>
      cok c' \<and> bok b' \<and> filling c' cw \<and> cfile c' = q \<and> bfile b' = Some q"
      using r False Suc.prems by (intro Suc.IH [of _ _ k']) auto
    then show ?thesis using r(1) False by (auto simp: and_then_def)
  qed
qed auto

lemma fetch_copies:
  assumes be: "fmlookup (cbs_bes s) p = Some be" "be_blobpath be = bp" "be_state be = CacheEntryInvalidating" "be_bloblen be = int (length q)" "be_validlen be = 0"
    and ok: "cok (cbs_cachebs s)" "bok (cbs_backendbs s)" "bfile (cbs_backendbs s) = Some q" "q \<noteq> []" "length q \<le> fuel"
  shows "\<exists>s' be'. invalidate env fuel p s = (s', Inr ()) \<and> fmlookup (cbs_bes s') p = Some be' \<and> be_blobpath be' = bp \<and>
    be_state be' = CacheEntryClean \<and> be_bloblen be' = int (length q) \<and> cok (cbs_cachebs s') \<and> cfile (cbs_cachebs s') = q"
proof -
  let ?be = "be\<lparr>be_cancelInvalidate := True\<rparr>"
  let ?s1 = "s\<lparr>cbs_bes := fmupd p ?be (cbs_bes s)\<rparr>"
  have 1: "invalidate_begin p s = (?s1, Inr True)" using be ok(4) by (simp add: invalidate_begin_def and_then_def ret_def)
  obtain b r where b: "bk_OpenReader env bp (cbs_backendbs s) = (b, Inr r)" "bok b" using r_open [OF ok(2,3)] by blast
  then have rd: "reading b r q" "bfile b = Some q" using b_open_reader [OF b(1)] ok(3) by auto
  let ?s2 = "?s1\<lparr>cbs_backendbs := b\<rparr>"
  have 2: "invalidate_reader env bp ?s1 = (?s2, Inr r)" using b(1) by (simp add: invalidate_reader_def wrapping_def on_backend_def)
  obtain ow c cw where c: "ce_OpenWriter env = Some ow" "ow bp (cbs_cachebs s) = (c, Inr cw)" "cok c" using c_writer [OF ok(1)] by blast
  have cf: "cfile c = []" "filling c cw" using c_open_writer [OF c(1,2)] by auto
  let ?s3 = "?s2\<lparr>cbs_cachebs := c\<rparr>"
  have 3: "invalidate_writer env bp ?s2 = (?s3, Inr cw)" using c by (simp add: invalidate_writer_def rescue_def on_cache_def)
  obtain b4 c4 where 4: "invalidate_loop fuel env p r cw ?s3 =
      (?s3\<lparr>cbs_backendbs := b4, cbs_cachebs := c4, cbs_bes := fmupd p
         (?be\<lparr>be_validlen := int (length q), be_state := CacheEntryClean, be_cancelInvalidate := False\<rparr>) (cbs_bes ?s3)\<rparr>, Inr ())"
      "cok c4" "bok b4" "filling c4 cw" "cfile c4 = q"
    using fetch_loop [of ?s3 p ?be q 0 cw r fuel] be ok(4,5) rd b(2) c(3) cf by auto
  obtain c5 where 5: "ce_CloseWriter env cw c4 = (c5, Inr ())" "cok c5" "cfile c5 = cfile c4" using c_close_writer [OF 4(2,4)] by blast
  obtain b6 u where 6: "bk_CloseReader env r b4 = (b6, u)" "\<forall>e. u = Inl e \<longrightarrow> \<not> is_panic e" using r_close [OF 4(3)] by blast
  let ?s6 = "?s3\<lparr>cbs_backendbs := b6, cbs_cachebs := c5, cbs_bes := fmupd p
         (?be\<lparr>be_validlen := int (length q), be_state := CacheEntryClean, be_cancelInvalidate := False\<rparr>) (cbs_bes ?s3)\<rparr>"
  have "invalidateInternal env fuel p s = (?s6, Inr ())"
    using be(1,2) 1 2 3 4(1) 5(1) 6
    by (cases u) (simp_all add: invalidateInternal_def and_then_def deferring_ignoring on_cache_def on_backend_def)
  then have "invalidate env fuel p s = (?s6, Inr ())" by (simp add: invalidate_def rescue_def)
  then show ?thesis using be 4(5) 5 by auto
qed

lemma open_starts_fetch:
  assumes be: "fmlookup (cbs_bes s) p = Some (NewCachedBlobEntry bp)" "fmlookup (cbs_bever s) bp = None"
    and ok: "cok (cbs_cachebs s)" "cfile (cbs_cachebs s) = []" "bok (cbs_backendbs s)" "bfile (cbs_backendbs s) = Some q" "ver q = Inr v" "0 < v"
  shows "\<exists>s' h be'. OpenHandle env now p f s = (s', Inr h) \<and> fmlookup (cbs_bes s') p = Some be' \<and> be_blobpath be' = bp \<and>
    be_state be' = CacheEntryInvalidating \<and> be_bloblen be' = int (length q) \<and> be_validlen be' = 0 \<and>
    cok (cbs_cachebs s') \<and> bok (cbs_backendbs s') \<and> bfile (cbs_backendbs s') = Some q"
proof -
  obtain c where c: "ce_Open env bp O_RDWRCREATE (cbs_cachebs s) = (c, Inr ())" "cok c" using c_opens [OF ok(1)] by blast
  have cf: "ver (cfile c) = Inr 0" using c_open [OF c(1)] ok(2) ver_nil by simp
  obtain b r where b: "bk_OpenReader env bp (cbs_backendbs s) = (b, Inr r)" "bok b" using r_open [OF ok(3,4)] by blast
  then have rd: "reading b r q" "bfile b = Some q" using b_open_reader [OF b(1)] ok(4) by auto
  obtain b2 rv where b2: "bk_queryVersion env r b = (b2, rv)" by force
  have rv: "rv = Inr v" "bfile b2 = Some q" "bok b2" using b_query [OF rd(1) b2] rd(2) ok(5) r_query [OF b(2) b2] by auto
  obtain b3 u where b3: "bk_CloseReader env r b2 = (b3, u)" "bok b3" "\<forall>e. u = Inl e \<longrightarrow> \<not> is_panic e" using r_close [OF rv(3)] by blast
  have bf: "bfile b3 = Some q" using b_close_reader [OF b3(1)] rv(2) by simp
  let ?s1 = "s\<lparr>cbs_cachebs := c\<rparr>"
  have q: "CachedBackendVersion_Query env bp ?s1 = (?s1\<lparr>cbs_backendbs := b3, cbs_bever := fmupd bp v (cbs_bever s)\<rparr>, Inr v)"
    using be(2) b(1) b2 rv(1) b3
    by (cases u) (simp_all add: CachedBackendVersion_Query_def on_backend_def deferring_ignoring and_then_def wrapping_def ret_def CachedBackendVersion_Set_def)
  have ne: "q \<noteq> []" using ok(5,6) ver_nil by auto
  show ?thesis using be(1) c cf q ok(6) r_size [OF b3(2) bf] b3(2) bf ne
    by (simp add: OpenHandle_def OpenHandle_loop_def initializeWithLock_def NewCachedBlobEntry_def Let_def on_cache_def rescue_def and_then_def c_query
        choose_state_def updateState_Some spawn_def ret_def)
qed

end

section \<open>Writable file stores work\<close>

unbundle bit_operations_syntax

definition writable_files :: "Files \<Rightarrow> bool" where
  "writable_files F \<longleftrightarrow>
     IsWriteAllowed (fbs_flags (fl_store F)) \<and> IsReadAllowed (fbs_flags (fl_store F)) \<and>
     fbs_fmask (fl_store F) = (O_RDONLY OR O_WRONLY OR O_RDWR OR O_CREATE OR O_EXCL)"

lemma writable_simps [simp]:
  "writable_files (F\<lparr>fl_fds := x\<rparr>) = writable_files F" "writable_files (F\<lparr>fl_next := n\<rparr>) = writable_files F"
  "writable_files (put_file bp c F) = writable_files F"
  by (simp_all add: writable_files_def put_file_def)

lemma open_flags:
  "(O_RDWRCREATE AND (O_RDONLY OR O_WRONLY OR O_RDWR OR O_CREATE OR O_EXCL)) AND O_CREATE \<noteq> 0"
  "(O_RDWRCREATE AND (O_RDONLY OR O_WRONLY OR O_RDWR OR O_CREATE OR O_EXCL)) AND O_EXCL = 0"
  by (simp_all add: O_RDWRCREATE_def O_CREATE_def O_RDWR_def O_RDONLY_def O_WRONLY_def O_EXCL_def)

lemma files_open_succeeds: "writable_files F \<Longrightarrow> \<exists>F'. Files_Open bp O_RDWRCREATE F = (F', Inr ()) \<and> writable_files F'"
  by (auto simp: Files_Open_def FileBlobStore_Open_def Let_def writable_files_def open_flags split: option.splits)

lemma os_Read_writable: "writable_files F \<Longrightarrow> os_Read n fd F = (F', bs, e) \<Longrightarrow> writable_files F'"
  by (auto simp: os_Read_def Let_def split: option.splits if_splits)

lemma query_stream_writable: "writable_files F \<Longrightarrow> query_stream fd F = (F', v) \<Longrightarrow> writable_files F'"
  using os_Read_writable by (fastforce simp: query_stream_def split: prod.splits option.splits)

interpretation file_work: working_stores file_env bp "content_of bp" "file_of bp" "at_end bp" "to_read bp" TestQueryVersion
  "at_end bp" writable_files writable_files for bp
proof (unfold_locales, goal_cases)
  case (1 b)
  then show ?case by (auto simp: file_env_def FileBlobStore_OpenWriter_def new_fd_def at_end_def writable_files_def put_file_def content_of_def file_of_def)
next
  case (2 b w q bs)
  then show ?case by (auto simp: file_env_def os_Write_def at_end_def content_of_def fwrite_def)
next
  case (3 b w)
  then show ?case by (auto simp: file_env_def os_Close_def at_end_def)
next
  case (4 b q)
  then show ?case by (auto simp: file_env_def FileBlobStore_OpenReader_def new_fd_def writable_files_def)
next
  case (5 b r b' rv)
  then show ?case using query_stream_writable by (simp add: file_env_def)
next
  case (6 b r q n)
  obtain b' bs e where r: "os_Read n r b = (b', bs, e)" by (cases "os_Read n r b")
  then show ?case using os_Read_stream [OF 6(2) r] os_Read_writable [OF 6(1) r] 6(3,4) by (auto simp: file_env_def)
next
  case (9 c)
  then show ?case using files_open_succeeds by (simp add: file_env_def)
next
  case (10 c off n)
  then show ?case by (auto simp: file_env_def File_PRead_def file_handle_of_def fread_def)
qed (auto simp: file_env_def os_Close_def FileBlobStore_BlobSize_def file_of_def FileBlobStore_OpenWriter_def new_fd_def writable_files_def
    put_file_def os_Write_def at_end_def split: option.splits)

section \<open>Property\<close>

text \<open>A store that starts with an empty cache over a backend, with an entry that was just made.\<close>

definition restarted :: "string \<Rightarrow> Files \<Rightarrow> Files \<Rightarrow> (Files, Files) CBS" where
  "restarted bp c b =
     \<lparr>cbs_cachebs = c, cbs_backendbs = b, cbs_bever = fmempty, cbs_bes = fmupd 0 (NewCachedBlobEntry bp) fmempty, cbs_next = 1, cbs_spawned = []\<rparr>"

lemma clean_reads:
  assumes "fmlookup (cbs_bes s) p = Some be" "be_blobpath be = bp" "be_state be = CacheEntryClean" "writable_files (cbs_cachebs s)"
    and "off + n \<le> length (content_of bp (cbs_cachebs s))"
  shows "snd (CachedBlobEntry_PRead file_env now p n (int off) s) = Inr (fread (content_of bp (cbs_cachebs s)) off n)"
proof -
  obtain c where "ce_PRead file_env bp n (int off) (cbs_cachebs s) = (c, Inr (fread (content_of bp (cbs_cachebs s)) off n))"
    using file_work.c_reads [OF assms(4,5)] by blast
  then show ?thesis using assms(1-3)
    by (simp add: CachedBlobEntry_PRead_def PRead_begin_def waitUntilInvalidateAtLeast_def and_then_def ret_def cache_PRead_def on_cache_def)
qed



end
