(* ===== verification/Blob_GC.thy ===== *)
theory Blob_GC
  imports Inode_Fsck File_Blobstore Snapshot_Store "HOL-Library.List_Lexorder" "HOL-Library.Char_ord"
begin

text \<open>
  Garbage collection (\<open>gc/blobstoregc\<close>, \<open>gc/inodedbtxloggc\<close>, \<open>gc/inodedbssgc\<close>): the collector of blobs lists the store, lets the inode
  database find the blobs in use, and removes the others; the collector of transaction logs deletes what no snapshot needs.
  The context a collector polls is an argument that gives the answer to its \<open>n\<close>-th poll. The locale \<open>collectable\<close> is the
  contract of the store; the file store provides it.
\<close>

section \<open>Collecting blobs\<close>

type_synonym ctx = "nat \<Rightarrow> error option"

definition remove_unused :: "(string \<Rightarrow> 's \<Rightarrow> error option \<times> 's) \<Rightarrow> string \<Rightarrow> ('s, unit) action" where
  "remove_unused rm b s =
     (case rm b s of
        (Some e, s') \<Rightarrow> (s', Inl (errorf ''Removing unused blob failed'' e))
      | (None, s') \<Rightarrow> (s', Inr ()))"

fun sweep :: "ctx \<Rightarrow> nat \<Rightarrow> (string \<Rightarrow> 's \<Rightarrow> error option \<times> 's) \<Rightarrow> bool \<Rightarrow> string list \<Rightarrow> ('s, unit) action" where
  "sweep ctx n rm dryrun [] = ret ()"
| "sweep ctx n rm dryrun (b # bs) =
     (case ctx n of
        Some e \<Rightarrow> fail e
      | None \<Rightarrow>
          if dryrun then sweep ctx (Suc n) rm dryrun bs
          else and_then (remove_unused rm b) (\<lambda>_. sweep ctx (Suc n) rm dryrun bs))"

definition unused_blobs :: "string list \<Rightarrow> string list \<Rightarrow> string list" where
  "unused_blobs usedbs allbs = filter (\<lambda>b. b \<notin> set usedbs \<and> \<not> IsMetadataBlobpath b) allbs"

text \<open>The check may not return, then neither does the collector.\<close>

definition blobstoregc_GC ::
    "ctx \<Rightarrow> ('s \<Rightarrow> string list result) \<Rightarrow> (string \<Rightarrow> 's \<Rightarrow> error option \<times> 's) \<Rightarrow> fsck_result option \<Rightarrow> bool \<Rightarrow> ('s, unit) action" where
  "blobstoregc_GC ctx ls rm fsck dryrun s =
     (case ls s of
        Inl e \<Rightarrow> (s, Inl (errorf ''ListBlobs failed'' e))
      | Inr allbs \<Rightarrow>
     (case ctx 0 of
        Some e \<Rightarrow> (s, Inl e)
      | None \<Rightarrow>
     (case fsck of
        None \<Rightarrow> (s, Inl Hang)
      | Some (usedbs, errs) \<Rightarrow>
          if errs \<noteq> [] then (s, Inl (Fmt ''Fsck returned err''))
          else
     (case ctx 1 of
        Some e \<Rightarrow> (s, Inl e)
      | None \<Rightarrow>
     (case ctx 2 of
        Some e \<Rightarrow> (s, Inl e)
      | None \<Rightarrow> sweep ctx 3 rm dryrun (unused_blobs usedbs allbs) s)))))"

definition blobstoregc_Task_Run ::
    "ctx \<Rightarrow> ('s \<Rightarrow> string list result) \<Rightarrow> (string \<Rightarrow> 's \<Rightarrow> error option \<times> 's) \<Rightarrow> fsck_result option \<Rightarrow> bool \<Rightarrow> ('s, unit) action" where
  "blobstoregc_Task_Run ctx ls rm fsck dryrun = blobstoregc_GC ctx ls rm fsck dryrun"

section \<open>Collecting snapshots and transaction logs\<close>

definition inodedbssgc_Task_Run ::
    "('bs, 'b, 'c) ss_env \<Rightarrow> bool \<Rightarrow> ('bs, 'c) BlobDBStateSnapshotIO \<Rightarrow> error option \<times> ('bs, 'c) BlobDBStateSnapshotIO" where
  "inodedbssgc_Task_Run env dryrun sio = DeleteOldSnapshots env dryrun sio"

text \<open>\<open>gcRunning\<close> is the first component of the state; the deferred store resets it on every way out.\<close>

definition delete_unneeded ::
    "ctx \<Rightarrow> ('l \<Rightarrow> TxID result) \<Rightarrow> (TxID \<Rightarrow> 'l \<Rightarrow> error option \<times> 'l) \<Rightarrow> bool \<Rightarrow> ('l, unit) action" where
  "delete_unneeded ctx thresfinder deleter dryrun l =
     (case thresfinder l of
        Inl e \<Rightarrow> (l, Inl (errorf ''Failed to find UnneededTxIDThreshold'' e))
      | Inr txid \<Rightarrow>
          if txid = AnyVersion then (l, Inr ())
          else
            (case ctx 0 of
               Some e \<Rightarrow> (l, Inl e)
             | None \<Rightarrow>
                 if dryrun then (l, Inr ())
                 else (case deleter txid l of (Some e, l') \<Rightarrow> (l', Inl e) | (None, l') \<Rightarrow> (l', Inr ()))))"

definition inodedbtxloggc_GC ::
    "ctx \<Rightarrow> ('l \<Rightarrow> TxID result) \<Rightarrow> (TxID \<Rightarrow> 'l \<Rightarrow> error option \<times> 'l) \<Rightarrow> bool \<Rightarrow> (bool \<times> 'l, unit) action" where
  "inodedbtxloggc_GC ctx thresfinder deleter dryrun s =
     (if fst s then (s, Inl (Fmt ''Another inodedbtxloggc is already running.''))
      else deferring
        (\<lambda>s1. case delete_unneeded ctx thresfinder deleter dryrun (snd s1) of (l, r) \<Rightarrow> ((fst s1, l), r))
        (\<lambda>s1. ((False, snd s1), Inr ()))
        (True, snd s))"

definition inodedbtxloggc_Task_Run ::
    "ctx \<Rightarrow> ('l \<Rightarrow> TxID result) \<Rightarrow> (TxID \<Rightarrow> 'l \<Rightarrow> error option \<times> 'l) \<Rightarrow> bool \<Rightarrow> (bool \<times> 'l, unit) action" where
  "inodedbtxloggc_Task_Run ctx thresfinder deleter dryrun = inodedbtxloggc_GC ctx thresfinder deleter dryrun"

section \<open>What the store promises\<close>

text \<open>
  A store that can be collected lists exactly the blobs it has, and removing one of them touches no other.
\<close>

locale collectable =
  fixes ls :: "'s \<Rightarrow> string list result"
    and rm :: "string \<Rightarrow> 's \<Rightarrow> error option \<times> 's"
    and blob :: "'s \<Rightarrow> string \<Rightarrow> 'b option"
  assumes listed: "ls s = Inr bps \<Longrightarrow> set bps = {b. blob s b \<noteq> None}"
    and removed: "rm b s = (None, s') \<Longrightarrow> blob s' = (blob s)(b := None)"
    and not_removed: "rm b s = (Some e, s') \<Longrightarrow> blob s' = blob s"
begin

lemma sweep_dry: "fst (sweep ctx n rm True bs s) = s"
  by (induction bs arbitrary: n) (auto simp: action_defs split: option.splits)

lemma sweep_keeps:
  "b \<notin> set bs \<Longrightarrow> blob (fst (sweep ctx n rm dryrun bs s)) b = blob s b"
proof (induction bs arbitrary: n s)
  case (Cons c bs)
  have "blob (snd (rm c s)) b = blob s b"
    using Cons.prems by (cases "rm c s"; cases "fst (rm c s)") (auto dest: removed not_removed)
  with Cons show ?case
    by (auto simp: action_defs remove_unused_def split: option.splits prod.splits)
qed (simp add: ret_def)

lemma sweep_removes:
  "sweep ctx n rm False bs s = (s', Inr ()) \<Longrightarrow> blob s' = (\<lambda>b. if b \<in> set bs then None else blob s b)"
proof (induction bs arbitrary: n s)
  case (Cons c bs)
  then obtain s1 where "rm c s = (None, s1)" "sweep ctx (Suc n) rm False bs s1 = (s', Inr ())"
    by (auto simp: action_defs remove_unused_def split: option.splits prod.splits)
  from Cons.IH [OF this(2)] removed [OF this(1)] show ?case by auto
qed (simp add: ret_def)

lemma GC_keeps_used:
  assumes "fsck = Some (usedbs, errs)" "b \<in> set usedbs \<or> IsMetadataBlobpath b"
  shows "blob (fst (blobstoregc_GC ctx ls rm fsck dryrun s)) b = blob s b"
proof -
  have "b \<notin> set (unused_blobs usedbs allbs)" for allbs using assms(2) by (auto simp: unused_blobs_def)
  then show ?thesis
    using sweep_keeps assms(1) by (auto simp: blobstoregc_GC_def split: sum.splits option.splits)
qed

lemma GC_leaves_used:
  assumes "blobstoregc_GC ctx ls rm (Some (usedbs, errs)) False s = (s', Inr ())"
  shows "{b. blob s' b \<noteq> None} = {b. blob s b \<noteq> None \<and> (b \<in> set usedbs \<or> IsMetadataBlobpath b)}"
proof -
  obtain allbs where a: "ls s = Inr allbs" "sweep ctx 3 rm False (unused_blobs usedbs allbs) s = (s', Inr ())"
    using assms by (auto simp: blobstoregc_GC_def split: sum.splits option.splits if_splits)
  have "set (unused_blobs usedbs allbs) = {b. blob s b \<noteq> None} - {b. b \<in> set usedbs \<or> IsMetadataBlobpath b}"
    using listed [OF a(1)] by (auto simp: unused_blobs_def)
  then show ?thesis unfolding sweep_removes [OF a(2)] by auto
qed

lemma GC_dry: "fst (blobstoregc_GC ctx ls rm fsck True s) = s"
  by (auto simp: blobstoregc_GC_def sweep_dry split: sum.splits option.splits)

end

section \<open>The file store\<close>

text \<open>\<open>readdir\<close> lists a directory: every file once.\<close>

definition readdir_ok :: "((string, 'b) fmap \<Rightarrow> string list) \<Rightarrow> bool" where
  "readdir_ok readdir \<longleftrightarrow> (\<forall>m. set (readdir m) = fset (fmdom m) \<and> distinct (readdir m))"

definition readdir_sorted :: "(string, 'b) fmap \<Rightarrow> string list" where
  "readdir_sorted m = sorted_list_of_set (fset (fmdom m))"

lemma readdir_sorted_ok: "readdir_ok readdir_sorted"
  by (simp add: readdir_ok_def readdir_sorted_def)

lemma file_collectable:
  assumes "readdir_ok readdir"
  shows "collectable (FileBlobStore_ListBlobs readdir) FileBlobStore_RemoveBlob (\<lambda>fbs. fmlookup (fbs_files fbs))"
  using assms
  by unfold_locales
    (auto simp: readdir_ok_def FileBlobStore_ListBlobs_def FileBlobStore_RemoveBlob_def fmlookup_dom_iff split: if_splits option.splits)

interpretation file_gc: collectable "FileBlobStore_ListBlobs readdir_sorted" FileBlobStore_RemoveBlob "\<lambda>fbs. fmlookup (fbs_files fbs)"
  by (rule file_collectable [OF readdir_sorted_ok])

text \<open>On a store that may be written, without a cancellation, the sweep of files that are there succeeds.\<close>

lemma file_sweep_succeeds:
  assumes "\<And>n. ctx n = None" "distinct bs" "set bs \<subseteq> fset (fmdom (fbs_files fbs))" "IsWriteAllowed (fbs_flags fbs)"
  shows "snd (sweep ctx n FileBlobStore_RemoveBlob dryrun bs fbs) = Inr ()"
  using assms
proof (induction bs arbitrary: n fbs)
  case (Cons b bs)
  from Cons.prems(3) obtain c where "fmlookup (fbs_files fbs) b = Some c" by (auto simp: fmlookup_dom_iff)
  with Cons.prems have "FileBlobStore_RemoveBlob b fbs = (None, fbs\<lparr>fbs_files := fmdrop b (fbs_files fbs)\<rparr>)"
    by (simp add: FileBlobStore_RemoveBlob_def)
  moreover have "snd (sweep ctx (Suc n) FileBlobStore_RemoveBlob dryrun bs fbs1) = Inr ()"
    if "fbs1 \<in> {fbs, fbs\<lparr>fbs_files := fmdrop b (fbs_files fbs)\<rparr>}" for fbs1
    using Cons.prems that by (intro Cons.IH) auto
  ultimately show ?case using Cons.prems(1) [of n] by (cases dryrun) (simp_all add: and_then_def remove_unused_def)
qed (simp add: ret_def)

lemma file_GC_succeeds:
  assumes "\<And>n. ctx n = None" "readdir_ok readdir" "IsWriteAllowed (fbs_flags fbs)"
  shows "snd (blobstoregc_GC ctx (FileBlobStore_ListBlobs readdir) FileBlobStore_RemoveBlob (Some (usedbs, [])) dryrun fbs) = Inr ()"
  using assms file_sweep_succeeds [of ctx "unused_blobs usedbs (readdir (fbs_files fbs))" fbs 3 dryrun]
  by (auto simp: blobstoregc_GC_def FileBlobStore_ListBlobs_def readdir_ok_def unused_blobs_def)

section \<open>The collector of blobs\<close>

text \<open>
  C18. Collecting blobs is safe and complete. With a consistent database without directory cycles that is not read only, and a file store,
  whatever the collector returns, be it an error or a cancellation, every blob of a file that can be reached from the root and every metadata blob is
  as it was; a dry run changes nothing; a run that succeeds leaves no other blob. Without a cancellation, on a store that may be written,
  it succeeds. Nobody else uses the database or the store in between.
\<close>

theorem GC_removes_exactly_unused:
  assumes "db_ok (db_state db)" "depth_ok h (db_state db)" "entry_order_ok order" "\<not> db_readOnly db" "readdir_ok readdir"
    and "blobstoregc_GC ctx (FileBlobStore_ListBlobs readdir) FileBlobStore_RemoveBlob (Fsck (h RootDirID + 1) order db) dryrun fbs = (fbs', r)"
  shows "(b \<in> found (db_state db) RootDirID \<or> IsMetadataBlobpath b \<longrightarrow> fmlookup (fbs_files fbs') b = fmlookup (fbs_files fbs) b) \<and>
    (dryrun \<longrightarrow> fbs' = fbs) \<and>
    (r = Inr () \<and> \<not> dryrun \<and> fmlookup (fbs_files fbs') b \<noteq> None \<longrightarrow> b \<in> found (db_state db) RootDirID \<or> IsMetadataBlobpath b) \<and>
    ((\<forall>n. ctx n = None) \<and> IsWriteAllowed (fbs_flags fbs) \<longrightarrow> r = Inr ())"
proof -
  obtain bps where bps: "Fsck (h RootDirID + 1) order db = Some (bps, [])" "set bps = found (db_state db) RootDirID"
    using Fsck_finds [OF assms(1-4)] by auto
  note store = file_collectable [OF assms(5)]
  note run = assms(6) [unfolded bps(1)]
  have "b \<in> set bps \<or> IsMetadataBlobpath b \<Longrightarrow> fmlookup (fbs_files fbs') b = fmlookup (fbs_files fbs) b"
    using collectable.GC_keeps_used [OF store refl, of b bps ctx "[]" dryrun fbs] run by simp
  moreover have "dryrun \<Longrightarrow> fbs' = fbs"
    using collectable.GC_dry [OF store, of ctx "Some (bps, [])" fbs] run by simp
  moreover have "r = Inr () \<Longrightarrow> \<not> dryrun \<Longrightarrow> fmlookup (fbs_files fbs') b \<noteq> None \<Longrightarrow> b \<in> set bps \<or> IsMetadataBlobpath b"
    using collectable.GC_leaves_used [OF store, of ctx bps "[]" fbs fbs'] run by auto
  moreover have "(\<And>n. ctx n = None) \<Longrightarrow> IsWriteAllowed (fbs_flags fbs) \<Longrightarrow> r = Inr ()"
    using file_GC_succeeds [of ctx readdir fbs bps dryrun] assms(5) run by simp
  ultimately show ?thesis using bps(2) by blast
qed

definition gc_store :: "(byte list) FileBlobStore" where
  "gc_store = NewFileBlobStore (fmap_of_list [(''c'', [1]), (''META_x'', [2]), (''x'', [3])]) O_RDWR"

theorem GC_removes_exactly_unused_witness:
  "fmlookup (fbs_files (fst (blobstoregc_GC (\<lambda>_. None) (FileBlobStore_ListBlobs readdir_sorted) FileBlobStore_RemoveBlob
       (Fsck 3 entries_sorted sample_rw_db) False gc_store))) ''META_x'' = Some [2] \<and>
   snd (blobstoregc_GC (\<lambda>_. None) (FileBlobStore_ListBlobs readdir_sorted) FileBlobStore_RemoveBlob
       (Fsck 3 entries_sorted sample_rw_db) False gc_store) = Inr ()"
proof -
  let ?h = "\<lambda>i. if i = RootDirID then 2 else (0 :: nat)"
  let ?run = "blobstoregc_GC (\<lambda>_. None) (FileBlobStore_ListBlobs readdir_sorted) FileBlobStore_RemoveBlob (Fsck 3 entries_sorted sample_rw_db) False gc_store"
  have ok: "db_ok (db_state sample_rw_db)" "depth_ok ?h (db_state sample_rw_db)" "\<not> db_readOnly sample_rw_db"
    using sample_db_ok
    by (auto simp: sample_rw_db_def depth_ok_def sample_db_def fmpred_iff entries_of_def RootDirID_def split: if_splits)
  have w: "IsWriteAllowed (fbs_flags gc_store)" "fmlookup (fbs_files gc_store) ''META_x'' = Some [2]"
    by (simp_all add: gc_store_def NewFileBlobStore_def FileBlobStore_SetFlags_def IsWriteAllowed_def O_RDWR_def O_ACCMODE_def O_WRONLY_def)
  have "?run = (fst ?run, snd ?run)" by simp
  then show ?thesis
    using GC_removes_exactly_unused [OF ok(1,2) entries_sorted_ok ok(3) readdir_sorted_ok, of "\<lambda>_. None" False gc_store "fst ?run" "snd ?run" "''META_x''"] w
    by (simp add: IsMetadataBlobpath_def)
qed

section \<open>The collector of transaction logs\<close>

text \<open>
  It leaves the flag that it is running as it found it, and touches the log only to delete what is below the threshold.
\<close>

lemma delete_unneeded_log:
  "fst (delete_unneeded ctx thresfinder deleter dryrun l) = l \<or>
   (\<exists>txid. \<not> dryrun \<and> thresfinder l = Inr txid \<and> txid \<noteq> AnyVersion \<and>
      fst (delete_unneeded ctx thresfinder deleter dryrun l) = snd (deleter txid l))"
  by (auto simp: delete_unneeded_def split: sum.splits option.splits prod.splits)

lemma txloggc_outcome:
  assumes "inodedbtxloggc_GC ctx thresfinder deleter dryrun (running, l) = ((running', l'), r)" "r \<noteq> Inl Hang" "r \<noteq> Inl Waits"
  shows "running' = running \<and>
    (l' = l \<or> (\<exists>txid. \<not> running \<and> \<not> dryrun \<and> thresfinder l = Inr txid \<and> txid \<noteq> AnyVersion \<and> l' = snd (deleter txid l)))"
proof (cases running)
  case False
  obtain l1 r1 where d: "delete_unneeded ctx thresfinder deleter dryrun l = (l1, r1)" by force
  from False assms d have "running' = False \<and> l' = l1"
    by (auto simp: inodedbtxloggc_GC_def deferring_def split: sum.splits error.splits)
  then show ?thesis using False d delete_unneeded_log [of ctx thresfinder deleter dryrun l] by simp
qed (use assms in \<open>simp add: inodedbtxloggc_GC_def\<close>)

end
