(* ===== verification/Spec2Isabelle.thy ===== *)
theory Spec2Isabelle
  imports Otaru_Prelude File_Write_Cache Flags Blobstore File_Blobstore Inode_DB Inode_Snapshot Inode_Log Inode_Tx
    Snapshot_Store Inode_Recovery Inode_Fsck Btncrypt Chunk_IO Chunk_Payload Chunked_File Chunked_File_Rep File_In_Chunks File_System
    Open_File Path_Lookup Cache_Entry Cache_Steps Cache_Invariant Cache_Files Cache_Safety Cache_Store Cache_Manager Cache_Roundtrip Blob_GC
begin

text \<open>
  Otaru is a file system whose files live, encrypted and cut into chunks, in a blob store (Google Cloud
  Storage, a local directory or memory), and whose directory tree lives in a database of inodes with a
  transaction log and snapshots. This development models the Go packages under \<open>src/\<close> as HOL functions and
  proves what they promise to each other, from the frames of the encryption up to open, write, close and
  read of a file.

  \<^bold>\<open>Conventions.\<close> A fallible call returns \<open>error + 'a\<close> (\<open>'a result\<close>) or \<open>error option\<close>; \<open>Panic\<close> is a Go
  panic \<open>Hang\<close> a call that does not return, and \<open>Waits\<close> a call that waits for another goroutine; they pass every error handler (\<open>errorf\<close>, \<open>is_panic\<close>).
  Mutated objects are passed and returned; objects that are shared through pointers (open files, handles)
  live in finite maps from addresses. \<open>int64\<close> values are \<open>int\<close> with \<open>wrap64\<close> at every operation that may overflow,
  flag words are \<open>w word\<close>, bytes \<open>8 word\<close>. Code outside \<open>src/\<close> is a parameter: the AEAD of \<open>crypto/cipher\<close>
  (\<open>aead_ok\<close>), the bytes gob produces for a header (\<open>gob_ok\<close>), random names, clocks, the order in which Go
  ranges over a map. Each of these contracts has a concrete instance (\<open>toy_cipher\<close>, \<open>toy_gob\<close>, \<open>toy_names\<close>, ...),
  used by the witnesses of the theorems that assume it.

  \<^bold>\<open>Theories, bottom up.\<close>
  \<^item> \<open>Otaru_Prelude\<close>: errors (\<open>util/err.go\<close>), \<open>wrap64\<close>, and the ideal file: \<open>fwrite\<close>, \<open>fread\<close>,
    \<open>ftruncate\<close> on byte lists, which every refinement theorem speaks about.
  \<^item> \<open>Flags\<close>: \<open>flags/flags.go\<close>.
  \<^item> \<open>File_Write_Cache\<close>: \<open>filewritecache/\<close>. Sorted disjoint patches with a sentinel (\<open>wf_patches\<close>),
    \<open>Merge\<close>, \<open>Truncate\<close>, \<open>Sync\<close>, \<open>ReadAtThrough\<close>; writing through the cache is the positioned write on the file
    with the patches applied. The locales \<open>read_ater\<close> and \<open>pwriter\<close> are what it relies on of the file below.
  \<^item> \<open>Blobstore\<close>, \<open>File_Blobstore\<close>: \<open>blobstore/\<close> without the cached store: memory store, positioned I/O,
    \<open>Mux\<close>, \<open>GenerateNewBlobPath\<close>, files below a directory. They interpret the locales of the write cache.
  \<^item> \<open>Inode_DB\<close>: \<open>inodedb/inodedb.go\<close>, \<open>dboperation.go\<close>: nodes, locks with tickets, one function per operation,
    the invariant every operation keeps, and what locks protect.
  \<^item> \<open>Inode_Snapshot\<close>, \<open>Inode_Log\<close>, \<open>Snapshot_Store\<close>: snapshots as gob values, transaction logs and their
    cache, snapshots as blobs with a locator.
  \<^item> \<open>Inode_Tx\<close>, \<open>Inode_Recovery\<close>: transactions, roll back, restore and replay; every reachable database can be rebuilt
    from its snapshot and log, transactions are all or nothing, restarting restores the tree. Locale \<open>db_storage\<close>
    is the contract of snapshot and log, interpreted by the stores of the source.
  \<^item> \<open>Inode_Fsck\<close>: the consistency check of the tree, complete by a termination argument on the nodes seen.
  \<^item> \<open>Blob_GC\<close>: \<open>gc/\<close>: what is collected is exactly what the check does not find. Locale \<open>collectable\<close> is the contract of the
    store, interpreted by the file store.
  \<^item> \<open>Btncrypt\<close>: \<open>btncrypt/btncrypt.go\<close>: frames, the encrypting writer, the pooled decrypting reader.
  \<^item> \<open>Chunk_IO\<close>, \<open>Chunk_Payload\<close>: \<open>chunkstore/chunkheader.go\<close> and \<open>chunkstore.go\<close>: a chunk is a header and
    encrypted frames in a blob; \<open>ChunkIO\<close> refines an ideal file over any store of the locale \<open>blob_handle\<close>.
  \<^item> \<open>Chunked_File\<close>, \<open>Chunked_File_Rep\<close>, \<open>File_In_Chunks\<close>: \<open>chunkstore/chunkedfile.go\<close>: a file as an array of
    chunks. The locale \<open>chunk_store\<close> is what it relies on of store and chunks; \<open>file_chunk_store\<close> shows that encrypted
    chunks in a \<open>FileBlobStore\<close> provide it. Files without holes refine ideal files, below a write cache, too.
  \<^item> \<open>File_System\<close>, \<open>Open_File\<close>, \<open>Path_Lookup\<close>: \<open>filesystem/\<close>: nodes, paths, open files and handles over database
    and chunks, and the refinement from handles down to the blobs.
  \<^item> \<open>Cache_Entry\<close>, \<open>Cache_Store\<close>: \<open>blobstore/cachedblobstore/\<close>: the entry of a blob, a state machine between a cache and a backend
    store (\<open>updateState\<close>), its handles, filling it from the backend (\<open>invalidate\<close>) and writing it back; the manager of the entries, the
    store on top, and the statistics that choose what to drop. Methods that give up the mutex are cut into their critical sections.
  \<^item> \<open>Cache_Steps\<close>, \<open>Cache_Invariant\<close>: \<open>cache_step\<close> interleaves the critical sections of the calls on one entry. The locale
    \<open>cache_stores\<close> is what an entry relies on of the two stores; \<open>cache_inv\<close> holds in every configuration that is reached. Opening a
    closed entry again, which the source allows, is not among the steps.
  \<^item> \<open>Cache_Files\<close>: the stores on the files of \<open>File_Blobstore\<close>, with descriptors, as an instance of that locale.
  \<^item> \<open>Cache_Safety\<close>, \<open>Cache_Manager\<close>, \<open>Cache_Roundtrip\<close>: what clean entries and reads during a fill promise, panics of overlapping
    writes, the map of the manager and the number of its entries, and that a blob that was synced is fetched again as it was
    (locale \<open>working_stores\<close>).

  \<^bold>\<open>Properties.\<close> A property is a theorem after a text block with its number. Most say that a component refines an ideal one or
  keeps an invariant; some record where the source does not do what it means to (a write into a hole that
  is lost, truncated bytes that stay readable, a race that leaves two open files of one node), and those are proved
  of the same definitions.

  \<^bold>\<open>Fuel.\<close> \<open>PWrite\<close> of a file in chunks may append chunks forever when the store fails, so that it has fuel;
  one more than the number of chunks plus the number of bytes suffices on a store that works (\<open>enough_fuel\<close>, \<open>2 ^ 64\<close>, covers
  every file an \<open>int64\<close> can address), and the theorems say that the call returns. \<open>RestoreVersion\<close> and \<open>ApplyTransaction\<close>
  call each other; the fuel is the depth of that recursion, and one level suffices on a recoverable database.
  \<open>invalidate\<close> has fuel for the blocks it copies, and the length of the blob is enough.
  \<open>FindNodeFullPath\<close> has as much fuel as the path has characters, which is enough for every path.

  \<^bold>\<open>Not modelled.\<close> Logging, metrics and configuration; the bindings to FUSE, WebDAV, gRPC, the command line and the
  web front end, which translate requests into the calls modelled here; generated code (\<open>pb/\<close>, assets); the clients of
  Google Cloud; the scheduler and the workers of the cache syncer, which run tasks on goroutines and timers; the service that queues the calls
  of the inode database, and the encodings of operations and of backend versions. Goroutines and mutexes are modelled where the order of critical sections
  matters, as sequences of the sections' functions.
\<close>

end
